(* ===== verification/Prelude.thy ===== *)
theory Prelude
  imports Main "HOL-Library.Word"
begin

text \<open>
  Shared vocabulary of the development: the machine integer types of the kernel, the outcome
  of a Rust function that may return an error or panic, the standard-library operations on
  integers and slices that the sources use, and the generic lemmas on words and lists that the
  component theories rely on.

  Integers keep their width (\<open>usize\<close> is 64 bits on both targets). Plain \<open>+\<close>, \<open>-\<close> and \<open>*\<close> wrap,
  which is what the release profile of \<^verbatim>\<open>Cargo.toml\<close> compiles them to; \<open>checked_add\<close> and the
  saturating operations are written out where the source calls them.
\<close>

unbundle bit_operations_syntax

named_theorems slice_simps "reading and writing slices"

type_synonym u8 = "8 word"
type_synonym u16 = "16 word"
type_synonym u32 = "32 word"
type_synonym u64 = "64 word"
type_synonym usize = "64 word"
type_synonym bytes = "u8 list"

section \<open>Outcomes\<close>

text \<open>
  \<open>Result<T, E>\<close> with the possibility of a panic. \<open>Panic\<close> stands for an unwinding or aborting
  failure inside the function (an out-of-range slice, a failed \<open>unwrap\<close>): no value is returned.
\<close>

datatype ('e, 'a) outcome = Ok 'a | Err 'e | Panic

primrec and_then :: "('e, 'a) outcome \<Rightarrow> ('a \<Rightarrow> ('e, 'b) outcome) \<Rightarrow> ('e, 'b) outcome" where
  "and_then (Ok x) f = f x"
| "and_then (Err e) f = Err e"
| "and_then Panic f = Panic"

text \<open>The \<open>?\<close> operator on a computation that also changes the state.\<close>

definition try_then :: "('e, 'a) outcome \<times> 's \<Rightarrow> ('a \<Rightarrow> 's \<Rightarrow> ('e, 'b) outcome \<times> 's) \<Rightarrow> ('e, 'b) outcome \<times> 's" where
  "try_then r k =
     (case r of (Ok x, s) \<Rightarrow> k x s | (Err e, s) \<Rightarrow> (Err e, s) | (Panic, s) \<Rightarrow> (Panic, s))"

lemma try_then_simps [simp]:
  "try_then (Ok x, s) k = k x s" "try_then (Err e, s) k = (Err e, s)" "try_then (Panic, s) k = (Panic, s)"
  by (simp_all add: try_then_def)

lemma and_then_eq_Ok:
  "and_then r f = Ok y \<longleftrightarrow> (\<exists>x. r = Ok x \<and> f x = Ok y)"
  by (cases r) auto

section \<open>Integer operations of the standard library\<close>

definition checked_add :: "usize \<Rightarrow> usize \<Rightarrow> usize option" where
  "checked_add a b = (if unat a + unat b < 2 ^ 64 then Some (a + b) else None)"

lemma checked_add_Some:
  "checked_add a b = Some c \<longleftrightarrow> unat a + unat b < 2 ^ 64 \<and> c = a + b"
  by (auto simp: checked_add_def)

lemma unat_add_lt:
  fixes a b :: "64 word"
  assumes "unat a + unat b < 2 ^ 64"
  shows "unat (a + b) = unat a + unat b"
  using assms by (simp add: unat_word_ariths)

text \<open>Index of the lowest set bit; the width for zero.\<close>

definition trailing_zeros :: "'a::len word \<Rightarrow> nat" where
  "trailing_zeros w = (case find (\<lambda>i. bit w i) [0..<LENGTH('a)] of Some i \<Rightarrow> i | None \<Rightarrow> LENGTH('a))"

lemma find_upt_Some:
  "find P [a..<b] = Some i \<longleftrightarrow> a \<le> i \<and> i < b \<and> P i \<and> (\<forall>j. a \<le> j \<longrightarrow> j < i \<longrightarrow> \<not> P j)"
  (is "?l \<longleftrightarrow> ?r")
proof
  assume ?l
  then obtain k where k: "k < b - a" "P (a + k)" "i = a + k" and least: "\<And>j. j < k \<Longrightarrow> \<not> P (a + j)"
    by (auto simp: find_Some_iff)
  have "\<not> P j" if "a \<le> j" "j < i" for j
    using least [of "j - a"] that k(3) by simp
  with k show ?r by auto
next
  assume r: ?r
  then have "i - a < length [a..<b]" "P ([a..<b] ! (i - a))" "i = [a..<b] ! (i - a)"
    by auto
  moreover have "\<forall>j < i - a. \<not> P ([a..<b] ! j)"
    using r by auto
  ultimately show ?l
    unfolding find_Some_iff by blast
qed

lemma trailing_zeros_bit:
  fixes w :: "'a::len word"
  assumes "w \<noteq> 0"
  shows "trailing_zeros w < LENGTH('a)" "bit w (trailing_zeros w)"
    "j < trailing_zeros w \<Longrightarrow> \<not> bit w j"
proof -
  from assms obtain k where "bit w k"
    by (metis bit_eq_iff bit_0_eq bot_apply bot_bool_def)
  then have "\<exists>k \<in> set [0..<LENGTH('a)]. bit w k"
    using bit_imp_le_length by fastforce
  then obtain i where i: "find (\<lambda>i. bit w i) [0..<LENGTH('a)] = Some i"
    by (metis find_None_iff option.exhaust)
  then have tz: "trailing_zeros w = i" by (simp add: trailing_zeros_def)
  from i show "trailing_zeros w < LENGTH('a)" "bit w (trailing_zeros w)"
    "j < trailing_zeros w \<Longrightarrow> \<not> bit w j"
    unfolding tz by (auto simp: find_upt_Some)
qed

section \<open>Slices\<close>

text \<open>\<open>&xs[a..b]\<close>: \<open>None\<close> is the panic of an out-of-range or reversed range.\<close>

definition slice :: "'a list \<Rightarrow> nat \<Rightarrow> nat \<Rightarrow> 'a list option" where
  "slice xs a b = (if a \<le> b \<and> b \<le> length xs then Some (take (b - a) (drop a xs)) else None)"

lemma slice_Some [slice_simps]:
  "slice xs a b = Some ys \<longleftrightarrow> a \<le> b \<and> b \<le> length xs \<and> ys = take (b - a) (drop a xs)"
  by (auto simp: slice_def)

lemma length_slice:
  "slice xs a b = Some ys \<Longrightarrow> length ys = b - a"
  by (auto simp: slice_def split: if_splits)

section \<open>Little-endian integers\<close>

primrec le_nat :: "bytes \<Rightarrow> nat" where
  "le_nat [] = 0"
| "le_nat (b # bs) = unat b + 256 * le_nat bs"

definition u16_le :: "bytes \<Rightarrow> u16" where
  "u16_le bs = word_of_nat (le_nat bs)"

definition u32_le :: "bytes \<Rightarrow> u32" where
  "u32_le bs = word_of_nat (le_nat bs)"

definition u64_le :: "bytes \<Rightarrow> u64" where
  "u64_le bs = word_of_nat (le_nat bs)"

lemma le_nat_bound: "le_nat bs < 256 ^ length bs"
proof (induction bs)
  case Nil
  then show ?case by simp
next
  case (Cons b bs)
  have "unat b < 256"
    using unsigned_less [of b, where ?'a = nat] by simp
  then have "le_nat (b # bs) < 256 + 256 * le_nat bs" by simp
  also have "\<dots> \<le> 256 * 256 ^ length bs" using Cons.IH by simp
  finally show ?case by simp
qed

text \<open>\<open>to_le_bytes\<close> writes the low \<open>n\<close> bytes of a word; reading them back gives the word again.\<close>

definition to_le_bytes :: "nat \<Rightarrow> 'a::len word \<Rightarrow> bytes" where
  "to_le_bytes n w = map (\<lambda>i. ucast (drop_bit (8 * i) w)) [0..<n]"

lemma length_to_le_bytes [simp]: "length (to_le_bytes n w) = n"
  by (simp add: to_le_bytes_def)

lemma le_nat_append: "le_nat (xs @ ys) = le_nat xs + 256 ^ length xs * le_nat ys"
  by (induction xs) (simp_all add: algebra_simps)

lemma unat_ucast_drop_byte: "unat (ucast (drop_bit k w) :: u8) = unat w div 2 ^ k mod 256"
  by (simp add: unsigned_ucast_eq unsigned_drop_bit_eq take_bit_eq_mod) (simp add: drop_bit_eq_div)

lemma le_nat_to_le_bytes: "le_nat (to_le_bytes n w) = unat w mod 256 ^ n"
proof (induction n)
  case 0
  then show ?case by (simp add: to_le_bytes_def)
next
  case (Suc n)
  have "to_le_bytes (Suc n) w = to_le_bytes n w @ [ucast (drop_bit (8 * n) w)]"
    by (simp add: to_le_bytes_def)
  moreover have "(2::nat) ^ (8 * n) = 256 ^ n" by (simp add: power_mult)
  ultimately show ?case
    using mod_mult2_eq [of "unat w" "256 ^ n" 256]
    by (simp add: le_nat_append Suc.IH unat_ucast_drop_byte mult.commute add.commute)
qed

lemma u64_le_to_le_bytes [simp]: "u64_le (to_le_bytes 8 w) = w"
  using unsigned_less [of w, where ?'a = nat] by (simp add: u64_le_def le_nat_to_le_bytes)

lemma le_nat_nth: "k < length bs \<Longrightarrow> le_nat bs div 256 ^ k mod 256 = unat (bs ! k)"
proof (induction bs arbitrary: k)
  case (Cons b bs)
  have b: "unat b < 256" using unsigned_less [of b, where ?'a = nat] by simp
  show ?case
  proof (cases k)
    case 0
    with b show ?thesis by simp
  next
    case (Suc j)
    have "le_nat (b # bs) div 256 ^ k = le_nat bs div 256 ^ j"
      using b by (simp add: Suc div_mult2_eq)
    with Cons Suc show ?thesis by simp
  qed
qed simp

lemma to_le_bytes_u64_le: "length bs = 8 \<Longrightarrow> to_le_bytes 8 (u64_le bs) = bs"
proof (rule nth_equalityI)
  fix i assume len: "length bs = 8" and "i < length (to_le_bytes 8 (u64_le bs))"
  then have i: "i < 8" by simp
  have "le_nat bs < 2 ^ 64" using le_nat_bound [of bs] len by simp
  then have u: "unat (u64_le bs) = le_nat bs" by (simp add: u64_le_def unat_of_nat)
  have "unat (to_le_bytes 8 (u64_le bs) ! i) = le_nat bs div 2 ^ (8 * i) mod 256"
    using i by (simp add: to_le_bytes_def unat_ucast_drop_byte u)
  also have "\<dots> = unat (bs ! i)" using le_nat_nth [of i bs] i len by (simp add: power_mult)
  finally show "to_le_bytes 8 (u64_le bs) ! i = bs ! i" by (simp add: word_unat_eq_iff)
qed simp

section \<open>Single bits\<close>

lemma bit_mask_numerals:
  "bit (0xFFFF :: int) n \<longleftrightarrow> n < 16" "bit (0xFF :: int) n \<longleftrightarrow> n < 8" "bit (0xF :: int) n \<longleftrightarrow> n < 4"
  "bit (0xFFFFFFFF :: int) n \<longleftrightarrow> n < 32"
proof -
  have e: "(0xFFFF :: int) = mask 16" "(0xFF :: int) = mask 8" "(0xF :: int) = mask 4" "(0xFFFFFFFF :: int) = mask 32"
    by (simp_all add: mask_eq_exp_minus_1)
  show "bit (0xFFFF :: int) n \<longleftrightarrow> n < 16" "bit (0xFF :: int) n \<longleftrightarrow> n < 8" "bit (0xF :: int) n \<longleftrightarrow> n < 4"
    "bit (0xFFFFFFFF :: int) n \<longleftrightarrow> n < 32"
    unfolding e bit_mask_iff by auto
qed

lemma bit_high [simp]: "8 \<le> n \<Longrightarrow> \<not> bit (a :: u8) n" "32 \<le> n \<Longrightarrow> \<not> bit (w :: u32) n" "64 \<le> n \<Longrightarrow> \<not> bit (v :: u64) n"
  using bit_imp_le_length [of a n] bit_imp_le_length [of w n] bit_imp_le_length [of v n] by auto

lemma unat_ucast_u32 [simp]: "unat (ucast (w :: u32) :: usize) = unat w"
proof -
  have "unat w < 2 ^ 64" using unsigned_less [of w, where ?'a = nat] by simp
  then show ?thesis by (simp add: unsigned_ucast_eq take_bit_nat_eq_self)
qed

section \<open>Alignment\<close>

lemma unat_exp: "k < 64 \<Longrightarrow> unat (2 ^ k :: usize) = 2 ^ k"
  using unat_of_nat [of "2 ^ k", where ?'a = 64] power_strict_increasing [of k 64 "2::nat"] by simp

text \<open>Rounding up to a multiple of \<open>2 ^ j\<close>.\<close>

lemma unat_align_down: "unat (w AND NOT (mask j)) = unat w div 2 ^ j * 2 ^ j" for w :: usize
proof -
  have "w AND NOT (mask j) = push_bit j (drop_bit j w)"
    by (rule bit_word_eqI) (auto simp: bit_simps)
  moreover have "unat w div 2 ^ j * 2 ^ j < 2 ^ 64"
    using le_less_trans [OF div_times_less_eq_dividend unsigned_less [of w, where ?'a = nat]] by simp
  moreover have "unat (push_bit j (drop_bit j w)) = take_bit 64 (push_bit j (drop_bit j (unat w)))"
    using unsigned_less [of w, where ?'a = nat]
    by (simp only: unsigned_push_bit_eq unsigned_drop_bit_eq) (simp add: take_bit_nat_eq_self)
  ultimately show ?thesis
    by (simp only: push_bit_eq_mult drop_bit_eq_div take_bit_nat_eq_self)
qed

lemma align_up:
  fixes b :: usize
  assumes "unat b + 2 ^ j \<le> 2 ^ 64" "j < 64"
  defines "r \<equiv> (b + 2 ^ j - 1) AND NOT (2 ^ j - 1)"
  shows "unat b \<le> unat r" "unat r < unat b + 2 ^ j" "2 ^ j dvd unat r"
proof -
  have m: "(2 ^ j - 1 :: usize) = mask j" by (simp add: mask_eq_exp_minus_1)
  have "unat (2 ^ j - 1 :: usize) = 2 ^ j - 1"
    using unat_exp [OF assms(2)] by (metis power_not_zero unat_eq_0 unat_minus_one zero_neq_numeral)
  moreover have "unat b + (2 ^ j - 1) < 2 ^ 64"
    using assms(1) zero_less_power [of "2::nat" j] by linarith
  ultimately have "unat (b + (2 ^ j - 1)) = unat b + (2 ^ j - 1)"
    by (metis unat_add_lt)
  moreover have "r = (b + (2 ^ j - 1)) AND NOT (mask j)"
    unfolding r_def m by (metis add_diff_eq m)
  ultimately have r: "unat r = (unat b + (2 ^ j - 1)) div 2 ^ j * 2 ^ j"
    by (simp only: unat_align_down)
  have "(unat b + (2 ^ j - 1)) div 2 ^ j * 2 ^ j + (unat b + (2 ^ j - 1)) mod 2 ^ j = unat b + (2 ^ j - 1)"
    by (rule div_mult_mod_eq)
  moreover have "(unat b + (2 ^ j - 1)) mod 2 ^ j < 2 ^ j" by simp
  ultimately show "unat b \<le> unat r" "unat r < unat b + 2 ^ j" unfolding r by linarith+
  show "2 ^ j dvd unat r" unfolding r by simp
qed

end
