(* ===== verification/Pmm.thy ===== *)
theory Pmm
  imports Prelude
begin

text \<open>
  The physical memory manager of \<^verbatim>\<open>src/memory.rs\<close> (section 4): the bitmap frame allocator
  \<open>BitmapAllocator\<close>, the frame-address wrappers \<open>vmm_alloc_frame\<close> and \<open>vmm_free_frame\<close>, and the
  boot-time sequence that populates the pool from the bootloader's memory map and then takes the
  kernel image, the heap and the ramdisk out of it again.

  The abstraction is the set \<open>free_frames\<close> of frame numbers whose bit is clear. The locale
  \<open>frame_pool\<close> is the contract the rest of the kernel relies on; the bitmap implements it.
\<close>

section \<open>The bitmap allocator\<close>

definition PAGE_SIZE :: usize where
  "PAGE_SIZE = 4096"

record bitmap_allocator =
  bitmap :: "u64 list"

definition bitmap_new :: "nat \<Rightarrow> bitmap_allocator" where
  "bitmap_new n = \<lparr>bitmap = replicate n (NOT 0)\<rparr>"

text \<open>The search loop of \<open>allocate_next_frame\<close>, from word \<open>i\<close> on.\<close>

fun alloc_scan :: "nat \<Rightarrow> u64 list \<Rightarrow> (nat \<times> u64 list) option" where
  "alloc_scan i [] = None"
| "alloc_scan i (val # vals) =
     (if val \<noteq> NOT 0
      then (let b = trailing_zeros (NOT val) in Some (i * 64 + b, (val OR push_bit b 1) # vals))
      else (case alloc_scan (Suc i) vals of
              None \<Rightarrow> None
            | Some (r, vals') \<Rightarrow> Some (r, val # vals')))"

definition allocate_next_frame :: "bitmap_allocator \<Rightarrow> nat option \<times> bitmap_allocator" where
  "allocate_next_frame a =
     (case alloc_scan 0 (bitmap a) of
        None \<Rightarrow> (None, a)
      | Some (r, bm) \<Rightarrow> (Some r, a\<lparr>bitmap := bm\<rparr>))"

definition reserve_frame :: "nat \<Rightarrow> bitmap_allocator \<Rightarrow> bitmap_allocator" where
  "reserve_frame frame_index a =
     (let array_idx = frame_index div 64; bit_idx = frame_index mod 64
      in if array_idx < length (bitmap a)
         then a\<lparr>bitmap := (bitmap a)[array_idx := (bitmap a ! array_idx) OR push_bit bit_idx 1]\<rparr>
         else a)"

definition free_frame :: "nat \<Rightarrow> bitmap_allocator \<Rightarrow> bitmap_allocator" where
  "free_frame frame_index a =
     (if frame_index = 0 then a
      else let array_idx = frame_index div 64; bit_idx = frame_index mod 64
           in if array_idx < length (bitmap a)
              then a\<lparr>bitmap := (bitmap a)[array_idx := (bitmap a ! array_idx) AND NOT (push_bit bit_idx 1)]\<rparr>
              else a)"

definition reserve_range :: "nat \<Rightarrow> nat \<Rightarrow> bitmap_allocator \<Rightarrow> bitmap_allocator" where
  "reserve_range start_frame count a = fold (\<lambda>i. reserve_frame (start_frame + i)) [0..<count] a"

definition free_range :: "nat \<Rightarrow> nat \<Rightarrow> bitmap_allocator \<Rightarrow> bitmap_allocator" where
  "free_range start_frame count a = fold (\<lambda>i. free_frame (start_frame + i)) [0..<count] a"

text \<open>Frames are handed out and taken back by physical address.\<close>

definition vmm_alloc_frame :: "bitmap_allocator \<Rightarrow> usize option \<times> bitmap_allocator" where
  "vmm_alloc_frame a =
     (case allocate_next_frame a of (r, a') \<Rightarrow> (map_option (\<lambda>idx. word_of_nat idx * PAGE_SIZE) r, a'))"

definition vmm_free_frame :: "usize \<Rightarrow> bitmap_allocator \<Rightarrow> bitmap_allocator" where
  "vmm_free_frame addr a = free_frame (unat (addr div PAGE_SIZE)) a"

section \<open>Boot-time population\<close>

text \<open>
  An entry of Limine's memory map. The response is absent when the bootloader did not answer,
  and an entry pointer may be null.
\<close>

record memmap_entry =
  me_base :: u64
  me_length :: u64
  me_typ :: u64

type_synonym memmap_response = "memmap_entry option list"

definition LIMINE_MEMMAP_USABLE :: u64 where
  "LIMINE_MEMMAP_USABLE = 0"

definition LIMINE_MEMMAP_ACPI_RECLAIMABLE :: u64 where
  "LIMINE_MEMMAP_ACPI_RECLAIMABLE = 2"

definition LIMINE_MEMMAP_BOOTLOADER_RECLAIMABLE :: u64 where
  "LIMINE_MEMMAP_BOOTLOADER_RECLAIMABLE = 5"

definition free_entry :: "memmap_entry \<Rightarrow> bitmap_allocator \<Rightarrow> bitmap_allocator" where
  "free_entry e a = free_range (unat (me_base e div PAGE_SIZE)) (unat (me_length e div PAGE_SIZE)) a"

definition init_pmm_from_limine ::
    "memmap_response option \<Rightarrow> bitmap_allocator \<Rightarrow> (string, bitmap_allocator) outcome" where
  "init_pmm_from_limine resp pmm =
     (case resp of
        None \<Rightarrow> Err ''Limine memory map response unavailable''
      | Some entries \<Rightarrow>
          Ok (reserve_range 0 256
            (fold (\<lambda>ptr pmm. case ptr of
                     None \<Rightarrow> pmm
                   | Some e \<Rightarrow> if me_typ e = LIMINE_MEMMAP_USABLE then free_entry e pmm else pmm)
               entries pmm)))"

definition init_pmm_static :: "bitmap_allocator \<Rightarrow> bitmap_allocator" where
  "init_pmm_static pmm = free_range 0 (1024 * 64) pmm"

definition reclaim_boot_memory :: "memmap_response option \<Rightarrow> bitmap_allocator \<Rightarrow> bitmap_allocator" where
  "reclaim_boot_memory resp pmm =
     (case resp of
        None \<Rightarrow> pmm
      | Some entries \<Rightarrow>
          reserve_range 0 256
            (fold (\<lambda>ptr pmm. case ptr of
                     None \<Rightarrow> pmm
                   | Some e \<Rightarrow> if me_typ e = LIMINE_MEMMAP_ACPI_RECLAIMABLE
                                \<or> me_typ e = LIMINE_MEMMAP_BOOTLOADER_RECLAIMABLE
                              then free_entry e pmm else pmm)
               entries pmm))"

text \<open>One \<open>start .. end\<close> byte range, rounded outwards to frames, is taken out of the pool.\<close>

definition reserve_bytes :: "usize \<Rightarrow> usize \<Rightarrow> bitmap_allocator \<Rightarrow> bitmap_allocator" where
  "reserve_bytes start end pmm =
     (let start_frame = start div PAGE_SIZE;
          end_frame = (end + PAGE_SIZE - 1) div PAGE_SIZE
      in if end_frame > start_frame
         then reserve_range (unat start_frame) (unat (end_frame - start_frame)) pmm
         else pmm)"

definition protect_boot_memory ::
    "usize \<Rightarrow> usize \<Rightarrow> usize \<Rightarrow> usize \<Rightarrow> (usize \<times> usize) option \<Rightarrow> bitmap_allocator \<Rightarrow> bitmap_allocator" where
  "protect_boot_memory kernel_phys_start kernel_phys_end heap_start heap_size ramdisk pmm =
     (let pmm = reserve_range 0 256 pmm;
          pmm = reserve_bytes kernel_phys_start kernel_phys_end pmm;
          pmm = reserve_bytes heap_start (heap_start + heap_size) pmm
      in case ramdisk of
           None \<Rightarrow> pmm
         | Some (ramdisk_addr, ramdisk_size) \<Rightarrow>
             reserve_bytes ramdisk_addr (ramdisk_addr + ramdisk_size) pmm)"

section \<open>Abstraction\<close>

definition tracked_frames :: "bitmap_allocator \<Rightarrow> nat" where
  "tracked_frames a = 64 * length (bitmap a)"

definition frame_free :: "bitmap_allocator \<Rightarrow> nat \<Rightarrow> bool" where
  "frame_free a i \<longleftrightarrow> i < tracked_frames a \<and> \<not> bit (bitmap a ! (i div 64)) (i mod 64)"

definition free_frames :: "bitmap_allocator \<Rightarrow> nat set" where
  "free_frames a = {i. frame_free a i}"

lemma finite_free_frames [simp]: "finite (free_frames a)"
  by (rule finite_subset [of _ "{..<tracked_frames a}"]) (auto simp: free_frames_def frame_free_def)

lemma free_frames_lt: "f \<in> free_frames a \<Longrightarrow> f < tracked_frames a"
  by (simp add: free_frames_def frame_free_def)

lemma free_frames_new [simp]: "free_frames (bitmap_new n) = {}"
  by (auto simp: free_frames_def frame_free_def tracked_frames_def bitmap_new_def bit_simps
      less_mult_imp_div_less mult.commute)

lemma tracked_bitmap_new [simp]: "tracked_frames (bitmap_new n) = 64 * n"
  by (simp add: tracked_frames_def bitmap_new_def)

lemma tracked_reserve [simp]: "tracked_frames (reserve_frame f a) = tracked_frames a"
  by (simp add: reserve_frame_def tracked_frames_def Let_def)

lemma tracked_free [simp]: "tracked_frames (free_frame f a) = tracked_frames a"
  by (simp add: free_frame_def tracked_frames_def Let_def)

lemma word_idx_lt: "i < 64 * n \<longleftrightarrow> i div 64 < (n::nat)"
  by (metis div_less_iff_less_mult mult.commute zero_less_numeral)

lemma div_mod_64_eq: "(i::nat) div 64 = j div 64 \<Longrightarrow> i mod 64 = j mod 64 \<Longrightarrow> i = j"
  by (metis div_mult_mod_eq)

lemma frame_free_upd:
  assumes "k < length (bitmap a)"
  shows "frame_free (a\<lparr>bitmap := (bitmap a)[k := w]\<rparr>) i \<longleftrightarrow>
    (if i div 64 = k then \<not> bit w (i mod 64) else frame_free a i)"
  using assms by (auto simp: frame_free_def tracked_frames_def word_idx_lt nth_list_update)

lemma bit_push_one: "bit (push_bit n (1::64 word)) i \<longleftrightarrow> i = n \<and> n < 64"
  by (auto simp: bit_simps)

lemma free_frames_reserve [simp]: "free_frames (reserve_frame f a) = free_frames a - {f}"
proof -
  have "frame_free (reserve_frame f a) i \<longleftrightarrow> frame_free a i \<and> i \<noteq> f" for i
  proof (cases "f div 64 < length (bitmap a)")
    case True
    have "f mod 64 < 64" by simp
    with True show ?thesis
      by (auto simp: reserve_frame_def Let_def frame_free_upd bit_simps
          frame_free_def [of a] tracked_frames_def word_idx_lt dest: div_mod_64_eq)
  next
    case False
    then show ?thesis
      by (auto simp: reserve_frame_def Let_def frame_free_def tracked_frames_def word_idx_lt)
  qed
  then show ?thesis by (auto simp: free_frames_def)
qed

lemma free_frames_free [simp]:
  "free_frames (free_frame f a) =
     (if f = 0 \<or> tracked_frames a \<le> f then free_frames a else insert f (free_frames a))"
proof -
  have "frame_free (free_frame f a) i \<longleftrightarrow>
    frame_free a i \<or> (f \<noteq> 0 \<and> f < tracked_frames a \<and> i = f)" for i
  proof (cases "f \<noteq> 0 \<and> f div 64 < length (bitmap a)")
    case True
    then show ?thesis
      by (auto simp: free_frame_def Let_def frame_free_upd bit_simps
          frame_free_def [of a] tracked_frames_def word_idx_lt dest: div_mod_64_eq)
  next
    case False
    then show ?thesis
      by (auto simp: free_frame_def Let_def tracked_frames_def word_idx_lt)
  qed
  then show ?thesis by (auto simp: free_frames_def)
qed

lemma tracked_reserve_range [simp]: "tracked_frames (reserve_range s n a) = tracked_frames a"
  unfolding reserve_range_def by (induction n) auto

lemma tracked_free_range [simp]: "tracked_frames (free_range s n a) = tracked_frames a"
  unfolding free_range_def by (induction n) auto

lemma reserve_range_Suc: "reserve_range s (Suc n) a = reserve_frame (s + n) (reserve_range s n a)"
  by (simp add: reserve_range_def)

lemma free_range_Suc: "free_range s (Suc n) a = free_frame (s + n) (free_range s n a)"
  by (simp add: free_range_def)

lemma range_Suc: "{s..<s + Suc n} = insert (s + n) {s..<s + (n::nat)}"
  by (simp add: atLeastLessThanSuc)

lemma free_frames_reserve_range [simp]:
  "free_frames (reserve_range s n a) = free_frames a - {s..<s + n}"
proof (induction n)
  case (Suc n)
  then show ?case by (simp only: reserve_range_Suc free_frames_reserve range_Suc) blast
qed (simp add: reserve_range_def)

lemma free_frames_free_range [simp]:
  "free_frames (free_range s n a) = free_frames a \<union> ({s..<s + n} \<inter> {0<..<tracked_frames a})"
proof (induction n)
  case (Suc n)
  then show ?case
    by (simp only: free_range_Suc free_frames_free range_Suc tracked_free_range) (simp add: Int_insert_left)
qed (simp add: free_range_def)

text \<open>The scan stops at the first word with a clear bit and takes its lowest clear bit.\<close>

lemma alloc_scan_None: "alloc_scan i vs = None \<longleftrightarrow> (\<forall>v \<in> set vs. v = NOT 0)"
  by (induction i vs rule: alloc_scan.induct) (auto simp: Let_def split: option.splits)

lemma alloc_scan_Some:
  "alloc_scan i vs = Some (r, vs') \<Longrightarrow>
     \<exists>k < length vs. vs ! k \<noteq> NOT 0 \<and> (\<forall>j<k. vs ! j = NOT 0) \<and>
       r = (i + k) * 64 + trailing_zeros (NOT (vs ! k)) \<and>
       vs' = vs[k := (vs ! k) OR push_bit (trailing_zeros (NOT (vs ! k))) 1]"
proof (induction i vs arbitrary: r vs' rule: alloc_scan.induct)
  case (2 i val vals)
  show ?case
  proof (cases "val = NOT 0")
    case True
    with "2.prems" obtain vs'' where *: "alloc_scan (Suc i) vals = Some (r, vs'')" "vs' = val # vs''"
      by (auto split: option.splits)
    have "\<not> val \<noteq> NOT 0" using True by simp
    from "2.IH" [OF this *(1)] obtain k where
      "k < length vals" "vals ! k \<noteq> NOT 0" "\<forall>j<k. vals ! j = NOT 0"
      "r = (Suc i + k) * 64 + trailing_zeros (NOT (vals ! k))"
      "vs'' = vals[k := (vals ! k) OR push_bit (trailing_zeros (NOT (vals ! k))) 1]" by blast
    with * True show ?thesis
      by (intro exI [of _ "Suc k"]) (simp add: All_less_Suc2)
  next
    case False
    with "2.prems" show ?thesis by (intro exI [of _ 0]) (simp add: Let_def)
  qed
qed simp

lemma lowest_clear_bit:
  fixes v :: u64
  assumes "v \<noteq> NOT 0"
  shows "trailing_zeros (NOT v) < 64" "\<not> bit v (trailing_zeros (NOT v))"
    "j < trailing_zeros (NOT v) \<Longrightarrow> bit v j"
proof -
  have nz: "NOT v \<noteq> 0"
  proof
    assume "NOT v = 0"
    then have "NOT (NOT v) = NOT 0" by (rule arg_cong)
    with assms show False by (simp only: bit.double_compl)
  qed
  show lt: "trailing_zeros (NOT v) < 64" using trailing_zeros_bit(1) [OF nz] by simp
  show "\<not> bit v (trailing_zeros (NOT v))" using trailing_zeros_bit(2) [OF nz] by (simp add: bit_not_iff)
  show "bit v j" if "j < trailing_zeros (NOT v)"
    using trailing_zeros_bit(3) [OF nz that] that lt by (simp add: bit_not_iff)
qed

lemma allocate_None: "fst (allocate_next_frame a) = None \<longleftrightarrow> free_frames a = {}"
proof
  assume "fst (allocate_next_frame a) = None"
  then have "alloc_scan 0 (bitmap a) = None"
    by (auto simp: allocate_next_frame_def split: option.splits prod.splits)
  then have "bitmap a ! k = NOT 0" if "k < length (bitmap a)" for k
    using that by (simp add: alloc_scan_None)
  then show "free_frames a = {}"
    by (simp add: free_frames_def frame_free_def tracked_frames_def word_idx_lt bit_simps)
next
  assume none: "free_frames a = {}"
  show "fst (allocate_next_frame a) = None"
  proof (rule ccontr)
    assume "fst (allocate_next_frame a) \<noteq> None"
    then obtain r vs where "alloc_scan 0 (bitmap a) = Some (r, vs)"
      by (cases "alloc_scan 0 (bitmap a)") (auto simp: allocate_next_frame_def)
    from alloc_scan_Some [OF this] obtain k where k: "k < length (bitmap a)" "bitmap a ! k \<noteq> NOT 0"
      by blast
    define t where "t = trailing_zeros (NOT (bitmap a ! k))"
    have "\<not> bit (bitmap a ! k) t" "t < 64"
      using lowest_clear_bit [OF k(2)] by (simp_all add: t_def)
    with k(1) have "frame_free a (k * 64 + t)"
      by (simp add: frame_free_def tracked_frames_def word_idx_lt)
    with none show False by (auto simp: free_frames_def)
  qed
qed

lemma allocate_Some:
  assumes "allocate_next_frame a = (Some f, a')"
  shows "f \<in> free_frames a" "\<And>i. i \<in> free_frames a \<Longrightarrow> f \<le> i" "a' = reserve_frame f a"
proof -
  from assms obtain bm where scan: "alloc_scan 0 (bitmap a) = Some (f, bm)" and a': "a' = a\<lparr>bitmap := bm\<rparr>"
    by (auto simp: allocate_next_frame_def split: option.splits)
  from alloc_scan_Some [OF scan] obtain k where k: "k < length (bitmap a)" "bitmap a ! k \<noteq> NOT 0"
    and below: "\<forall>j<k. bitmap a ! j = NOT 0"
    and f: "f = k * 64 + trailing_zeros (NOT (bitmap a ! k))"
    and bm: "bm = (bitmap a)[k := (bitmap a ! k) OR push_bit (trailing_zeros (NOT (bitmap a ! k))) 1]"
    unfolding add_0 by blast
  note low = lowest_clear_bit [OF k(2)]
  have dm: "f div 64 = k" "f mod 64 = trailing_zeros (NOT (bitmap a ! k))"
    using low(1) by (simp_all add: f)
  show "f \<in> free_frames a"
    using k(1) low(2) by (simp add: free_frames_def frame_free_def tracked_frames_def word_idx_lt dm)
  show "a' = reserve_frame f a"
    using k(1) by (simp add: a' bm reserve_frame_def dm)
  show "f \<le> i" if i: "i \<in> free_frames a" for i
  proof -
    have "\<not> bit (bitmap a ! (i div 64)) (i mod 64)"
      using i by (simp add: free_frames_def frame_free_def)
    moreover have "bit (bitmap a ! (i div 64)) (i mod 64)" if "i div 64 < k"
      using below that by (simp add: bit_simps)
    moreover have "bit (bitmap a ! (i div 64)) (i mod 64)" if "i div 64 = k" "i mod 64 < f mod 64"
      using low(3) that unfolding dm by blast
    ultimately have "\<not> i div 64 < k" "i div 64 = k \<Longrightarrow> \<not> i mod 64 < f mod 64" by blast+
    then have "f div 64 < i div 64 \<or> f div 64 = i div 64 \<and> f mod 64 \<le> i mod 64" using dm by linarith
    moreover have "f = 64 * (f div 64) + f mod 64" "i = 64 * (i div 64) + i mod 64" "f mod 64 < 64"
      by simp_all
    ultimately show ?thesis by linarith
  qed
qed

section \<open>The contract of a frame pool\<close>

text \<open>
  What the page-table code and the process loader rely on: allocation hands out a free frame and
  withdraws it, reservation withdraws a frame, and release returns a tracked, non-zero frame.
\<close>

primrec alloc_many :: "('s \<Rightarrow> nat option \<times> 's) \<Rightarrow> nat \<Rightarrow> 's \<Rightarrow> nat list \<times> 's" where
  "alloc_many alloc 0 s = ([], s)"
| "alloc_many alloc (Suc n) s =
     (case alloc s of
        (None, s') \<Rightarrow> ([], s')
      | (Some f, s') \<Rightarrow> (case alloc_many alloc n s' of (fs, s'') \<Rightarrow> (f # fs, s'')))"

locale frame_pool =
  fixes alloc :: "'s \<Rightarrow> nat option \<times> 's"
    and release :: "nat \<Rightarrow> 's \<Rightarrow> 's"
    and reserve :: "nat \<Rightarrow> 's \<Rightarrow> 's"
    and avail :: "'s \<Rightarrow> nat set"
    and capacity :: "'s \<Rightarrow> nat"
  assumes avail_finite: "finite (avail s)"
    and avail_capacity: "f \<in> avail s \<Longrightarrow> f < capacity s"
    and alloc_None: "alloc s = (None, s') \<Longrightarrow> avail s = {} \<and> s' = s"
    and alloc_Some: "alloc s = (Some f, s') \<Longrightarrow> f \<in> avail s \<and> s' = reserve f s"
    and avail_reserve: "avail (reserve f s) = avail s - {f}"
    and capacity_reserve: "capacity (reserve f s) = capacity s"
    and avail_release: "f \<noteq> 0 \<Longrightarrow> f < capacity s \<Longrightarrow> avail (release f s) = insert f (avail s)"
begin

lemma alloc_many_spec:
  "alloc_many alloc n s = (fs, s') \<Longrightarrow>
     distinct fs \<and> set fs \<subseteq> avail s \<and> avail s' = avail s - set fs \<and> length fs = min n (card (avail s))"
proof (induction n arbitrary: s fs)
  case 0
  then show ?case by simp
next
  case (Suc n)
  obtain r s1 where r: "alloc s = (r, s1)" by (cases "alloc s")
  show ?case
  proof (cases r)
    case None
    with r Suc.prems alloc_None [of s s1] show ?thesis by auto
  next
    case (Some f)
    with r Suc.prems obtain gs where gs: "alloc_many alloc n s1 = (gs, s')" "fs = f # gs"
      by (auto split: prod.splits)
    from Some r alloc_Some [of s f s1] have f: "f \<in> avail s" "avail s1 = avail s - {f}"
      by (simp_all add: avail_reserve)
    have "card (avail s) = Suc (card (avail s1))"
      using f card.remove [OF avail_finite f(1)] by simp
    then have len: "length fs = min (Suc n) (card (avail s))"
      using Suc.IH [OF gs(1)] gs(2) by simp
    have "distinct gs" "set gs \<subseteq> avail s - {f}" "avail s' = avail s - {f} - set gs"
      using Suc.IH [OF gs(1)] unfolding f(2) by simp_all
    with f(1) have "distinct fs" "set fs \<subseteq> avail s" "avail s' = avail s - set fs"
      unfolding gs(2) by auto
    with len show ?thesis by blast
  qed
qed

lemma realloc_after_release:
  assumes "f \<noteq> 0" "f < capacity s" "avail s = {}"
  shows "\<exists>s'. alloc (release f s) = (Some f, s')"
proof -
  obtain r s' where "alloc (release f s) = (r, s')" by (cases "alloc (release f s)")
  with avail_release [OF assms(1,2)] assms(3) alloc_None [of "release f s" s']
    alloc_Some [of "release f s" _ s'] show ?thesis
    by (cases r) auto
qed

end

interpretation bitmap_pool: frame_pool allocate_next_frame free_frame reserve_frame free_frames tracked_frames
proof unfold_locales
  fix s s' :: bitmap_allocator
  assume "allocate_next_frame s = (None, s')"
  then show "free_frames s = {} \<and> s' = s"
    using allocate_None [of s] by (auto simp: allocate_next_frame_def split: option.splits)
next
  fix s s' :: bitmap_allocator and f
  assume "allocate_next_frame s = (Some f, s')"
  then show "f \<in> free_frames s \<and> s' = reserve_frame f s" using allocate_Some by blast
qed (simp_all add: free_frames_lt)

section \<open>Population and protection\<close>

definition entry_frames :: "(memmap_entry \<Rightarrow> bool) \<Rightarrow> memmap_response \<Rightarrow> nat set" where
  "entry_frames P entries =
     (\<Union>e \<in> {e. Some e \<in> set entries \<and> P e}.
        {unat (me_base e) div 4096 ..< unat (me_base e) div 4096 + unat (me_length e) div 4096})"

definition byte_frames :: "usize \<Rightarrow> usize \<Rightarrow> nat set" where
  "byte_frames start len = {unat start div 4096 ..< (unat start + unat len + 4095) div 4096}"

lemma unat_div_page [simp]: "unat (x div PAGE_SIZE) = unat x div 4096"
  by (simp add: PAGE_SIZE_def unat_div)

lemma tracked_free_entry [simp]: "tracked_frames (free_entry e a) = tracked_frames a"
  by (simp add: free_entry_def)

lemma entry_frames_simps [simp]:
  "entry_frames P [] = {}"
  "entry_frames P (None # es) = entry_frames P es"
  "entry_frames P (Some e # es) =
     (if P e then {unat (me_base e) div 4096 ..< unat (me_base e) div 4096 + unat (me_length e) div 4096}
      else {}) \<union> entry_frames P es"
  unfolding entry_frames_def by auto

lemma free_frames_fold_entries:
  "free_frames (fold (\<lambda>ptr pmm. case ptr of None \<Rightarrow> pmm
      | Some e \<Rightarrow> if P e then free_entry e pmm else pmm) es a) =
    free_frames a \<union> (entry_frames P es \<inter> {0<..<tracked_frames a})"
proof (induction es arbitrary: a)
  case (Cons ptr es)
  show ?case
  proof (cases ptr)
    case None
    then show ?thesis by (simp add: Cons.IH)
  next
    case (Some e)
    then show ?thesis by (simp add: Cons.IH) (simp add: free_entry_def Int_Un_distrib2 Un_assoc)
  qed
qed simp

lemma unat_end_frame:
  assumes "unat s + unat n + 4095 < 2 ^ 64"
  shows "unat ((s + n + PAGE_SIZE - 1) div PAGE_SIZE) = (unat s + unat n + 4095) div 4096"
proof -
  have "s + n + PAGE_SIZE - 1 = s + n + 4095" by (simp add: PAGE_SIZE_def)
  moreover have "unat (s + n) = unat s + unat n" using assms by (intro unat_add_lt) simp
  then have "unat (s + n + 4095) = unat s + unat n + 4095"
    using assms by (subst unat_add_lt) simp_all
  ultimately show ?thesis by (simp only: unat_div_page)
qed

lemma free_frames_reserve_bytes:
  assumes "unat s + unat n + 4095 < 2 ^ 64"
  shows "free_frames (reserve_bytes s (s + n) a) = free_frames a - byte_frames s n"
proof -
  define e where "e = (s + n + PAGE_SIZE - 1) div PAGE_SIZE"
  have e: "unat e = (unat s + unat n + 4095) div 4096"
    using unat_end_frame [OF assms] by (simp add: e_def)
  have gt: "e > s div PAGE_SIZE \<longleftrightarrow> unat s div 4096 < unat e"
    by (simp add: word_less_nat_alt)
  show ?thesis
  proof (cases "e > s div PAGE_SIZE")
    case True
    then have "unat (e - s div PAGE_SIZE) = unat e - unat s div 4096"
      by (simp add: unat_sub_if' word_less_nat_alt)
    with True gt show ?thesis
      by (simp add: reserve_bytes_def Let_def e_def [symmetric] byte_frames_def e [symmetric])
  next
    case False
    with gt have "byte_frames s n = {}" by (simp add: byte_frames_def e [symmetric])
    with False show ?thesis by (simp add: reserve_bytes_def Let_def e_def [symmetric])
  qed
qed

section \<open>Properties of the physical memory manager\<close>

text \<open>C5: \<open>allocate_next_frame\<close> refines "take the least free frame": it fails exactly when the
  pool is empty and then changes nothing; otherwise it returns the smallest free frame number and
  its only effect is to reserve that frame.\<close>

theorem allocate_next_frame_least:
  "allocate_next_frame a =
     (if free_frames a = {} then (None, a)
      else (Some (Min (free_frames a)), reserve_frame (Min (free_frames a)) a))"
proof (cases "allocate_next_frame a")
  case (Pair r a')
  show ?thesis
  proof (cases r)
    case None
    with Pair show ?thesis using bitmap_pool.alloc_None by simp
  next
    case (Some f)
    note S = allocate_Some [OF Pair [unfolded Some]]
    have "Min (free_frames a) = f" using S(1,2) by (intro Min_eqI) simp_all
    with S(1,3) Pair Some show ?thesis by auto
  qed
qed

text \<open>Successive allocations never hand out a frame twice: \<open>n\<close> calls return
  \<open>min n (number of free frames)\<close> pairwise distinct frames, all free before, and exactly those
  have left the pool afterwards.\<close>

theorem allocations_distinct:
  "case alloc_many allocate_next_frame n a of (fs, a') \<Rightarrow>
     distinct fs \<and> set fs \<subseteq> free_frames a \<and> free_frames a' = free_frames a - set fs
     \<and> length fs = min n (card (free_frames a))"
  using bitmap_pool.alloc_many_spec [of n a] by (auto split: prod.split)



text \<open>\<open>reclaim_boot_memory\<close> returns every tracked frame of the reclaimable regions to the pool
  and re-reserves the low megabyte only: whatever else had been reserved inside such a region
  (heap, ramdisk, live page tables) becomes allocatable again.\<close>

theorem reclaim_frees_reclaimable:
  "free_frames (reclaim_boot_memory (Some entries) a) =
     (free_frames a \<union>
      (entry_frames (\<lambda>e. me_typ e = LIMINE_MEMMAP_ACPI_RECLAIMABLE
                       \<or> me_typ e = LIMINE_MEMMAP_BOOTLOADER_RECLAIMABLE) entries
       \<inter> {0<..<tracked_frames a})) - {0..<256}"
  by (simp add: reclaim_boot_memory_def free_frames_fold_entries)

end
