(* ===== verification/PhysMem.thy ===== *)
theory PhysMem
  imports Pmm
begin

text \<open>
  The machine state the memory-management code works on: physical RAM as a function from physical
  addresses to bytes, the translation-table base registers, the frame pool, and the linear mapping
  of \<^verbatim>\<open>memory::phys_to_virt\<close> (a higher-half offset on x86_64, the identity on AArch64). Kernel
  pointers are virtual addresses; a dereference goes back through the linear mapping to RAM.
\<close>

section \<open>State\<close>

datatype target_arch = X86_64 | AArch64

record machine =
  target :: target_arch
  hhdm :: usize            \<comment> \<open>\<open>HHDM_OFFSET\<close>\<close>
  ram :: "usize \<Rightarrow> u8"
  pmm :: bitmap_allocator  \<comment> \<open>\<open>PHYSICAL_PMM\<close>\<close>
  cr3 :: usize             \<comment> \<open>CR3, or TTBR0_EL1\<close>
  ttbr1 :: usize           \<comment> \<open>TTBR1_EL1\<close>
  kernel_root :: usize     \<comment> \<open>\<open>mmu::kernel_root()\<close>\<close>

definition phys_to_virt :: "machine \<Rightarrow> usize \<Rightarrow> usize" where
  "phys_to_virt s phys = (case target s of X86_64 \<Rightarrow> phys + hhdm s | AArch64 \<Rightarrow> phys)"

text \<open>The physical address behind a pointer into the linear mapping.\<close>

definition virt_to_ram :: "machine \<Rightarrow> usize \<Rightarrow> usize" where
  "virt_to_ram s virt = (case target s of X86_64 \<Rightarrow> virt - hhdm s | AArch64 \<Rightarrow> virt)"

section \<open>Bytes and quadwords\<close>

definition read64 :: "(usize \<Rightarrow> u8) \<Rightarrow> usize \<Rightarrow> u64" where
  "read64 m a = u64_le (map (\<lambda>i. m (a + word_of_nat i)) [0..<8])"

definition write64 :: "(usize \<Rightarrow> u8) \<Rightarrow> usize \<Rightarrow> u64 \<Rightarrow> usize \<Rightarrow> u8" where
  "write64 m a w = (\<lambda>x. if x - a < 8 then ucast (drop_bit (8 * unat (x - a)) w) else m x)"

definition fill :: "(usize \<Rightarrow> u8) \<Rightarrow> usize \<Rightarrow> u8 \<Rightarrow> usize \<Rightarrow> usize \<Rightarrow> u8" where
  "fill m a v n = (\<lambda>x. if x - a < n then v else m x)"

definition copy_bytes :: "(usize \<Rightarrow> u8) \<Rightarrow> usize \<Rightarrow> bytes \<Rightarrow> usize \<Rightarrow> u8" where
  "copy_bytes m a bs = (\<lambda>x. if unat (x - a) < length bs then bs ! unat (x - a) else m x)"

text \<open>Pointer reads and writes of the kernel.\<close>

definition read_u64 :: "machine \<Rightarrow> usize \<Rightarrow> u64" where
  "read_u64 s p = read64 (ram s) (virt_to_ram s p)"

definition write_u64 :: "usize \<Rightarrow> u64 \<Rightarrow> machine \<Rightarrow> machine" where
  "write_u64 p w s = s\<lparr>ram := write64 (ram s) (virt_to_ram s p) w\<rparr>"

definition write_bytes :: "usize \<Rightarrow> u8 \<Rightarrow> usize \<Rightarrow> machine \<Rightarrow> machine" where
  "write_bytes p v n s = s\<lparr>ram := fill (ram s) (virt_to_ram s p) v n\<rparr>"

definition copy_nonoverlapping :: "bytes \<Rightarrow> usize \<Rightarrow> machine \<Rightarrow> machine" where
  "copy_nonoverlapping bs p s = s\<lparr>ram := copy_bytes (ram s) (virt_to_ram s p) bs\<rparr>"

definition read_bytes :: "machine \<Rightarrow> usize \<Rightarrow> nat \<Rightarrow> bytes" where
  "read_bytes s p n = map (\<lambda>i. ram s (virt_to_ram s p + word_of_nat i)) [0..<n]"

text \<open>The frame allocator as a kernel call.\<close>

definition alloc_frame :: "machine \<Rightarrow> usize option \<times> machine" where
  "alloc_frame s = (case vmm_alloc_frame (pmm s) of (r, p) \<Rightarrow> (r, s\<lparr>pmm := p\<rparr>))"

definition release_frame :: "usize \<Rightarrow> machine \<Rightarrow> machine" where
  "release_frame addr s = s\<lparr>pmm := vmm_free_frame addr (pmm s)\<rparr>"

section \<open>Reads over writes\<close>

lemma virt_to_ram_phys_to_virt [simp]: "virt_to_ram s (phys_to_virt s p) = p"
  by (simp add: virt_to_ram_def phys_to_virt_def split: target_arch.split)

lemma virt_to_ram_phys_to_virt_add [simp]: "virt_to_ram s (phys_to_virt s p + x) = p + x"
  by (simp add: virt_to_ram_def phys_to_virt_def split: target_arch.split)

lemma linear_map_cong [simp]:
  "phys_to_virt (s\<lparr>ram := r\<rparr>) = phys_to_virt s" "phys_to_virt (s\<lparr>pmm := p\<rparr>) = phys_to_virt s"
  "virt_to_ram (s\<lparr>ram := r\<rparr>) = virt_to_ram s" "virt_to_ram (s\<lparr>pmm := p\<rparr>) = virt_to_ram s"
  by (auto simp: fun_eq_iff virt_to_ram_def phys_to_virt_def split: target_arch.split)

lemma read64_cong: "(\<And>i. i < 8 \<Longrightarrow> m (a + word_of_nat i) = m' (a + word_of_nat i)) \<Longrightarrow> read64 m a = read64 m' a"
  unfolding read64_def by (intro arg_cong [of _ _ u64_le] map_cong) auto

lemma read64_zero: "(\<And>i. i < 8 \<Longrightarrow> m (a + word_of_nat i) = 0) \<Longrightarrow> read64 m a = 0"
  by (subst read64_cong [of m a "\<lambda>_. 0"]) (simp_all add: read64_def u64_le_def upt_rec)

lemma read64_write64_same [simp]: "read64 (write64 m a w) a = w"
proof -
  have "map (\<lambda>i. write64 m a w (a + word_of_nat i)) [0..<8] = to_le_bytes 8 w"
    by (simp add: write64_def upt_rec to_le_bytes_def)
  then show ?thesis by (simp add: read64_def)
qed

lemma word_offset_far:
  fixes a b :: usize
  assumes "\<not> b - a < 8" "\<not> a - b < 8" "i < 8"
  shows "\<not> b + word_of_nat i - a < 8"
proof -
  define d where "d = b - a"
  have "unat d \<ge> 8" using assms(1) by (simp add: d_def word_less_nat_alt)
  moreover have "a - b = 0 - d" by (simp add: d_def)
  with assms(2) have "unat (0 - d) \<ge> 8" by (simp only: word_less_nat_alt not_less) simp
  ultimately have "unat d + 8 \<le> 2 ^ 64"
    unfolding unat_sub_if' by (simp split: if_splits)
  with \<open>unat d \<ge> 8\<close> assms(3) have "unat (d + word_of_nat i) = unat d + i"
    by (subst unat_add_lt) (simp_all add: unat_of_nat)
  then have "\<not> d + word_of_nat i < 8" using \<open>unat d \<ge> 8\<close> by (simp add: word_less_nat_alt)
  moreover have "b + word_of_nat i - a = d + word_of_nat i" by (simp add: d_def)
  ultimately show ?thesis by metis
qed

lemma read64_write64_far:
  assumes "\<not> b - a < 8" "\<not> a - b < 8"
  shows "read64 (write64 m a w) b = read64 m b"
  using word_offset_far [OF assms] by (intro read64_cong) (simp add: write64_def)

section \<open>Page-aligned tables of 512 entries\<close>

definition page_aligned :: "usize \<Rightarrow> bool" where
  "page_aligned t \<longleftrightarrow> t AND 0xFFF = 0"

definition entry :: "machine \<Rightarrow> usize \<Rightarrow> usize \<Rightarrow> u64" where
  "entry s t i = read64 (ram s) (t + 8 * i)"

definition set_entry :: "usize \<Rightarrow> usize \<Rightarrow> u64 \<Rightarrow> machine \<Rightarrow> machine" where
  "set_entry t i w s = s\<lparr>ram := write64 (ram s) (t + 8 * i) w\<rparr>"

definition zero_page :: "usize \<Rightarrow> machine \<Rightarrow> machine" where
  "zero_page f s = s\<lparr>ram := fill (ram s) f 0 4096\<rparr>"

lemma and_fff: "(x :: usize) AND 0xFFF = take_bit 12 x"
  by (simp add: take_bit_eq_mask mask_numeral)

lemma page_aligned_unat: "page_aligned t \<longleftrightarrow> unat t mod 4096 = 0"
  unfolding page_aligned_def and_fff
  by (simp add: take_bit_eq_mod unat_eq_0 [symmetric] unat_mod del: unat_eq_0)

lemma page_aligned_mult:
  assumes "page_aligned t"
  obtains k where "unat t = 4096 * k"
  using assms by (auto simp: page_aligned_unat)

lemma page_aligned_le: "page_aligned t \<Longrightarrow> unat t + 4096 \<le> 2 ^ 64"
proof -
  assume "page_aligned t"
  then obtain k where k: "unat t = 4096 * k" by (rule page_aligned_mult)
  moreover have "unat t < 2 ^ 64" using unsigned_less [of t, where ?'a = nat] by simp
  ultimately have "k < 2 ^ 52" by simp
  then show ?thesis using k by simp
qed

lemma unat_page_offset:
  assumes "page_aligned t" "o' < 4096"
  shows "unat (t + o') = unat t + unat o'"
  using page_aligned_le [OF assms(1)] assms(2) by (intro unat_add_lt) (simp add: word_less_nat_alt)

lemma same_page_iff:
  assumes "page_aligned t" "page_aligned f" "x < 4096"
  shows "t + x - f < 4096 \<longleftrightarrow> t = f"
proof
  assume lt: "t + x - f < 4096"
  have *: "unat (t + x) = unat t + unat x" using assms by (simp add: unat_page_offset)
  have x: "unat x < 4096" using assms(3) by (simp add: word_less_nat_alt)
  obtain j k where j: "unat t = 4096 * j" and k: "unat f = 4096 * k"
    using page_aligned_mult [OF assms(1)] page_aligned_mult [OF assms(2)] by metis
  have "unat (t + x - f) < 4096" using lt by (simp add: word_less_nat_alt)
  then have "j = k"
    using page_aligned_le [OF assms(1)] page_aligned_le [OF assms(2)] x j k
    unfolding unat_sub_if' * by (auto split: if_splits)
  with j k show "t = f" by (simp add: word_unat_eq_iff)
qed (use assms in simp)

lemma unat_entry_addr:
  assumes "page_aligned t" "i < 512"
  shows "unat (t + 8 * i) = unat t + 8 * unat i"
proof -
  have "unat i < 512" using assms(2) by (simp add: word_less_nat_alt)
  then have "unat (8 * i) = 8 * unat i" by (simp add: unat_word_ariths)
  with \<open>unat i < 512\<close> show ?thesis
    using assms(1) by (subst unat_page_offset) (simp_all add: word_less_nat_alt)
qed

lemma entry_addr_far:
  assumes "page_aligned t" "page_aligned u" "i < 512" "j < 512" "\<not> (t = u \<and> i = j)"
  shows "\<not> (u + 8 * j) - (t + 8 * i) < 8"
proof -
  obtain a b where ab: "unat t = 4096 * a" "unat u = 4096 * b"
    using page_aligned_mult [OF assms(1)] page_aligned_mult [OF assms(2)] by metis
  have ij: "unat i < 512" "unat j < 512" using assms by (simp_all add: word_less_nat_alt)
  have ne: "512 * a + unat i \<noteq> 512 * b + unat j"
  proof
    assume eq: "512 * a + unat i = 512 * b + unat j"
    then have "a = b" using ij by auto
    with eq have "unat i = unat j" by simp
    with \<open>a = b\<close> ab assms(5) show False by (simp add: word_unat_eq_iff)
  qed
  have A: "unat (t + 8 * i) = 8 * (512 * a + unat i)" "unat (u + 8 * j) = 8 * (512 * b + unat j)"
    using assms by (simp_all add: unat_entry_addr ab)
  have bnd: "512 * a + unat i < 2 ^ 61" "512 * b + unat j < 2 ^ 61"
    using page_aligned_le [OF assms(1)] page_aligned_le [OF assms(2)] ab ij by auto
  show ?thesis
    using ne bnd unfolding word_less_nat_alt unat_sub_if' A by auto
qed

lemma entry_set_entry:
  assumes "page_aligned t" "page_aligned u" "i < 512" "j < 512"
  shows "entry (set_entry t i w s) u j = (if t = u \<and> i = j then w else entry s u j)"
  using assms entry_addr_far [OF assms] entry_addr_far [OF assms(2,1,4,3)]
  by (auto simp: entry_def set_entry_def read64_write64_far)

lemma entry_zero_page:
  assumes "page_aligned f" "page_aligned t" "i < 512"
  shows "entry (zero_page f s) t i = (if t = f then 0 else entry s t i)"
proof -
  have i: "unat i < 512" using assms(3) by (simp add: word_less_nat_alt)
  have off: "8 * i + word_of_nat k < (4096 :: usize)" if "k < 8" for k
  proof -
    have "unat (8 * i) = 8 * unat i" using i by (simp add: unat_word_ariths)
    then have "unat (8 * i + word_of_nat k) = 8 * unat i + k"
      using i that by (subst unat_add_lt) (simp_all add: unat_of_nat)
    then show ?thesis using i that by (simp add: word_less_nat_alt)
  qed
  have "fill (ram s) f 0 4096 (t + 8 * i + word_of_nat k) =
      (if t = f then 0 else ram s (t + 8 * i + word_of_nat k))" if "k < 8" for k
    using same_page_iff [OF assms(2,1) off [OF that]] by (simp add: fill_def add.assoc)
  then show ?thesis
    by (cases "t = f") (auto simp: entry_def zero_page_def intro: read64_cong read64_zero)
qed

lemma write64_read64 [simp]: "write64 m a (read64 m a) = m"
proof
  fix x
  show "write64 m a (read64 m a) x = m x"
  proof (cases "x - a < 8")
    case True
    define i where "i = unat (x - a)"
    have i: "i < 8" using True by (simp add: i_def word_less_nat_alt)
    have x: "x = a + word_of_nat i" by (simp add: i_def)
    have "ucast (drop_bit (8 * i) (read64 m a)) = to_le_bytes 8 (read64 m a) ! i"
      using i by (simp add: to_le_bytes_def)
    also have "\<dots> = m (a + word_of_nat i)"
      using i by (simp add: read64_def to_le_bytes_u64_le)
    finally show ?thesis using True unfolding x [symmetric] by (simp add: write64_def i_def)
  qed (simp add: write64_def)
qed

lemma set_entry_same [simp]: "set_entry t i (entry s t i) s = s"
  by (simp add: set_entry_def entry_def)

text \<open>What the setters leave alone.\<close>

lemma set_entry_frame [simp]:
  "pmm (set_entry t i w s) = pmm s" "target (set_entry t i w s) = target s"
  "hhdm (set_entry t i w s) = hhdm s" "cr3 (set_entry t i w s) = cr3 s"
  "phys_to_virt (set_entry t i w s) = phys_to_virt s"
  by (simp_all add: set_entry_def)

lemma zero_page_frame [simp]:
  "pmm (zero_page f s) = pmm s" "target (zero_page f s) = target s"
  "hhdm (zero_page f s) = hhdm s" "cr3 (zero_page f s) = cr3 s"
  "phys_to_virt (zero_page f s) = phys_to_virt s"
  by (simp_all add: zero_page_def)

lemma entry_pmm_update [simp]: "entry (s\<lparr>pmm := p\<rparr>) = entry s"
  by (simp add: entry_def fun_eq_iff)

section \<open>Frames by address\<close>

definition frame_of :: "usize \<Rightarrow> nat" where
  "frame_of a = unat a div 4096"

text \<open>The pool tracks at most \<open>2^36\<close> frames, so that every frame address fits the 48-bit address
  field of both page-table formats (the kernel tracks \<open>2^16\<close>).\<close>

definition pool_ok :: "machine \<Rightarrow> bool" where
  "pool_ok s \<longleftrightarrow> tracked_frames (pmm s) \<le> 2 ^ 36"

lemma alloc_frame_None: "alloc_frame s = (None, s') \<Longrightarrow> free_frames (pmm s) = {} \<and> s' = s"
  using bitmap_pool.alloc_None [of "pmm s"]
  by (auto simp: alloc_frame_def vmm_alloc_frame_def split: prod.splits)

lemma alloc_frame_Some:
  assumes "alloc_frame s = (Some f, s')" "pool_ok s"
  shows "page_aligned f" "unat f < 2 ^ 48" "frame_of f \<in> free_frames (pmm s)"
    "s' = s\<lparr>pmm := reserve_frame (frame_of f) (pmm s)\<rparr>"
proof -
  from assms(1) obtain n where n: "allocate_next_frame (pmm s) = (Some n, pmm s')"
    and f: "f = word_of_nat n * PAGE_SIZE" and s': "s' = s\<lparr>pmm := pmm s'\<rparr>"
    by (auto simp: alloc_frame_def vmm_alloc_frame_def split: prod.splits)
  have free: "n \<in> free_frames (pmm s)" and p: "pmm s' = reserve_frame n (pmm s)"
    using bitmap_pool.alloc_Some [OF n] by auto
  have lt: "n < 2 ^ 36" using free_frames_lt [OF free] assms(2) by (simp add: pool_ok_def)
  then have u: "unat f = n * 4096" unfolding f PAGE_SIZE_def by (simp add: unat_word_ariths unat_of_nat)
  then show "page_aligned f" "unat f < 2 ^ 48" using lt by (simp_all add: page_aligned_unat)
  have fo: "frame_of f = n" by (simp add: frame_of_def u)
  then show "frame_of f \<in> free_frames (pmm s)" using free by simp
  show "s' = s\<lparr>pmm := reserve_frame (frame_of f) (pmm s)\<rparr>" using s' p fo by simp
qed

lemma frame_of_inj: "page_aligned a \<Longrightarrow> page_aligned b \<Longrightarrow> frame_of a = frame_of b \<longleftrightarrow> a = b"
  by (auto simp: frame_of_def word_unat_eq_iff elim!: page_aligned_mult)

lemma frame_of_page_offset: "page_aligned t \<Longrightarrow> x - t < 4096 \<Longrightarrow> frame_of x = frame_of t"
proof -
  assume t: "page_aligned t" and lt: "x - t < 4096"
  have "unat (t + (x - t)) = unat t + unat (x - t)" by (rule unat_page_offset [OF t lt])
  moreover obtain k where "unat t = 4096 * k" using page_aligned_mult [OF t] .
  moreover have "unat (x - t) < 4096" using lt by (simp add: word_less_nat_alt)
  ultimately show ?thesis by (simp add: frame_of_def)
qed

lemma entry_offset_in_page:
  assumes "i < 512" "x - (t + 8 * i) < 8"
  shows "x - t < (4096 :: usize)"
proof -
  define y where "y = x - (t + 8 * i)"
  have i: "unat i < 512" using assms(1) by (simp add: word_less_nat_alt)
  then have "unat (8 * i) = 8 * unat i" by (simp add: unat_word_ariths)
  moreover have y: "unat y < 8" using assms(2) by (simp add: y_def word_less_nat_alt)
  ultimately have "unat (8 * i + y) = 8 * unat i + unat y" using i by (subst unat_add_lt) simp_all
  then have "8 * i + y < 4096" using i y by (simp add: word_less_nat_alt)
  moreover have "x - t = 8 * i + y" by (simp add: y_def)
  ultimately show ?thesis by metis
qed

lemma ram_set_entry:
  "page_aligned t \<Longrightarrow> i < 512 \<Longrightarrow> frame_of x \<noteq> frame_of t \<Longrightarrow> ram (set_entry t i w s) x = ram s x"
  using frame_of_page_offset [of t x] entry_offset_in_page [of i x t]
  by (simp add: set_entry_def write64_def) blast

lemma ram_zero_page: "page_aligned f \<Longrightarrow> frame_of x \<noteq> frame_of f \<Longrightarrow> ram (zero_page f s) x = ram s x"
  using frame_of_page_offset [of f x] by (simp add: zero_page_def fill_def) blast

lemma ram_zero_page_same: "page_aligned f \<Longrightarrow> frame_of x = frame_of f \<Longrightarrow> ram (zero_page f s) x = 0"
proof -
  assume f: "page_aligned f" and eq: "frame_of x = frame_of f"
  obtain k where k: "unat f = 4096 * k" using page_aligned_mult [OF f] .
  then have "unat f \<le> unat x" "unat x < unat f + 4096" using eq by (auto simp: frame_of_def)
  then have "x - f < 4096" by (simp add: word_less_nat_alt unat_sub_if')
  then show ?thesis by (simp add: zero_page_def fill_def)
qed

end
