(* ===== verification/Sync.thy ===== *)
theory Sync
  imports PhysMem
begin

text \<open>
  The two locks of the kernel: \<open>sync::Spinlock\<close>, which masks interrupts while it is held, and
  \<open>memory::Mutex\<close>, which does not. Each CPU has its interrupt-control register and a stack of
  contexts: the running code on top, the contexts it interrupted below. A step is one atomic access
  of one CPU, an interrupt, or a return from one; every interleaving is a run of the step relation.
\<close>

section \<open>Interrupt flags\<close>

text \<open>RFLAGS.IF is bit 9 and enables interrupts; DAIF.I is bit 7 and masks them.\<close>

definition interrupts_enabled :: "target_arch \<Rightarrow> u64 \<Rightarrow> bool" where
  "interrupts_enabled tgt flags = (case tgt of X86_64 \<Rightarrow> flags AND 0x200 \<noteq> 0 | AArch64 \<Rightarrow> flags AND 0x80 = 0)"

definition mask_interrupts :: "target_arch \<Rightarrow> u64 \<Rightarrow> u64" where
  "mask_interrupts tgt flags = (case tgt of X86_64 \<Rightarrow> flags AND NOT 0x200 | AArch64 \<Rightarrow> flags OR 0x80)"

definition disable_and_save_interrupts :: "target_arch \<Rightarrow> u64 \<Rightarrow> bool \<times> u64" where
  "disable_and_save_interrupts tgt flags =
     (case tgt of
        X86_64 \<Rightarrow> (flags AND 0x200 \<noteq> 0, mask_interrupts tgt flags)
      | AArch64 \<Rightarrow> (flags AND 0x80 = 0, mask_interrupts tgt flags))"

definition enable_cpu_interrupts :: "target_arch \<Rightarrow> u64 \<Rightarrow> u64" where
  "enable_cpu_interrupts tgt flags = (case tgt of X86_64 \<Rightarrow> flags OR 0x200 | AArch64 \<Rightarrow> flags AND NOT 0x80)"

lemma bit9: "w AND 0x200 \<noteq> 0 \<longleftrightarrow> bit w 9" for w :: u64
  using and_exp_eq_0_iff_not_bit [of w 9] by simp

lemma bit7: "w AND 0x80 \<noteq> 0 \<longleftrightarrow> bit w 7" for w :: u64
  using and_exp_eq_0_iff_not_bit [of w 7] by simp

lemma bit_flag: "bit (0x200 :: u64) 9" "bit (0x80 :: u64) 7"
  by simp_all

lemma interrupts_enabled_bit:
  "interrupts_enabled tgt flags = (case tgt of X86_64 \<Rightarrow> bit flags 9 | AArch64 \<Rightarrow> \<not> bit flags 7)"
  using bit9 [of flags] bit7 [of flags] by (simp add: interrupts_enabled_def split: target_arch.split) blast

lemma masked [simp]: "\<not> interrupts_enabled tgt (mask_interrupts tgt flags)"
  unfolding interrupts_enabled_bit by (cases tgt) (simp_all add: mask_interrupts_def bit_simps)

lemma enabled [simp]: "interrupts_enabled tgt (enable_cpu_interrupts tgt flags)"
  unfolding interrupts_enabled_bit by (cases tgt) (simp_all add: enable_cpu_interrupts_def bit_simps)

lemma disable_and_save [simp]:
  "disable_and_save_interrupts tgt flags = (interrupts_enabled tgt flags, mask_interrupts tgt flags)"
  by (cases tgt) (simp_all add: disable_and_save_interrupts_def interrupts_enabled_def)

section \<open>Locks\<close>

datatype lock_kind = Spinlock | Mutex

datatype lock_pc = Outside | Spinning | Holding | Restoring

record lock_context =
  lock_pc :: lock_pc
  saved_interrupt_state :: bool

record cpu =
  flags :: u64
  contexts :: "lock_context list"

record lock_state =
  locked :: bool
  cpus :: "cpu list"

definition new_context :: lock_context where
  "new_context = \<lparr>lock_pc = Outside, saved_interrupt_state = False\<rparr>"

text \<open>
  The pieces of \<open>lock\<close> and of the guard's \<open>drop\<close> between two atomic accesses, on the CPU \<open>c\<close> whose running
  context is \<open>k\<close>. \<open>swap_lock\<close> is one iteration of the acquire loop (\<open>swap\<close> for the spinlock,
  \<open>compare_exchange\<close> for the mutex: both leave the flag set and succeed when it was clear).
\<close>

definition begin_lock :: "lock_kind \<Rightarrow> target_arch \<Rightarrow> u64 \<Rightarrow> bool \<times> u64" where
  "begin_lock kind tgt fl =
     (case kind of Spinlock \<Rightarrow> disable_and_save_interrupts tgt fl | Mutex \<Rightarrow> (False, fl))"

definition swap_lock :: "bool \<Rightarrow> lock_pc \<times> bool" where
  "swap_lock was_locked = (if was_locked then Spinning else Holding, True)"

definition end_drop :: "lock_kind \<Rightarrow> target_arch \<Rightarrow> bool \<Rightarrow> u64 \<Rightarrow> u64" where
  "end_drop kind tgt saved fl =
     (case kind of Spinlock \<Rightarrow> if saved then enable_cpu_interrupts tgt fl else fl | Mutex \<Rightarrow> fl)"

inductive lock_step :: "lock_kind \<Rightarrow> target_arch \<Rightarrow> lock_state \<Rightarrow> lock_state \<Rightarrow> bool" for kind tgt where
  start: "i < length (cpus s) \<Longrightarrow> cpus s ! i = c \<Longrightarrow> contexts c = k # ks \<Longrightarrow> lock_pc k = Outside \<Longrightarrow>
    begin_lock kind tgt (flags c) = (sv, fl) \<Longrightarrow>
    lock_step kind tgt s (s\<lparr>cpus := (cpus s)[i := \<lparr>flags = fl, contexts = \<lparr>lock_pc = Spinning, saved_interrupt_state = sv\<rparr> # ks\<rparr>]\<rparr>)"
| swap: "i < length (cpus s) \<Longrightarrow> cpus s ! i = c \<Longrightarrow> contexts c = k # ks \<Longrightarrow> lock_pc k = Spinning \<Longrightarrow>
    swap_lock (locked s) = (pc, l) \<Longrightarrow>
    lock_step kind tgt s (s\<lparr>locked := l, cpus := (cpus s)[i := c\<lparr>contexts := k\<lparr>lock_pc := pc\<rparr> # ks\<rparr>]\<rparr>)"
| release: "i < length (cpus s) \<Longrightarrow> cpus s ! i = c \<Longrightarrow> contexts c = k # ks \<Longrightarrow> lock_pc k = Holding \<Longrightarrow>
    lock_step kind tgt s (s\<lparr>locked := False, cpus := (cpus s)[i := c\<lparr>contexts := k\<lparr>lock_pc := Restoring\<rparr> # ks\<rparr>]\<rparr>)"
| restore: "i < length (cpus s) \<Longrightarrow> cpus s ! i = c \<Longrightarrow> contexts c = k # ks \<Longrightarrow> lock_pc k = Restoring \<Longrightarrow>
    lock_step kind tgt s (s\<lparr>cpus := (cpus s)[i := \<lparr>flags = end_drop kind tgt (saved_interrupt_state k) (flags c),
      contexts = k\<lparr>lock_pc := Outside\<rparr> # ks\<rparr>]\<rparr>)"
| interrupt: "i < length (cpus s) \<Longrightarrow> cpus s ! i = c \<Longrightarrow> interrupts_enabled tgt (flags c) \<Longrightarrow>
    lock_step kind tgt s (s\<lparr>cpus := (cpus s)[i := \<lparr>flags = mask_interrupts tgt (flags c), contexts = new_context # contexts c\<rparr>]\<rparr>)"
| return: "i < length (cpus s) \<Longrightarrow> cpus s ! i = c \<Longrightarrow> contexts c = k # k' # ks \<Longrightarrow> lock_pc k = Outside \<Longrightarrow>
    lock_step kind tgt s (s\<lparr>cpus := (cpus s)[i := \<lparr>flags = enable_cpu_interrupts tgt (flags c), contexts = k' # ks\<rparr>]\<rparr>)"
| set_flags: "i < length (cpus s) \<Longrightarrow> cpus s ! i = c \<Longrightarrow> contexts c = k # ks \<Longrightarrow> lock_pc k = Outside \<Longrightarrow>
    lock_step kind tgt s (s\<lparr>cpus := (cpus s)[i := c\<lparr>flags := fl\<rparr>]\<rparr>)"

inductive_cases lock_stepE: "lock_step kind tgt s s'"

text \<open>The lock is free and every CPU runs one context outside of it.\<close>

definition lock_start :: "u64 list \<Rightarrow> lock_state" where
  "lock_start fls = \<lparr>locked = False, cpus = map (\<lambda>fl. \<lparr>flags = fl, contexts = [new_context]\<rparr>) fls\<rparr>"

definition running :: "cpu \<Rightarrow> lock_pc" where
  "running c = (case contexts c of [] \<Rightarrow> Outside | k # ks \<Rightarrow> lock_pc k)"

definition holders :: "cpu \<Rightarrow> nat" where
  "holders c = length (filter (\<lambda>k. lock_pc k = Holding) (contexts c))"

definition holding_count :: "lock_state \<Rightarrow> nat" where
  "holding_count s = sum_list (map holders (cpus s))"

section \<open>Mutual exclusion\<close>

lemma sum_list_map_update:
  "i < length xs \<Longrightarrow> sum_list (map f (xs[i := y])) + f (xs ! i) = sum_list (map f xs) + (f y :: nat)"
  by (induction xs arbitrary: i) (auto split: nat.split simp: nth_Cons')

lemma holders_Cons [simp]:
  "holders \<lparr>flags = fl, contexts = k # ks\<rparr> = (if lock_pc k = Holding then 1 else 0) + holders \<lparr>flags = fl, contexts = ks\<rparr>"
  "holders (c\<lparr>contexts := k # ks\<rparr>) = (if lock_pc k = Holding then 1 else 0) + holders (c\<lparr>contexts := ks\<rparr>)"
  by (simp_all add: holders_def)

lemma holders_top:
  "contexts c = k # ks \<Longrightarrow> holders c = (if lock_pc k = Holding then 1 else 0) + length (filter (\<lambda>k. lock_pc k = Holding) ks)"
  by (simp add: holders_def)

lemma holding_count_update:
  "i < length (cpus s) \<Longrightarrow> sum_list (map holders ((cpus s)[i := c])) + holders (cpus s ! i) = holding_count s + holders c"
  using sum_list_map_update [of i "cpus s" holders c] by (simp add: holding_count_def)

lemma holders_le_count: "i < length (cpus s) \<Longrightarrow> holders (cpus s ! i) \<le> holding_count s"
  unfolding holding_count_def by (intro member_le_sum_list) auto

definition exclusive :: "lock_state \<Rightarrow> bool" where
  "exclusive s \<longleftrightarrow> holding_count s = (if locked s then 1 else 0)"

lemma exclusive_step: "lock_step kind tgt s s' \<Longrightarrow> exclusive s \<Longrightarrow> exclusive s'"
proof (induction rule: lock_step.induct)
  case (start i s c k ks sv fl)
  then show ?case
    using holding_count_update [of i s "\<lparr>flags = fl, contexts = \<lparr>lock_pc = Spinning, saved_interrupt_state = sv\<rparr> # ks\<rparr>"]
    by (simp add: exclusive_def holding_count_def holders_def)
next
  case (swap i s c k ks pc l)
  then show ?case
    using holding_count_update [of i s "c\<lparr>contexts := k\<lparr>lock_pc := pc\<rparr> # ks\<rparr>"]
    by (auto simp: exclusive_def holding_count_def holders_def swap_lock_def split: if_splits)
next
  case (release i s c k ks)
  then show ?case
    using holding_count_update [of i s "c\<lparr>contexts := k\<lparr>lock_pc := Restoring\<rparr> # ks\<rparr>"] holders_le_count [of i s]
    by (auto simp: exclusive_def holding_count_def holders_def split: if_splits)
next
  case (restore i s c k ks)
  then show ?case
    using holding_count_update [of i s "\<lparr>flags = end_drop kind tgt (saved_interrupt_state k) (flags c), contexts = k\<lparr>lock_pc := Outside\<rparr> # ks\<rparr>"]
    by (simp add: exclusive_def holding_count_def holders_def)
next
  case (interrupt i s c)
  then show ?case
    using holding_count_update [of i s "\<lparr>flags = mask_interrupts tgt (flags c), contexts = new_context # contexts c\<rparr>"]
    by (simp add: exclusive_def holding_count_def holders_def new_context_def)
next
  case (return i s c k k' ks)
  then show ?case
    using holding_count_update [of i s "\<lparr>flags = enable_cpu_interrupts tgt (flags c), contexts = k' # ks\<rparr>"]
    by (simp add: exclusive_def holding_count_def holders_def)
next
  case (set_flags i s c k ks fl)
  then show ?case
    using holding_count_update [of i s "c\<lparr>flags := fl\<rparr>"]
    by (simp add: exclusive_def holding_count_def holders_def)
qed

lemma exclusive_start: "exclusive (lock_start fls)"
  by (induction fls) (simp_all add: exclusive_def lock_start_def holding_count_def holders_def new_context_def)

lemma exclusive_reachable: "(lock_step kind tgt)\<^sup>*\<^sup>* (lock_start fls) s \<Longrightarrow> exclusive s"
  by (induction rule: rtranclp_induct) (auto intro: exclusive_start exclusive_step)

section \<open>The spinlock never waits for a context it interrupted\<close>

definition cpu_ok :: "target_arch \<Rightarrow> cpu \<Rightarrow> bool" where
  "cpu_ok tgt c \<longleftrightarrow> (\<forall>k \<in> set (tl (contexts c)). lock_pc k = Outside) \<and>
     (running c \<noteq> Outside \<longrightarrow> \<not> interrupts_enabled tgt (flags c))"

lemma cpu_ok_Cons:
  "contexts c = k # ks \<Longrightarrow>
     cpu_ok tgt c \<longleftrightarrow> (\<forall>k \<in> set ks. lock_pc k = Outside) \<and> (lock_pc k \<noteq> Outside \<longrightarrow> \<not> interrupts_enabled tgt (flags c))"
  by (simp add: cpu_ok_def running_def)

definition spin_ok :: "target_arch \<Rightarrow> lock_state \<Rightarrow> bool" where
  "spin_ok tgt s \<longleftrightarrow> (\<forall>i < length (cpus s). cpu_ok tgt (cpus s ! i))"

lemma spin_ok_update:
  "spin_ok tgt s \<Longrightarrow> cpu_ok tgt c' \<Longrightarrow> spin_ok tgt (s\<lparr>cpus := (cpus s)[i := c']\<rparr>)"
  "spin_ok tgt s \<Longrightarrow> cpu_ok tgt c' \<Longrightarrow> spin_ok tgt (s\<lparr>locked := l, cpus := (cpus s)[i := c']\<rparr>)"
  unfolding spin_ok_def by (simp_all, (metis nth_list_update_eq nth_list_update_neq)+)

lemma interrupted_outside:
  "cpu_ok tgt c \<Longrightarrow> interrupts_enabled tgt (flags c) \<Longrightarrow> \<forall>k \<in> set (contexts c). lock_pc k = Outside"
  by (cases "contexts c") (auto simp: cpu_ok_def running_def)

lemma spin_ok_step: "lock_step Spinlock tgt s s' \<Longrightarrow> spin_ok tgt s \<Longrightarrow> spin_ok tgt s'"
proof (induction rule: lock_step.induct)
  case (interrupt i s c)
  then have "\<forall>k \<in> set (contexts c). lock_pc k = Outside"
    using interrupted_outside by (auto simp: spin_ok_def)
  then show ?case using interrupt.prems by (intro spin_ok_update) (auto simp: cpu_ok_def running_def)
next
  case (return i s c k k' ks)
  then show ?case by (intro spin_ok_update) (auto simp: spin_ok_def cpu_ok_def running_def)
qed (auto intro!: spin_ok_update simp: cpu_ok_Cons swap_lock_def begin_lock_def split: if_splits;
     force simp: spin_ok_def cpu_ok_def running_def)+

lemma spin_ok_reachable: "(lock_step Spinlock tgt)\<^sup>*\<^sup>* (lock_start fls) s \<Longrightarrow> spin_ok tgt s"
proof (induction rule: rtranclp_induct)
  case base
  show ?case by (simp add: spin_ok_def lock_start_def cpu_ok_def running_def new_context_def)
qed (rule spin_ok_step)

text \<open>Any number of CPUs, each starting with the interrupt flags \<open>fls ! i\<close>.\<close>

text \<open>C34: Both locks give mutual exclusion: in every reachable state the number of contexts between the
  acquiring access and the release, over all CPUs and all interrupted contexts, is one when the flag
  is set and zero otherwise.\<close>
theorem lock_mutual_exclusion:
  assumes "(lock_step kind tgt)\<^sup>*\<^sup>* (lock_start fls) s"
  shows "holding_count s = (if locked s then 1 else 0)"
  using exclusive_reachable [OF assms] by (simp add: exclusive_def)

lemma holder_cpu:
  assumes "exclusive s" "locked s"
  shows "\<exists>j < length (cpus s). \<exists>k \<in> set (contexts (cpus s ! j)). lock_pc k = Holding"
proof -
  have "sum_list (map holders (cpus s)) \<noteq> 0" using assms by (simp add: exclusive_def holding_count_def)
  then obtain c where "c \<in> set (cpus s)" "holders c \<noteq> 0" by (auto simp: sum_list_eq_0_iff)
  then show ?thesis unfolding in_set_conv_nth holders_def
    by (metis (mono_tags, lifting) filter_False length_0_conv)
qed

lemma spin_holder_runs:
  assumes "cpu_ok tgt c" "k \<in> set (contexts c)" "lock_pc k = Holding"
  shows "\<exists>ks. contexts c = k # ks"
  using assms by (cases "contexts c") (auto simp: cpu_ok_def)

lemma acquire_free:
  assumes "i < length (cpus s)" "running (cpus s ! i) = Spinning" "\<not> locked s"
  shows "\<exists>s'. lock_step kind tgt s s' \<and> running (cpus s' ! i) = Holding"
proof -
  obtain k ks where k: "contexts (cpus s ! i) = k # ks" "lock_pc k = Spinning"
    using assms(2) by (auto simp: running_def split: list.splits)
  let ?s = "s\<lparr>locked := True, cpus := (cpus s)[i := (cpus s ! i)\<lparr>contexts := k\<lparr>lock_pc := Holding\<rparr> # ks\<rparr>]\<rparr>"
  have "lock_step kind tgt s ?s"
    using lock_step.swap [OF assms(1) refl k, of Holding True kind tgt] assms(3) by (simp add: swap_lock_def)
  moreover have "running (cpus ?s ! i) = Holding" using assms(1) by (simp add: running_def)
  ultimately show ?thesis by blast
qed

lemma spinlock_acquirable:
  assumes "exclusive s" "spin_ok tgt s" "i < length (cpus s)" "running (cpus s ! i) = Spinning"
  shows "\<exists>s'. (lock_step Spinlock tgt)\<^sup>*\<^sup>* s s' \<and> running (cpus s' ! i) = Holding"
proof (cases "locked s")
  case False
  then show ?thesis using acquire_free [OF assms(3,4)] by blast
next
  case True
  then obtain j k ks where j: "j < length (cpus s)" "contexts (cpus s ! j) = k # ks" "lock_pc k = Holding"
    using holder_cpu [OF assms(1)] spin_holder_runs assms(2) unfolding spin_ok_def by blast
  define s1 where "s1 = s\<lparr>locked := False, cpus := (cpus s)[j := (cpus s ! j)\<lparr>contexts := k\<lparr>lock_pc := Restoring\<rparr> # ks\<rparr>]\<rparr>"
  have "i \<noteq> j" using j assms(4) by (auto simp: running_def)
  then have "i < length (cpus s1)" "running (cpus s1 ! i) = Spinning" "\<not> locked s1"
    using assms(3,4) by (simp_all add: s1_def)
  then obtain s' where "lock_step Spinlock tgt s1 s'" "running (cpus s' ! i) = Holding"
    using acquire_free by blast
  moreover have "lock_step Spinlock tgt s s1"
    unfolding s1_def by (rule lock_step.release [OF j(1) refl j(2,3)])
  ultimately show ?thesis by (meson converse_rtranclp_into_rtranclp r_into_rtranclp)
qed

text \<open>A CPU that spins on a spinlock can always acquire it: the holder is never a context that was
  interrupted, so its release is enabled, and after it the spinning CPU's next swap succeeds.\<close>
theorem spinlock_progress:
  assumes "(lock_step Spinlock tgt)\<^sup>*\<^sup>* (lock_start fls) s"
    and "i < length (cpus s)" and "running (cpus s ! i) = Spinning"
  shows "\<exists>s'. (lock_step Spinlock tgt)\<^sup>*\<^sup>* s s' \<and> running (cpus s' ! i) = Holding"
  using spinlock_acquirable [OF exclusive_reachable spin_ok_reachable] assms by blast

section \<open>The mutex can\<close>

text \<open>
  A handler spins on the lock its own CPU's interrupted context holds. Only contexts above the
  holder run, and none of them can clear the flag.
\<close>

definition stuck :: "lock_state \<Rightarrow> bool" where
  "stuck s \<longleftrightarrow> locked s \<and> (\<exists>fl ks k k'. cpus s = [\<lparr>flags = fl, contexts = ks @ [k, k']\<rparr>] \<and>
     (\<forall>x \<in> set ks. lock_pc x \<noteq> Holding) \<and> lock_pc k = Spinning \<and> lock_pc k' = Holding)"

lemma stuckI:
  "locked s \<Longrightarrow> cpus s = [\<lparr>flags = fl, contexts = ks @ [k, k']\<rparr>] \<Longrightarrow> \<forall>x \<in> set ks. lock_pc x \<noteq> Holding \<Longrightarrow>
     lock_pc k = Spinning \<Longrightarrow> lock_pc k' = Holding \<Longrightarrow> stuck s"
  unfolding stuck_def by blast

lemma stuck_top:
  assumes "stuck s" "i < length (cpus s)" "cpus s ! i = c"
  obtains fl ks k k' where "i = 0" "cpus s = [c]" "c = \<lparr>flags = fl, contexts = ks @ [k, k']\<rparr>" "locked s"
    "\<forall>x \<in> set ks. lock_pc x \<noteq> Holding" "lock_pc k = Spinning" "lock_pc k' = Holding"
  using assms unfolding stuck_def by auto

lemma stuck_replace:
  assumes "stuck s" "i < length (cpus s)" "cpus s ! i = c" "contexts c = k # ks" "lock_pc k \<noteq> Spinning"
    and "\<forall>x \<in> set ns. lock_pc x \<noteq> Holding"
  shows "stuck (s\<lparr>cpus := (cpus s)[i := \<lparr>flags = fl, contexts = ns @ ks\<rparr>]\<rparr>)"
proof -
  obtain fl0 xs a b where c: "i = 0" "cpus s = [c]" "c = \<lparr>flags = fl0, contexts = xs @ [a, b]\<rparr>" "locked s"
    "\<forall>x \<in> set xs. lock_pc x \<noteq> Holding" "lock_pc a = Spinning" "lock_pc b = Holding"
    by (rule stuck_top [OF assms(1-3)])
  with assms obtain ys where "xs = k # ys" "ks = ys @ [a, b]" by (cases xs) auto
  with c assms show ?thesis by (intro stuckI [of _ fl "ns @ ys" a b]) auto
qed

lemma stuck_not_holding:
  assumes "stuck s" "i < length (cpus s)" "cpus s ! i = c" "contexts c = k # ks"
  shows "lock_pc k \<noteq> Holding"
proof -
  obtain fl0 xs a b where "c = \<lparr>flags = fl0, contexts = xs @ [a, b]\<rparr>"
    "\<forall>x \<in> set xs. lock_pc x \<noteq> Holding" "lock_pc a = Spinning"
    by (rule stuck_top [OF assms(1-3)])
  with assms(4) show ?thesis by (cases xs) auto
qed

lemma stuck_step: "lock_step kind tgt s s' \<Longrightarrow> stuck s \<Longrightarrow> stuck s'"
proof (induction rule: lock_step.induct)
  case (start i s c k ks sv fl)
  then show ?case using stuck_replace [of s i c k ks "[\<lparr>lock_pc = Spinning, saved_interrupt_state = sv\<rparr>]" fl] by simp
next
  case (swap i s c k ks pc l)
  then have "pc = Spinning" "l = locked s" by (auto simp: swap_lock_def stuck_def)
  with swap.hyps have "k\<lparr>lock_pc := pc\<rparr> = k" by (cases k) auto
  with swap.hyps have "c\<lparr>contexts := k\<lparr>lock_pc := pc\<rparr> # ks\<rparr> = c" by (cases c) auto
  with swap.hyps \<open>l = locked s\<close> have "s\<lparr>locked := l, cpus := (cpus s)[i := c\<lparr>contexts := k\<lparr>lock_pc := pc\<rparr> # ks\<rparr>]\<rparr> = s"
    by (cases s) auto
  with swap.prems show ?case by simp
next
  case (release i s c k ks)
  then show ?case using stuck_not_holding [OF release.prems release.hyps(1-3)] by simp
next
  case (restore i s c k ks)
  then show ?case
    using stuck_replace [of s i c k ks "[k\<lparr>lock_pc := Outside\<rparr>]" "end_drop kind tgt (saved_interrupt_state k) (flags c)"] by simp
next
  case (interrupt i s c)
  obtain fl0 xs a b where "i = 0" "cpus s = [c]" "c = \<lparr>flags = fl0, contexts = xs @ [a, b]\<rparr>" "locked s"
    "\<forall>x \<in> set xs. lock_pc x \<noteq> Holding" "lock_pc a = Spinning" "lock_pc b = Holding"
    by (rule stuck_top [OF interrupt.prems interrupt.hyps(1,2)])
  then show ?case by (intro stuckI [of _ _ "new_context # xs" a b]) (auto simp: new_context_def)
next
  case (return i s c k k' ks)
  then show ?case using stuck_replace [of s i c k "k' # ks" "[]"] by simp
next
  case (set_flags i s c k ks fl)
  then have "c\<lparr>flags := fl\<rparr> = \<lparr>flags = fl, contexts = [k] @ ks\<rparr>" by (cases c) auto
  moreover have "stuck (s\<lparr>cpus := (cpus s)[i := \<lparr>flags = fl, contexts = [k] @ ks\<rparr>]\<rparr>)"
    using set_flags by (intro stuck_replace) auto
  ultimately show ?case by simp
qed

lemma stuck_locked: "(lock_step kind tgt)\<^sup>*\<^sup>* s s' \<Longrightarrow> stuck s \<Longrightarrow> locked s'"
proof (induction rule: rtranclp_induct)
  case base
  then show ?case by (simp add: stuck_def)
next
  case (step y z)
  have "stuck y" using step.hyps(1) step.prems by (induction rule: rtranclp_induct) (auto intro: stuck_step)
  then have "stuck z" by (rule stuck_step [OF step.hyps(2)])
  then show ?case by (simp add: stuck_def)
qed

text \<open>The run into the deadlock: acquire, be interrupted, try to acquire again in the handler.\<close>

definition held :: "u64 \<Rightarrow> lock_context list \<Rightarrow> lock_state" where
  "held fl ks = \<lparr>locked = True, cpus = [\<lparr>flags = fl, contexts = ks @ [\<lparr>lock_pc = Holding, saved_interrupt_state = False\<rparr>]\<rparr>]\<rparr>"

definition spinner :: lock_context where
  "spinner = \<lparr>lock_pc = Spinning, saved_interrupt_state = False\<rparr>"

lemma mutex_deadlock_run:
  assumes "interrupts_enabled tgt fl"
  shows "(lock_step Mutex tgt)\<^sup>*\<^sup>* (lock_start [fl]) (held (mask_interrupts tgt fl) [spinner])"
proof -
  let ?s1 = "\<lparr>locked = False, cpus = [\<lparr>flags = fl, contexts = [spinner]\<rparr>]\<rparr>"
  have "lock_step Mutex tgt (lock_start [fl]) ?s1"
    using lock_step.start [of 0 "lock_start [fl]" "cpus (lock_start [fl]) ! 0" new_context "[]" Mutex tgt False fl]
    by (simp add: lock_start_def new_context_def begin_lock_def spinner_def)
  moreover have "lock_step Mutex tgt ?s1 (held fl [])"
    using lock_step.swap [of 0 ?s1 "cpus ?s1 ! 0" spinner "[]" Holding True Mutex tgt]
    by (simp add: swap_lock_def spinner_def held_def)
  moreover have "lock_step Mutex tgt (held fl []) (held (mask_interrupts tgt fl) [new_context])"
    using lock_step.interrupt [of 0 "held fl []" "cpus (held fl []) ! 0" tgt Mutex] assms by (simp add: held_def)
  moreover have "lock_step Mutex tgt (held (mask_interrupts tgt fl) [new_context]) (held (mask_interrupts tgt fl) [spinner])"
    using lock_step.start [of 0 "held (mask_interrupts tgt fl) [new_context]" "cpus (held (mask_interrupts tgt fl) [new_context]) ! 0" new_context "[\<lparr>lock_pc = Holding, saved_interrupt_state = False\<rparr>]" Mutex tgt False "mask_interrupts tgt fl"]
    by (simp add: held_def new_context_def begin_lock_def spinner_def)
  ultimately show ?thesis by (meson converse_rtranclp_into_rtranclp rtranclp.rtrancl_refl)
qed

text \<open>\<open>memory::Mutex\<close> does not mask interrupts, and a CPU that takes it with interrupts enabled can reach a
  state where a handler on the same CPU spins on the lock the interrupted code holds: from there the
  lock is never free again.\<close>
theorem mutex_self_deadlock:
  assumes "interrupts_enabled tgt fl"
  shows "\<exists>s. (lock_step Mutex tgt)\<^sup>*\<^sup>* (lock_start [fl]) s \<and> running (cpus s ! 0) = Spinning \<and>
    (\<forall>s'. (lock_step Mutex tgt)\<^sup>*\<^sup>* s s' \<longrightarrow> locked s')"
proof (intro exI conjI allI impI)
  let ?s = "held (mask_interrupts tgt fl) [spinner]"
  show "(lock_step Mutex tgt)\<^sup>*\<^sup>* (lock_start [fl]) ?s" by (rule mutex_deadlock_run [OF assms])
  show "running (cpus ?s ! 0) = Spinning" by (simp add: held_def running_def spinner_def)
  have "stuck ?s" by (rule stuckI [of _ _ "[]"]) (auto simp: held_def spinner_def)
  then show "locked s'" if "(lock_step Mutex tgt)\<^sup>*\<^sup>* ?s s'" for s' using stuck_locked [OF that] by simp
qed

theorem lock_mutual_exclusion_witness:
  "(lock_step Mutex X86_64)\<^sup>*\<^sup>* (lock_start [0x202]) (held (mask_interrupts X86_64 0x202) [spinner]) \<and>
   holding_count (held (mask_interrupts X86_64 0x202) [spinner]) = 1"
proof -
  have r: "(lock_step Mutex X86_64)\<^sup>*\<^sup>* (lock_start [0x202]) (held (mask_interrupts X86_64 0x202) [spinner])"
    by (rule mutex_deadlock_run) (simp add: interrupts_enabled_def)
  then show ?thesis using lock_mutual_exclusion [OF r] by (simp add: held_def)
qed

theorem mutex_self_deadlock_witness:
  "interrupts_enabled X86_64 0x202 \<and>
   (\<exists>s. (lock_step Mutex X86_64)\<^sup>*\<^sup>* (lock_start [0x202]) s \<and> running (cpus s ! 0) = Spinning \<and>
     (\<forall>s'. (lock_step Mutex X86_64)\<^sup>*\<^sup>* s s' \<longrightarrow> locked s'))"
  using mutex_self_deadlock [of X86_64 "0x202"] by (simp add: interrupts_enabled_def)

lemma spinning_reachable:
  "(lock_step Spinlock tgt)\<^sup>*\<^sup>* (lock_start [fl])
     \<lparr>locked = False, cpus = [\<lparr>flags = mask_interrupts tgt fl,
       contexts = [\<lparr>lock_pc = Spinning, saved_interrupt_state = interrupts_enabled tgt fl\<rparr>]\<rparr>]\<rparr>"
  using lock_step.start [of 0 "lock_start [fl]" "cpus (lock_start [fl]) ! 0" new_context "[]" Spinlock tgt "interrupts_enabled tgt fl" "mask_interrupts tgt fl"]
  by (intro r_into_rtranclp) (simp add: lock_start_def new_context_def begin_lock_def)

theorem spinlock_progress_witness:
  "\<exists>s s'. (lock_step Spinlock X86_64)\<^sup>*\<^sup>* (lock_start [0x202]) s \<and> running (cpus s ! 0) = Spinning \<and>
     (lock_step Spinlock X86_64)\<^sup>*\<^sup>* s s' \<and> running (cpus s' ! 0) = Holding"
  using spinlock_progress [OF spinning_reachable [of X86_64 "0x202"], of 0] spinning_reachable [of X86_64 "0x202"]
  by (fastforce simp: running_def)

end
