(* ===== verification/Heap.thy ===== *)
theory Heap
  imports PhysMem
begin

text \<open>
  The kernel heap of \<^verbatim>\<open>memory.rs\<close>: \<open>FastBlockAllocator\<close>, a bump allocator with nine free lists for blocks
  of 8 to 2048 bytes. The links of the free lists are stored in the freed blocks themselves, so they
  live in the RAM of the machine. The \<open>HEAP_ALLOCATOR\<close> lock is the \<open>Mutex\<close> of theory \<open>Sync\<close>; here each
  operation runs with the lock held.
\<close>

section \<open>The allocator\<close>

definition BUCKET_COUNT :: nat where
  "BUCKET_COUNT = 9"

definition MIN_BLOCK_SIZE :: usize where
  "MIN_BLOCK_SIZE = 8"

record block_allocator =
  buckets :: "usize list"
  heap_start :: usize
  heap_end :: usize
  next_free_byte :: usize
  heap_initialized :: bool   \<comment> \<open>the static \<open>INITIALIZED\<close>\<close>

definition heap_new :: block_allocator where
  "heap_new = \<lparr>buckets = replicate BUCKET_COUNT 0, heap_start = 0, heap_end = 0, next_free_byte = 0, heap_initialized = False\<rparr>"

definition heap_init :: "usize \<Rightarrow> usize \<Rightarrow> block_allocator \<Rightarrow> block_allocator" where
  "heap_init start sz h =
     h\<lparr>heap_start := start, heap_end := start + sz, next_free_byte := start, heap_initialized := True\<rparr>"

text \<open>\<open>core::alloc::Layout\<close>, with the test of \<open>Layout::from_size_align\<close>.\<close>

record layout =
  layout_size :: usize
  layout_align :: usize

definition is_power_of_two :: "usize \<Rightarrow> bool" where
  "is_power_of_two w \<longleftrightarrow> list_ex (\<lambda>k. w = 2 ^ k) [0..<64]"

definition layout_valid :: "usize \<Rightarrow> usize \<Rightarrow> bool" where
  "layout_valid sz align \<longleftrightarrow> is_power_of_two align \<and> unat sz \<le> 2 ^ 63 - unat align"

definition next_power_of_two :: "usize \<Rightarrow> usize" where
  "next_power_of_two w = (case find (\<lambda>k. unat w \<le> 2 ^ k) [0..<64] of Some k \<Rightarrow> 2 ^ k | None \<Rightarrow> 0)"

definition target_bucket_index :: "layout \<Rightarrow> nat option" where
  "target_bucket_index l =
     (let size = next_power_of_two (max (layout_size l) (layout_align l))
      in if size > 2048 then None else Some (trailing_zeros size - 3))"

text \<open>The pointer \<open>0\<close> is the null pointer that reports failure.\<close>

definition fallback_alloc :: "machine \<Rightarrow> layout \<Rightarrow> block_allocator \<Rightarrow> usize \<times> block_allocator" where
  "fallback_alloc s l h =
     (let align = layout_align l;
          size = layout_size l;
          alloc_start = (next_free_byte h + align - 1) AND NOT (align - 1)
      in case checked_add alloc_start size of
           Some end \<Rightarrow> if end \<le> heap_end h then (phys_to_virt s alloc_start, h\<lparr>next_free_byte := end\<rparr>) else (0, h)
         | None \<Rightarrow> (0, h))"

definition heap_alloc :: "layout \<Rightarrow> block_allocator \<Rightarrow> machine \<Rightarrow> (unit, usize) outcome \<times> block_allocator \<times> machine" where
  "heap_alloc l h s =
     (if \<not> heap_initialized h then (Ok 0, h, s)
      else let size = max (layout_size l) MIN_BLOCK_SIZE
      in if \<not> layout_valid size (layout_align l) then (Panic, h, s)
      else let l' = l\<lparr>layout_size := size\<rparr>;
          (ptr, h) = (case target_bucket_index l' of
             Some index \<Rightarrow>
               if buckets h ! index \<noteq> 0
               then (buckets h ! index, h\<lparr>buckets := (buckets h)[index := read_u64 s (buckets h ! index)]\<rparr>)
               else fallback_alloc s l' h
           | None \<Rightarrow> fallback_alloc s l' h)
      in (Ok ptr, h, if ptr \<noteq> 0 then write_bytes ptr 0 size s else s))"

definition heap_dealloc :: "usize \<Rightarrow> layout \<Rightarrow> block_allocator \<Rightarrow> machine \<Rightarrow> (unit, unit) outcome \<times> block_allocator \<times> machine" where
  "heap_dealloc ptr l h s =
     (if ptr = 0 then (Ok (), h, s)
      else let size = max (layout_size l) MIN_BLOCK_SIZE
      in if \<not> layout_valid size (layout_align l) then (Panic, h, s)
      else case target_bucket_index (l\<lparr>layout_size := size\<rparr>) of
             Some index \<Rightarrow> (Ok (), h\<lparr>buckets := (buckets h)[index := ptr]\<rparr>, write_u64 ptr (buckets h ! index) s)
           | None \<Rightarrow> (Ok (), h, s))"

section \<open>Buckets\<close>

lemma next_power_of_two_spec:
  assumes "unat w \<le> 2 ^ 63"
  obtains k where "next_power_of_two w = 2 ^ k" "k \<le> 63" "unat w \<le> 2 ^ k" "k = 0 \<or> 2 ^ (k - 1) < unat w"
proof -
  have "\<exists>k \<in> set [0..<64]. unat w \<le> 2 ^ k" using assms by (intro bexI [of _ 63]) auto
  then obtain k where k: "find (\<lambda>k. unat w \<le> 2 ^ k) [0..<64] = Some k"
    by (metis (no_types, lifting) find_None_iff option.exhaust)
  then have "k < 64" "unat w \<le> 2 ^ k" "\<And>j. j < k \<Longrightarrow> \<not> unat w \<le> 2 ^ j"
    by (simp_all add: find_upt_Some)
  moreover from this(3) have "k = 0 \<or> 2 ^ (k - 1) < unat w" by (cases k) (auto simp: not_le)
  ultimately show ?thesis using k that [of k] by (simp add: next_power_of_two_def)
qed

lemma trailing_zeros_exp: "k < 64 \<Longrightarrow> trailing_zeros (2 ^ k :: usize) = k"
proof -
  assume k: "k < 64"
  then have "find (bit (2 ^ k :: usize)) [0..<64] = Some k"
    by (auto simp: find_upt_Some bit_exp_iff)
  then show ?thesis by (simp add: trailing_zeros_def)
qed

lemma exp_le_2048: "k < 64 \<Longrightarrow> (2 ^ k :: usize) > 2048 \<longleftrightarrow> k > 11"
proof -
  assume k: "k < 64"
  have "(2 ^ k :: usize) > 2048 \<longleftrightarrow> (2::nat) ^ 11 < 2 ^ k"
    using unat_exp [OF k] by (simp add: word_less_nat_alt)
  then show ?thesis by (simp only: power_strict_increasing_iff one_less_numeral_iff semiring_norm)
qed

text \<open>Block sizes by bucket: the request rounded up to a power of two.\<close>

lemma target_bucket_index_exp:
  assumes "next_power_of_two (max (layout_size l) (layout_align l)) = 2 ^ k" "k < 64"
  shows "target_bucket_index l = (if k > 11 then None else Some (k - 3))"
  using assms exp_le_2048 [OF assms(2)] trailing_zeros_exp [OF assms(2)]
  by (simp add: target_bucket_index_def Let_def)


section \<open>Fresh blocks\<close>

text \<open>A block: its physical start and its size.\<close>

fun alloc_all :: "layout list \<Rightarrow> block_allocator \<Rightarrow> machine \<Rightarrow> (usize \<times> usize) list" where
  "alloc_all [] h s = []"
| "alloc_all (l # ls) h s =
     (case heap_alloc l h s of
        (Ok p, h', s') \<Rightarrow>
          (if p = 0 then [] else [(virt_to_ram s p, max (layout_size l) MIN_BLOCK_SIZE)]) @ alloc_all ls h' s'
      | (_, h', s') \<Rightarrow> alloc_all ls h' s')"

definition before :: "usize \<times> usize \<Rightarrow> usize \<times> usize \<Rightarrow> bool" where
  "before x y \<longleftrightarrow> unat (fst x) + unat (snd x) \<le> unat (fst y)"

definition pristine :: "block_allocator \<Rightarrow> bool" where
  "pristine h \<longleftrightarrow> buckets h = replicate BUCKET_COUNT 0 \<and> unat (heap_end h) \<le> 2 ^ 63 \<and>
     next_free_byte h \<le> heap_end h"

lemma power_of_two_exp:
  assumes "is_power_of_two w" obtains j where "w = 2 ^ j" "j < 64"
  using assms that unfolding is_power_of_two_def list_ex_iff by auto

lemma layout_bounds:
  assumes "layout_valid sz al" shows "unat sz \<le> 2 ^ 63 \<and> unat al \<le> 2 ^ 63"
proof -
  obtain j where "al = 2 ^ j" "j < 64" using assms by (auto simp: layout_valid_def elim!: power_of_two_exp)
  moreover from \<open>j < 64\<close> have "(2::nat) ^ j \<le> 2 ^ 63" by (intro power_increasing) auto
  ultimately have "unat al \<le> 2 ^ 63" using unat_exp [of j] by simp
  then show ?thesis using assms by (auto simp: layout_valid_def)
qed

lemma bucket_index_bound:
  assumes "layout_valid (layout_size l) (layout_align l)" "target_bucket_index l = Some i"
  shows "i < BUCKET_COUNT"
proof -
  have "unat (max (layout_size l) (layout_align l)) \<le> 2 ^ 63"
    using layout_bounds [OF assms(1)] by (simp add: max_def)
  then obtain k where "next_power_of_two (max (layout_size l) (layout_align l)) = 2 ^ k" "k \<le> 63"
    by (rule next_power_of_two_spec)
  with assms(2) show ?thesis
    using target_bucket_index_exp [of l k] by (auto simp: BUCKET_COUNT_def split: if_splits)
qed

lemma pristine_alloc:
  assumes "pristine h" "heap_initialized h" "layout_valid (max (layout_size l) MIN_BLOCK_SIZE) (layout_align l)"
  defines "l' \<equiv> l\<lparr>layout_size := max (layout_size l) MIN_BLOCK_SIZE\<rparr>"
  shows "heap_alloc l h s = (case fallback_alloc s l' h of (p, h') \<Rightarrow>
    (Ok p, h', if p \<noteq> 0 then write_bytes p 0 (max (layout_size l) MIN_BLOCK_SIZE) s else s))"
proof -
  have "buckets h ! i = 0" if "target_bucket_index l' = Some i" for i
    using bucket_index_bound [of l' i] that assms by (simp add: pristine_def)
  then show ?thesis
    using assms by (auto simp: heap_alloc_def Let_def split: option.splits prod.splits)
qed

lemma fallback_alloc_bump:
  assumes "fallback_alloc s l h = (p, h')" "pristine h" "layout_valid (layout_size l) (layout_align l)"
    and "8 \<le> unat (layout_size l)"
  shows "pristine h' \<and> heap_end h' = heap_end h \<and> heap_start h' = heap_start h \<and>
    heap_initialized h' = heap_initialized h \<and> next_free_byte h \<le> next_free_byte h' \<and>
    (p \<noteq> 0 \<longrightarrow> unat (next_free_byte h) \<le> unat (virt_to_ram s p) \<and>
       unat (virt_to_ram s p) < unat (next_free_byte h) + unat (layout_align l) \<and>
       unat (layout_align l) dvd unat (virt_to_ram s p) \<and>
       unat (next_free_byte h') = unat (virt_to_ram s p) + unat (layout_size l))"
proof -
  obtain j where j: "layout_align l = 2 ^ j" "j < 64"
    using assms(3) by (auto simp: layout_valid_def elim!: power_of_two_exp)
  let ?r = "(next_free_byte h + 2 ^ j - 1) AND NOT (2 ^ j - 1)"
  have "(2::nat) ^ j \<le> 2 ^ 63" using j(2) by (intro power_increasing) auto
  then have "unat (next_free_byte h) + 2 ^ j \<le> 2 ^ 64"
    using assms(2) by (simp add: pristine_def word_le_nat_alt)
  note al = align_up [OF this j(2)]
  show ?thesis
  proof (cases "checked_add ?r (layout_size l)")
    case None
    with assms(1,2) j show ?thesis by (simp add: fallback_alloc_def Let_def)
  next
    case (Some e)
    then have e: "unat e = unat ?r + unat (layout_size l)" by (auto simp: checked_add_Some unat_add_lt)
    show ?thesis
    proof (cases "e \<le> heap_end h")
      case True
      with assms(1) Some j have "p = phys_to_virt s ?r" "h' = h\<lparr>next_free_byte := e\<rparr>"
        by (simp_all add: fallback_alloc_def Let_def)
      with assms(2) True e al j show ?thesis
        by (simp add: pristine_def word_le_nat_alt unat_exp)
    next
      case False
      with assms(1,2) Some j show ?thesis by (simp add: fallback_alloc_def Let_def)
    qed
  qed
qed

lemma alloc_all_sorted:
  assumes "pristine h" "heap_initialized h"
  shows "sorted_wrt before (alloc_all ls h s) \<and>
    (\<forall>b \<in> set (alloc_all ls h s). unat (next_free_byte h) \<le> unat (fst b) \<and>
       unat (fst b) + unat (snd b) \<le> unat (heap_end h))"
  using assms
proof (induction ls arbitrary: h s)
  case (Cons l ls)
  let ?sz = "max (layout_size l) MIN_BLOCK_SIZE"
  show ?case
  proof (cases "layout_valid ?sz (layout_align l)")
    case False
    with Cons show ?thesis by (simp add: heap_alloc_def Let_def)
  next
    case True
    obtain p h' where f: "fallback_alloc s (l\<lparr>layout_size := ?sz\<rparr>) h = (p, h')" by fastforce
    have "8 \<le> unat ?sz" by (simp add: max_def MIN_BLOCK_SIZE_def word_le_nat_alt)
    with fallback_alloc_bump [OF f Cons.prems(1)] True
    have b: "pristine h'" "heap_end h' = heap_end h" "heap_initialized h'" "next_free_byte h \<le> next_free_byte h'"
      "p \<noteq> 0 \<Longrightarrow> unat (next_free_byte h) \<le> unat (virt_to_ram s p) \<and>
        unat (next_free_byte h') = unat (virt_to_ram s p) + unat ?sz"
      using Cons.prems(2) by auto
    let ?s' = "if p \<noteq> 0 then write_bytes p 0 ?sz s else s"
    have a: "alloc_all (l # ls) h s = (if p = 0 then [] else [(virt_to_ram s p, ?sz)]) @ alloc_all ls h' ?s'"
      using pristine_alloc [OF Cons.prems True, of s] f by simp
    have "next_free_byte h' \<le> heap_end h" using b(1,2) by (simp add: pristine_def)
    with Cons.IH [OF b(1,3), of ?s'] b(2,4,5) show ?thesis
      unfolding a by (cases "p = 0") (auto simp: before_def word_le_nat_alt)
  qed
qed simp

text \<open>Until something is freed, the blocks the heap hands out lie inside the heap, one after the other,
  so no two of them overlap, whatever sizes and alignments are requested.\<close>
theorem heap_fresh_blocks_disjoint:
  assumes "unat start + unat len \<le> 2 ^ 63"
  shows "sorted_wrt before (alloc_all ls (heap_init start len heap_new) s) \<and>
    (\<forall>b \<in> set (alloc_all ls (heap_init start len heap_new) s).
       unat start \<le> unat (fst b) \<and> unat (fst b) + unat (snd b) \<le> unat start + unat len)"
proof -
  have "unat (start + len) = unat start + unat len" using assms by (intro unat_add_lt) simp
  then have "pristine (heap_init start len heap_new)"
    using assms by (simp add: pristine_def heap_init_def heap_new_def word_le_nat_alt)
  with \<open>unat (start + len) = _\<close> show ?thesis
    using alloc_all_sorted [of "heap_init start len heap_new" ls s] by (simp add: heap_init_def heap_new_def)
qed

theorem heap_fresh_blocks_disjoint_witness:
  "unat (0x200000 :: usize) + unat (0x100000 :: usize) \<le> 2 ^ 63 \<and>
   (\<forall>s. sorted_wrt before (alloc_all [\<lparr>layout_size = 24, layout_align = 8\<rparr>, \<lparr>layout_size = 5, layout_align = 16\<rparr>]
     (heap_init 0x200000 0x100000 heap_new) s))"
  using heap_fresh_blocks_disjoint [of "0x200000" "0x100000"
    "[\<lparr>layout_size = 24, layout_align = 8\<rparr>, \<lparr>layout_size = 5, layout_align = 16\<rparr>]"] by simp

section \<open>Reused blocks\<close>

lemma next_power_of_two_eq:
  assumes "2 ^ (k - 1) < unat w" "unat w \<le> 2 ^ k" "k \<le> 63" "0 < k"
  shows "next_power_of_two w = 2 ^ k"
proof -
  have "\<not> unat w \<le> 2 ^ j" if "j < k" for j
  proof -
    have "j \<le> k - 1" using that by simp
    then have "(2::nat) ^ j \<le> 2 ^ (k - 1)" by (intro power_increasing) auto
    with assms(1) show ?thesis by linarith
  qed
  with assms have "find (\<lambda>k. unat w \<le> 2 ^ k) [0..<64] = Some k" by (simp add: find_upt_Some)
  then show ?thesis by (simp add: next_power_of_two_def)
qed

lemma bucket_min:
  assumes "2 ^ (k - 1) < unat m" "3 < k" shows "8 \<le> unat m"
proof -
  have "3 \<le> k - 1" using assms(2) by simp
  then have "(2::nat) ^ 3 \<le> 2 ^ (k - 1)" by (intro power_increasing) auto
  with assms(1) show ?thesis by simp
qed

lemma small_layout:
  assumes "2 ^ (k - 1) < unat m" "unat m \<le> 2 ^ k" "3 < k" "k \<le> 11"
  shows "max m MIN_BLOCK_SIZE = m" "layout_valid m 8"
    "target_bucket_index \<lparr>layout_size = m, layout_align = 8\<rparr> = Some (k - 3)"
proof -
  have m8: "8 \<le> unat m" using bucket_min [OF assms(1,3)] .
  then have "8 \<le> m" by (simp add: word_le_nat_alt)
  then have mx: "max m 8 = m" by (simp add: max_absorb1)
  then show "max m MIN_BLOCK_SIZE = m" by (simp add: MIN_BLOCK_SIZE_def)
  have "is_power_of_two 8" unfolding is_power_of_two_def list_ex_iff by (intro bexI [of _ 3]) auto
  moreover have "(2::nat) ^ k \<le> 2 ^ 11" using assms(4) by (intro power_increasing) auto
  ultimately show "layout_valid m 8" using assms(2) by (simp add: layout_valid_def)
  show "target_bucket_index \<lparr>layout_size = m, layout_align = 8\<rparr> = Some (k - 3)"
    using target_bucket_index_exp [of "\<lparr>layout_size = m, layout_align = 8\<rparr>" k]
      next_power_of_two_eq [OF assms(1,2)] assms(3,4) by (simp add: mx)
qed

lemma dealloc_small:
  assumes "2 ^ (k - 1) < unat m" "unat m \<le> 2 ^ k" "3 < k" "k \<le> 11" "p \<noteq> 0"
  shows "heap_dealloc p \<lparr>layout_size = m, layout_align = 8\<rparr> h s =
    (Ok (), h\<lparr>buckets := (buckets h)[k - 3 := p]\<rparr>, write_u64 p (buckets h ! (k - 3)) s)"
  using small_layout [OF assms(1-4)] assms(5) by (simp add: heap_dealloc_def Let_def)

lemma alloc_small_reused:
  assumes "2 ^ (k - 1) < unat m" "unat m \<le> 2 ^ k" "3 < k" "k \<le> 11" "buckets h ! (k - 3) = p" "p \<noteq> 0" "heap_initialized h"
  shows "heap_alloc \<lparr>layout_size = m, layout_align = 8\<rparr> h s =
    (Ok p, h\<lparr>buckets := (buckets h)[k - 3 := read_u64 s p]\<rparr>, write_bytes p 0 m s)"
  using small_layout [OF assms(1-4)] assms(5-7) by (simp add: heap_alloc_def Let_def)

lemma ram_heap_fill: "virt_to_ram s q - virt_to_ram s p < n \<Longrightarrow> ram (write_bytes p v n s) (virt_to_ram s q) = v"
  by (simp add: write_bytes_def fill_def)

lemma same_linear_map: "target s' = target s \<Longrightarrow> hhdm s' = hhdm s \<Longrightarrow> virt_to_ram s' = virt_to_ram s"
  by (auto simp: virt_to_ram_def fun_eq_iff split: target_arch.split)

text \<open>C36: The bump allocator reserves exactly the requested bytes, but a freed block enters the free list of the next
  power of two. Two blocks of \<open>n\<close> bytes are allocated, the first is freed, and a block of \<open>2 ^ k\<close> bytes is
  requested, where \<open>n + 8 \<le> 2 ^ k\<close>: the heap returns the first block's address, and zeroing the new block
  destroys the start of the second one, which is still in use.\<close>
theorem heap_reuse_overwrites_live_block:
  assumes h: "pristine h" "heap_initialized h"
    and n: "2 ^ (k - 1) < unat n" "unat n + 8 \<le> 2 ^ k" "3 < k" "k \<le> 11"
    and a1: "heap_alloc \<lparr>layout_size = n, layout_align = 8\<rparr> h s = (Ok p, h1, s1)" "p \<noteq> 0"
    and a2: "heap_alloc \<lparr>layout_size = n, layout_align = 8\<rparr> h1 s1 = (Ok q, h2, s2)" "q \<noteq> 0"
    and s3: "target s3 = target s" "hhdm s3 = hhdm s"
    and d: "heap_dealloc p \<lparr>layout_size = n, layout_align = 8\<rparr> h2 s3 = (Ok (), h4, s4)"
    and a3: "heap_alloc \<lparr>layout_size = 2 ^ k, layout_align = 8\<rparr> h4 s4 = (Ok r, h5, s5)"
  shows "r = p \<and> q \<noteq> p \<and> ram s5 (virt_to_ram s q) = 0"
proof -
  let ?l = "\<lparr>layout_size = n, layout_align = 8\<rparr>"
  have n2: "unat n \<le> 2 ^ k" using n(2) by simp
  note sm = small_layout [OF n(1) n2 n(3,4)]
  have n8: "8 \<le> unat n" using bucket_min [OF n(1,3)] .
  have f1: "fallback_alloc s ?l h = (p, h1)" "virt_to_ram s1 = virt_to_ram s"
    using pristine_alloc [OF h, of ?l s] sm(1,2) a1
    by (auto simp: write_bytes_def split: prod.splits)
  have b1: "pristine h1" "heap_initialized h1" "unat (next_free_byte h1) = unat (virt_to_ram s p) + unat n"
    using fallback_alloc_bump [OF f1(1) h(1)] sm(2) n8 h(2) a1(2) by auto
  have f2: "fallback_alloc s1 ?l h1 = (q, h2)"
    using pristine_alloc [OF b1(1,2), of ?l s1] sm(1,2) a2(1) by (auto split: prod.splits)
  have b2: "pristine h2" "heap_initialized h2" "unat (virt_to_ram s p) + unat n \<le> unat (virt_to_ram s q)"
    "unat (virt_to_ram s q) < unat (virt_to_ram s p) + unat n + 8"
    using fallback_alloc_bump [OF f2 b1(1)] sm(2) n8 b1(2,3) a2(2) f1(2) by auto
  have k: "unat (2 ^ k :: usize) = 2 ^ k" "2 ^ (k - 1) < unat (2 ^ k :: usize)"
    using unat_exp [of k] n(3,4) by simp_all
  have "unat (virt_to_ram s q - virt_to_ram s p) < unat (2 ^ k :: usize)"
    using b2(3,4) n(2) by (subst unat_sub) (simp_all add: word_le_nat_alt k(1))
  then have "virt_to_ram s q - virt_to_ram s p < 2 ^ k" by (simp add: word_less_nat_alt)
  moreover have "h4 = h2\<lparr>buckets := (buckets h2)[k - 3 := p]\<rparr>" "virt_to_ram s4 = virt_to_ram s"
    using d dealloc_small [OF n(1) n2 n(3,4) a1(2), of h2 s3] same_linear_map [OF s3] by (auto simp: write_u64_def)
  moreover from this(1) have "buckets h4 ! (k - 3) = p" "heap_initialized h4"
    using b2(1,2) n(4) by (simp_all add: pristine_def BUCKET_COUNT_def)
  then have "r = p" "s5 = write_bytes p 0 (2 ^ k) s4"
    using a3 alloc_small_reused [OF k(2) _ n(3,4) _ a1(2), of h4 s4] k(1) by auto
  moreover have "q \<noteq> p" using b2(3) n8 by auto
  ultimately show ?thesis using ram_heap_fill [of s4 q p "2 ^ k" 0] by simp
qed


text \<open>A machine and a heap of 1 MiB for the scenario with \<open>n = 24\<close>.\<close>

definition heap_machine :: machine where
  "heap_machine = \<lparr>target = AArch64, hhdm = 0, ram = (\<lambda>_. 0xFF), pmm = bitmap_new 1, cr3 = 0, ttbr1 = 0, kernel_root = 0\<rparr>"

definition demo_heap :: block_allocator where
  "demo_heap = heap_init 0x200000 0x100000 heap_new"

lemma demo_pristine: "pristine (demo_heap\<lparr>next_free_byte := b\<rparr>) \<longleftrightarrow> b \<le> 0x300000"
  by (simp add: pristine_def demo_heap_def heap_init_def heap_new_def)

lemma demo_alloc:
  assumes "target s = AArch64" "b = 0x200000 \<or> b = 0x200018"
  shows "heap_alloc \<lparr>layout_size = 24, layout_align = 8\<rparr> (demo_heap\<lparr>next_free_byte := b\<rparr>) s =
    (Ok b, demo_heap\<lparr>next_free_byte := b + 24\<rparr>, write_bytes b 0 24 s)"
proof -
  have b: "b \<le> 0x300000" "b \<noteq> 0" "(b + 8 - 1) AND NOT (8 - 1) = b" "checked_add b 24 = Some (b + 24)" "b + 24 \<le> 0x300000"
    using assms(2) by (auto simp: checked_add_def)
  have "heap_initialized demo_heap" "heap_end demo_heap = 0x300000" by (simp_all add: demo_heap_def heap_init_def)
  then show ?thesis
    using pristine_alloc [of "demo_heap\<lparr>next_free_byte := b\<rparr>" "\<lparr>layout_size = 24, layout_align = 8\<rparr>" s]
      small_layout [of 5 24] b assms(1)
    by (simp add: demo_pristine fallback_alloc_def Let_def phys_to_virt_def)
qed

theorem heap_reuse_witness:
  "\<exists>h4 s4 h5 s5.
     heap_dealloc 0x200000 \<lparr>layout_size = 24, layout_align = 8\<rparr> (demo_heap\<lparr>next_free_byte := 0x200030\<rparr>) heap_machine = (Ok (), h4, s4) \<and>
     heap_alloc \<lparr>layout_size = 32, layout_align = 8\<rparr> h4 s4 = (Ok 0x200000, h5, s5) \<and>
     ram heap_machine 0x200018 = 0xFF \<and> ram s5 0x200018 = 0"
proof -
  define s1 where "s1 = write_bytes 0x200000 0 24 heap_machine"
  define h4 where "h4 = demo_heap\<lparr>next_free_byte := 0x200030, buckets := (buckets demo_heap)[2 := 0x200000]\<rparr>"
  define s4 where "s4 = write_u64 0x200000 0 heap_machine"
  have t: "target heap_machine = AArch64" "target s1 = AArch64" by (simp_all add: s1_def write_bytes_def heap_machine_def)
  have h: "pristine demo_heap" "heap_initialized demo_heap" "demo_heap\<lparr>next_free_byte := 0x200000\<rparr> = demo_heap"
    by (simp_all add: pristine_def demo_heap_def heap_init_def heap_new_def)
  have a1: "heap_alloc \<lparr>layout_size = 24, layout_align = 8\<rparr> demo_heap heap_machine = (Ok 0x200000, demo_heap\<lparr>next_free_byte := 0x200018\<rparr>, s1)"
    using demo_alloc [OF t(1), of "0x200000"] h(3) by (simp add: s1_def)
  have a2: "heap_alloc \<lparr>layout_size = 24, layout_align = 8\<rparr> (demo_heap\<lparr>next_free_byte := 0x200018\<rparr>) s1 =
      (Ok 0x200018, demo_heap\<lparr>next_free_byte := 0x200030\<rparr>, write_bytes 0x200018 0 24 s1)"
    using demo_alloc [OF t(2), of "0x200018"] by simp
  have d: "heap_dealloc 0x200000 \<lparr>layout_size = 24, layout_align = 8\<rparr> (demo_heap\<lparr>next_free_byte := 0x200030\<rparr>) heap_machine = (Ok (), h4, s4)"
    using dealloc_small [of 5 24 "0x200000" "demo_heap\<lparr>next_free_byte := 0x200030\<rparr>" heap_machine]
    by (simp add: h4_def s4_def) (simp add: demo_heap_def heap_init_def heap_new_def BUCKET_COUNT_def)
  obtain h5 s5 where a3: "heap_alloc \<lparr>layout_size = 2 ^ 5, layout_align = 8\<rparr> h4 s4 = (Ok 0x200000, h5, s5)"
    using alloc_small_reused [of 5 32 h4 "0x200000" s4] by (simp add: h4_def demo_heap_def heap_init_def heap_new_def BUCKET_COUNT_def)
  have "ram s5 (virt_to_ram heap_machine 0x200018) = 0"
    using heap_reuse_overwrites_live_block [OF h(1,2) _ _ _ _ a1 _ a2 _ refl refl d a3] by simp
  then show ?thesis using d a3 t(1) by (simp add: virt_to_ram_def) (simp add: heap_machine_def)
qed

end
