(* ===== verification/Madt.thy ===== *)
theory Madt
  imports PhysMem
begin

text \<open>
  The parser of the ACPI interrupt-controller table (\<^verbatim>\<open>hal/madt.rs\<close>): a walk with a cursor over
  variable-length entries in memory, collecting processors, I/O APICs and interrupt overrides into
  fixed arrays. The cursor is a 64-bit address; the walk may in principle not end, so it is a
  \<open>partial_function\<close>. The log lines are left out.
\<close>

section \<open>Data\<close>

definition MAX_CPUS :: nat where "MAX_CPUS = 64"
definition MAX_IOAPICS :: nat where "MAX_IOAPICS = 8"
definition MAX_ISOS :: nat where "MAX_ISOS = 24"

datatype Polarity = PolarityConforms | ActiveHigh | ActiveLow
datatype TriggerMode = TriggerConforms | Edge | Level

definition decode_mps_flags :: "u16 \<Rightarrow> Polarity \<times> TriggerMode" where
  "decode_mps_flags flags =
     (let p = flags AND 0x3; t = drop_bit 2 flags AND 0x3
      in (if p = 1 then ActiveHigh else if p = 3 then ActiveLow else PolarityConforms,
          if t = 1 then Edge else if t = 3 then Level else TriggerConforms))"

record ProcessorLocalApic =
  acpi_processor_id :: u8
  apic_id :: u32
  enabled :: bool
  online_capable :: bool

record IoApicInfo =
  io_id :: u8
  io_address :: u32
  gsi_base :: u32

record InterruptSourceOverride =
  iso_bus :: u8
  source_irq :: u8
  iso_gsi :: u32
  polarity :: Polarity
  trigger :: TriggerMode

record MadtData =
  found :: bool
  local_apic_address :: u64
  legacy_pic_present :: bool
  cpus :: "ProcessorLocalApic list"
  cpu_count :: nat
  ioapics :: "IoApicInfo list"
  ioapic_count :: nat
  isos :: "InterruptSourceOverride list"
  iso_count :: nat

definition madt_empty :: MadtData where
  "madt_empty =
     \<lparr>found = False, local_apic_address = 0, legacy_pic_present = False,
      cpus = replicate MAX_CPUS \<lparr>acpi_processor_id = 0, apic_id = 0, enabled = False, online_capable = False\<rparr>, cpu_count = 0,
      ioapics = replicate MAX_IOAPICS \<lparr>io_id = 0, io_address = 0, gsi_base = 0\<rparr>, ioapic_count = 0,
      isos = replicate MAX_ISOS \<lparr>iso_bus = 0, source_irq = 0, iso_gsi = 0, polarity = PolarityConforms, trigger = TriggerConforms\<rparr>,
      iso_count = 0\<rparr>"

definition iso_for_irq :: "u8 \<Rightarrow> MadtData \<Rightarrow> InterruptSourceOverride option" where
  "iso_for_irq irq data = find (\<lambda>iso. iso_bus iso = 0 \<and> source_irq iso = irq) (take (iso_count data) (isos data))"

section \<open>The walk\<close>

definition push_cpu :: "ProcessorLocalApic \<Rightarrow> MadtData \<Rightarrow> MadtData" where
  "push_cpu c data =
     (if \<not> enabled c \<and> \<not> online_capable c then data
      else if MAX_CPUS \<le> cpu_count data then data
      else data\<lparr>cpus := (cpus data)[cpu_count data := c], cpu_count := cpu_count data + 1\<rparr>)"

definition push_ioapic :: "IoApicInfo \<Rightarrow> MadtData \<Rightarrow> MadtData" where
  "push_ioapic i data =
     (if ioapic_count data < MAX_IOAPICS
      then data\<lparr>ioapics := (ioapics data)[ioapic_count data := i], ioapic_count := ioapic_count data + 1\<rparr> else data)"

definition push_iso :: "InterruptSourceOverride \<Rightarrow> MadtData \<Rightarrow> MadtData" where
  "push_iso i data =
     (if iso_count data < MAX_ISOS
      then data\<lparr>isos := (isos data)[iso_count data := i], iso_count := iso_count data + 1\<rparr> else data)"

text \<open>One entry at the cursor; \<open>at n k\<close> are the \<open>k\<close> bytes at offset \<open>n\<close>.\<close>

definition madt_entry :: "u8 \<Rightarrow> nat \<Rightarrow> (nat \<Rightarrow> nat \<Rightarrow> bytes) \<Rightarrow> MadtData \<Rightarrow> MadtData" where
  "madt_entry entry_type entry_length at data =
     (if entry_type = 0 then
        (if 8 \<le> entry_length then
           let pflags = u32_le (at 4 4)
           in push_cpu \<lparr>acpi_processor_id = at 2 1 ! 0, apic_id = ucast (at 3 1 ! 0), enabled = (pflags AND 1 \<noteq> 0),
                        online_capable = (pflags AND 2 \<noteq> 0)\<rparr> data
         else data)
      else if entry_type = 1 then
        (if 12 \<le> entry_length
         then push_ioapic \<lparr>io_id = at 2 1 ! 0, io_address = u32_le (at 4 4), gsi_base = u32_le (at 8 4)\<rparr> data else data)
      else if entry_type = 2 then
        (if 10 \<le> entry_length then
           let (p, t) = decode_mps_flags (u16_le (at 8 2))
           in push_iso \<lparr>iso_bus = at 2 1 ! 0, source_irq = at 3 1 ! 0, iso_gsi = u32_le (at 4 4), polarity = p, trigger = t\<rparr> data
         else data)
      else if entry_type = 5 then
        (if 12 \<le> entry_length then data\<lparr>local_apic_address := u64_le (at 4 8)\<rparr> else data)
      else if entry_type = 9 then
        (if 16 \<le> entry_length then
           let pflags = u32_le (at 8 4)
           in push_cpu \<lparr>acpi_processor_id = ucast (u32_le (at 12 4)), apic_id = u32_le (at 4 4), enabled = (pflags AND 1 \<noteq> 0),
                        online_capable = (pflags AND 2 \<noteq> 0)\<rparr> data
         else data)
      else data)"

partial_function (option) madt_walk :: "machine \<Rightarrow> usize \<Rightarrow> usize \<Rightarrow> MadtData \<Rightarrow> MadtData option" where
  "madt_walk s cursor entries_end data =
     (if \<not> cursor + 2 \<le> entries_end then Some data
      else let entry_type = read_bytes s cursor 1 ! 0;
               entry_length = ucast (read_bytes s (cursor + 1) 1 ! 0) :: usize
      in if entry_length < 2 \<or> entries_end < cursor + entry_length then Some data
         else madt_walk s (cursor + entry_length) entries_end
                (madt_entry entry_type (unat entry_length) (\<lambda>n k. read_bytes s (cursor + word_of_nat n) k) data))"

text \<open>\<open>madt0\<close> is the value of the global before the call. The fixed header is 44 bytes.\<close>

definition madt_parse :: "machine \<Rightarrow> usize \<Rightarrow> usize \<Rightarrow> MadtData \<Rightarrow> MadtData option" where
  "madt_parse s table_virt len madt0 =
     (if unat len < 44 then Some madt0
      else let data = madt_empty\<lparr>found := True, local_apic_address := ucast (u32_le (read_bytes s (table_virt + 36) 4)),
                 legacy_pic_present := (u32_le (read_bytes s (table_virt + 40) 4) AND 1 \<noteq> 0)\<rparr>
      in madt_walk s (table_virt + 44) (table_virt + len) data)"

section \<open>The entries of a table as a list\<close>

function madt_entries :: "bytes \<Rightarrow> (u8 \<times> bytes) list" where
  "madt_entries bs =
     (if length bs < 2 then []
      else let l = unat (bs ! 1)
      in if l < 2 \<or> length bs < l then [] else (bs ! 0, take l bs) # madt_entries (drop l bs))"
  by pat_completeness auto
termination
  by (relation "measure length") auto

declare madt_entries.simps [simp del]

definition add_entry :: "u8 \<times> bytes \<Rightarrow> MadtData \<Rightarrow> MadtData" where
  "add_entry e data = madt_entry (fst e) (length (snd e)) (\<lambda>n k. take k (drop n (snd e))) data"

lemma read_bytes_slice:
  "n + k \<le> m \<Longrightarrow> take k (drop n (read_bytes s p m)) = read_bytes s (p + word_of_nat n) k"
proof (rule nth_equalityI)
  assume "n + k \<le> m"
  then show "length (take k (drop n (read_bytes s p m))) = length (read_bytes s (p + word_of_nat n) k)"
    by (simp add: read_bytes_def)
  fix i assume "i < length (take k (drop n (read_bytes s p m)))"
  with \<open>n + k \<le> m\<close> show "take k (drop n (read_bytes s p m)) ! i = read_bytes s (p + word_of_nat n) k ! i"
    by (simp add: read_bytes_def virt_to_ram_def algebra_simps split: target_arch.split)
qed

lemma madt_entry_local:
  assumes "\<And>n k. n + k \<le> l \<Longrightarrow> at n k = at' n k"
  shows "madt_entry ty l at data = madt_entry ty l at' data"
  using assms by (auto simp: madt_entry_def Let_def)

lemma length_read_bytes [simp]: "length (read_bytes s p n) = n"
  by (simp add: read_bytes_def)

lemma madt_entry_slice:
  assumes "l \<le> m"
  shows "madt_entry ty l (\<lambda>n k. read_bytes s (p + word_of_nat n) k) data = add_entry (ty, take l (read_bytes s p m)) data"
  unfolding add_entry_def fst_conv snd_conv
  using assms by (simp only: length_take length_read_bytes min_absorb2)
    (rule madt_entry_local, simp add: min_absorb2 flip: read_bytes_slice [of _ _ m], simp add: drop_take)

lemma madt_walk_entries:
  assumes "unat cursor + m < 2 ^ 64 - 256"
  shows "madt_walk s cursor (cursor + word_of_nat m) data = Some (fold add_entry (madt_entries (read_bytes s cursor m)) data)"
  using assms
proof (induction m arbitrary: cursor data rule: less_induct)
  case (less m)
  let ?e = "cursor + word_of_nat m" and ?bs = "read_bytes s cursor m"
  have ue: "unat ?e = unat cursor + m"
    using less.prems by (subst unat_add_lt) (simp_all add: unat_of_nat take_bit_nat_eq_self)
  have u2: "unat (cursor + 2) = unat cursor + 2" using less.prems by (subst unat_add_lt) simp_all
  show ?case
  proof (cases "m < 2")
    case True
    then show ?thesis
      by (subst madt_walk.simps, subst madt_entries.simps) (simp add: word_le_nat_alt ue u2)
  next
    case long: False
    define l where "l = unat (?bs ! 1)"
    have l256: "l < 256" using unsigned_less [of "?bs ! 1", where ?'a = nat] by (simp add: l_def)
    have r: "read_bytes s cursor 1 ! 0 = ?bs ! 0" "read_bytes s (cursor + 1) 1 ! 0 = ?bs ! 1"
      using long by (simp_all flip: read_bytes_slice [of 0 1 m s cursor, simplified] read_bytes_slice [of 1 1 m s cursor, simplified])
    have w: "(ucast (?bs ! 1) :: usize) = word_of_nat l" by (simp add: l_def)
    have ul: "unat (word_of_nat l :: usize) = l" using l256 by (simp add: unat_of_nat take_bit_nat_eq_self)
    have uc: "unat (cursor + word_of_nat l) = unat cursor + l"
      using less.prems l256 by (subst unat_add_lt) (simp_all add: ul)
    show ?thesis
    proof (cases "l < 2 \<or> m < l")
      case True
      then show ?thesis using long
        by (subst madt_walk.simps, subst madt_entries.simps)
          (simp add: word_le_nat_alt word_less_nat_alt ue u2 r w ul uc Let_def del: One_nat_def flip: l_def)
    next
      case False
      have ih: "madt_walk s (cursor + word_of_nat l) ?e d
          = Some (fold add_entry (madt_entries (read_bytes s (cursor + word_of_nat l) (m - l))) d)" for d
      proof -
        have "cursor + word_of_nat l + word_of_nat (m - l) = ?e"
          using False by (simp add: of_nat_diff)
        with less.IH [of "m - l" "cursor + word_of_nat l" d] show ?thesis
          using False less.prems uc by simp
      qed
      have "drop l ?bs = read_bytes s (cursor + word_of_nat l) (m - l)"
        using False read_bytes_slice [of l "m - l" m s cursor] by simp
      with False long show ?thesis
        by (subst madt_walk.simps, subst madt_entries.simps)
          (simp add: word_le_nat_alt word_less_nat_alt ue u2 r w ul uc Let_def ih madt_entry_slice [of l m] del: One_nat_def flip: l_def)
    qed
  qed
qed

section \<open>What a table says\<close>

text \<open>
  The reference reading of one entry, straight from the layout of its type. A processor counts when
  it is enabled or may be brought online later.
\<close>

definition byte_at :: "bytes \<Rightarrow> nat \<Rightarrow> u8" where "byte_at bs i = bs ! i"

definition u32_at :: "bytes \<Rightarrow> nat \<Rightarrow> u32" where "u32_at bs i = u32_le (take 4 (drop i bs))"

definition cpu_record :: "u8 \<Rightarrow> u32 \<Rightarrow> u32 \<Rightarrow> ProcessorLocalApic option" where
  "cpu_record pid aid flags =
     (if flags AND 3 = 0 then None
      else Some \<lparr>acpi_processor_id = pid, apic_id = aid, enabled = bit flags 0, online_capable = bit flags 1\<rparr>)"

definition cpu_entry :: "u8 \<times> bytes \<Rightarrow> ProcessorLocalApic option" where
  "cpu_entry e = (case e of (ty, bs) \<Rightarrow>
     if ty = 0 \<and> 8 \<le> length bs then cpu_record (byte_at bs 2) (ucast (byte_at bs 3)) (u32_at bs 4)
     else if ty = 9 \<and> 16 \<le> length bs then cpu_record (ucast (u32_at bs 12)) (u32_at bs 4) (u32_at bs 8)
     else None)"

definition ioapic_entry :: "u8 \<times> bytes \<Rightarrow> IoApicInfo option" where
  "ioapic_entry e = (case e of (ty, bs) \<Rightarrow>
     if ty = 1 \<and> 12 \<le> length bs then Some \<lparr>io_id = byte_at bs 2, io_address = u32_at bs 4, gsi_base = u32_at bs 8\<rparr> else None)"

definition iso_entry :: "u8 \<times> bytes \<Rightarrow> InterruptSourceOverride option" where
  "iso_entry e = (case e of (ty, bs) \<Rightarrow>
     if ty = 2 \<and> 10 \<le> length bs
     then Some \<lparr>iso_bus = byte_at bs 2, source_irq = byte_at bs 3, iso_gsi = u32_at bs 4,
                polarity = fst (decode_mps_flags (u16_le (take 2 (drop 8 bs)))),
                trigger = snd (decode_mps_flags (u16_le (take 2 (drop 8 bs))))\<rparr>
     else None)"

definition known_cpus :: "MadtData \<Rightarrow> ProcessorLocalApic list" where
  "known_cpus data = take (cpu_count data) (cpus data)"

definition known_ioapics :: "MadtData \<Rightarrow> IoApicInfo list" where
  "known_ioapics data = take (ioapic_count data) (ioapics data)"

definition known_isos :: "MadtData \<Rightarrow> InterruptSourceOverride list" where
  "known_isos data = take (iso_count data) (isos data)"

text \<open>The arrays keep their sizes and every count stays within its array.\<close>

definition madt_ok :: "MadtData \<Rightarrow> bool" where
  "madt_ok data \<longleftrightarrow>
     length (cpus data) = MAX_CPUS \<and> cpu_count data \<le> MAX_CPUS \<and>
     length (ioapics data) = MAX_IOAPICS \<and> ioapic_count data \<le> MAX_IOAPICS \<and>
     length (isos data) = MAX_ISOS \<and> iso_count data \<le> MAX_ISOS"

lemma known_empty [simp]:
  "known_cpus (madt_empty\<lparr>found := f, local_apic_address := a, legacy_pic_present := l\<rparr>) = []"
  "known_ioapics (madt_empty\<lparr>found := f, local_apic_address := a, legacy_pic_present := l\<rparr>) = []"
  "known_isos (madt_empty\<lparr>found := f, local_apic_address := a, legacy_pic_present := l\<rparr>) = []"
  by (simp_all add: known_cpus_def known_ioapics_def known_isos_def madt_empty_def)

lemma take_Suc_update: "n < length xs \<Longrightarrow> take (Suc n) (xs[n := x]) = take n xs @ [x]"
  by (simp add: take_Suc_conv_app_nth)

lemma madt_ok_empty: "madt_ok (madt_empty\<lparr>found := f, local_apic_address := a, legacy_pic_present := l\<rparr>)"
  by (simp add: madt_ok_def madt_empty_def)

lemma push_cpu_known:
  assumes "madt_ok data" "enabled c \<or> online_capable c"
  shows "madt_ok (push_cpu c data)" "known_cpus (push_cpu c data) = take MAX_CPUS (known_cpus data @ [c])"
    "known_ioapics (push_cpu c data) = known_ioapics data" "known_isos (push_cpu c data) = known_isos data"
  using assms by (auto simp: push_cpu_def madt_ok_def known_cpus_def known_ioapics_def known_isos_def take_Suc_update)

lemma push_ioapic_known:
  assumes "madt_ok data"
  shows "madt_ok (push_ioapic i data)" "known_ioapics (push_ioapic i data) = take MAX_IOAPICS (known_ioapics data @ [i])"
    "known_cpus (push_ioapic i data) = known_cpus data" "known_isos (push_ioapic i data) = known_isos data"
  using assms by (auto simp: push_ioapic_def madt_ok_def known_cpus_def known_ioapics_def known_isos_def take_Suc_update)

lemma push_iso_known:
  assumes "madt_ok data"
  shows "madt_ok (push_iso i data)" "known_isos (push_iso i data) = take MAX_ISOS (known_isos data @ [i])"
    "known_cpus (push_iso i data) = known_cpus data" "known_ioapics (push_iso i data) = known_ioapics data"
  using assms by (auto simp: push_iso_def madt_ok_def known_cpus_def known_ioapics_def known_isos_def take_Suc_update)

lemma known_within:
  assumes "madt_ok data"
  shows "take MAX_CPUS (known_cpus data) = known_cpus data"
    "take MAX_IOAPICS (known_ioapics data) = known_ioapics data" "take MAX_ISOS (known_isos data) = known_isos data"
  using assms by (auto simp: madt_ok_def known_cpus_def known_ioapics_def known_isos_def)

definition opt_list :: "'a option \<Rightarrow> 'a list" where
  "opt_list x = (case x of None \<Rightarrow> [] | Some a \<Rightarrow> [a])"

lemma take_slice_nth: "i < length bs \<Longrightarrow> take (Suc 0) (drop i bs) ! 0 = bs ! i"
  by (simp add: nth_take)

lemma flag_bits: "(w :: u32) AND 1 \<noteq> 0 \<longleftrightarrow> bit w 0" "w AND 2 \<noteq> 0 \<longleftrightarrow> bit w 1"
  "w AND 3 = 0 \<longleftrightarrow> \<not> bit w 0 \<and> \<not> bit w 1"
proof -
  have mask: "w AND push_bit n 1 \<noteq> 0 \<longleftrightarrow> bit w n" for n
    by (auto simp: bit_iff_and_push_bit_not_eq_0)
  show a: "w AND 1 \<noteq> 0 \<longleftrightarrow> bit w 0" using mask [of 0] by simp
  show b: "w AND 2 \<noteq> 0 \<longleftrightarrow> bit w 1" using mask [of 1] by simp
  have "w AND 3 = (w AND 1) OR (w AND 2)" by (simp flip: bit.conj_disj_distrib)
  then show "w AND 3 = 0 \<longleftrightarrow> \<not> bit w 0 \<and> \<not> bit w 1" using a b by (auto simp: or_eq_0_iff)
qed

lemma known_apic_address [simp]:
  "known_cpus (data\<lparr>local_apic_address := a\<rparr>) = known_cpus data"
  "known_ioapics (data\<lparr>local_apic_address := a\<rparr>) = known_ioapics data"
  "known_isos (data\<lparr>local_apic_address := a\<rparr>) = known_isos data"
  "madt_ok (data\<lparr>local_apic_address := a\<rparr>) = madt_ok data"
  by (simp_all add: known_cpus_def known_ioapics_def known_isos_def madt_ok_def)

lemma push_cpu_record:
  assumes "madt_ok data"
  defines "c \<equiv> \<lambda>pid aid flags. \<lparr>acpi_processor_id = pid, apic_id = aid, enabled = bit (flags :: u32) 0, online_capable = bit flags 1\<rparr>"
  shows "madt_ok (push_cpu (c pid aid flags) data)"
    "known_cpus (push_cpu (c pid aid flags) data) = take MAX_CPUS (known_cpus data @ opt_list (cpu_record pid aid flags))"
    "known_ioapics (push_cpu (c pid aid flags) data) = known_ioapics data"
    "known_isos (push_cpu (c pid aid flags) data) = known_isos data"
proof -
  have none: "cpu_record pid aid flags = None \<longleftrightarrow> \<not> enabled (c pid aid flags) \<and> \<not> online_capable (c pid aid flags)"
    by (simp add: cpu_record_def flag_bits c_def)
  have some: "cpu_record pid aid flags \<noteq> None \<Longrightarrow> cpu_record pid aid flags = Some (c pid aid flags)"
    by (simp add: cpu_record_def c_def split: if_splits)
  consider "cpu_record pid aid flags = None" "push_cpu (c pid aid flags) data = data"
    | "cpu_record pid aid flags = Some (c pid aid flags)" "enabled (c pid aid flags) \<or> online_capable (c pid aid flags)"
    using none some by (cases "cpu_record pid aid flags = None") (simp_all add: push_cpu_def)
  then show "madt_ok (push_cpu (c pid aid flags) data)"
    "known_cpus (push_cpu (c pid aid flags) data) = take MAX_CPUS (known_cpus data @ opt_list (cpu_record pid aid flags))"
    "known_ioapics (push_cpu (c pid aid flags) data) = known_ioapics data"
    "known_isos (push_cpu (c pid aid flags) data) = known_isos data"
    by (cases; simp add: push_cpu_known [OF assms(1)] known_within [OF assms(1)] opt_list_def assms(1))+
qed

lemma add_entry_known:
  assumes "madt_ok data"
  shows "madt_ok (add_entry e data) \<and>
    known_cpus (add_entry e data) = take MAX_CPUS (known_cpus data @ opt_list (cpu_entry e)) \<and>
    known_ioapics (add_entry e data) = take MAX_IOAPICS (known_ioapics data @ opt_list (ioapic_entry e)) \<and>
    known_isos (add_entry e data) = take MAX_ISOS (known_isos data @ opt_list (iso_entry e))"
proof (cases e)
  case (Pair ty bs)
  note defs = add_entry_def madt_entry_def cpu_entry_def ioapic_entry_def iso_entry_def Pair byte_at_def u32_at_def
    Let_def flag_bits take_slice_nth split_beta
  note facts = assms push_cpu_record [unfolded One_nat_def] push_ioapic_known push_iso_known known_within opt_list_def
  consider "ty = 0" | "ty = 1" | "ty = 2" | "ty = 5" | "ty = 9" | "ty \<notin> {0, 1, 2, 5, 9}" by blast
  then show ?thesis by cases (simp_all add: defs facts)
qed

lemma map_filter_Cons: "List.map_filter f (x # xs) = opt_list (f x) @ List.map_filter f xs"
  by (simp add: opt_list_def split: option.split)

lemma fold_add_entry_known:
  assumes "madt_ok data"
  shows "madt_ok (fold add_entry es data) \<and>
    known_cpus (fold add_entry es data) = take MAX_CPUS (known_cpus data @ List.map_filter cpu_entry es) \<and>
    known_ioapics (fold add_entry es data) = take MAX_IOAPICS (known_ioapics data @ List.map_filter ioapic_entry es) \<and>
    known_isos (fold add_entry es data) = take MAX_ISOS (known_isos data @ List.map_filter iso_entry es)"
  using assms
proof (induction es arbitrary: data)
  case Nil
  then show ?case by (simp add: known_within)
next
  case (Cons e es)
  have absorb: "take n (take n (xs @ ys) @ zs) = take n (xs @ ys @ zs)" for n and xs ys zs :: "'z list"
    by (simp flip: append_assoc) (simp add: take_append [of n "xs @ ys"] min_def)
  note step = add_entry_known [OF Cons.prems, of e]
  show ?case
    using Cons.IH [of "add_entry e data"] step by (simp only: fold_Cons o_apply map_filter_Cons absorb)
qed

end
