(* ===== verification/Device.thy ===== *)
theory Device
  imports Prelude
begin

text \<open>
  Memory-mapped and port-mapped devices. A device is a parameter of the drivers that use it: a function
  giving the value a register read returns after a history of accesses. The history records every
  access the driver makes, most recent first, and is the state a driver threads through; so a
  statement about a history is a statement about what the hardware sees.
\<close>

section \<open>Accesses\<close>

datatype access = Rd usize u64 | Wr usize u64

type_synonym history = "access list"

type_synonym device = "history \<Rightarrow> usize \<Rightarrow> u64"

definition dev_read :: "device \<Rightarrow> usize \<Rightarrow> history \<Rightarrow> u64 \<times> history" where
  "dev_read dev r h = (dev h r, Rd r (dev h r) # h)"

definition dev_write :: "usize \<Rightarrow> u64 \<Rightarrow> history \<Rightarrow> history" where
  "dev_write r v h = Wr r v # h"

fun dev_writes :: "(usize \<times> u64) list \<Rightarrow> history \<Rightarrow> history" where
  "dev_writes [] h = h"
| "dev_writes ((r, v) # ws) h = dev_writes ws (dev_write r v h)"

text \<open>The values written to one register, oldest first.\<close>

definition written :: "usize \<Rightarrow> history \<Rightarrow> u64 list" where
  "written r h = rev (List.map_filter (\<lambda>a. case a of Wr q v \<Rightarrow> if q = r then Some v else None | Rd q v \<Rightarrow> None) h)"

lemma written_simps [simp]:
  "written r [] = []"
  "written r (Rd q v # h) = written r h"
  "written r (Wr q v # h) = written r h @ (if q = r then [v] else [])"
  by (simp_all add: written_def map_filter_simps)

section \<open>Polling\<close>

text \<open>\<open>while read(r) & mask ... {}\<close>: read a register until its value no longer satisfies \<open>busy\<close>. The loop has
  no bound, so it may not return.\<close>

partial_function (option) poll_while :: "device \<Rightarrow> usize \<Rightarrow> (u64 \<Rightarrow> bool) \<Rightarrow> history \<Rightarrow> history option" where
  "poll_while dev r busy h =
     (case dev_read dev r h of (v, h) \<Rightarrow> if busy v then poll_while dev r busy h else Some h)"

text \<open>The same loop with a bound on the number of reads: \<open>None\<close> reports that the bound was reached.\<close>

fun poll_bounded :: "nat \<Rightarrow> device \<Rightarrow> usize \<Rightarrow> (u64 \<Rightarrow> bool) \<Rightarrow> history \<Rightarrow> u64 option \<times> history" where
  "poll_bounded 0 dev r busy h = (None, h)"
| "poll_bounded (Suc n) dev r busy h =
     (case dev_read dev r h of (v, h) \<Rightarrow> if busy v then poll_bounded n dev r busy h else (Some v, h))"

definition after_polls :: "device \<Rightarrow> usize \<Rightarrow> nat \<Rightarrow> history \<Rightarrow> history" where
  "after_polls dev r n h = ((\<lambda>h. snd (dev_read dev r h)) ^^ n) h"

lemma after_polls_simps [simp]:
  "after_polls dev r 0 h = h"
  "after_polls dev r (Suc n) h = after_polls dev r n (Rd r (dev h r) # h)"
  by (simp_all add: after_polls_def dev_read_def funpow_Suc_right del: funpow.simps(2))

lemma written_after_polls [simp]: "written q (after_polls dev r n h) = written q h"
  by (induction n arbitrary: h) simp_all

lemma poll_while_ready:
  "\<not> busy (dev (after_polls dev r n h) r) \<Longrightarrow>
     \<exists>m \<le> n. poll_while dev r busy h = Some (after_polls dev r (Suc m) h)"
proof (induction n arbitrary: h)
  case 0
  then show ?case by (subst poll_while.simps) (simp add: dev_read_def)
next
  case (Suc n)
  show ?case
  proof (cases "busy (dev h r)")
    case True
    obtain m where "m \<le> n" "poll_while dev r busy (Rd r (dev h r) # h) = Some (after_polls dev r (Suc m) (Rd r (dev h r) # h))"
      using Suc by auto
    with True show ?thesis
      by (intro exI [of _ "Suc m"]) (subst poll_while.simps, simp add: dev_read_def)
  next
    case False
    then show ?thesis by (intro exI [of _ 0]) (subst poll_while.simps, simp add: dev_read_def)
  qed
qed

lemma poll_while_only_reads:
  "poll_while dev r busy h = Some h' \<Longrightarrow> \<exists>n. h' = after_polls dev r (Suc n) h \<and> \<not> busy (dev (after_polls dev r n h) r)"
proof (induction rule: poll_while.raw_induct [rotated, consumes 1, case_names step])
  case (step poll dev r busy h h')
  show ?case
  proof (cases "busy (dev h r)")
    case True
    with step(2) have "poll dev r busy (Rd r (dev h r) # h) = Some h'" by (simp add: dev_read_def)
    from step(1) [OF this] obtain n where
      "h' = after_polls dev r (Suc n) (Rd r (dev h r) # h)" "\<not> busy (dev (after_polls dev r n (Rd r (dev h r) # h)) r)" by blast
    then show ?thesis by (intro exI [of _ "Suc n"]) simp
  next
    case False
    with step(2) show ?thesis by (intro exI [of _ 0]) (simp add: dev_read_def)
  qed
qed

lemma poll_bounded_cases:
  "poll_bounded n dev r busy h = (res, h') \<Longrightarrow>
     (case res of
        Some v \<Rightarrow> \<exists>m < n. v = dev (after_polls dev r m h) r \<and> \<not> busy v \<and> h' = after_polls dev r (Suc m) h
      | None \<Rightarrow> h' = after_polls dev r n h \<and> (\<forall>m < n. busy (dev (after_polls dev r m h) r)))"
proof (induction n arbitrary: h)
  case (Suc n)
  show ?case
  proof (cases "busy (dev h r)")
    case True
    with Suc.prems have "poll_bounded n dev r busy (Rd r (dev h r) # h) = (res, h')" by (simp add: dev_read_def)
    from Suc.IH [OF this] True show ?thesis
      by (auto split: option.splits intro: exI [of _ "Suc _"] simp: less_Suc_eq_0_disj)
  next
    case False
    with Suc.prems show ?thesis by (auto simp: dev_read_def intro!: exI [of _ 0])
  qed
qed auto

end
