(* ===== verification/Apic.thy ===== *)
theory Apic
  imports Madt Device
begin

text \<open>
  The interrupt controllers of x86_64: the local APIC with its two interfaces
  (\<^verbatim>\<open>hal/apic.rs\<close>) and the I/O APIC (\<^verbatim>\<open>hal/ioapic.rs\<close>). Memory-mapped registers are named by
  their virtual addresses. Model-specific registers and the feature word of \<open>cpuid\<close> are named by
  non-canonical addresses, which no mapping can have.
\<close>

section \<open>Local APIC\<close>

record apic =
  LAPIC_PHYS_BASE :: u64
  USE_X2APIC :: bool

abbreviation LAPIC_ID :: usize where "LAPIC_ID \<equiv> 0x20"
abbreviation LAPIC_EOI :: usize where "LAPIC_EOI \<equiv> 0xB0"
abbreviation LAPIC_SPURIOUS :: usize where "LAPIC_SPURIOUS \<equiv> 0xF0"
abbreviation ICR_LOW :: usize where "ICR_LOW \<equiv> 0x300"
abbreviation ICR_HIGH :: usize where "ICR_HIGH \<equiv> 0x310"

abbreviation IA32_APIC_BASE_MSR :: u32 where "IA32_APIC_BASE_MSR \<equiv> 0x1B"
abbreviation IA32_X2APIC_ID :: u32 where "IA32_X2APIC_ID \<equiv> 0x802"
abbreviation IA32_X2APIC_EOI :: u32 where "IA32_X2APIC_EOI \<equiv> 0x80B"
abbreviation IA32_X2APIC_SIVR :: u32 where "IA32_X2APIC_SIVR \<equiv> 0x80F"
abbreviation IA32_X2APIC_ICR :: u32 where "IA32_X2APIC_ICR \<equiv> 0x830"
definition SPURIOUS_VECTOR :: u8 where "SPURIOUS_VECTOR = 0xFF"

definition MSR :: "u32 \<Rightarrow> usize" where "MSR m = 0x4000000000000000 + ucast m"
definition CPUID_1_ECX :: usize where "CPUID_1_ECX = 0x2000000000000000"

definition rdmsr :: "device \<Rightarrow> u32 \<Rightarrow> history \<Rightarrow> u64 \<times> history" where
  "rdmsr dev m h = dev_read dev (MSR m) h"

definition wrmsr :: "u32 \<Rightarrow> u64 \<Rightarrow> history \<Rightarrow> history" where
  "wrmsr m v h = dev_write (MSR m) v h"

definition cpuid_ecx1 :: "device \<Rightarrow> history \<Rightarrow> u32 \<times> history" where
  "cpuid_ecx1 dev h = (case dev_read dev CPUID_1_ECX h of (v, h) \<Rightarrow> (ucast v, h))"

definition lapic_reg :: "machine \<Rightarrow> apic \<Rightarrow> usize \<Rightarrow> usize" where
  "lapic_reg s a offset = phys_to_virt s (LAPIC_PHYS_BASE a + offset)"

definition mmio_read :: "machine \<Rightarrow> apic \<Rightarrow> device \<Rightarrow> usize \<Rightarrow> history \<Rightarrow> u32 \<times> history" where
  "mmio_read s a dev offset h = (case dev_read dev (lapic_reg s a offset) h of (v, h) \<Rightarrow> (ucast v, h))"

definition mmio_write :: "machine \<Rightarrow> apic \<Rightarrow> usize \<Rightarrow> u32 \<Rightarrow> history \<Rightarrow> history" where
  "mmio_write s a offset v h = dev_write (lapic_reg s a offset) (ucast v) h"

definition lapic_id :: "machine \<Rightarrow> apic \<Rightarrow> device \<Rightarrow> history \<Rightarrow> u32 \<times> history" where
  "lapic_id s a dev h =
     (if USE_X2APIC a then (case rdmsr dev IA32_X2APIC_ID h of (v, h) \<Rightarrow> (ucast v, h))
      else (case mmio_read s a dev LAPIC_ID h of (v, h) \<Rightarrow> (drop_bit 24 v, h)))"

definition set_base :: "device \<Rightarrow> u64 \<Rightarrow> history \<Rightarrow> apic \<times> history" where
  "set_base dev phys_base h =
     (case cpuid_ecx1 dev h of (ecx, h) \<Rightarrow>
        (\<lparr>LAPIC_PHYS_BASE = phys_base, USE_X2APIC = (ecx AND push_bit 21 1 \<noteq> 0)\<rparr>, h))"

definition init_this_core :: "machine \<Rightarrow> apic \<Rightarrow> device \<Rightarrow> history \<Rightarrow> history" where
  "init_this_core s a dev h =
     (case rdmsr dev IA32_APIC_BASE_MSR h of (base, h) \<Rightarrow>
        let new_base = base OR push_bit 11 1;
            new_base = (if USE_X2APIC a then new_base OR push_bit 10 1 else new_base);
            h = (if new_base \<noteq> base then wrmsr IA32_APIC_BASE_MSR new_base h else h)
        in if USE_X2APIC a then wrmsr IA32_X2APIC_SIVR (push_bit 8 1 OR ucast SPURIOUS_VECTOR) h
           else mmio_write s a LAPIC_SPURIOUS (push_bit 8 1 OR ucast SPURIOUS_VECTOR) h)"

definition lapic_eoi :: "machine \<Rightarrow> apic \<Rightarrow> history \<Rightarrow> history" where
  "lapic_eoi s a h = (if USE_X2APIC a then wrmsr IA32_X2APIC_EOI 0 h else mmio_write s a LAPIC_EOI 0 h)"

definition wait_icr_idle :: "machine \<Rightarrow> apic \<Rightarrow> device \<Rightarrow> history \<Rightarrow> history option" where
  "wait_icr_idle s a dev h =
     (if USE_X2APIC a then Some h
      else poll_while dev (lapic_reg s a ICR_LOW) (\<lambda>v. (ucast v :: u32) AND push_bit 12 1 \<noteq> 0) h)"

definition send_icr :: "machine \<Rightarrow> apic \<Rightarrow> device \<Rightarrow> u32 \<Rightarrow> u32 \<Rightarrow> history \<Rightarrow> history option" where
  "send_icr s a dev dest icr_low_bits h =
     (if USE_X2APIC a then Some (wrmsr IA32_X2APIC_ICR (push_bit 32 (ucast dest) OR ucast icr_low_bits) h)
      else Option.bind (wait_icr_idle s a dev h) (\<lambda>h.
        wait_icr_idle s a dev (mmio_write s a ICR_LOW icr_low_bits (mmio_write s a ICR_HIGH (push_bit 24 (dest AND 0xFF)) h))))"

definition INIT_ASSERT :: u32 where "INIT_ASSERT = push_bit 8 0b101 OR push_bit 14 1"
definition STARTUP_ASSERT :: u32 where "STARTUP_ASSERT = push_bit 8 0b110 OR push_bit 14 1"

definition send_init :: "machine \<Rightarrow> apic \<Rightarrow> device \<Rightarrow> u32 \<Rightarrow> history \<Rightarrow> history option" where
  "send_init s a dev dest h = send_icr s a dev dest INIT_ASSERT h"

definition send_startup :: "machine \<Rightarrow> apic \<Rightarrow> device \<Rightarrow> u32 \<Rightarrow> u8 \<Rightarrow> history \<Rightarrow> history option" where
  "send_startup s a dev dest start_page h = send_icr s a dev dest (STARTUP_ASSERT OR ucast start_page) h"

section \<open>I/O APIC\<close>

abbreviation IOREGSEL :: usize where "IOREGSEL \<equiv> 0x00"
abbreviation IOWIN :: usize where "IOWIN \<equiv> 0x10"
abbreviation IOAPICVER :: u32 where "IOAPICVER \<equiv> 0x01"

definition ioapic_read_reg :: "machine \<Rightarrow> device \<Rightarrow> usize \<Rightarrow> u32 \<Rightarrow> history \<Rightarrow> u32 \<times> history" where
  "ioapic_read_reg s dev mmio_base r h =
     (case dev_read dev (phys_to_virt s (mmio_base + IOWIN)) (dev_write (phys_to_virt s (mmio_base + IOREGSEL)) (ucast r) h) of
        (v, h) \<Rightarrow> (ucast v, h))"

definition ioapic_write_reg :: "machine \<Rightarrow> usize \<Rightarrow> u32 \<Rightarrow> u32 \<Rightarrow> history \<Rightarrow> history" where
  "ioapic_write_reg s mmio_base r v h =
     dev_write (phys_to_virt s (mmio_base + IOWIN)) (ucast v) (dev_write (phys_to_virt s (mmio_base + IOREGSEL)) (ucast r) h)"

record RedirectionEntry =
  re_vector :: u8
  delivery_mode :: u8
  logical_dest :: bool
  polarity_low :: bool
  trigger_level :: bool
  masked :: bool
  re_dest :: u8

definition re_to_bits :: "RedirectionEntry \<Rightarrow> u64" where
  "re_to_bits e =
     (let low = ucast (re_vector e) :: u32;
          low = low OR push_bit 8 (ucast (delivery_mode e) AND 0x7);
          low = (if logical_dest e then low OR push_bit 11 1 else low);
          low = (if polarity_low e then low OR push_bit 13 1 else low);
          low = (if trigger_level e then low OR push_bit 15 1 else low);
          low = (if masked e then low OR push_bit 16 1 else low);
          high = push_bit 24 (ucast (re_dest e)) :: u32
      in push_bit 32 (ucast high) OR ucast low)"

text \<open>The version register of each I/O APIC is read for the boot log; the lines themselves are left out.\<close>

fun probe_ioapics :: "machine \<Rightarrow> device \<Rightarrow> IoApicInfo list \<Rightarrow> history \<Rightarrow> history" where
  "probe_ioapics s dev [] h = h"
| "probe_ioapics s dev (i # is') h = probe_ioapics s dev is' (snd (ioapic_read_reg s dev (ucast (io_address i)) IOAPICVER h))"

definition init_from_madt :: "machine \<Rightarrow> device \<Rightarrow> MadtData \<Rightarrow> history \<Rightarrow> history" where
  "init_from_madt s dev madt h =
     (if ioapic_count madt = 0 then h else probe_ioapics s dev (take (ioapic_count madt) (ioapics madt)) h)"

fun redirect_in :: "machine \<Rightarrow> device \<Rightarrow> IoApicInfo list \<Rightarrow> u32 \<Rightarrow> RedirectionEntry \<Rightarrow> history \<Rightarrow> (string, unit) outcome \<times> history" where
  "redirect_in s dev [] gsi e h = (Err ''GSI not covered by any discovered IO-APIC'', h)"
| "redirect_in s dev (i # is') gsi e h =
     (case ioapic_read_reg s dev (ucast (io_address i)) IOAPICVER h of (ver, h) \<Rightarrow>
        let max_entries = (drop_bit 16 ver AND 0xFF) + 1
        in if gsi_base i \<le> gsi \<and> gsi < gsi_base i + max_entries then
             let index = gsi - gsi_base i; bits = re_to_bits e;
                 h = ioapic_write_reg s (ucast (io_address i)) (0x10 + index * 2) (ucast (bits AND 0xFFFFFFFF)) h;
                 h = ioapic_write_reg s (ucast (io_address i)) (0x11 + index * 2) (ucast (drop_bit 32 bits)) h
             in (Ok (), h)
           else redirect_in s dev is' gsi e h)"

definition set_redirection_entry :: "machine \<Rightarrow> device \<Rightarrow> MadtData \<Rightarrow> u32 \<Rightarrow> RedirectionEntry \<Rightarrow> history \<Rightarrow> (string, unit) outcome \<times> history" where
  "set_redirection_entry s dev madt gsi e h = redirect_in s dev (take (ioapic_count madt) (ioapics madt)) gsi e h"

section \<open>Interprocessor interrupts\<close>

text \<open>
  The interrupts a history has sent, oldest first, as pairs of destination and command: in x2APIC
  mode one write of the command register, in xAPIC mode a write of its low half, which sends to the
  destination last written to the high half.
\<close>

fun icr_dest :: "machine \<Rightarrow> apic \<Rightarrow> history \<Rightarrow> u32" where
  "icr_dest s a [] = 0"
| "icr_dest s a (Wr r v # h) = (if r = lapic_reg s a ICR_HIGH then drop_bit 24 (ucast v) else icr_dest s a h)"
| "icr_dest s a (Rd r v # h) = icr_dest s a h"

fun ipis :: "machine \<Rightarrow> apic \<Rightarrow> history \<Rightarrow> (u32 \<times> u32) list" where
  "ipis s a [] = []"
| "ipis s a (Wr r v # h) =
     ipis s a h @
       (if USE_X2APIC a then (if r = MSR IA32_X2APIC_ICR then [(ucast (drop_bit 32 v), ucast v)] else [])
        else if r = lapic_reg s a ICR_LOW then [(icr_dest s a h, ucast v)] else [])"
| "ipis s a (Rd r v # h) = ipis s a h"

definition dest_of :: "apic \<Rightarrow> u32 \<Rightarrow> u32" where
  "dest_of a i = (if USE_X2APIC a then i else i AND 0xFF)"

lemma ipis_after_polls [simp]: "ipis s a (after_polls dev r n h) = ipis s a h"
  by (induction n arbitrary: h) simp_all

lemma icr_dest_after_polls [simp]: "icr_dest s a (after_polls dev r n h) = icr_dest s a h"
  by (induction n arbitrary: h) simp_all

lemma lapic_reg_eq_iff [simp]: "lapic_reg s a x = lapic_reg s a y \<longleftrightarrow> x = y"
  by (simp add: lapic_reg_def phys_to_virt_def split: target_arch.split)

text \<open>A local APIC whose command register becomes idle after finitely many polls.\<close>

definition icr_drains :: "machine \<Rightarrow> apic \<Rightarrow> device \<Rightarrow> bool" where
  "icr_drains s a dev \<longleftrightarrow> USE_X2APIC a \<or>
     (\<forall>h. \<exists>n. (ucast (dev (after_polls dev (lapic_reg s a ICR_LOW) n h) (lapic_reg s a ICR_LOW)) :: u32) AND push_bit 12 1 = 0)"

lemma wait_icr_idle_returns:
  assumes "icr_drains s a dev"
  shows "\<exists>h'. wait_icr_idle s a dev h = Some h' \<and> ipis s a h' = ipis s a h"
proof (cases "USE_X2APIC a")
  case False
  then obtain n where "(ucast (dev (after_polls dev (lapic_reg s a ICR_LOW) n h) (lapic_reg s a ICR_LOW)) :: u32) AND push_bit 12 1 = 0"
    using assms unfolding icr_drains_def by blast
  then obtain m where
    "poll_while dev (lapic_reg s a ICR_LOW) (\<lambda>v. (ucast v :: u32) AND push_bit 12 1 \<noteq> 0) h
      = Some (after_polls dev (lapic_reg s a ICR_LOW) (Suc m) h)"
    using poll_while_ready [of "\<lambda>v. (ucast v :: u32) AND push_bit 12 1 \<noteq> 0" dev "lapic_reg s a ICR_LOW" n h] by blast
  then show ?thesis using False by (simp add: wait_icr_idle_def del: after_polls_simps)
qed (simp add: wait_icr_idle_def)

lemma icr_high_dest: "drop_bit 24 (ucast (ucast (push_bit 24 (d AND 0xFF)) :: u64)) = (d AND 0xFF :: u32)"
proof (rule bit_word_eqI)
  have e: "(0xFF :: u32) = mask 8" by (simp add: mask_eq_exp_minus_1)
  fix n show "bit (drop_bit 24 (ucast (ucast (push_bit 24 (d AND 0xFF)) :: u64)) :: u32) n \<longleftrightarrow> bit (d AND 0xFF) n"
    unfolding e by (auto simp: bit_simps)
qed

lemma send_icr_ipi:
  assumes "icr_drains s a dev"
  shows "\<exists>h'. send_icr s a dev dest cmd h = Some h' \<and> ipis s a h' = ipis s a h @ [(dest_of a dest, cmd)]"
proof (cases "USE_X2APIC a")
  case True
  have "ucast (drop_bit 32 (push_bit 32 (ucast dest) OR ucast cmd :: u64)) = dest" "ucast (push_bit 32 (ucast dest) OR ucast cmd :: u64) = cmd"
    by (auto intro!: bit_word_eqI simp: bit_simps)
  with True show ?thesis by (simp add: send_icr_def wrmsr_def dev_write_def dest_of_def)
next
  case False
  obtain h1 where h1: "wait_icr_idle s a dev h = Some h1" "ipis s a h1 = ipis s a h"
    using wait_icr_idle_returns [OF assms] by blast
  define h2 where "h2 = mmio_write s a ICR_LOW cmd (mmio_write s a ICR_HIGH (push_bit 24 (dest AND 0xFF)) h1)"
  have "ucast (ucast cmd :: u64) = cmd" by (auto intro!: bit_word_eqI simp: bit_simps)
  then have h2: "ipis s a h2 = ipis s a h @ [(dest AND 0xFF, cmd)]"
    using False icr_high_dest [of dest] by (simp add: h2_def mmio_write_def dev_write_def h1(2))
  obtain h3 where "wait_icr_idle s a dev h2 = Some h3" "ipis s a h3 = ipis s a h2"
    using wait_icr_idle_returns [OF assms] by blast
  moreover have "send_icr s a dev dest cmd h = wait_icr_idle s a dev h2"
    unfolding h2_def send_icr_def h1(1) using False by simp
  ultimately show ?thesis using False h2 by (simp add: dest_of_def)
qed

end
