(* ===== verification/Text.thy ===== *)
theory Text
  imports Prelude
begin

text \<open>
  Strings of the kernel as byte lists: UTF-8 validity, ASCII literals, the decimal \<open>Display\<close> of integers,
  ASCII case, and the \<open>str\<close> methods that path handling and the shell use. The Unicode case tables of the
  standard library are a parameter where a string is not ASCII.
\<close>

section \<open>Encoding\<close>

text \<open>\<open>core::str::from_utf8\<close>: the well-formed sequences of UTF-8.\<close>

definition utf8_cont :: "u8 \<Rightarrow> bool" where
  "utf8_cont b \<longleftrightarrow> 0x80 \<le> b \<and> b \<le> 0xBF"

fun utf8_valid :: "bytes \<Rightarrow> bool" where
  "utf8_valid [] = True"
| "utf8_valid (a # bs) =
     (if a < 0x80 then utf8_valid bs
      else if 0xC2 \<le> a \<and> a \<le> 0xDF then (case bs of b # r \<Rightarrow> utf8_cont b \<and> utf8_valid r | _ \<Rightarrow> False)
      else if 0xE0 \<le> a \<and> a \<le> 0xEF
      then (case bs of b # c # r \<Rightarrow>
              utf8_cont b \<and> (a = 0xE0 \<longrightarrow> 0xA0 \<le> b) \<and> (a = 0xED \<longrightarrow> b \<le> 0x9F) \<and> utf8_cont c \<and> utf8_valid r
            | _ \<Rightarrow> False)
      else if 0xF0 \<le> a \<and> a \<le> 0xF4
      then (case bs of b # c # d # r \<Rightarrow>
              utf8_cont b \<and> (a = 0xF0 \<longrightarrow> 0x90 \<le> b) \<and> (a = 0xF4 \<longrightarrow> b \<le> 0x8F) \<and> utf8_cont c \<and> utf8_cont d \<and> utf8_valid r
            | _ \<Rightarrow> False)
      else False)"

definition ascii :: "string \<Rightarrow> bytes" where
  "ascii s = map (\<lambda>c. of_char c) s"

text \<open>\<open>Display\<close> for unsigned integers.\<close>

fun show_nat :: "nat \<Rightarrow> string" where
  "show_nat n = (if n < 10 then [char_of (48 + n)] else show_nat (n div 10) @ [char_of (48 + n mod 10)])"

declare show_nat.simps [simp del]

section \<open>Case\<close>

definition ascii_lower :: "u8 \<Rightarrow> u8" where
  "ascii_lower b = (if 65 \<le> b \<and> b \<le> 90 then b + 32 else b)"

text \<open>\<open>to_lowercase\<close>: on ASCII text bytewise, on other text the parameter \<open>unicode\<close>.\<close>

definition to_lowercase :: "(bytes \<Rightarrow> bytes) \<Rightarrow> bytes \<Rightarrow> bytes" where
  "to_lowercase unicode s = (if list_all (\<lambda>b. b < 128) s then map ascii_lower s else unicode s)"

section \<open>Splitting and trimming\<close>

text \<open>\<open>trim_start_matches(c)\<close> and \<open>split(c)\<close> for a one-byte character; splitting never gives the empty list.\<close>

definition trim_start_matches :: "u8 \<Rightarrow> bytes \<Rightarrow> bytes" where
  "trim_start_matches c s = dropWhile (\<lambda>b. b = c) s"

fun split_at_byte :: "u8 \<Rightarrow> bytes \<Rightarrow> bytes list" where
  "split_at_byte c [] = [[]]"
| "split_at_byte c (b # bs) =
     (if b = c then [] # split_at_byte c bs
      else case split_at_byte c bs of p # ps \<Rightarrow> (b # p) # ps | [] \<Rightarrow> [[b]])"

lemma split_at_byte_nonempty [simp]: "split_at_byte c s \<noteq> []"
  by (induction s) (auto split: list.splits)

lemma split_at_byte_parts: "p \<in> set (split_at_byte c s) \<Longrightarrow> c \<notin> set p"
proof (induction s arbitrary: p)
  case (Cons b bs)
  then show ?case by (cases "split_at_byte c bs") (auto split: if_splits)
qed simp

lemma split_at_byte_none: "c \<notin> set s \<Longrightarrow> split_at_byte c s = [s]"
  by (induction s) auto

lemma split_at_byte_append: "c \<notin> set s \<Longrightarrow> split_at_byte c (s @ c # t) = s # split_at_byte c t"
  by (induction s) auto

definition starts_with :: "bytes \<Rightarrow> bytes \<Rightarrow> bool" where
  "starts_with s pre \<longleftrightarrow> take (length pre) s = pre"

lemma starts_with_append [simp]: "starts_with (pre @ s) pre"
  by (simp add: starts_with_def)

end
