(* ===== verification/Acpi.thy ===== *)
theory Acpi
  imports Madt Text
begin

text \<open>
  The discovery of the ACPI tables (\<^verbatim>\<open>hal/acpi.rs\<close>): validating the root pointer the boot loader
  passed, falling back to the scan of the BIOS areas, and walking the root table, whose valid
  interrupt-controller tables go to the parser of \<^verbatim>\<open>hal/madt.rs\<close>. What the boot loader answered is
  an argument; the log lines are left out.
\<close>

section \<open>Root pointer\<close>

datatype RootTable = Rsdt usize | Xsdt usize

definition byte_sum :: "bytes \<Rightarrow> u8" where
  "byte_sum bs = foldl (+) 0 bs"

text \<open>The packed layouts of \<open>RsdpDescriptor\<close> (20 bytes) and \<open>RsdpDescriptor20\<close> (36 bytes).\<close>

record RsdpDescriptor =
  rsdp_signature :: bytes
  rsdp_revision :: u8
  rsdt_address :: u32

definition rsdp_at :: "machine \<Rightarrow> usize \<Rightarrow> RsdpDescriptor" where
  "rsdp_at s p = \<lparr>rsdp_signature = read_bytes s p 8, rsdp_revision = read_bytes s (p + 15) 1 ! 0,
     rsdt_address = u32_le (read_bytes s (p + 16) 4)\<rparr>"

record RsdpDescriptor20 =
  first_part :: RsdpDescriptor
  rsdp_length :: u32
  xsdt_address :: u64

definition rsdp20_at :: "machine \<Rightarrow> usize \<Rightarrow> RsdpDescriptor20" where
  "rsdp20_at s p = \<lparr>first_part = rsdp_at s p, rsdp_length = u32_le (read_bytes s (p + 20) 4),
     xsdt_address = u64_le (read_bytes s (p + 24) 8)\<rparr>"

definition rsdp_is_valid :: "machine \<Rightarrow> usize \<Rightarrow> bool" where
  "rsdp_is_valid s p \<longleftrightarrow> byte_sum (read_bytes s p 20) = 0 \<and> rsdp_signature (rsdp_at s p) = ascii ''RSD PTR ''"

definition is_valid_extended :: "machine \<Rightarrow> usize \<Rightarrow> bool" where
  "is_valid_extended s p \<longleftrightarrow>
     rsdp_is_valid s p \<and> 36 \<le> unat (rsdp_length (rsdp20_at s p)) \<and>
     byte_sum (read_bytes s p (unat (rsdp_length (rsdp20_at s p)))) = 0"

definition parse_rsdp :: "machine \<Rightarrow> usize \<Rightarrow> (string, RootTable) outcome" where
  "parse_rsdp s p =
     (if rsdp_signature (rsdp_at s p) \<noteq> ascii ''RSD PTR '' then Err ''Invalid RSDP signature''
      else if 2 \<le> rsdp_revision (rsdp_at s p) then
        (if \<not> is_valid_extended s p then Err ''Invalid ACPI 2.0+ checksum''
         else let xsdt = xsdt_address (rsdp20_at s p); rsdt = ucast (rsdt_address (first_part (rsdp20_at s p)))
         in if xsdt \<noteq> 0 then Ok (Xsdt xsdt) else if rsdt \<noteq> 0 then Ok (Rsdt rsdt)
            else Err ''ACPI 2.0+ RSDP contains no RSDT or XSDT'')
      else if \<not> rsdp_is_valid s p then Err ''Invalid ACPI 1.0 checksum''
      else let rsdt = ucast (rsdt_address (rsdp_at s p))
      in if rsdt = 0 then Err ''ACPI 1.0 RSDP contains no RSDT'' else Ok (Rsdt rsdt))"

definition is_ok :: "('e, 'a) outcome \<Rightarrow> bool" where
  "is_ok r = (case r of Ok _ \<Rightarrow> True | _ \<Rightarrow> False)"

text \<open>
  The scan of \<open>[start, end)\<close> in steps of sixteen bytes; its bounds are physical addresses below
  2 MiB, so the address arithmetic is that of the naturals.
\<close>

function scan_range :: "machine \<Rightarrow> nat \<Rightarrow> nat \<Rightarrow> usize option" where
  "scan_range s phys end_phys =
     (if phys + 16 \<le> end_phys then
        let virt = phys_to_virt s (word_of_nat phys)
        in if take 8 (read_bytes s virt 16) = ascii ''RSD PTR '' \<and> is_ok (parse_rsdp s virt) then Some virt
           else scan_range s (phys + 16) end_phys
      else None)"
  by pat_completeness auto
termination
  by (relation "measure (\<lambda>(s, p, e). e - p)") auto

declare scan_range.simps [simp del]

definition scan_bios_for_rsdp :: "machine \<Rightarrow> usize option" where
  "scan_bios_for_rsdp s =
     (let ebda_segment = u16_le (read_bytes s (phys_to_virt s 0x40E) 2);
          ebda_base = unat ebda_segment * 16;
          ebda = (if ebda_base \<noteq> 0 then scan_range s ebda_base (ebda_base + 1024) else None)
      in case ebda of Some v \<Rightarrow> Some v | None \<Rightarrow> scan_range s 0xE0000 0x100000)"

section \<open>Description tables\<close>

definition sdt_signature :: "machine \<Rightarrow> usize \<Rightarrow> bytes" where
  "sdt_signature s t = read_bytes s t 4"

definition sdt_length :: "machine \<Rightarrow> usize \<Rightarrow> u32" where
  "sdt_length s t = u32_le (read_bytes s (t + 4) 4)"

definition sdt_is_valid :: "machine \<Rightarrow> usize \<Rightarrow> bool" where
  "sdt_is_valid s t \<longleftrightarrow>
     36 \<le> unat (sdt_length s t) \<and> byte_sum (read_bytes s t (unat (sdt_length s t))) = 0"

text \<open>The tables other than the interrupt-controller table are only reported.\<close>

definition parse_acpi_table :: "machine \<Rightarrow> usize \<Rightarrow> MadtData \<Rightarrow> MadtData option" where
  "parse_acpi_table s t madt =
     (if \<not> sdt_is_valid s t then Some madt
      else if sdt_signature s t = ascii ''APIC'' then madt_parse s t (ucast (sdt_length s t)) madt
      else Some madt)"

fun parse_tables :: "machine \<Rightarrow> usize list \<Rightarrow> MadtData \<Rightarrow> MadtData option" where
  "parse_tables s [] madt = Some madt"
| "parse_tables s (t # ts) madt = Option.bind (parse_acpi_table s t madt) (parse_tables s ts)"

definition parse_xsdt :: "machine \<Rightarrow> usize \<Rightarrow> MadtData \<Rightarrow> MadtData option" where
  "parse_xsdt s xsdt_addr madt =
     (let t = phys_to_virt s xsdt_addr
      in if sdt_signature s t \<noteq> ascii ''XSDT'' \<or> \<not> sdt_is_valid s t then Some madt
         else let n = (unat (sdt_length s t) - 36) div 8
         in parse_tables s (map (\<lambda>i. phys_to_virt s (u64_le (read_bytes s (t + 36 + word_of_nat (8 * i)) 8))) [0..<n]) madt)"

definition parse_rsdt :: "machine \<Rightarrow> usize \<Rightarrow> MadtData \<Rightarrow> MadtData option" where
  "parse_rsdt s rsdt_addr madt =
     (let t = phys_to_virt s rsdt_addr
      in if sdt_signature s t \<noteq> ascii ''RSDT'' \<or> \<not> sdt_is_valid s t then Some madt
         else let n = (unat (sdt_length s t) - 36) div 4
         in parse_tables s (map (\<lambda>i. phys_to_virt s (ucast (u32_le (read_bytes s (t + 36 + word_of_nat (4 * i)) 4)))) [0..<n]) madt)"

section \<open>Discovery\<close>

definition find_root :: "machine \<Rightarrow> usize option \<Rightarrow> u64 \<Rightarrow> RootTable option" where
  "find_root s limine_rsdp revision =
     (let from_limine =
        (case limine_rsdp of
           None \<Rightarrow> None
         | Some rsdp_addr \<Rightarrow>
             let primary = (if revision = 3 then phys_to_virt s rsdp_addr else rsdp_addr);
                 secondary = (if revision = 3 then rsdp_addr else phys_to_virt s rsdp_addr)
             in case parse_rsdp s primary of Ok root \<Rightarrow> Some root
                | _ \<Rightarrow> (case parse_rsdp s secondary of Ok root \<Rightarrow> Some root | _ \<Rightarrow> None))
      in case from_limine of
           Some root \<Rightarrow> Some root
         | None \<Rightarrow> (case scan_bios_for_rsdp s of
             None \<Rightarrow> None
           | Some found_virt \<Rightarrow> (case parse_rsdp s found_virt of Ok root \<Rightarrow> Some root | _ \<Rightarrow> None)))"

definition acpi_init :: "machine \<Rightarrow> usize option \<Rightarrow> u64 \<Rightarrow> MadtData \<Rightarrow> MadtData option" where
  "acpi_init s limine_rsdp revision madt =
     (case find_root s limine_rsdp revision of
        None \<Rightarrow> Some madt
      | Some (Xsdt addr) \<Rightarrow> parse_xsdt s addr madt
      | Some (Rsdt addr) \<Rightarrow> parse_rsdt s addr madt)"

section \<open>The tables a root lists\<close>

definition root_tables :: "machine \<Rightarrow> RootTable \<Rightarrow> usize list" where
  "root_tables s root =
     (case root of
        Xsdt a \<Rightarrow> let t = phys_to_virt s a in
          if sdt_signature s t = ascii ''XSDT'' \<and> sdt_is_valid s t
          then map (\<lambda>i. phys_to_virt s (u64_le (read_bytes s (t + 36 + word_of_nat (8 * i)) 8))) [0..<(unat (sdt_length s t) - 36) div 8]
          else []
      | Rsdt a \<Rightarrow> let t = phys_to_virt s a in
          if sdt_signature s t = ascii ''RSDT'' \<and> sdt_is_valid s t
          then map (\<lambda>i. phys_to_virt s (ucast (u32_le (read_bytes s (t + 36 + word_of_nat (4 * i)) 4)))) [0..<(unat (sdt_length s t) - 36) div 4]
          else [])"

definition usable_madt :: "machine \<Rightarrow> usize \<Rightarrow> bool" where
  "usable_madt s t \<longleftrightarrow> sdt_is_valid s t \<and> sdt_signature s t = ascii ''APIC'' \<and> 44 \<le> unat (sdt_length s t)"

definition table_entries :: "machine \<Rightarrow> usize \<Rightarrow> (u8 \<times> bytes) list" where
  "table_entries s t = madt_entries (read_bytes s (t + 44) (unat (sdt_length s t) - 44))"

text \<open>What the kernel knows after reading the table at \<open>t\<close>.\<close>

definition describes :: "machine \<Rightarrow> usize \<Rightarrow> MadtData \<Rightarrow> bool" where
  "describes s t data \<longleftrightarrow>
     found data \<and> madt_ok data \<and>
     known_cpus data = take MAX_CPUS (List.map_filter cpu_entry (table_entries s t)) \<and>
     known_ioapics data = take MAX_IOAPICS (List.map_filter ioapic_entry (table_entries s t)) \<and>
     known_isos data = take MAX_ISOS (List.map_filter iso_entry (table_entries s t))"

lemma found_add_entry [simp]: "found (add_entry e data) = found data"
  by (simp add: add_entry_def madt_entry_def push_cpu_def push_ioapic_def push_iso_def Let_def split_beta)

lemma found_fold [simp]: "found (fold add_entry es data) = found data"
  by (induction es arbitrary: data) auto

lemma parse_acpi_table_result:
  assumes "unat t + unat (sdt_length s t) < 2 ^ 64 - 256"
  shows "\<exists>data. parse_acpi_table s t madt = Some data \<and> (if usable_madt s t then describes s t data else data = madt)"
proof (cases "usable_madt s t")
  case True
  define n where "n = unat (sdt_length s t)"
  have n: "44 \<le> n" using True by (simp add: usable_madt_def n_def)
  have uc: "unat (ucast (sdt_length s t) :: usize) = n" by (simp add: n_def)
  have e: "t + ucast (sdt_length s t) = t + 44 + word_of_nat (n - 44)"
    using n by (simp add: of_nat_diff n_def)
  have "unat (t + 44) + (n - 44) < 2 ^ 64 - 256"
    using assms n unat_plus_simple by (simp add: n_def unat_word_ariths)
  note w = madt_walk_entries [OF this, of s]
  show ?thesis
    using True n unfolding parse_acpi_table_def madt_parse_def uc e w
    using fold_add_entry_known [OF madt_ok_empty, of "table_entries s t"]
    by (simp add: usable_madt_def describes_def table_entries_def Let_def flip: n_def)
next
  case False
  then show ?thesis
    by (auto simp: usable_madt_def parse_acpi_table_def madt_parse_def)
qed

definition last_madt :: "machine \<Rightarrow> usize list \<Rightarrow> usize option" where
  "last_madt s ts = (case filter (usable_madt s) (rev ts) of [] \<Rightarrow> None | t # _ \<Rightarrow> Some t)"

lemma last_madt_Cons:
  "last_madt s (t # ts) = (case last_madt s ts of Some u \<Rightarrow> Some u | None \<Rightarrow> if usable_madt s t then Some t else None)"
  by (simp add: last_madt_def split: list.split)

lemma parse_tables_result:
  assumes "\<forall>t \<in> set ts. unat t + unat (sdt_length s t) < 2 ^ 64 - 256"
  shows "\<exists>data. parse_tables s ts madt = Some data \<and>
    (case last_madt s ts of None \<Rightarrow> data = madt | Some t \<Rightarrow> describes s t data)"
  using assms
proof (induction ts arbitrary: madt)
  case Nil
  then show ?case by (simp add: last_madt_def)
next
  case (Cons t ts)
  obtain d where d: "parse_acpi_table s t madt = Some d" "if usable_madt s t then describes s t d else d = madt"
    using parse_acpi_table_result [of t s madt] Cons.prems by auto
  obtain d' where d': "parse_tables s ts d = Some d'"
    "case last_madt s ts of None \<Rightarrow> d' = d | Some u \<Rightarrow> describes s u d'"
    using Cons.IH [of d] Cons.prems by auto
  show ?case
    using d d' by (cases "last_madt s ts") (simp_all add: last_madt_Cons)
qed

lemma acpi_init_tables:
  "acpi_init s r v madt = (case find_root s r v of None \<Rightarrow> Some madt | Some root \<Rightarrow> parse_tables s (root_tables s root) madt)"
  by (auto simp: acpi_init_def parse_xsdt_def parse_rsdt_def root_tables_def Let_def split: option.split RootTable.split)

text \<open>C20: ACPI discovery always ends, and what the kernel then knows about processors, I/O APICs and
  interrupt overrides is what the last valid interrupt-controller table of the root says: every
  entry of it that decodes, in order, up to the sizes of the fixed arrays. A table with a wrong
  checksum, a wrong signature or a short header changes nothing. The tables must not reach the last
  256 bytes of the address space, where the cursor could wrap.
\<close>

theorem acpi_init_reads_madt:
  assumes "find_root s limine_rsdp revision = Some root"
    and "\<forall>t \<in> set (root_tables s root). unat t + unat (sdt_length s t) < 2 ^ 64 - 256"
  shows "\<exists>data. acpi_init s limine_rsdp revision madt = Some data \<and>
    (case last_madt s (root_tables s root) of None \<Rightarrow> data = madt | Some t \<Rightarrow> describes s t data)"
  using parse_tables_result [OF assms(2)] by (simp add: acpi_init_tables assms(1))

text \<open>A firmware with one processor that is enabled, one that is not, and an I/O APIC.\<close>

definition demo_madt :: bytes where
  "demo_madt = ascii ''APIC'' @ [72, 0, 0, 0, 5, 0xd7] @ replicate 26 0 @ [0, 0, 0xE0, 0xFE, 1, 0, 0, 0]
     @ [0, 8, 0, 0, 1, 0, 0, 0] @ [0, 8, 1, 1, 0, 0, 0, 0] @ [1, 12, 2, 0, 0, 0, 0xC0, 0xFE, 0, 0, 0, 0]"

definition demo_firmware :: bytes where
  "demo_firmware = ascii ''RSD PTR '' @ [0xb1] @ replicate 6 0 @ [0, 0x20, 0x10, 0, 0] @ replicate 12 0
     @ ascii ''RSDT'' @ [40, 0, 0, 0, 1, 0x42] @ replicate 26 0 @ [0x48, 0x10, 0, 0] @ demo_madt"

definition acpi_machine :: machine where
  "acpi_machine = \<lparr>target = X86_64, hhdm = 0xFFFF800000000000,
     ram = (\<lambda>a. if 0x1000 \<le> a \<and> a < 0x1090 then demo_firmware ! unat (a - 0x1000) else 0),
     pmm = \<lparr>bitmap = []\<rparr>, cr3 = 0, ttbr1 = 0, kernel_root = 0\<rparr>"

lemma foldl_plus: "foldl (+) a bs = a + foldl (+) 0 bs" for a :: u8
proof (induction bs arbitrary: a)
  case (Cons b bs)
  show ?case using Cons [of "a + b"] Cons [of b] by (simp add: add.assoc)
qed simp

lemma byte_sum_simps [simp]: "byte_sum [] = 0" "byte_sum (b # bs) = b + byte_sum bs"
  using foldl_plus [of b bs] by (simp_all add: byte_sum_def)

lemma byte_sum_zeros [simp]: "byte_sum (replicate n 0 @ bs) = byte_sum bs" "byte_sum (replicate n 0) = 0"
  by (induction n) simp_all

lemma length_demo_firmware: "length demo_firmware = 144"
  by (simp add: demo_firmware_def demo_madt_def ascii_def)

lemma read_demo_firmware:
  assumes "k + n \<le> 144"
  shows "read_bytes acpi_machine (0xFFFF800000001000 + word_of_nat k) n = take n (drop k demo_firmware)"
proof (rule nth_equalityI)
  show "length (read_bytes acpi_machine (0xFFFF800000001000 + word_of_nat k) n) = length (take n (drop k demo_firmware))"
    using assms by (simp add: length_demo_firmware)
  fix i assume "i < length (read_bytes acpi_machine (0xFFFF800000001000 + word_of_nat k) n)"
  then have i: "i < n" by simp
  have u: "unat (word_of_nat k + word_of_nat i :: usize) = k + i"
    using assms i by (simp add: unat_of_nat take_bit_nat_eq_self del: of_nat_add flip: of_nat_add)
  have u2: "unat (0x1000 + (word_of_nat k + word_of_nat i) :: usize) = 0x1000 + (k + i)"
    using assms i u by (subst unat_add_lt) simp_all
  show "read_bytes acpi_machine (0xFFFF800000001000 + word_of_nat k) n ! i = take n (drop k demo_firmware) ! i"
    using assms i u u2
    by (simp add: read_bytes_def virt_to_ram_def acpi_machine_def add.assoc word_le_nat_alt word_less_nat_alt length_demo_firmware)
qed

lemmas demo_bytes = demo_firmware_def demo_madt_def ascii_def

lemma demo_reads:
  "read_bytes acpi_machine 0xFFFF800000001000 8 = ascii ''RSD PTR ''"
  "byte_sum (read_bytes acpi_machine 0xFFFF800000001000 20) = 0"
  "read_bytes acpi_machine 0xFFFF80000000100F 1 = [0]"
  "read_bytes acpi_machine 0xFFFF800000001010 4 = [0x20, 0x10, 0, 0]"
  using read_demo_firmware [of 0 8] read_demo_firmware [of 0 20] read_demo_firmware [of 15 1] read_demo_firmware [of 16 4]
  by (simp_all add: demo_bytes)

lemma demo_rsdp: "parse_rsdp acpi_machine 0xFFFF800000001000 = Ok (Rsdt 0x1020)"
  by (simp add: parse_rsdp_def rsdp_is_valid_def rsdp_at_def demo_reads Let_def u32_le_def del: One_nat_def)

lemma demo_rsdt:
  "sdt_signature acpi_machine 0xFFFF800000001020 = ascii ''RSDT''" "sdt_length acpi_machine 0xFFFF800000001020 = 40"
  "byte_sum (read_bytes acpi_machine 0xFFFF800000001020 40) = 0"
  "read_bytes acpi_machine 0xFFFF800000001044 4 = [0x48, 0x10, 0, 0]"
  using read_demo_firmware [of 32 4] read_demo_firmware [of 36 4] read_demo_firmware [of 32 40] read_demo_firmware [of 68 4]
  by (simp_all add: demo_bytes sdt_signature_def sdt_length_def u32_le_def)

lemma demo_madt_table:
  "sdt_signature acpi_machine 0xFFFF800000001048 = ascii ''APIC''" "sdt_length acpi_machine 0xFFFF800000001048 = 72"
  "byte_sum (read_bytes acpi_machine 0xFFFF800000001048 72) = 0"
  "read_bytes acpi_machine 0xFFFF800000001074 28 = drop 44 demo_madt"
  using read_demo_firmware [of 72 4] read_demo_firmware [of 76 4] read_demo_firmware [of 72 72] read_demo_firmware [of 116 28]
  by (simp_all add: demo_bytes sdt_signature_def sdt_length_def u32_le_def)

theorem acpi_init_reads_madt_witness:
  "\<exists>data. acpi_init acpi_machine (Some 0xFFFF800000001000) 4 madt_empty = Some data \<and>
     known_cpus data = [\<lparr>acpi_processor_id = 0, apic_id = 0, enabled = True, online_capable = False\<rparr>] \<and>
     known_ioapics data = [\<lparr>io_id = 2, io_address = 0xFEC00000, gsi_base = 0\<rparr>] \<and> known_isos data = []"
proof -
  have root: "find_root acpi_machine (Some 0xFFFF800000001000) 4 = Some (Rsdt 0x1020)"
    by (simp add: find_root_def demo_rsdp)
  have v: "phys_to_virt acpi_machine p = p + 0xFFFF800000000000" for p by (simp add: phys_to_virt_def acpi_machine_def)
  have ts: "root_tables acpi_machine (Rsdt 0x1020) = [0xFFFF800000001048]"
    by (simp add: root_tables_def v sdt_is_valid_def demo_rsdt u32_le_def)
  have us: "last_madt acpi_machine [0xFFFF800000001048] = Some 0xFFFF800000001048"
    by (simp add: last_madt_def usable_madt_def sdt_is_valid_def demo_madt_table)
  have "table_entries acpi_machine 0xFFFF800000001048 = madt_entries (drop 44 demo_madt)"
    by (simp add: table_entries_def demo_madt_table)
  also have "\<dots> = [(0, [0, 8, 0, 0, 1, 0, 0, 0]), (0, [0, 8, 1, 1, 0, 0, 0, 0]), (1, [1, 12, 2, 0, 0, 0, 0xC0, 0xFE, 0, 0, 0, 0])]"
    by code_simp
  finally have te: "table_entries acpi_machine 0xFFFF800000001048 = [(0, [0, 8, 0, 0, 1, 0, 0, 0]), (0, [0, 8, 1, 1, 0, 0, 0, 0]),
    (1, [1, 12, 2, 0, 0, 0, 0xC0, 0xFE, 0, 0, 0, 0])]" .
  have es: "List.map_filter cpu_entry (table_entries acpi_machine 0xFFFF800000001048)
      = [\<lparr>acpi_processor_id = 0, apic_id = 0, enabled = True, online_capable = False\<rparr>]"
    "List.map_filter ioapic_entry (table_entries acpi_machine 0xFFFF800000001048)
      = [\<lparr>io_id = 2, io_address = 0xFEC00000, gsi_base = 0\<rparr>]"
    "List.map_filter iso_entry (table_entries acpi_machine 0xFFFF800000001048) = []"
    by (simp_all add: te cpu_entry_def ioapic_entry_def iso_entry_def cpu_record_def byte_at_def u32_at_def u32_le_def)
  show ?thesis
    using acpi_init_reads_madt [OF root, of madt_empty]
    by (simp add: ts demo_madt_table us describes_def es MAX_CPUS_def MAX_IOAPICS_def) blast
qed

end
