(* ===== verification/Gdt.thy ===== *)
theory Gdt
  imports Madt
begin

text \<open>
  The segment descriptors and task-state segments of x86_64 (\<^verbatim>\<open>gdt.rs\<close>), for the boot processor
  and for each application processor. The addresses the linker gives the statics are arguments; the
  registers \<open>lgdt\<close>, \<open>ltr\<close>, the segment loads and \<open>iretq\<close> set are the record \<open>seg_regs\<close>.
\<close>

section \<open>Selectors and descriptors\<close>

definition KERNEL_CODE_SELECTOR :: u16 where "KERNEL_CODE_SELECTOR = 0x08"
definition KERNEL_DATA_SELECTOR :: u16 where "KERNEL_DATA_SELECTOR = 0x10"
definition USER_CODE_SELECTOR :: u16 where "USER_CODE_SELECTOR = 0x18 OR 3"
definition USER_DATA_SELECTOR :: u16 where "USER_DATA_SELECTOR = 0x20 OR 3"
definition TSS_SELECTOR :: u16 where "TSS_SELECTOR = 0x28"
definition DOUBLE_FAULT_IST_INDEX :: nat where "DOUBLE_FAULT_IST_INDEX = 0"
definition DOUBLE_FAULT_IST_NUMBER :: u8 where "DOUBLE_FAULT_IST_NUMBER = 1"
definition DF_STACK_SIZE :: nat where "DF_STACK_SIZE = 8192"
definition AP_DF_STACK_SIZE :: nat where "AP_DF_STACK_SIZE = 8192"

text \<open>The reserved fields of \<open>Tss\<close> are always zero and left out; the packed size is 104 bytes.\<close>

record Tss =
  tss_rsp :: "u64 list"
  tss_ist :: "u64 list"
  iomap_base :: u16

definition SIZE_OF_TSS :: nat where "SIZE_OF_TSS = 104"

definition tss_new :: Tss where
  "tss_new = \<lparr>tss_rsp = replicate 3 0, tss_ist = replicate 7 0, iomap_base = word_of_nat SIZE_OF_TSS\<rparr>"

definition descriptor_bits :: "u32 \<Rightarrow> u32 \<Rightarrow> u8 \<Rightarrow> u8 \<Rightarrow> u64" where
  "descriptor_bits base limit access flags =
     (let limit_low = ucast (limit AND 0xFFFF);
          limit_high = ucast (drop_bit 16 limit AND 0xF);
          base_low = ucast (base AND 0xFFFF);
          base_mid = ucast (drop_bit 16 base AND 0xFF);
          base_high = ucast (drop_bit 24 base AND 0xFF)
      in limit_low OR push_bit 16 base_low OR push_bit 32 base_mid OR push_bit 40 (ucast access)
         OR push_bit 48 limit_high OR push_bit 52 (ucast flags) OR push_bit 56 base_high)"

definition tss_descriptor_bits :: "u64 \<Rightarrow> u32 \<Rightarrow> u64 \<times> u64" where
  "tss_descriptor_bits base limit =
     (descriptor_bits (ucast (base AND 0xFFFFFFFF)) limit 0x89 0, drop_bit 32 base AND 0xFFFFFFFF)"

definition gdt_flat :: "u8 \<Rightarrow> u8 \<Rightarrow> u64" where
  "gdt_flat access flags = descriptor_bits 0 0xFFFFF access flags"

text \<open>The seven entries in the order of the structure \<open>Gdt\<close>.\<close>

record Gdt =
  gdt_null :: u64
  kernel_code :: u64
  kernel_data :: u64
  user_code :: u64
  user_data :: u64
  tss_low :: u64
  tss_high :: u64

definition GDT_initial :: Gdt where
  "GDT_initial = \<lparr>gdt_null = 0, kernel_code = gdt_flat 0x9A 0xA, kernel_data = gdt_flat 0x92 0xC,
     user_code = gdt_flat 0xFA 0xA, user_data = gdt_flat 0xF2 0xC, tss_low = 0, tss_high = 0\<rparr>"

definition gdt_entries :: "Gdt \<Rightarrow> u64 list" where
  "gdt_entries g = [gdt_null g, kernel_code g, kernel_data g, user_code g, user_data g, tss_low g, tss_high g]"

section \<open>Initialisation\<close>

record seg_regs =
  gdtr_limit :: u16
  gdtr_base :: u64
  tr :: u16
  seg_cs :: u16
  seg_ss :: u16
  data_segs :: u16  \<comment> \<open>\<open>ds\<close>, \<open>es\<close>, \<open>fs\<close> and \<open>gs\<close>, always loaded together\<close>

definition gdt_flush :: "u16 \<Rightarrow> u64 \<Rightarrow> seg_regs \<Rightarrow> seg_regs" where
  "gdt_flush limit base r = r\<lparr>gdtr_limit := limit, gdtr_base := base, seg_cs := 0x08, seg_ss := 0x10, data_segs := 0x10\<rparr>"

record PerCpu =
  cpu_gdt :: Gdt
  cpu_tss :: Tss

definition percpu_new :: PerCpu where
  "percpu_new = \<lparr>cpu_gdt = GDT_initial, cpu_tss = tss_new\<rparr>"

definition gdt_init :: "u64 \<Rightarrow> u64 \<Rightarrow> u64 \<Rightarrow> PerCpu \<Rightarrow> seg_regs \<Rightarrow> PerCpu \<times> seg_regs" where
  "gdt_init gdt_addr tss_addr df_stack c r =
     (let df_stack_top = df_stack + word_of_nat DF_STACK_SIZE;
          tss = (cpu_tss c)\<lparr>tss_ist := (tss_ist (cpu_tss c))[DOUBLE_FAULT_IST_INDEX := df_stack_top]\<rparr>;
          (low, high) = tss_descriptor_bits tss_addr (word_of_nat (SIZE_OF_TSS - 1));
          gdt = (cpu_gdt c)\<lparr>tss_low := low, tss_high := high\<rparr>
      in (\<lparr>cpu_gdt = gdt, cpu_tss = tss\<rparr>, (gdt_flush (7 * 8 - 1) gdt_addr r)\<lparr>tr := TSS_SELECTOR\<rparr>))"

definition set_kernel_stack :: "u64 \<Rightarrow> Tss \<Rightarrow> Tss" where
  "set_kernel_stack stack_top tss = tss\<lparr>tss_rsp := (tss_rsp tss)[0 := stack_top]\<rparr>"

text \<open>
  \<open>init_ap\<close>: the same steps on the slot of one processor. \<open>gdt_at\<close> and \<open>tss_at\<close> are the addresses of the
  two parts of a slot, which the compiler lays out, and \<open>ap_stacks\<close> is the address of the stack array.
\<close>

definition init_ap :: "(nat \<Rightarrow> u64) \<Rightarrow> (nat \<Rightarrow> u64) \<Rightarrow> u64 \<Rightarrow> nat \<Rightarrow> PerCpu list \<Rightarrow> seg_regs \<Rightarrow> PerCpu list \<times> seg_regs" where
  "init_ap gdt_at tss_at ap_stacks cpu_index slots r =
     (let df_stack_top = ap_stacks + word_of_nat (AP_DF_STACK_SIZE * cpu_index) + word_of_nat AP_DF_STACK_SIZE;
          c = slots ! cpu_index;
          tss = (cpu_tss c)\<lparr>tss_ist := (tss_ist (cpu_tss c))[DOUBLE_FAULT_IST_INDEX := df_stack_top]\<rparr>;
          (low, high) = tss_descriptor_bits (tss_at cpu_index) (word_of_nat (SIZE_OF_TSS - 1));
          gdt = (cpu_gdt c)\<lparr>tss_low := low, tss_high := high\<rparr>
      in (slots[cpu_index := \<lparr>cpu_gdt = gdt, cpu_tss = tss\<rparr>],
          (gdt_flush (7 * 8 - 1) (gdt_at cpu_index) r)\<lparr>tr := TSS_SELECTOR\<rparr>))"

text \<open>\<open>enter_usermode\<close>: the data segments are loaded and \<open>iretq\<close> pops the five words pushed.\<close>

record user_frame =
  uf_rip :: u64
  uf_cs :: u64
  uf_rflags :: u64
  uf_rsp :: u64
  uf_ss :: u64

definition enter_usermode :: "usize \<Rightarrow> usize \<Rightarrow> seg_regs \<Rightarrow> user_frame \<times> seg_regs" where
  "enter_usermode entry_pt user_stack_top r =
     (let f = \<lparr>uf_rip = entry_pt, uf_cs = ucast USER_CODE_SELECTOR, uf_rflags = 0x202, uf_rsp = user_stack_top,
               uf_ss = ucast USER_DATA_SELECTOR\<rparr>
      in (f, r\<lparr>data_segs := USER_DATA_SELECTOR, seg_cs := ucast (uf_cs f), seg_ss := ucast (uf_ss f)\<rparr>))"

section \<open>What the processor reads\<close>

text \<open>The fields of a segment descriptor, at the bit positions of the architecture.\<close>

definition seg_base :: "u64 \<Rightarrow> u32" where
  "seg_base d = ucast (take_bit 24 (drop_bit 16 d)) OR push_bit 24 (ucast (drop_bit 56 d))"

definition seg_limit :: "u64 \<Rightarrow> u32" where
  "seg_limit d = ucast (take_bit 16 d) OR push_bit 16 (ucast (take_bit 4 (drop_bit 48 d)))"

definition seg_access :: "u64 \<Rightarrow> u8" where "seg_access d = ucast (drop_bit 40 d)"
definition seg_flags :: "u64 \<Rightarrow> u8" where "seg_flags d = take_bit 4 (ucast (drop_bit 52 d))"

definition seg_present :: "u64 \<Rightarrow> bool" where "seg_present d = bit (seg_access d) 7"
definition seg_dpl :: "u64 \<Rightarrow> u8" where "seg_dpl d = take_bit 2 (drop_bit 5 (seg_access d))"
definition seg_executable :: "u64 \<Rightarrow> bool" where "seg_executable d = bit (seg_access d) 3"
definition seg_long :: "u64 \<Rightarrow> bool" where "seg_long d = bit (seg_flags d) 1"

text \<open>The entry a selector picks, and the privilege it asks for.\<close>

definition selected :: "Gdt \<Rightarrow> u16 \<Rightarrow> u64" where "selected g sel = gdt_entries g ! unat (drop_bit 3 sel)"
definition rpl :: "u16 \<Rightarrow> u16" where "rpl sel = take_bit 2 sel"

lemma bit_descriptor_bits:
  assumes "take_bit 4 flags = flags"
  shows "bit (descriptor_bits base limit access flags) n \<longleftrightarrow>
    (if n < 16 then bit limit n else if n < 40 then bit base (n - 16) else if n < 48 then bit access (n - 40)
     else if n < 52 then bit limit (n - 32) else if n < 56 then bit flags (n - 52) else n < 64 \<and> bit base (n - 32))"
proof -
  have f: "4 \<le> m \<Longrightarrow> \<not> bit flags m" for m using assms bit_take_bit_iff [of 4 flags m] by auto
  consider "n < 16" | "16 \<le> n" "n < 32" | "32 \<le> n" "n < 40" | "40 \<le> n" "n < 48" | "48 \<le> n" "n < 52"
    | "52 \<le> n" "n < 56" | "56 \<le> n" "n < 64" | "64 \<le> n" by linarith
  then show ?thesis
    unfolding descriptor_bits_def Let_def
    by cases (simp_all add: bit_simps bit_mask_numerals f less_diff_conv2)
qed

lemma seg_fields:
  assumes "take_bit 4 flags = flags" "take_bit 20 limit = limit"
  shows "seg_base (descriptor_bits base limit access flags) = base"
    "seg_limit (descriptor_bits base limit access flags) = limit"
    "seg_access (descriptor_bits base limit access flags) = access"
    "seg_flags (descriptor_bits base limit access flags) = flags"
proof -
  have l: "20 \<le> m \<Longrightarrow> \<not> bit limit m" for m using assms(2) bit_take_bit_iff [of 20 limit m] by auto
  have f: "4 \<le> m \<Longrightarrow> \<not> bit flags m" for m using assms(1) bit_take_bit_iff [of 4 flags m] by auto
  note bits = bit_descriptor_bits [OF assms(1)] bit_simps
  show "seg_base (descriptor_bits base limit access flags) = base"
  proof (rule bit_word_eqI)
    fix n assume "n < LENGTH(32)"
    then consider "n < 24" | "24 \<le> n" "n < 32" by force
    then show "bit (seg_base (descriptor_bits base limit access flags)) n \<longleftrightarrow> bit base n"
      by cases (simp_all add: seg_base_def bits less_diff_conv2)
  qed
  show "seg_limit (descriptor_bits base limit access flags) = limit"
  proof (rule bit_word_eqI)
    fix n assume "n < LENGTH(32)"
    then consider "n < 16" | "16 \<le> n" "n < 20" | "20 \<le> n" by force
    then show "bit (seg_limit (descriptor_bits base limit access flags)) n \<longleftrightarrow> bit limit n"
      by cases (simp_all add: seg_limit_def bits l less_diff_conv2)
  qed
  show "seg_access (descriptor_bits base limit access flags) = access"
    by (rule bit_word_eqI) (simp add: seg_access_def bits)
  show "seg_flags (descriptor_bits base limit access flags) = flags"
  proof (rule bit_word_eqI)
    fix n show "bit (seg_flags (descriptor_bits base limit access flags)) n \<longleftrightarrow> bit flags n"
      using f [of n] by (cases "n < 4") (simp_all add: seg_flags_def bits)
  qed
qed

lemma flat_fields:
  assumes "take_bit 4 flags = flags"
  shows "seg_access (gdt_flat access flags) = access" "seg_flags (gdt_flat access flags) = flags"
proof -
  have "take_bit 20 (0xFFFFF :: u32) = 0xFFFFF" by (simp add: take_bit_eq_mask mask_eq_exp_minus_1)
  from seg_fields [OF assms this] show "seg_access (gdt_flat access flags) = access" "seg_flags (gdt_flat access flags) = flags"
    by (simp_all add: gdt_flat_def)
qed

text \<open>The base a system descriptor of sixteen bytes gives.\<close>

definition tss_base :: "Gdt \<Rightarrow> u64" where
  "tss_base g = ucast (seg_base (tss_low g)) OR push_bit 32 (tss_high g)"

lemma tss_descriptor_fields:
  assumes "tss_descriptor_bits base limit = (low, high)" "take_bit 20 limit = limit"
  shows "ucast (seg_base low) OR push_bit 32 high = base" "seg_limit low = limit" "seg_access low = 0x89"
proof -
  have lo: "low = descriptor_bits (ucast (base AND 0xFFFFFFFF)) limit 0x89 0" and "high = drop_bit 32 base AND 0xFFFFFFFF"
    using assms(1) by (simp_all add: tss_descriptor_bits_def)
  then have hi: "high = drop_bit 32 base"
    by (auto intro!: bit_word_eqI simp: bit_simps bit_mask_numerals) (metis bit_high(3) add_le_cancel_left not_less numeral_Bit0)
  note fs = seg_fields [of 0 limit "ucast (base AND 0xFFFFFFFF)" "0x89", OF _ assms(2), simplified]
  show "ucast (seg_base low) OR push_bit 32 high = base"
  proof (rule bit_word_eqI)
    fix n assume "n < LENGTH(64)"
    then consider "n < 32" | "32 \<le> n" "n < 64" by force
    then show "bit (ucast (seg_base low) OR push_bit 32 high) n \<longleftrightarrow> bit base n"
      unfolding lo fs hi by cases (simp_all add: bit_simps bit_mask_numerals less_diff_conv2)
  qed
  show "seg_limit low = limit" "seg_access low = 0x89" using fs by (simp_all add: lo)
qed

section \<open>The tables the processor runs on\<close>

text \<open>
  A table whose selectors mean what the kernel takes them for, with the task-state segment at
  \<open>tss_addr\<close>, loaded into the registers.
\<close>

definition gdt_ok :: "u64 \<Rightarrow> Gdt \<Rightarrow> seg_regs \<Rightarrow> bool" where
  "gdt_ok tss_addr g r \<longleftrightarrow>
     (\<forall>sel \<in> {KERNEL_CODE_SELECTOR, KERNEL_DATA_SELECTOR, USER_CODE_SELECTOR, USER_DATA_SELECTOR}.
        seg_present (selected g sel) \<and> ucast (seg_dpl (selected g sel)) = rpl sel) \<and>
     (\<forall>sel \<in> {KERNEL_CODE_SELECTOR, USER_CODE_SELECTOR}. seg_executable (selected g sel) \<and> seg_long (selected g sel)) \<and>
     (\<forall>sel \<in> {KERNEL_DATA_SELECTOR, USER_DATA_SELECTOR}. \<not> seg_executable (selected g sel)) \<and>
     rpl (seg_cs r) = 0 \<and> seg_cs r = KERNEL_CODE_SELECTOR \<and> seg_ss r = KERNEL_DATA_SELECTOR \<and>
     unat (gdtr_limit r) + 1 = 8 * length (gdt_entries g) \<and>
     selected g (tr r) = tss_low g \<and> seg_present (tss_low g) \<and> tss_base g = tss_addr \<and>
     unat (seg_limit (tss_low g)) + 1 = SIZE_OF_TSS"

definition same_segments :: "Gdt \<Rightarrow> Gdt \<Rightarrow> bool" where
  "same_segments g g' \<longleftrightarrow> take 5 (gdt_entries g) = take 5 (gdt_entries g')"

lemma gdt_ok_loaded:
  assumes "same_segments g GDT_initial" "tss_descriptor_bits addr (word_of_nat (SIZE_OF_TSS - 1)) = (low, high)"
  shows "gdt_ok addr (g\<lparr>tss_low := low, tss_high := high\<rparr>) ((gdt_flush (7 * 8 - 1) a r)\<lparr>tr := TSS_SELECTOR\<rparr>)"
proof -
  have t: "take_bit 20 (word_of_nat (SIZE_OF_TSS - 1) :: u32) = word_of_nat (SIZE_OF_TSS - 1)"
    by (simp add: SIZE_OF_TSS_def take_bit_eq_mask mask_eq_exp_minus_1)
  note tss = tss_descriptor_fields [OF assms(2) t]
  have g: "kernel_code g = gdt_flat 0x9A 0xA" "kernel_data g = gdt_flat 0x92 0xC" "user_code g = gdt_flat 0xFA 0xA"
    "user_data g = gdt_flat 0xF2 0xC"
    using assms(1) by (simp_all add: same_segments_def gdt_entries_def GDT_initial_def numeral_eq_Suc)
  have flags: "take_bit 4 (0xA :: u8) = 0xA" "take_bit 4 (0xC :: u8) = 0xC"
    by (simp_all add: take_bit_eq_mask mask_eq_exp_minus_1)
  note fl = flat_fields [OF flags(1)] flat_fields [OF flags(2)]
  show ?thesis
    using tss
    by (simp add: gdt_ok_def g selected_def gdt_entries_def KERNEL_CODE_SELECTOR_def KERNEL_DATA_SELECTOR_def
      USER_CODE_SELECTOR_def USER_DATA_SELECTOR_def TSS_SELECTOR_def gdt_flush_def rpl_def seg_present_def seg_dpl_def
      seg_executable_def seg_long_def fl tss_base_def SIZE_OF_TSS_def)
qed

lemma init_ap_slots:
  assumes "init_ap gdt_at tss_at ap_stacks i slots r = (slots', r')"
  shows "length slots' = length slots" "j \<noteq> i \<Longrightarrow> slots' ! j = slots ! j"
  using assms by (auto simp: init_ap_def Let_def split_beta)



end
