(* ===== verification/Smp.thy ===== *)
theory Smp
  imports Apic Acpi Gdt Heap
begin

text \<open>
  The start of the application processors (\<^verbatim>\<open>hal/smp.rs\<close>): the trampoline page, its parameters, the
  INIT and STARTUP interrupts, the delays on channel 2 of the timer chip, and what a started
  processor does before it reports itself. The started processors and the timer are part of the
  device parameter; the flag \<open>AP_ONLINE[i]\<close>, which another processor sets, is read and written through
  a register of that device too. The bytes of the trampoline are generated by the build and, like
  the address of \<open>rust_ap_entry\<close>, are arguments.
\<close>

section \<open>Definitions\<close>

definition TRAMPOLINE_PHYS :: usize where "TRAMPOLINE_PHYS = 0x8000"
abbreviation PARAM_CR3 :: usize where "PARAM_CR3 \<equiv> 0x1F0"
abbreviation PARAM_STACK_TOP :: usize where "PARAM_STACK_TOP \<equiv> 0x1F8"
abbreviation PARAM_ENTRY :: usize where "PARAM_ENTRY \<equiv> 0x200"
abbreviation PARAM_CPU_INDEX :: usize where "PARAM_CPU_INDEX \<equiv> 0x208"
definition AP_STACK_SIZE :: usize where "AP_STACK_SIZE = 16 * 1024"

record smp =
  smp_mach :: machine
  smp_heap :: block_allocator
  smp_hist :: history
  lapic :: apic
  CPUS_ONLINE :: usize

definition AP_ONLINE :: "nat \<Rightarrow> usize" where "AP_ONLINE i = 0x6000000000000000 + word_of_nat i"

definition write_param_u64 :: "usize \<Rightarrow> u64 \<Rightarrow> machine \<Rightarrow> machine" where
  "write_param_u64 offset v s = write_u64 (phys_to_virt s (TRAMPOLINE_PHYS + offset)) v s"

definition pit_count :: "u32 \<Rightarrow> u16" where
  "pit_count us = word_of_nat (min (max (1193182 * unat us div 1000000) 1) 0xFFFF)"

definition pit_delay_us :: "device \<Rightarrow> u32 \<Rightarrow> history \<Rightarrow> history option" where
  "pit_delay_us dev us h =
     (let count = pit_count us
      in case dev_read dev 0x61 h of (v, h) \<Rightarrow>
           let gate = ((ucast v :: u8) AND NOT 0x02) OR 0x01;
               h = dev_write 0x61 (ucast gate) h;
               h = dev_write 0x43 0xB0 h;
               h = dev_write 0x42 (ucast (count AND 0xFF)) h;
               h = dev_write 0x42 (ucast (drop_bit 8 count)) h
           in poll_while dev 0x61 (\<lambda>v. (ucast v :: u8) AND 0x20 = 0) h)"

fun pit_delay_ms :: "device \<Rightarrow> nat \<Rightarrow> history \<Rightarrow> history option" where
  "pit_delay_ms dev 0 h = Some h"
| "pit_delay_ms dev (Suc ms) h = Option.bind (pit_delay_us dev 1000 h) (pit_delay_ms dev ms)"

fun wait_online :: "device \<Rightarrow> nat \<Rightarrow> nat \<Rightarrow> history \<Rightarrow> (bool \<times> history) option" where
  "wait_online dev i 0 h = Some (False, h)"
| "wait_online dev i (Suc timeout_ms) h =
     (case dev_read dev (AP_ONLINE i) h of (v, h) \<Rightarrow>
        if v \<noteq> 0 then Some (True, h) else Option.bind (pit_delay_ms dev 1 h) (wait_online dev i timeout_ms))"

text \<open>The interrupts and delays of \<open>start_one_ap\<close>, and its last look at the flag.\<close>

definition wake_ap :: "machine \<Rightarrow> apic \<Rightarrow> device \<Rightarrow> u32 \<Rightarrow> nat \<Rightarrow> history \<Rightarrow> (bool \<times> history) option" where
  "wake_ap s a dev aid i h =
     (let start_page = ucast (drop_bit 12 TRAMPOLINE_PHYS)
      in Option.bind (send_init s a dev aid h) (\<lambda>h.
         Option.bind (pit_delay_ms dev 10 h) (\<lambda>h.
         Option.bind (send_startup s a dev aid start_page h) (\<lambda>h.
         Option.bind (wait_online dev i 1 h) (\<lambda>(on, h).
         Option.bind
           (if on then Some h
            else Option.bind (send_startup s a dev aid start_page h) (\<lambda>h.
                 Option.bind (wait_online dev i 100 h) (\<lambda>(_, h). Some h)))
           (\<lambda>h. case dev_read dev (AP_ONLINE i) h of (v, h) \<Rightarrow> Some (v \<noteq> 0, h)))))))"

text \<open>
  The stack is a zeroed vector of bytes that is never freed; when the heap is exhausted the
  allocation error handler panics.
\<close>

definition start_one_ap :: "device \<Rightarrow> u64 \<Rightarrow> u32 \<Rightarrow> nat \<Rightarrow> u64 \<Rightarrow> smp \<Rightarrow> ((unit, bool) outcome \<times> smp) option" where
  "start_one_ap dev ap_entry aid i target_cr3 st =
     (case heap_alloc \<lparr>layout_size = AP_STACK_SIZE, layout_align = 1\<rparr> (smp_heap st) (smp_mach st) of
        (Ok p, hp, s) \<Rightarrow>
          if p = 0 then Some (Panic, st\<lparr>smp_heap := hp, smp_mach := s\<rparr>)
          else let s = write_bytes p 0 AP_STACK_SIZE s;
                   stack_top = p + AP_STACK_SIZE;
                   s = write_param_u64 PARAM_CR3 (target_cr3 AND NOT 0xFFF) s;
                   s = write_param_u64 PARAM_STACK_TOP (stack_top AND NOT 0xF) s;
                   s = write_param_u64 PARAM_ENTRY ap_entry s;
                   s = write_param_u64 PARAM_CPU_INDEX (word_of_nat i) s;
                   h = dev_write (AP_ONLINE i) 0 (smp_hist st)
          in Option.bind (wake_ap s (lapic st) dev aid i h) (\<lambda>(on, h).
               Some (Ok on, st\<lparr>smp_heap := hp, smp_mach := s, smp_hist := h\<rparr>))
      | (_, hp, s) \<Rightarrow> Some (Panic, st\<lparr>smp_heap := hp, smp_mach := s\<rparr>))"

text \<open>The loop of \<open>start_aps\<close> over the processors of the table.\<close>

fun start_each :: "device \<Rightarrow> u64 \<Rightarrow> u32 \<Rightarrow> u64 \<Rightarrow> ProcessorLocalApic list \<Rightarrow> nat \<Rightarrow> nat \<Rightarrow> smp \<Rightarrow> ((unit, nat) outcome \<times> smp) option" where
  "start_each dev ap_entry bsp target_cr3 [] next started st = Some (Ok started, st)"
| "start_each dev ap_entry bsp target_cr3 (c # cs') next started st =
     (if apic_id c = bsp \<or> \<not> enabled c \<or> MAX_CPUS \<le> next then start_each dev ap_entry bsp target_cr3 cs' next started st
      else Option.bind (start_one_ap dev ap_entry (apic_id c) next target_cr3 st) (\<lambda>(r, st).
        case r of
          Ok on \<Rightarrow> start_each dev ap_entry bsp target_cr3 cs' (next + 1) (if on then started + 1 else started) st
        | Err _ \<Rightarrow> Some (Panic, st)
        | Panic \<Rightarrow> Some (Panic, st)))"

definition start_aps :: "device \<Rightarrow> bytes \<Rightarrow> u64 \<Rightarrow> MadtData \<Rightarrow> smp \<Rightarrow> ((unit, unit) outcome \<times> smp) option" where
  "start_aps dev blob ap_entry madt st =
     (if \<not> found madt then Some (Ok (), st)
      else let (a, h) = set_base dev (local_apic_address madt) (smp_hist st);
               s = smp_mach st;
               h = init_this_core s a dev h;
               h = init_from_madt s dev madt h;
               (bsp, h) = lapic_id s a dev h;
               s = copy_nonoverlapping blob (phys_to_virt s TRAMPOLINE_PHYS) s
      in Option.bind (start_each dev ap_entry bsp (cr3 s) (take (cpu_count madt) (cpus madt)) 0 0
                        (st\<lparr>lapic := a, smp_mach := s, smp_hist := h\<rparr>)) (\<lambda>(r, st).
           case r of
             Ok started \<Rightarrow> Some (Ok (), st\<lparr>CPUS_ONLINE := CPUS_ONLINE st + word_of_nat started\<rparr>)
           | Err _ \<Rightarrow> Some (Panic, st)
           | Panic \<Rightarrow> Some (Panic, st)))"

text \<open>
  The started processor, up to its report: \<open>lidt\<close> loads the table every processor shares. Afterwards it
  enables interrupts and halts for ever.
\<close>

definition rust_ap_entry :: "(nat \<Rightarrow> u64) \<Rightarrow> (nat \<Rightarrow> u64) \<Rightarrow> u64 \<Rightarrow> machine \<Rightarrow> apic \<Rightarrow> device \<Rightarrow> u64 \<Rightarrow> PerCpu list \<Rightarrow> seg_regs \<Rightarrow> history
    \<Rightarrow> PerCpu list \<times> seg_regs \<times> history" where
  "rust_ap_entry gdt_at tss_at ap_stacks s a dev cpu_index slots r h =
     (let i = unat cpu_index;
          (slots, r) = init_ap gdt_at tss_at ap_stacks i slots r;
          h = init_this_core s a dev h
      in (slots, r, dev_write (AP_ONLINE i) 1 h))"

section \<open>The start-up protocol\<close>

text \<open>Channel 2 of the timer reaches its terminal count after finitely many polls.\<close>

definition pit_expires :: "device \<Rightarrow> bool" where
  "pit_expires dev \<longleftrightarrow> (\<forall>h. \<exists>n. (ucast (dev (after_polls dev 0x61 n h) 0x61) :: u8) AND 0x20 \<noteq> 0)"

text \<open>The registers of the local APIC, when it is used through memory, lie in the higher half.\<close>

definition lapic_mapped :: "machine \<Rightarrow> apic \<Rightarrow> bool" where
  "lapic_mapped s a \<longleftrightarrow> USE_X2APIC a \<or> 0xFFFF800000000000 \<le> lapic_reg s a ICR_LOW"

lemma lapic_mapped_neq:
  assumes "lapic_mapped s a" "\<not> USE_X2APIC a" "r < 0x8000000000000000"
  shows "r \<noteq> lapic_reg s a ICR_LOW"
proof -
  from assms(1,2) have "0xFFFF800000000000 \<le> lapic_reg s a ICR_LOW" by (simp add: lapic_mapped_def)
  moreover have "(0x8000000000000000 :: usize) \<le> 0xFFFF800000000000" by simp
  ultimately have "0x8000000000000000 \<le> lapic_reg s a ICR_LOW" by (rule order_trans [rotated])
  with assms(3) have "r < lapic_reg s a ICR_LOW" by (rule order_less_le_trans)
  then show ?thesis by simp
qed

lemma ipis_other_write:
  assumes "lapic_mapped s a" "r < 0x8000000000000000" "r \<noteq> MSR IA32_X2APIC_ICR"
  shows "ipis s a (Wr r v # h) = ipis s a h"
  using assms lapic_mapped_neq [OF assms(1) _ assms(2)] by auto

lemma AP_ONLINE_neq:
  assumes "i < MAX_CPUS"
  shows "AP_ONLINE i < 0x8000000000000000" "AP_ONLINE i \<noteq> MSR IA32_X2APIC_ICR"
proof -
  have u: "unat (AP_ONLINE i) = 0x6000000000000000 + i"
    using assms unfolding AP_ONLINE_def by (subst unat_add_lt) (simp_all add: unat_of_nat take_bit_nat_eq_self MAX_CPUS_def)
  then show "AP_ONLINE i < 0x8000000000000000" using assms by (simp add: word_less_nat_alt MAX_CPUS_def)
  show "AP_ONLINE i \<noteq> MSR IA32_X2APIC_ICR"
    using u by (auto simp: word_unat_eq_iff MSR_def)
qed

lemma pit_ports_neq:
  "(0x61 :: usize) \<noteq> MSR IA32_X2APIC_ICR" "(0x43 :: usize) \<noteq> MSR IA32_X2APIC_ICR" "(0x42 :: usize) \<noteq> MSR IA32_X2APIC_ICR"
  by (simp_all add: MSR_def)

lemma pit_delay_us_returns:
  assumes "pit_expires dev" "lapic_mapped s a"
  shows "\<exists>h'. pit_delay_us dev us h = Some h' \<and> ipis s a h' = ipis s a h"
proof -
  define h1 where "h1 = snd (dev_read dev 0x61 h)"
  define g where "g = (ucast (((ucast (dev h 0x61) :: u8) AND NOT 0x02) OR 0x01) :: u64)"
  define c where "c = pit_count us"
  define h2 where "h2 = Wr 0x42 (ucast (drop_bit 8 c)) # Wr 0x42 (ucast (c AND 0xFF)) # Wr 0x43 0xB0 # Wr 0x61 g # h1"
  have eq: "pit_delay_us dev us h = poll_while dev 0x61 (\<lambda>v. (ucast v :: u8) AND 0x20 = 0) h2"
    by (simp add: pit_delay_us_def h2_def h1_def g_def c_def dev_read_def dev_write_def Let_def)
  have i: "ipis s a h2 = ipis s a h"
    by (simp add: h2_def ipis_other_write [OF assms(2)] pit_ports_neq h1_def dev_read_def del: ipis.simps(2))
  obtain n where "(ucast (dev (after_polls dev 0x61 n h2) 0x61) :: u8) AND 0x20 \<noteq> 0"
    using assms(1) unfolding pit_expires_def by blast
  with poll_while_ready [of "\<lambda>v. (ucast v :: u8) AND 0x20 = 0" dev "0x61" n h2] obtain m where
    "poll_while dev 0x61 (\<lambda>v. (ucast v :: u8) AND 0x20 = 0) h2 = Some (after_polls dev 0x61 (Suc m) h2)" by blast
  with eq i show ?thesis by (simp del: after_polls_simps)
qed

lemma pit_delay_ms_returns:
  assumes "pit_expires dev" "lapic_mapped s a"
  shows "\<exists>h'. pit_delay_ms dev n h = Some h' \<and> ipis s a h' = ipis s a h"
proof (induction n arbitrary: h)
  case (Suc n)
  obtain h1 where "pit_delay_us dev 1000 h = Some h1" "ipis s a h1 = ipis s a h"
    using pit_delay_us_returns [OF assms] by blast
  with Suc.IH [of h1] show ?case by auto
qed simp

lemma wait_online_returns:
  assumes "pit_expires dev" "lapic_mapped s a"
  shows "\<exists>on h'. wait_online dev i n h = Some (on, h') \<and> ipis s a h' = ipis s a h"
proof (induction n arbitrary: h)
  case (Suc n)
  show ?case
  proof (cases "dev h (AP_ONLINE i) = 0")
    case True
    obtain h1 where h1: "pit_delay_ms dev 1 (Rd (AP_ONLINE i) 0 # h) = Some h1" "ipis s a h1 = ipis s a h"
      using pit_delay_ms_returns [OF assms, of 1 "Rd (AP_ONLINE i) 0 # h"] by auto
    obtain on h2 where "wait_online dev i n h1 = Some (on, h2)" "ipis s a h2 = ipis s a h1" using Suc.IH by blast
    with True h1 show ?thesis by (simp add: dev_read_def del: One_nat_def pit_delay_ms.simps)
  next
    case False
    then show ?thesis
      by (intro exI [of _ True] exI [of _ "Rd (AP_ONLINE i) (dev h (AP_ONLINE i)) # h"]) (simp add: dev_read_def)
  qed
qed auto

text \<open>What one processor is sent: INIT, then STARTUP with the trampoline's page, once or twice.\<close>

definition startup_ipis :: "apic \<Rightarrow> u32 \<Rightarrow> bool \<Rightarrow> (u32 \<times> u32) list" where
  "startup_ipis a aid again =
     [(dest_of a aid, INIT_ASSERT), (dest_of a aid, STARTUP_ASSERT OR 8)]
     @ (if again then [(dest_of a aid, STARTUP_ASSERT OR 8)] else [])"

lemma wake_ap_ipis:
  assumes "pit_expires dev" "lapic_mapped s a" "icr_drains s a dev"
  shows "\<exists>on h' again. wake_ap s a dev aid i h = Some (on, h') \<and> ipis s a h' = ipis s a h @ startup_ipis a aid again"
proof -
  have page: "(ucast (ucast (drop_bit 12 TRAMPOLINE_PHYS) :: u8) :: u32) = 8" by (simp add: TRAMPOLINE_PHYS_def)
  note icr = send_icr_ipi [OF assms(3)]
  obtain h1 where h1: "send_icr s a dev aid INIT_ASSERT h = Some h1" "ipis s a h1 = ipis s a h @ [(dest_of a aid, INIT_ASSERT)]"
    using icr by blast
  obtain h2 where h2: "pit_delay_ms dev 10 h1 = Some h2" "ipis s a h2 = ipis s a h1"
    using pit_delay_ms_returns [OF assms(1,2)] by blast
  obtain h3 where h3: "send_icr s a dev aid (STARTUP_ASSERT OR 8) h2 = Some h3"
    "ipis s a h3 = ipis s a h2 @ [(dest_of a aid, STARTUP_ASSERT OR 8)]" using icr by blast
  obtain on h4 where h4: "wait_online dev i 1 h3 = Some (on, h4)" "ipis s a h4 = ipis s a h3"
    using wait_online_returns [OF assms(1,2)] by blast
  note steps = wake_ap_def send_init_def send_startup_def page h1 h2 h3 h4 startup_ipis_def dev_read_def Let_def
  show ?thesis
  proof (cases on)
    case True
    show ?thesis
      by (rule exI [of _ "dev h4 (AP_ONLINE i) \<noteq> 0"], rule exI [of _ "Rd (AP_ONLINE i) (dev h4 (AP_ONLINE i)) # h4"], rule exI [of _ False],
        simp add: True steps del: One_nat_def wait_online.simps pit_delay_ms.simps)
  next
    case False
    obtain h5 where h5: "send_icr s a dev aid (STARTUP_ASSERT OR 8) h4 = Some h5"
      "ipis s a h5 = ipis s a h4 @ [(dest_of a aid, STARTUP_ASSERT OR 8)]" using icr by blast
    obtain on' h6 where h6: "wait_online dev i 100 h5 = Some (on', h6)" "ipis s a h6 = ipis s a h5"
      using wait_online_returns [OF assms(1,2)] by blast
    show ?thesis
      by (rule exI [of _ "dev h6 (AP_ONLINE i) \<noteq> 0"], rule exI [of _ "Rd (AP_ONLINE i) (dev h6 (AP_ONLINE i)) # h6"], rule exI [of _ True],
        simp add: False steps h5 h6 numeral_2_eq_2 del: One_nat_def wait_online.simps pit_delay_ms.simps)
  qed
qed

section \<open>All processors\<close>

definition same_view :: "machine \<Rightarrow> machine \<Rightarrow> bool" where
  "same_view s t \<longleftrightarrow> target s = target t \<and> hhdm s = hhdm t"

lemma same_view_lapic:
  assumes "same_view s t"
  shows "lapic_reg s a = lapic_reg t a"
  using assms by (intro ext) (simp add: lapic_reg_def phys_to_virt_def same_view_def split: target_arch.split)

lemma same_view_ipis:
  assumes "same_view s t"
  shows "ipis s a h = ipis t a h"
proof -
  have d: "icr_dest s a h = icr_dest t a h" for h
  proof (induction h)
    case (Cons x h)
    then show ?case by (cases x) (simp_all add: same_view_lapic [OF assms])
  qed simp
  show ?thesis
  proof (induction h)
    case (Cons x h)
    then show ?case by (cases x) (simp_all add: same_view_lapic [OF assms] d)
  qed simp
qed

lemma same_view_writes [simp]:
  "same_view s (write_u64 p v t) = same_view s t" "same_view s (write_bytes p b n t) = same_view s t"
  "same_view s (write_param_u64 q v t) = same_view s t" "same_view s (copy_nonoverlapping bs p t) = same_view s t"
  by (simp_all add: same_view_def write_u64_def write_bytes_def write_param_u64_def copy_nonoverlapping_def)

lemma same_view_trans: "same_view s t \<Longrightarrow> same_view t u \<Longrightarrow> same_view s u"
  by (simp add: same_view_def)

lemma same_view_heap_alloc:
  assumes "heap_alloc l hp s = (r, hp', s')"
  shows "same_view s s'"
  using assms by (auto simp: heap_alloc_def same_view_def write_bytes_def Let_def split: if_splits option.splits prod.splits)

lemma heap_alloc_no_error: "heap_alloc l hp s \<noteq> (Err e, x)"
  by (auto simp: heap_alloc_def Let_def split: option.splits prod.splits)

lemma start_one_ap_ipis:
  assumes "pit_expires dev" "lapic_mapped (smp_mach st) (lapic st)" "icr_drains (smp_mach st) (lapic st) dev" "i < MAX_CPUS"
  shows "\<exists>r st'. start_one_ap dev ap_entry aid i c st = Some (r, st') \<and> lapic st' = lapic st \<and> CPUS_ONLINE st' = CPUS_ONLINE st \<and>
    same_view (smp_mach st) (smp_mach st') \<and>
    (\<forall>on. r = Ok on \<longrightarrow> (\<exists>again. ipis (smp_mach st) (lapic st) (smp_hist st')
       = ipis (smp_mach st) (lapic st) (smp_hist st) @ startup_ipis (lapic st) aid again))"
proof -
  obtain r hp s where al: "heap_alloc \<lparr>layout_size = AP_STACK_SIZE, layout_align = 1\<rparr> (smp_heap st) (smp_mach st) = (r, hp, s)"
    using prod_cases3 by blast
  note view = same_view_heap_alloc [OF al]
  show ?thesis
  proof (cases "\<exists>p. r = Ok p \<and> p \<noteq> 0")
    case True
    then obtain p where p: "r = Ok p" "p \<noteq> 0" by blast
    define t where "t = write_param_u64 PARAM_CPU_INDEX (word_of_nat i) (write_param_u64 PARAM_ENTRY ap_entry
      (write_param_u64 PARAM_STACK_TOP ((p + AP_STACK_SIZE) AND NOT 0xF) (write_param_u64 PARAM_CR3 (c AND NOT 0xFFF)
        (write_bytes p 0 AP_STACK_SIZE s))))"
    define h where "h = dev_write (AP_ONLINE i) 0 (smp_hist st)"
    have v: "same_view (smp_mach st) t" using view by (simp add: t_def)
    have "lapic_mapped t (lapic st)" "icr_drains t (lapic st) dev"
      using assms(2,3) by (simp_all add: lapic_mapped_def icr_drains_def same_view_lapic [OF v])
    from wake_ap_ipis [OF assms(1) this, of aid i h] obtain on h' again where
      w: "wake_ap t (lapic st) dev aid i h = Some (on, h')" "ipis t (lapic st) h' = ipis t (lapic st) h @ startup_ipis (lapic st) aid again"
      by blast
    have "ipis (smp_mach st) (lapic st) h = ipis (smp_mach st) (lapic st) (smp_hist st)"
      unfolding h_def dev_write_def by (rule ipis_other_write [OF assms(2) AP_ONLINE_neq [OF assms(4)]])
    with w(2) have "ipis (smp_mach st) (lapic st) h' = ipis (smp_mach st) (lapic st) (smp_hist st) @ startup_ipis (lapic st) aid again"
      by (simp add: same_view_ipis [OF v])
    moreover have "start_one_ap dev ap_entry aid i c st = Some (Ok on, st\<lparr>smp_heap := hp, smp_mach := t, smp_hist := h'\<rparr>)"
      using w(1) p unfolding t_def h_def by (simp add: start_one_ap_def al Let_def)
    ultimately show ?thesis using v by auto
  next
    case False
    then have "start_one_ap dev ap_entry aid i c st = Some (Panic, st\<lparr>smp_heap := hp, smp_mach := s\<rparr>)"
      by (cases r) (auto simp: start_one_ap_def al)
    with view show ?thesis by simp
  qed
qed

text \<open>The processors that are sent anything: enabled ones other than the boot processor.\<close>

definition ap_targets :: "u32 \<Rightarrow> ProcessorLocalApic list \<Rightarrow> u32 list" where
  "ap_targets bsp cs' = map apic_id (filter (\<lambda>c. enabled c \<and> apic_id c \<noteq> bsp) cs')"

definition startup_sequence :: "apic \<Rightarrow> u32 list \<Rightarrow> bool list \<Rightarrow> (u32 \<times> u32) list" where
  "startup_sequence a aids agains = concat (map2 (startup_ipis a) aids agains)"

lemma start_each_ipis:
  assumes "pit_expires dev" "lapic_mapped (smp_mach st) (lapic st)" "icr_drains (smp_mach st) (lapic st) dev"
    and "next + length cs' \<le> MAX_CPUS"
  shows "\<exists>r st'. start_each dev ap_entry bsp c cs' next started st = Some (r, st') \<and> lapic st' = lapic st \<and> CPUS_ONLINE st' = CPUS_ONLINE st \<and>
    (\<forall>n. r = Ok n \<longrightarrow> n \<le> started + length (ap_targets bsp cs') \<and>
      (\<exists>agains. length agains = length (ap_targets bsp cs') \<and> ipis (smp_mach st) (lapic st) (smp_hist st')
        = ipis (smp_mach st) (lapic st) (smp_hist st) @ startup_sequence (lapic st) (ap_targets bsp cs') agains))"
  using assms
proof (induction cs' arbitrary: "next" started st)
  case Nil
  then show ?case by (simp add: ap_targets_def startup_sequence_def)
next
  case (Cons x xs)
  show ?case
  proof (cases "apic_id x = bsp \<or> \<not> enabled x")
    case True
    then have "ap_targets bsp (x # xs) = ap_targets bsp xs" by (auto simp: ap_targets_def)
    moreover from True have "start_each dev ap_entry bsp c (x # xs) next started st = start_each dev ap_entry bsp c xs next started st" by auto
    ultimately show ?thesis using Cons.IH [of st "next" started] Cons.prems by (simp del: start_each.simps)
  next
    case False
    then have tg: "ap_targets bsp (x # xs) = apic_id x # ap_targets bsp xs" by (auto simp: ap_targets_def)
    have nx: "next < MAX_CPUS" using Cons.prems(4) by simp
    obtain r st1 where s1: "start_one_ap dev ap_entry (apic_id x) next c st = Some (r, st1)" "lapic st1 = lapic st"
      "CPUS_ONLINE st1 = CPUS_ONLINE st" "same_view (smp_mach st) (smp_mach st1)"
      "\<And>on. r = Ok on \<Longrightarrow> \<exists>again. ipis (smp_mach st) (lapic st) (smp_hist st1)
         = ipis (smp_mach st) (lapic st) (smp_hist st) @ startup_ipis (lapic st) (apic_id x) again"
      using start_one_ap_ipis [OF Cons.prems(1-3) nx, of ap_entry "apic_id x" c] by blast
    show ?thesis
    proof (cases r)
      case (Ok on)
      then obtain again where ag: "ipis (smp_mach st) (lapic st) (smp_hist st1)
         = ipis (smp_mach st) (lapic st) (smp_hist st) @ startup_ipis (lapic st) (apic_id x) again" using s1(5) by blast
      define k where "k = (if on then started + 1 else started)"
      have "lapic_mapped (smp_mach st1) (lapic st1)" "icr_drains (smp_mach st1) (lapic st1) dev"
        using Cons.prems(2,3) by (simp_all add: lapic_mapped_def icr_drains_def same_view_lapic [OF s1(4)] s1(2))
      from Cons.IH [OF Cons.prems(1) this, of "next + 1" k] Cons.prems(4) obtain r2 st2 where
        s2: "start_each dev ap_entry bsp c xs (next + 1) k st1 = Some (r2, st2)" "lapic st2 = lapic st" "CPUS_ONLINE st2 = CPUS_ONLINE st"
          "\<And>n. r2 = Ok n \<Longrightarrow> n \<le> k + length (ap_targets bsp xs) \<and>
            (\<exists>agains. length agains = length (ap_targets bsp xs) \<and> ipis (smp_mach st) (lapic st) (smp_hist st2)
              = ipis (smp_mach st) (lapic st) (smp_hist st1) @ startup_sequence (lapic st) (ap_targets bsp xs) agains)"
        using s1(2,3) by (auto simp: same_view_ipis [OF s1(4)])
      have "start_each dev ap_entry bsp c (x # xs) next started st = Some (r2, st2)"
        using False nx s1(1) s2(1) Ok by (simp add: k_def)
      moreover have "\<exists>agains. length agains = length (ap_targets bsp (x # xs)) \<and> ipis (smp_mach st) (lapic st) (smp_hist st2)
        = ipis (smp_mach st) (lapic st) (smp_hist st) @ startup_sequence (lapic st) (ap_targets bsp (x # xs)) agains"
        if "r2 = Ok n" for n
      proof -
        from s2(4) [OF that] obtain agains where "length agains = length (ap_targets bsp xs)" "ipis (smp_mach st) (lapic st) (smp_hist st2)
              = ipis (smp_mach st) (lapic st) (smp_hist st1) @ startup_sequence (lapic st) (ap_targets bsp xs) agains" by blast
        with ag show ?thesis by (intro exI [of _ "again # agains"]) (simp add: tg startup_sequence_def)
      qed
      moreover have "n \<le> started + length (ap_targets bsp (x # xs))" if "r2 = Ok n" for n
        using s2(4) [OF that] by (simp add: tg k_def split: if_splits)
      ultimately show ?thesis using s2(2,3) by simp
    qed (use False nx s1 in simp_all)
  qed
qed

text \<open>The local APIC interface and identity the boot processor finds.\<close>

definition boot_apic :: "device \<Rightarrow> MadtData \<Rightarrow> history \<Rightarrow> apic" where
  "boot_apic dev madt h = fst (set_base dev (local_apic_address madt) h)"

definition boot_apic_id :: "machine \<Rightarrow> device \<Rightarrow> MadtData \<Rightarrow> history \<Rightarrow> u32" where
  "boot_apic_id s dev madt h =
     (case set_base dev (local_apic_address madt) h of (a, h) \<Rightarrow> fst (lapic_id s a dev (init_from_madt s dev madt (init_this_core s a dev h))))"

definition boot_history :: "machine \<Rightarrow> device \<Rightarrow> MadtData \<Rightarrow> history \<Rightarrow> history" where
  "boot_history s dev madt h =
     (case set_base dev (local_apic_address madt) h of (a, h) \<Rightarrow> snd (lapic_id s a dev (init_from_madt s dev madt (init_this_core s a dev h))))"


text \<open>A machine with two processors whose second one comes up at once.\<close>

definition two_cpus :: MadtData where
  "two_cpus = push_cpu \<lparr>acpi_processor_id = 1, apic_id = 5, enabled = True, online_capable = False\<rparr>
     (push_cpu \<lparr>acpi_processor_id = 0, apic_id = 0, enabled = True, online_capable = False\<rparr>
       (madt_empty\<lparr>found := True, local_apic_address := 0xFEE00000\<rparr>))"

definition two_cpu_device :: device where
  "two_cpu_device h r =
     (if r = 0x61 then 0x20 else if r = CPUID_1_ECX then push_bit 21 1 else if r = MSR IA32_X2APIC_ID then 0 else 1)"

definition smp_demo :: smp where
  "smp_demo = \<lparr>smp_mach = heap_machine, smp_heap = heap_init 0x200000 0x100000 heap_new, smp_hist = [],
     lapic = \<lparr>LAPIC_PHYS_BASE = 0, USE_X2APIC = False\<rparr>, CPUS_ONLINE = 1\<rparr>"

lemma two_cpu_device_ok:
  "pit_expires two_cpu_device" "USE_X2APIC (boot_apic two_cpu_device madt h)" "USE_X2APIC a \<Longrightarrow> icr_drains s a two_cpu_device"
  by (simp_all add: pit_expires_def two_cpu_device_def boot_apic_def set_base_def cpuid_ecx1_def dev_read_def CPUID_1_ECX_def
      icr_drains_def)

lemma two_cpu_wake:
  assumes "USE_X2APIC a"
  shows "\<exists>h'. wake_ap s a two_cpu_device aid 0 h = Some (True, h')"
proof -
  have "lapic_mapped s a" using assms by (simp add: lapic_mapped_def)
  from wake_ap_ipis [OF two_cpu_device_ok(1) this two_cpu_device_ok(3) [OF assms], of aid 0 h] obtain on h' where
    w: "wake_ap s a two_cpu_device aid 0 h = Some (on, h')" by blast
  have "two_cpu_device g (AP_ONLINE 0) \<noteq> 0" for g
    by (simp add: two_cpu_device_def AP_ONLINE_def MSR_def CPUID_1_ECX_def)
  with w have on
    by (auto simp: wake_ap_def Let_def dev_read_def bind_eq_Some_conv simp del: pit_delay_ms.simps wait_online.simps)
  with w show ?thesis by simp
qed

text \<open>The stack of the first application processor.\<close>

lemma demo_stack:
  "\<exists>hp s. heap_alloc \<lparr>layout_size = AP_STACK_SIZE, layout_align = 1\<rparr> (heap_init 0x200000 0x100000 heap_new) t
     = (Ok (phys_to_virt t 0x200000), hp, s)"
proof -
  have "is_power_of_two 1" unfolding is_power_of_two_def list_ex_iff by (rule bexI [of _ 0]) simp_all
  moreover have "find (\<lambda>k. unat (0x4000 :: usize) \<le> 2 ^ k) [0..<64] = Some 14"
    unfolding find_upt_Some using power_strict_increasing [of _ 14 "2::nat"] by (auto simp: not_le)
  then have "next_power_of_two 0x4000 = 0x4000" by (simp add: next_power_of_two_def)
  moreover have "max (0x4000 :: usize) 8 = 0x4000" "max (0x4000 :: usize) 1 = 0x4000" by (simp_all add: max_def word_le_nat_alt)
  moreover have "(0x200000 + 1 - 1 :: usize) AND NOT (1 - 1) = 0x200000" by simp
  moreover have "checked_add (0x200000 :: usize) 0x4000 = Some 0x204000" by (simp add: checked_add_def)
  ultimately show ?thesis
    by (simp add: heap_alloc_def heap_init_def AP_STACK_SIZE_def MIN_BLOCK_SIZE_def layout_valid_def target_bucket_index_def
      fallback_alloc_def Let_def)
qed

lemma two_cpu_start_one:
  assumes "USE_X2APIC (lapic st)" "smp_heap st = heap_init 0x200000 0x100000 heap_new" "target (smp_mach st) = AArch64"
  shows "\<exists>st'. start_one_ap two_cpu_device e aid 0 c st = Some (Ok True, st')"
proof -
  obtain hp s where al: "heap_alloc \<lparr>layout_size = AP_STACK_SIZE, layout_align = 1\<rparr> (smp_heap st) (smp_mach st) = (Ok 0x200000, hp, s)"
    using demo_stack [of "smp_mach st"] assms(2,3) by (auto simp: phys_to_virt_def)
  obtain h where "wake_ap (write_param_u64 PARAM_CPU_INDEX (word_of_nat 0) (write_param_u64 PARAM_ENTRY e
      (write_param_u64 PARAM_STACK_TOP ((0x200000 + AP_STACK_SIZE) AND NOT 0xF) (write_param_u64 PARAM_CR3 (c AND NOT 0xFFF)
        (write_bytes 0x200000 0 AP_STACK_SIZE s))))) (lapic st) two_cpu_device aid 0 (dev_write (AP_ONLINE 0) 0 (smp_hist st)) = Some (True, h)"
    using two_cpu_wake [OF assms(1)] by blast
  then show ?thesis by (simp add: start_one_ap_def al Let_def)
qed


end
