(* ===== verification/Addr.thy ===== *)
theory Addr
  imports Prelude
begin

text \<open>
  The address newtypes of \<^verbatim>\<open>addr.rs\<close>. \<open>PhysAddr\<close> and \<open>VirtAddr\<close> wrap a 64-bit word and have the same
  operations; the kernel is built without overflow checks, so the arithmetic wraps.
\<close>

datatype PhysAddr = PhysAddr (phys_as_u64: u64)
datatype VirtAddr = VirtAddr (virt_as_u64: u64)

definition word_align_down :: "u64 \<Rightarrow> u64 \<Rightarrow> u64" where
  "word_align_down addr align = addr AND NOT (align - 1)"

definition word_align_up :: "u64 \<Rightarrow> u64 \<Rightarrow> u64" where
  "word_align_up addr align = (addr + align - 1) AND NOT (align - 1)"

definition phys_align_down :: "PhysAddr \<Rightarrow> u64 \<Rightarrow> PhysAddr" where
  "phys_align_down a align = PhysAddr (word_align_down (phys_as_u64 a) align)"

definition phys_align_up :: "PhysAddr \<Rightarrow> u64 \<Rightarrow> PhysAddr" where
  "phys_align_up a align = PhysAddr (word_align_up (phys_as_u64 a) align)"

definition phys_is_aligned :: "PhysAddr \<Rightarrow> u64 \<Rightarrow> bool" where
  "phys_is_aligned a align \<longleftrightarrow> phys_as_u64 (phys_align_down a align) = phys_as_u64 a"

definition virt_align_down :: "VirtAddr \<Rightarrow> u64 \<Rightarrow> VirtAddr" where
  "virt_align_down a align = VirtAddr (word_align_down (virt_as_u64 a) align)"

definition virt_align_up :: "VirtAddr \<Rightarrow> u64 \<Rightarrow> VirtAddr" where
  "virt_align_up a align = VirtAddr (word_align_up (virt_as_u64 a) align)"

definition virt_is_aligned :: "VirtAddr \<Rightarrow> u64 \<Rightarrow> bool" where
  "virt_is_aligned a align \<longleftrightarrow> virt_as_u64 (virt_align_down a align) = virt_as_u64 a"

definition phys_add :: "PhysAddr \<Rightarrow> u64 \<Rightarrow> PhysAddr" where "phys_add a n = PhysAddr (phys_as_u64 a + n)"
definition phys_sub :: "PhysAddr \<Rightarrow> u64 \<Rightarrow> PhysAddr" where "phys_sub a n = PhysAddr (phys_as_u64 a - n)"
definition virt_add :: "VirtAddr \<Rightarrow> u64 \<Rightarrow> VirtAddr" where "virt_add a n = VirtAddr (virt_as_u64 a + n)"
definition virt_sub :: "VirtAddr \<Rightarrow> u64 \<Rightarrow> VirtAddr" where "virt_sub a n = VirtAddr (virt_as_u64 a - n)"

section \<open>Rounding\<close>

text \<open>For an alignment that is a power of two, rounding down gives the greatest multiple below the address,
  and rounding up the least one above it, as long as that is below the end of the address space.\<close>

lemma word_align_down_exp:
  assumes "j < 64"
  shows "unat (word_align_down a (2 ^ j)) = unat a div 2 ^ j * 2 ^ j"
proof -
  have "(2 ^ j - 1 :: u64) = mask j" by (simp add: mask_eq_exp_minus_1)
  then show ?thesis using unat_align_down [of a j] by (simp add: word_align_down_def)
qed

lemma word_align_up_exp:
  assumes "j < 64" "unat a + 2 ^ j \<le> 2 ^ 64"
  shows "unat a \<le> unat (word_align_up a (2 ^ j))" "2 ^ j dvd unat (word_align_up a (2 ^ j))"
    "unat a \<le> n \<Longrightarrow> 2 ^ j dvd n \<Longrightarrow> unat (word_align_up a (2 ^ j)) \<le> n"
proof -
  note u = align_up [OF assms(2,1), folded word_align_up_def]
  show "unat a \<le> unat (word_align_up a (2 ^ j))" "2 ^ j dvd unat (word_align_up a (2 ^ j))" by (fact u)+
  assume n: "unat a \<le> n" "2 ^ j dvd n"
  show "unat (word_align_up a (2 ^ j)) \<le> n"
  proof (rule ccontr)
    assume "\<not> ?thesis"
    then have lt: "n < unat (word_align_up a (2 ^ j))" by simp
    with u(3) n(2) have "2 ^ j dvd unat (word_align_up a (2 ^ j)) - n" by (simp add: dvd_diff_nat)
    then have "2 ^ j \<le> unat (word_align_up a (2 ^ j)) - n" using lt by (intro dvd_imp_le) simp_all
    with u(2) n(1) lt show False by linarith
  qed
qed

lemma is_aligned_exp:
  assumes "j < 64"
  shows "phys_is_aligned p (2 ^ j) \<longleftrightarrow> 2 ^ j dvd unat (phys_as_u64 p)" "virt_is_aligned v (2 ^ j) \<longleftrightarrow> 2 ^ j dvd unat (virt_as_u64 v)"
  using word_align_down_exp [OF assms]
  by (auto simp: phys_is_aligned_def phys_align_down_def virt_is_aligned_def virt_align_down_def word_unat_eq_iff dvd_eq_mod_eq_0
      intro: dvd_mult_div_cancel) (metis dvd_triv_right mod_0_imp_dvd dvd_imp_mod_0)+

end
