(* ===== verification/PageTable.thy ===== *)
theory PageTable
  imports PhysMem
begin

text \<open>
  Page-table entries and multi-level walks (\<^verbatim>\<open>src/vmm.rs\<close>, the two \<open>arch\<close> modules). The bit
  formats of the x86_64 and AArch64 descriptors are defined as the code defines them. The locale
  \<open>pte_format\<close> states what a walk relies on; the theory of four-level trees (which table a path of
  indices reaches, how one updated entry changes that, which trees own their frames) is developed
  once inside it and interpreted for both formats.
\<close>

section \<open>Descriptor formats\<close>

datatype MemoryError = FrameAllocationFailed | AlreadyMapped | InvalidAddress

record MapFlags =
  writable :: bool
  user_accessible :: bool
  execute_disable :: bool
  device :: bool

definition kernel_code :: MapFlags where
  "kernel_code = \<lparr>writable = False, user_accessible = False, execute_disable = False, device = False\<rparr>"

definition kernel_data :: MapFlags where
  "kernel_data = \<lparr>writable = True, user_accessible = False, execute_disable = True, device = False\<rparr>"

text \<open>x86_64\<close>

definition x86_is_present :: "u64 \<Rightarrow> bool" where
  "x86_is_present e \<longleftrightarrow> e AND 1 \<noteq> 0"

definition x86_is_user_accessible :: "u64 \<Rightarrow> bool" where
  "x86_is_user_accessible e \<longleftrightarrow> e AND push_bit 2 1 \<noteq> 0"

definition x86_is_writable :: "u64 \<Rightarrow> bool" where
  "x86_is_writable e \<longleftrightarrow> e AND push_bit 1 1 \<noteq> 0"

definition x86_physical_address :: "u64 \<Rightarrow> usize" where
  "x86_physical_address e = e AND 0x000FFFFFFFFFF000"

definition x86_set_frame :: "usize \<Rightarrow> MapFlags \<Rightarrow> u64" where
  "x86_set_frame phys_addr flags =
     (let raw = (phys_addr AND 0x000FFFFFFFFFF000) OR 1;
          raw = (if writable flags then raw OR push_bit 1 1 else raw);
          raw = (if user_accessible flags then raw OR push_bit 2 1 else raw)
      in if execute_disable flags then raw OR push_bit 63 1 else raw)"

definition x86_ensure_user_accessible :: "u64 \<Rightarrow> u64" where
  "x86_ensure_user_accessible e = e OR push_bit 2 1"

text \<open>AArch64\<close>

definition a64_is_present :: "u64 \<Rightarrow> bool" where
  "a64_is_present e \<longleftrightarrow> e AND 1 \<noteq> 0"

definition a64_is_user_accessible :: "u64 \<Rightarrow> bool" where
  "a64_is_user_accessible e \<longleftrightarrow> e AND push_bit 6 1 \<noteq> 0"

definition a64_is_writable :: "u64 \<Rightarrow> bool" where
  "a64_is_writable e \<longleftrightarrow> e AND push_bit 7 1 = 0"

definition a64_physical_address :: "u64 \<Rightarrow> usize" where
  "a64_physical_address e = e AND 0x0000FFFFFFFFF000"

definition a64_set_frame :: "usize \<Rightarrow> MapFlags \<Rightarrow> bool \<Rightarrow> u64" where
  "a64_set_frame phys flags is_table =
     (let raw = (phys AND 0x0000FFFFFFFFF000) OR 3;
          raw = raw OR push_bit 10 1;
          raw = (if \<not> writable flags then raw OR push_bit 7 1 else raw);
          raw = (if user_accessible flags then raw OR push_bit 6 1 else raw);
          raw = (if execute_disable flags then raw OR (push_bit 53 1 OR push_bit 54 1) else raw)
      in if \<not> is_table \<and> device flags then raw OR push_bit 2 1 else raw)"

definition table_flags :: MapFlags where
  "table_flags = \<lparr>writable = True, user_accessible = True, execute_disable = False, device = False\<rparr>"

section \<open>Walks over a descriptor format\<close>

text \<open>
  The operations on entries that a walk uses: \<open>pte_table\<close> is a fresh intermediate entry,
  \<open>pte_touch\<close> what \<open>next_table\<close> does to an intermediate entry that exists already, \<open>pte_block\<close>
  recognises a large-page entry.
\<close>

record pte_ops =
  pte_present :: "u64 \<Rightarrow> bool"
  pte_addr :: "u64 \<Rightarrow> usize"
  pte_block :: "u64 \<Rightarrow> bool"
  pte_table :: "usize \<Rightarrow> u64"
  pte_touch :: "bool \<Rightarrow> u64 \<Rightarrow> u64"
  pte_leaf :: "usize \<Rightarrow> MapFlags \<Rightarrow> u64"
  pte_user :: "u64 \<Rightarrow> bool"
  pte_writable :: "u64 \<Rightarrow> bool"

definition x86_ops :: pte_ops where
  "x86_ops = \<lparr>pte_present = x86_is_present, pte_addr = x86_physical_address,
     pte_block = (\<lambda>e. e AND push_bit 7 1 \<noteq> 0),
     pte_table = (\<lambda>f. x86_set_frame f table_flags),
     pte_touch = (\<lambda>u e. if u then x86_ensure_user_accessible e else e),
     pte_leaf = x86_set_frame,
     pte_user = x86_is_user_accessible, pte_writable = x86_is_writable\<rparr>"

definition a64_ops :: pte_ops where
  "a64_ops = \<lparr>pte_present = a64_is_present, pte_addr = a64_physical_address,
     pte_block = (\<lambda>e. e AND 3 = 1),
     pte_table = (\<lambda>f. a64_set_frame f table_flags True),
     pte_touch = (\<lambda>u e. e),
     pte_leaf = (\<lambda>p fl. a64_set_frame p fl False),
     pte_user = a64_is_user_accessible, pte_writable = a64_is_writable\<rparr>"

definition arch_ops :: "target_arch \<Rightarrow> pte_ops" where
  "arch_ops tgt = (case tgt of X86_64 \<Rightarrow> x86_ops | AArch64 \<Rightarrow> a64_ops)"

text \<open>The table or frame a present entry points to, and the one a path of indices reaches.\<close>

definition child :: "pte_ops \<Rightarrow> machine \<Rightarrow> usize \<Rightarrow> usize \<Rightarrow> usize option" where
  "child P s t i = (let e = entry s t i in if pte_present P e then Some (pte_addr P e) else None)"

fun table_at :: "pte_ops \<Rightarrow> machine \<Rightarrow> usize \<Rightarrow> usize list \<Rightarrow> usize option" where
  "table_at P s t [] = Some t"
| "table_at P s t (i # is) = (case child P s t i of None \<Rightarrow> None | Some c \<Rightarrow> table_at P s c is)"

definition path_of :: "usize \<Rightarrow> usize list" where
  "path_of virt = [drop_bit 39 virt AND 0x1FF, drop_bit 30 virt AND 0x1FF,
     drop_bit 21 virt AND 0x1FF, drop_bit 12 virt AND 0x1FF]"

text \<open>Paths below the top-level indices \<open>U\<close>.\<close>

definition valid_path :: "usize set \<Rightarrow> usize list \<Rightarrow> bool" where
  "valid_path U p \<longleftrightarrow> (\<forall>i \<in> set p. i < 512) \<and> (p \<noteq> [] \<longrightarrow> hd p \<in> U)"

definition owned_tree :: "pte_ops \<Rightarrow> usize set \<Rightarrow> nat \<Rightarrow> machine \<Rightarrow> usize \<Rightarrow> bool" where
  "owned_tree P U d s root \<longleftrightarrow>
     page_aligned root \<and> pool_ok s \<and>
     (\<forall>p q t. valid_path U p \<and> valid_path U q \<and> length p \<le> d \<and> length q \<le> d
        \<and> table_at P s root p = Some t \<and> table_at P s root q = Some t \<longrightarrow> p = q) \<and>
     (\<forall>p t. valid_path U p \<and> length p \<le> d \<and> table_at P s root p = Some t
        \<longrightarrow> frame_of t \<notin> free_frames (pmm s)) \<and>
     (\<forall>p t i. valid_path U (p @ [i]) \<and> length p \<in> {1, 2} \<and> table_at P s root p = Some t
        \<and> pte_present P (entry s t i) \<longrightarrow> \<not> pte_block P (entry s t i))"

text \<open>
  The abstract address space of a root: the leaf descriptor of every virtual page, zero where the
  walk stops early.
\<close>

definition upper_path :: "usize \<Rightarrow> usize list" where
  "upper_path virt = [drop_bit 39 virt AND 0x1FF, drop_bit 30 virt AND 0x1FF, drop_bit 21 virt AND 0x1FF]"

definition leaf_idx :: "usize \<Rightarrow> usize" where
  "leaf_idx virt = drop_bit 12 virt AND 0x1FF"

definition leaf_at :: "pte_ops \<Rightarrow> machine \<Rightarrow> usize \<Rightarrow> usize list \<Rightarrow> usize \<Rightarrow> u64" where
  "leaf_at P s root q j = (case table_at P s root q of None \<Rightarrow> 0 | Some t \<Rightarrow> entry s t j)"

definition leaf_entry :: "pte_ops \<Rightarrow> machine \<Rightarrow> usize \<Rightarrow> usize \<Rightarrow> u64" where
  "leaf_entry P s root virt = leaf_at P s root (upper_path virt) (leaf_idx virt)"

text \<open>Two addresses lie on the same page when bits 12 to 47, which the walk uses, agree.\<close>

definition same_page :: "usize \<Rightarrow> usize \<Rightarrow> bool" where
  "same_page v w \<longleftrightarrow> take_bit 36 (drop_bit 12 v) = take_bit 36 (drop_bit 12 w)"

text \<open>
  The frames a tree operation may write to, and the relation between the states before and after
  a walk that only adds or upgrades intermediate tables.
\<close>

definition tree_frames :: "pte_ops \<Rightarrow> usize set \<Rightarrow> nat \<Rightarrow> machine \<Rightarrow> usize \<Rightarrow> nat set" where
  "tree_frames P U d s root =
     {frame_of t | t p. valid_path U p \<and> length p \<le> d \<and> table_at P s root p = Some t}"

definition scope :: "pte_ops \<Rightarrow> usize set \<Rightarrow> machine \<Rightarrow> usize \<Rightarrow> nat set" where
  "scope P U s root = free_frames (pmm s) \<union> tree_frames P U 3 s root"

definition tree_evolves :: "pte_ops \<Rightarrow> usize set \<Rightarrow> machine \<Rightarrow> machine \<Rightarrow> usize \<Rightarrow> bool" where
  "tree_evolves P U s s' root \<longleftrightarrow>
     (\<forall>q j. valid_path U q \<and> length q = 3 \<and> j < 512 \<longrightarrow> leaf_at P s' root q j = leaf_at P s root q j) \<and>
     (\<forall>a. ram s' a \<noteq> ram s a \<longrightarrow> frame_of a \<in> scope P U s root) \<and>
     scope P U s' root \<subseteq> scope P U s root \<and>
     free_frames (pmm s') \<subseteq> free_frames (pmm s) \<and>
     (\<exists>r p. s' = s\<lparr>ram := r, pmm := p\<rparr>)"

text \<open>One level of a mapping walk, on physical table addresses.\<close>

definition walk_next :: "pte_ops \<Rightarrow> bool \<Rightarrow> usize \<Rightarrow> usize \<Rightarrow> machine \<Rightarrow> (MemoryError, usize) outcome \<times> machine" where
  "walk_next P u t i s =
     (if \<not> pte_present P (entry s t i)
      then (case alloc_frame s of
              (None, s1) \<Rightarrow> (Err FrameAllocationFailed, s1)
            | (Some f, s1) \<Rightarrow>
                (let s2 = set_entry t i (pte_table P f) (zero_page f s1)
                 in (Ok (pte_addr P (entry s2 t i)), s2)))
      else (let s1 = set_entry t i (pte_touch P u (entry s t i)) s
            in (Ok (pte_addr P (entry s1 t i)), s1)))"

fun walk_tables :: "pte_ops \<Rightarrow> bool \<Rightarrow> usize \<Rightarrow> usize list \<Rightarrow> machine \<Rightarrow> (MemoryError, usize) outcome \<times> machine" where
  "walk_tables P u t [] s = (Ok t, s)"
| "walk_tables P u t (i # is) s =
     (case walk_next P u t i s of
        (Ok c, s1) \<Rightarrow> walk_tables P u c is s1
      | (Err e, s1) \<Rightarrow> (Err e, s1)
      | (Panic, s1) \<Rightarrow> (Panic, s1))"

definition walk_map :: "pte_ops \<Rightarrow> usize \<Rightarrow> usize \<Rightarrow> usize \<Rightarrow> MapFlags \<Rightarrow> machine \<Rightarrow> (MemoryError, unit) outcome \<times> machine" where
  "walk_map P root virt phys flags s =
     (if virt AND 0xFFF \<noteq> 0 \<or> phys AND 0xFFF \<noteq> 0 then (Err InvalidAddress, s)
      else case walk_tables P (user_accessible flags) root (upper_path virt) s of
             (Ok pt, s1) \<Rightarrow>
               (if pte_present P (entry s1 pt (leaf_idx virt)) then (Err AlreadyMapped, s1)
                else (Ok (), set_entry pt (leaf_idx virt) (pte_leaf P phys flags) s1))
           | (Err e, s1) \<Rightarrow> (Err e, s1)
           | (Panic, s1) \<Rightarrow> (Panic, s1))"

definition walk_unmap :: "pte_ops \<Rightarrow> usize \<Rightarrow> usize \<Rightarrow> machine \<Rightarrow> (MemoryError, unit) outcome \<times> machine" where
  "walk_unmap P root virt s =
     (if virt AND 0xFFF \<noteq> 0 then (Err InvalidAddress, s)
      else case table_at P s root (upper_path virt) of
             None \<Rightarrow> (Err InvalidAddress, s)
           | Some pt \<Rightarrow>
               (if \<not> pte_present P (entry s pt (leaf_idx virt)) then (Err InvalidAddress, s)
                else (Ok (), set_entry pt (leaf_idx virt) 0 s)))"

definition walk_translate :: "pte_ops \<Rightarrow> machine \<Rightarrow> usize \<Rightarrow> usize \<Rightarrow> usize option" where
  "walk_translate P s root virt =
     (let e0 = entry s root (drop_bit 39 virt AND 0x1FF) in
      if \<not> pte_present P e0 then None
      else let e1 = entry s (pte_addr P e0) (drop_bit 30 virt AND 0x1FF) in
      if \<not> pte_present P e1 then None
      else if pte_block P e1 then Some ((pte_addr P e1 AND NOT 0x3FFFFFFF) + (virt AND 0x3FFFFFFF))
      else let e2 = entry s (pte_addr P e1) (drop_bit 21 virt AND 0x1FF) in
      if \<not> pte_present P e2 then None
      else if pte_block P e2 then Some ((pte_addr P e2 AND NOT 0x1FFFFF) + (virt AND 0x1FFFFF))
      else let e3 = entry s (pte_addr P e2) (drop_bit 12 virt AND 0x1FF) in
      if \<not> pte_present P e3 then None
      else Some (pte_addr P e3 + (virt AND 0xFFF)))"

lemma table_at_snoc:
  "table_at P s t (p @ [i]) = (case table_at P s t p of None \<Rightarrow> None | Some c \<Rightarrow> child P s c i)"
  by (induction p arbitrary: t) (auto split: option.splits)

lemma table_at_append_None: "table_at P s t p = None \<Longrightarrow> table_at P s t (p @ q) = None"
  by (induction p arbitrary: t) (auto split: option.splits)

lemma valid_path_snoc [simp]:
  "valid_path U (p @ [i]) \<longleftrightarrow> valid_path U p \<and> i < 512 \<and> (p = [] \<longrightarrow> i \<in> U)"
  by (cases p) (auto simp: valid_path_def)

lemma valid_path_Nil [simp]: "valid_path U []"
  by (simp add: valid_path_def)

lemma owned_tree_inj:
  "owned_tree P U d s root \<Longrightarrow> valid_path U p \<Longrightarrow> valid_path U q \<Longrightarrow> length p \<le> d \<Longrightarrow> length q \<le> d \<Longrightarrow>
     table_at P s root p = Some t \<Longrightarrow> table_at P s root q = Some t \<Longrightarrow> p = q"
  unfolding owned_tree_def by blast

lemma owned_tree_not_free:
  "owned_tree P U d s root \<Longrightarrow> valid_path U p \<Longrightarrow> length p \<le> d \<Longrightarrow> table_at P s root p = Some t \<Longrightarrow>
     frame_of t \<notin> free_frames (pmm s)"
  unfolding owned_tree_def by blast

lemma owned_tree_no_block:
  "owned_tree P U d s root \<Longrightarrow> valid_path U (p @ [i]) \<Longrightarrow> length p \<in> {1, 2} \<Longrightarrow>
     table_at P s root p = Some t \<Longrightarrow> pte_present P (entry s t i) \<Longrightarrow> \<not> pte_block P (entry s t i)"
  unfolding owned_tree_def by blast

lemma owned_tree_root: "owned_tree P U d s root \<Longrightarrow> page_aligned root \<and> pool_ok s"
  unfolding owned_tree_def by blast

lemma child_cong: "entry s t i = entry s' t i \<Longrightarrow> child P s t i = child P s' t i"
  by (simp add: child_def)

lemma idx_mask: "(x :: usize) AND 0x1FF = take_bit 9 x"
  by (simp add: take_bit_eq_mask mask_numeral)

lemma field_eq_iff:
  assumes "m \<le> 64"
  shows "take_bit m (drop_bit k v) = take_bit m (drop_bit k (w :: usize)) \<longleftrightarrow>
    (\<forall>n<m. bit v (k + n) = bit w (k + n))" (is "?l \<longleftrightarrow> ?r")
proof
  assume l: ?l
  show ?r
  proof (intro allI impI)
    fix n assume "n < m"
    moreover have "bit (take_bit m (drop_bit k v)) n = bit (take_bit m (drop_bit k w)) n" using l by simp
    ultimately show "bit v (k + n) = bit w (k + n)" by (simp add: bit_take_bit_iff bit_drop_bit_eq)
  qed
next
  assume ?r
  then show ?l by (intro bit_word_eqI) (auto simp: bit_take_bit_iff bit_drop_bit_eq)
qed

lemma all_less_36:
  "(\<forall>n<36. Q n) \<longleftrightarrow> (\<forall>n<9. Q (27 + n)) \<and> (\<forall>n<9. Q (18 + n)) \<and> (\<forall>n<9. Q (9 + n)) \<and> (\<forall>n<9. Q (n::nat))"
  (is "?l \<longleftrightarrow> ?r")
proof
  assume ?r
  then have Q: "\<And>n. n < 9 \<Longrightarrow> Q (27 + n) \<and> Q (18 + n) \<and> Q (9 + n) \<and> Q n" by simp
  show ?l
  proof (intro allI impI)
    fix n :: nat assume "n < 36"
    then consider "n < 9" | "9 \<le> n \<and> n < 18" | "18 \<le> n \<and> n < 27" | "27 \<le> n \<and> n < 36" by linarith
    then show "Q n"
      using Q [of n] Q [of "n - 9"] Q [of "n - 18"] Q [of "n - 27"] by cases auto
  qed
qed simp

lemma same_page_path: "same_page v w \<longleftrightarrow> upper_path v = upper_path w \<and> leaf_idx v = leaf_idx w"
  unfolding same_page_def upper_path_def leaf_idx_def idx_mask list.inject
  by (simp add: field_eq_iff all_less_36 conj_assoc add.assoc [symmetric])

lemma same_page_align: "same_page v w \<Longrightarrow> w AND 0xFFF = 0 \<Longrightarrow> leaf_entry P s root v = leaf_entry P s root w"
  by (simp add: leaf_entry_def same_page_path)

lemma tree_frames_I:
  "valid_path U p \<Longrightarrow> length p \<le> d \<Longrightarrow> table_at P s root p = Some t \<Longrightarrow> frame_of t \<in> tree_frames P U d s root"
  unfolding tree_frames_def by blast

lemma tree_frames_mono: "d \<le> e \<Longrightarrow> tree_frames P U d s root \<subseteq> tree_frames P U e s root"
  unfolding tree_frames_def by fastforce

lemma owned_tree_shallow: "owned_tree P U d s root \<Longrightarrow> 3 \<le> d \<Longrightarrow> owned_tree P U 3 s root"
  unfolding owned_tree_def by (meson le_trans)

lemma owned_tree_frames_not_free:
  "owned_tree P U d s root \<Longrightarrow> x \<in> tree_frames P U d s root \<Longrightarrow> x \<notin> free_frames (pmm s)"
  by (auto simp: tree_frames_def dest: owned_tree_not_free)

text \<open>A root whose entries below \<open>U\<close> are all absent owns its (empty) tree.\<close>

lemma owned_tree_empty:
  assumes "page_aligned root" "pool_ok s" "frame_of root \<notin> free_frames (pmm s)"
    and "\<And>i. i \<in> U \<Longrightarrow> i < 512 \<Longrightarrow> \<not> pte_present P (entry s root i)"
  shows "owned_tree P U d s root"
proof -
  have nil: "p = []" if "valid_path U p" "table_at P s root p = Some t" for p t
    using assms(4) that by (cases p) (auto simp: valid_path_def child_def Let_def)
  have "frame_of t \<notin> free_frames (pmm s)" if "valid_path U p" "table_at P s root p = Some t" for p t
    using nil [OF that] that(2) assms(3) by simp
  moreover have "\<not> (length p \<in> {1, 2})" if "valid_path U (p @ [i])" "table_at P s root p = Some t" for p t i
    using nil [of p t] that by auto
  ultimately show ?thesis unfolding owned_tree_def using assms(1,2) nil by blast
qed

section \<open>The contract of a descriptor format\<close>

locale pte_format =
  fixes P :: pte_ops
  assumes addr_aligned: "page_aligned (pte_addr P e)"
    and addr_id: "page_aligned f \<Longrightarrow> unat f < 2 ^ 48 \<Longrightarrow> pte_addr P f = f"
    and absent_zero: "\<not> pte_present P 0"
    and present_table: "pte_present P (pte_table P f)"
    and addr_table: "pte_addr P (pte_table P f) = pte_addr P f"
    and block_table: "\<not> pte_block P (pte_table P f)"
    and present_touch: "pte_present P (pte_touch P u e) = pte_present P e"
    and addr_touch: "pte_addr P (pte_touch P u e) = pte_addr P e"
    and block_touch: "pte_block P (pte_touch P u e) = pte_block P e"
    and present_leaf: "pte_present P (pte_leaf P f fl)"
    and addr_leaf: "pte_addr P (pte_leaf P f fl) = pte_addr P f"
    and user_leaf: "pte_user P (pte_leaf P f fl) = user_accessible fl"
    and writable_leaf: "pte_writable P (pte_leaf P f fl) = writable fl"
begin

lemmas format_laws = absent_zero present_table addr_table block_table present_touch addr_touch
  block_touch present_leaf addr_leaf user_leaf writable_leaf

lemma table_at_aligned:
  assumes "table_at P s t p = Some c" "page_aligned t"
  shows "page_aligned c"
  using assms
  by (induction p arbitrary: t) (auto simp: child_def Let_def addr_aligned split: option.splits if_splits)

text \<open>How the reachable tables change when the entry \<open>i\<close> of the table at path \<open>p\<close> changes and no
  other entry of a reachable table does.\<close>

lemma table_at_update:
  assumes tree: "owned_tree P U d s root" "3 \<le> d"
    and p: "table_at P s root p = Some t" "valid_path U (p @ [i])" "length p \<le> 3"
    and new: "child P s' t i = c'"
    and same: "\<And>q u j. table_at P s root q = Some u \<Longrightarrow> valid_path U (q @ [j]) \<Longrightarrow> length q \<le> 3 \<Longrightarrow>
        \<not> (u = t \<and> j = i) \<Longrightarrow> entry s' u j = entry s u j"
    and ext: "c' = child P s t i \<or> length p = 3 \<or>
        (\<exists>f. child P s t i = None \<and> c' = Some f \<and> (\<forall>j<512. entry s' f j = 0))"
    and q: "valid_path U q" "length q \<le> 4"
  shows "table_at P s' root q = (if q = p @ [i] then c' else table_at P s root q)"
  using q
proof (induction q rule: rev_induct)
  case Nil
  then show ?case by simp
next
  case (snoc j q)
  then have q: "valid_path U q" "length q \<le> 3" "j < 512" by auto
  have IH: "table_at P s' root q = (if q = p @ [i] then c' else table_at P s root q)"
    using snoc q by simp
  show ?case
  proof (cases "q = p @ [i]")
    case True
    then have len: "length p < 3" using q by simp
    have ne: "q @ [j] \<noteq> p @ [i]" using True by simp
    have old: "table_at P s root q = child P s t i" using True p(1) by (simp add: table_at_snoc)
    have new': "table_at P s' root q = c'" using IH unfolding if_P [OF True] .
    have step: "(case c' of None \<Rightarrow> None | Some c \<Rightarrow> child P s' c j) =
        (case child P s t i of None \<Rightarrow> None | Some c \<Rightarrow> child P s c j)"
    proof (cases "child P s t i")
      case None
      then show ?thesis using ext len q by (auto simp: child_def absent_zero split: option.split)
    next
      case (Some u)
      have "u \<noteq> t"
      proof
        assume "u = t"
        then have "q = p" using owned_tree_inj [OF tree(1), of q p t] tree(2) p q Some old by simp
        with True show False by simp
      qed
      then have "child P s' u j = child P s u j"
        using same [of q u j] old Some snoc.prems q by (intro child_cong) simp
      then show ?thesis using ext len Some by auto
    qed
    show ?thesis
      unfolding if_not_P [OF ne] table_at_snoc [of P _ _ q j] new' old using step .
  next
    case False
    show ?thesis
    proof (cases "table_at P s root q")
      case None
      then have "q \<noteq> p" using p by auto
      then show ?thesis using IH False None by (simp add: table_at_snoc)
    next
      case (Some u)
      have inj: "u = t \<Longrightarrow> q = p"
        using owned_tree_inj [OF tree(1), of q p t] tree(2) p q Some by simp
      show ?thesis
      proof (cases "u = t \<and> j = i")
        case True
        then show ?thesis using IH False Some inj new by (simp add: table_at_snoc)
      next
        case ne: False
        then have "child P s' u j = child P s u j"
          using same [of q u j] Some snoc.prems q by (intro child_cong) simp
        moreover have "q @ [j] \<noteq> p @ [i]" using ne Some p by auto
        ultimately show ?thesis using IH False Some by (auto simp: table_at_snoc)
      qed
    qed
  qed
qed

lemma owned_tree_update:
  assumes tree: "owned_tree P U d s root" "3 \<le> d" "d \<le> 4"
    and p: "table_at P s root p = Some t" "valid_path U (p @ [i])" "length p \<le> 3"
    and new: "child P s' t i = c'"
    and same: "\<And>q u j. table_at P s root q = Some u \<Longrightarrow> valid_path U (q @ [j]) \<Longrightarrow> length q \<le> 3 \<Longrightarrow>
        \<not> (u = t \<and> j = i) \<Longrightarrow> entry s' u j = entry s u j"
    and ext: "c' = child P s t i \<or> length p = 3 \<or>
        (\<exists>f. child P s t i = None \<and> c' = Some f \<and> (\<forall>j<512. entry s' f j = 0))"
    and pool: "pool_ok s'" "free_frames (pmm s') \<subseteq> free_frames (pmm s)"
    and fresh: "c' = child P s t i \<or> c' = None \<or> d = length p \<or>
        (\<exists>f. c' = Some f \<and> frame_of f \<notin> free_frames (pmm s') \<and>
          (\<forall>q. valid_path U q \<longrightarrow> length q \<le> d \<longrightarrow> table_at P s root q \<noteq> Some f))"
    and noblock: "length p \<in> {1, 2} \<Longrightarrow> pte_present P (entry s' t i) \<Longrightarrow> \<not> pte_block P (entry s' t i)"
  shows "owned_tree P U d s' root"
proof -
  have upd: "table_at P s' root q = (if q = p @ [i] then c' else table_at P s root q)"
    if "valid_path U q" "length q \<le> 4" for q
    by (rule table_at_update [OF tree(1,2) p new same ext that])
  have old: "table_at P s root (p @ [i]) = child P s t i" using p(1) by (simp add: table_at_snoc)
  have reach: "table_at P s root q = Some u \<or> q = p @ [i] \<and> c' = Some u \<and> c' \<noteq> child P s t i"
    if "valid_path U q" "length q \<le> d" "table_at P s' root q = Some u" for q u
    using upd [of q] that tree(3) old by (auto split: if_splits)
  have fresh': "frame_of u \<notin> free_frames (pmm s')"
      "\<And>q. valid_path U q \<Longrightarrow> length q \<le> d \<Longrightarrow> table_at P s root q \<noteq> Some u"
    if "length (p @ [i]) \<le> d" "c' = Some u" "c' \<noteq> child P s t i" for u
    using fresh that by auto
  have inj: "q = r" if "valid_path U q" "valid_path U r" "length q \<le> d" "length r \<le> d"
      "table_at P s' root q = Some u" "table_at P s' root r = Some u" for q r u
    using reach [OF that(1,3,5)] reach [OF that(2,4,6)] fresh'(2) [of u] owned_tree_inj [OF tree(1), of q r u] that
    by blast
  have notfree: "frame_of u \<notin> free_frames (pmm s')"
    if "valid_path U q" "length q \<le> d" "table_at P s' root q = Some u" for q u
    using reach [OF that] fresh'(1) [of u] owned_tree_not_free [OF tree(1), of q u] pool(2) that by blast
  have block: "\<not> pte_block P (entry s' u j)"
    if q: "valid_path U (q @ [j])" "length q \<in> {1, 2}" "table_at P s' root q = Some u" "pte_present P (entry s' u j)"
    for q u j
  proof -
    have len: "length q \<le> d" "length q \<le> 3" using q(2) tree(2) by auto
    from reach [of q u] q len consider "table_at P s root q = Some u"
      | "q = p @ [i]" "c' = Some u" "c' \<noteq> child P s t i" by auto
    then show ?thesis
    proof cases
      case 1
      show ?thesis
      proof (cases "u = t \<and> j = i")
        case True
        then have "q = p" using owned_tree_inj [OF tree(1), of q p t] p q 1 len tree(2) by simp
        with True q noblock show ?thesis by simp
      next
        case False
        then have "entry s' u j = entry s u j" using same [of q u j] 1 q len by simp
        with owned_tree_no_block [OF tree(1) q(1,2) 1] q(4) show ?thesis by simp
      qed
    next
      case 2
      with ext q(2) have "\<forall>j<512. entry s' u j = 0" by auto
      with q(1,4) absent_zero show ?thesis by simp
    qed
  qed
  show ?thesis
    unfolding owned_tree_def
    using owned_tree_root [OF tree(1)] pool(1) inj notfree block by blast
qed

lemma walk_next_present:
  assumes tree: "owned_tree P U d s root" "3 \<le> d" "d \<le> 4"
    and p: "table_at P s root p = Some t" "valid_path U (p @ [i])" "length p < 3"
    and present: "pte_present P (entry s t i)"
    and s': "s' = set_entry t i (pte_touch P u (entry s t i)) s"
  shows "owned_tree P U d s' root"
    and "valid_path U q \<Longrightarrow> length q \<le> 4 \<Longrightarrow> table_at P s' root q = table_at P s root q"
    and "valid_path U q \<Longrightarrow> length q = 3 \<Longrightarrow> j < 512 \<Longrightarrow> leaf_at P s' root q j = leaf_at P s root q j"
proof -
  have al: "page_aligned x" if "table_at P s root r = Some x" for r x
    using table_at_aligned [OF that] owned_tree_root [OF tree(1)] by simp
  have E: "entry s' x k = (if x = t \<and> k = i then pte_touch P u (entry s t i) else entry s x k)"
    if "table_at P s root r = Some x" "k < 512" for r x k
    using entry_set_entry [of t x i k] al [OF that(1)] al [OF p(1)] p(2) that(2) by (auto simp: s')
  have c: "child P s' t i = child P s t i"
    using E [OF p(1)] p(2) by (simp add: child_def format_laws)
  have same: "entry s' x k = entry s x k"
    if "table_at P s root r = Some x" "valid_path U (r @ [k])" "length r \<le> 3" "\<not> (x = t \<and> k = i)" for r x k
    using E [OF that(1)] that(2,4) by auto
  have nb: "\<not> pte_block P (entry s' t i)" if "length p \<in> {1, 2}"
    using owned_tree_no_block [OF tree(1) p(2) that p(1) present] E [OF p(1)] p(2)
    by (simp add: format_laws)
  have len: "length p \<le> 3" using p by simp
  have pmm: "pmm s' = pmm s" by (simp add: s')
  then have "pool_ok s'" using owned_tree_root [OF tree(1)] by (simp add: pool_ok_def)
  with pmm show "owned_tree P U d s' root"
    by (intro owned_tree_update [OF tree p(1,2) len c same]) (use nb in auto)
  have upd: "table_at P s' root q = table_at P s root q" if "valid_path U q" "length q \<le> 4" for q
    using table_at_update [OF tree(1,2) p(1,2) len c same _ that] p(1) by (auto simp: table_at_snoc)
  then show "valid_path U q \<Longrightarrow> length q \<le> 4 \<Longrightarrow> table_at P s' root q = table_at P s root q" .
  show "leaf_at P s' root q j = leaf_at P s root q j" if q: "valid_path U q" "length q = 3" "j < 512"
  proof (cases "table_at P s root q")
    case None
    then show ?thesis using upd q by (simp add: leaf_at_def)
  next
    case (Some x)
    have "x \<noteq> t"
      using owned_tree_inj [OF tree(1), of q p t] q p tree(2) Some by auto
    then show ?thesis using upd q E [OF Some] Some by (simp add: leaf_at_def)
  qed
qed

lemma walk_next_fresh:
  assumes tree: "owned_tree P U d s root" "3 \<le> d" "d \<le> 4"
    and p: "table_at P s root p = Some t" "valid_path U (p @ [i])" "length p < 3"
    and absent: "\<not> pte_present P (entry s t i)"
    and alloc: "alloc_frame s = (Some f, s1)"
    and s': "s' = set_entry t i (pte_table P f) (zero_page f s1)"
  shows "owned_tree P U d s' root"
    and "valid_path U q \<Longrightarrow> length q \<le> 4 \<Longrightarrow>
        table_at P s' root q = (if q = p @ [i] then Some f else table_at P s root q)"
    and "valid_path U q \<Longrightarrow> length q = 3 \<Longrightarrow> j < 512 \<Longrightarrow> leaf_at P s' root q j = leaf_at P s root q j"
    and "pte_addr P (entry s' t i) = f"
proof -
  note root = owned_tree_root [OF tree(1)]
  note A = alloc_frame_Some [OF alloc conjunct2 [OF root]]
  have al: "page_aligned x" if "table_at P s root r = Some x" for r x
    using table_at_aligned [OF that] root by simp
  have nf: "x \<noteq> f" if "table_at P s root r = Some x" "valid_path U r" "length r \<le> d" for r x
    using owned_tree_not_free [OF tree(1) that(2,3,1)] A(3) by auto
  have E: "entry s' x k = (if x = t \<and> k = i then pte_table P f else if x = f then 0 else entry s x k)"
    if "page_aligned x" "k < 512" for x k
    using entry_set_entry [of t x i k] entry_zero_page [OF A(1) that(1,2)] that al [OF p(1)] p(2)
    by (auto simp: s' A(4))
  have it: "i < 512" "page_aligned t" using p al by auto
  have pa: "pte_addr P f = f" by (rule addr_id [OF A(1,2)])
  show addr: "pte_addr P (entry s' t i) = f" using E [OF it(2,1)] pa by (simp add: format_laws)
  have c: "child P s' t i = Some f" using E [OF it(2,1)] pa by (simp add: child_def format_laws)
  have tf: "t \<noteq> f" using nf [OF p(1)] p tree(2) by simp
  have same: "entry s' x k = entry s x k"
    if "table_at P s root r = Some x" "valid_path U (r @ [k])" "length r \<le> 3" "\<not> (x = t \<and> k = i)" for r x k
    using E [OF al [OF that(1)], of k] that nf [OF that(1)] tree(2) by auto
  have zero: "\<forall>j<512. entry s' f j = 0" using E [OF A(1)] tf by auto
  have ext: "Some f = child P s t i \<or> length p = 3 \<or>
      (\<exists>g. child P s t i = None \<and> Some f = Some g \<and> (\<forall>j<512. entry s' g j = 0))"
    using absent zero by (simp add: child_def)
  have nb: "\<not> pte_block P (entry s' t i)" using E [OF it(2,1)] by (simp add: format_laws)
  have free: "free_frames (pmm s') = free_frames (pmm s) - {frame_of f}" by (simp add: s' A(4))
  have pool: "pool_ok s'" using root by (simp add: s' A(4) pool_ok_def)
  have len: "length p \<le> 3" using p by simp
  show "owned_tree P U d s' root"
    by (rule owned_tree_update [OF tree p(1,2) len c same ext pool]) (use nf free nb in auto)
  have upd: "table_at P s' root q = (if q = p @ [i] then Some f else table_at P s root q)"
    if "valid_path U q" "length q \<le> 4" for q
    by (rule table_at_update [OF tree(1,2) p(1,2) len c same ext that])
  then show "valid_path U q \<Longrightarrow> length q \<le> 4 \<Longrightarrow>
      table_at P s' root q = (if q = p @ [i] then Some f else table_at P s root q)" .
  show "leaf_at P s' root q j = leaf_at P s root q j" if q: "valid_path U q" "length q = 3" "j < 512"
  proof (cases "q = p @ [i]")
    case True
    then have "table_at P s root q = None" using p(1) absent by (simp add: table_at_snoc child_def)
    moreover have "table_at P s' root q = Some f" using upd [of q] q True by simp
    ultimately show ?thesis using zero q by (simp add: leaf_at_def)
  next
    case False
    then have "table_at P s' root q = table_at P s root q" using upd [of q] q by simp
    moreover have "x \<noteq> t" if "table_at P s root q = Some x" for x
      using owned_tree_inj [OF tree(1), of q p t] q p tree(2) that by auto
    moreover have "q \<noteq> []" using q by auto
    ultimately show ?thesis using same [of q _ j] q by (auto simp: leaf_at_def split: option.split)
  qed
qed

lemma tree_evolves_refl: "tree_evolves P U s s root"
  unfolding tree_evolves_def by (simp, intro exI [of _ "ram s"] exI [of _ "pmm s"]) simp

lemma tree_evolves_trans:
  assumes "tree_evolves P U s s1 root" "tree_evolves P U s1 s2 root"
  shows "tree_evolves P U s s2 root"
proof -
  have "\<exists>r p. s2 = s\<lparr>ram := r, pmm := p\<rparr>"
    using assms unfolding tree_evolves_def by (metis machine.update_convs(3,4) machine.surjective)
  moreover have "frame_of a \<in> scope P U s root" if "ram s2 a \<noteq> ram s a" for a
    using assms that unfolding tree_evolves_def by (cases "ram s1 a = ram s a") auto
  ultimately show ?thesis using assms unfolding tree_evolves_def by auto
qed

lemma tree_frames_subset:
  assumes "\<And>q t. valid_path U q \<Longrightarrow> length q \<le> d \<Longrightarrow> table_at P s' root q = Some t \<Longrightarrow>
    table_at P s root q = Some t \<or> frame_of t \<in> X"
  shows "tree_frames P U d s' root \<subseteq> tree_frames P U d s root \<union> X"
proof
  fix x assume "x \<in> tree_frames P U d s' root"
  then obtain t p where p: "x = frame_of t" "valid_path U p" "length p \<le> d" "table_at P s' root p = Some t"
    unfolding tree_frames_def by blast
  show "x \<in> tree_frames P U d s root \<union> X"
    using assms [OF p(2-4)] tree_frames_I [OF p(2,3)] p(1) by blast
qed

lemma walk_next_spec:
  assumes tree: "owned_tree P U d s root" "3 \<le> d" "d \<le> 4"
    and p: "table_at P s root p = Some t" "valid_path U (p @ [i])" "length p < 3"
    and run: "walk_next P u t i s = (r, s')"
  shows "owned_tree P U d s' root" "tree_evolves P U s s' root"
    "r = Ok c \<Longrightarrow> table_at P s' root (p @ [i]) = Some c"
    "r = Err e \<Longrightarrow> e = FrameAllocationFailed \<and> free_frames (pmm s) = {} \<and> table_at P s' root (p @ [i]) = None"
    "r \<noteq> Panic" "card (free_frames (pmm s)) \<le> card (free_frames (pmm s')) + 1"
proof -
  note root = owned_tree_root [OF tree(1)]
  have al: "page_aligned t" using table_at_aligned [OF p(1)] root by simp
  have it: "i < 512" using p by simp
  have tS: "frame_of t \<in> scope P U s root"
    using tree_frames_I [of U p 3 P s root t] p by (auto simp: scope_def)
  have "owned_tree P U d s' root \<and> tree_evolves P U s s' root \<and>
      (\<forall>c. r = Ok c \<longrightarrow> table_at P s' root (p @ [i]) = Some c) \<and>
      (\<forall>e. r = Err e \<longrightarrow> e = FrameAllocationFailed \<and> free_frames (pmm s) = {}
        \<and> table_at P s' root (p @ [i]) = None) \<and> r \<noteq> Panic \<and>
      card (free_frames (pmm s)) \<le> card (free_frames (pmm s')) + 1"
  proof (cases "pte_present P (entry s t i)")
    case True
    with run have r: "r = Ok (pte_addr P (entry s' t i))"
      and s': "s' = set_entry t i (pte_touch P u (entry s t i)) s"
      by (auto simp: walk_next_def Let_def)
    note W = walk_next_present [OF tree p True s']
    have e: "entry s' t i = pte_touch P u (entry s t i)"
      using entry_set_entry [OF al al it it] by (simp add: s')
    have "table_at P s' root (p @ [i]) = Some (pte_addr P (entry s' t i))"
      using W(2) [of "p @ [i]"] p True e by (simp add: table_at_snoc child_def format_laws)
    moreover have "scope P U s' root \<subseteq> scope P U s root"
      using tree_frames_subset [of U 3 s' root s "{}"] W(2) by (auto simp: scope_def s')
    moreover have "\<exists>q p. s' = s\<lparr>ram := q, pmm := p\<rparr>"
      by (intro exI [of _ "ram s'"] exI [of _ "pmm s"]) (simp add: s' set_entry_def)
    moreover have "frame_of a \<in> scope P U s root" if "ram s' a \<noteq> ram s a" for a
      using ram_set_entry [OF al it, of a] that tS s' by metis
    ultimately show ?thesis using W(1,3) r by (auto simp: tree_evolves_def s')
  next
    case False
    obtain fo s1 where alloc: "alloc_frame s = (fo, s1)" by (cases "alloc_frame s")
    show ?thesis
    proof (cases fo)
      case None
      then have "r = Err FrameAllocationFailed" "s' = s1" using run False alloc by (auto simp: walk_next_def)
      then show ?thesis
        using alloc_frame_None [OF alloc [unfolded None]] tree(1) tree_evolves_refl False p(1)
        by (simp add: table_at_snoc child_def)
    next
      case (Some f)
      then have r: "r = Ok (pte_addr P (entry s' t i))"
        and s': "s' = set_entry t i (pte_table P f) (zero_page f s1)"
        using run False alloc by (auto simp: walk_next_def Let_def)
      note W = walk_next_fresh [OF tree p False alloc [unfolded Some] s']
      note A = alloc_frame_Some [OF alloc [unfolded Some] conjunct2 [OF root]]
      have free: "free_frames (pmm s') = free_frames (pmm s) - {frame_of f}" by (simp add: s' A(4))
      have fS: "frame_of f \<in> scope P U s root" using A(3) by (simp add: scope_def)
      have "tree_frames P U 3 s' root \<subseteq> tree_frames P U 3 s root \<union> {frame_of f}"
        by (rule tree_frames_subset) (use W(2) in \<open>auto split: if_splits\<close>)
      with fS have "tree_frames P U 3 s' root \<subseteq> scope P U s root" by (auto simp: scope_def)
      then have sc: "scope P U s' root \<subseteq> scope P U s root" using free by (auto simp: scope_def)
      have ex: "\<exists>q p. s' = s\<lparr>ram := q, pmm := p\<rparr>"
        by (intro exI [of _ "ram s'"] exI [of _ "pmm s'"]) (simp add: s' set_entry_def zero_page_def A(4))
      have conf: "frame_of a \<in> scope P U s root" if "ram s' a \<noteq> ram s a" for a
        using ram_set_entry [OF al it, of a] ram_zero_page [OF A(1), of a s1] that tS fS s' A(4) by fastforce
      have "card (free_frames (pmm s)) \<le> card (free_frames (pmm s')) + 1"
        using A(3) by (simp add: free card_Diff_singleton)
      then show ?thesis using W(1,3,4) W(2) [of "p @ [i]"] r p sc ex conf free by (auto simp: tree_evolves_def)
    qed
  qed
  then show "owned_tree P U d s' root" "tree_evolves P U s s' root"
    "r = Ok c \<Longrightarrow> table_at P s' root (p @ [i]) = Some c"
    "r = Err e \<Longrightarrow> e = FrameAllocationFailed \<and> free_frames (pmm s) = {} \<and> table_at P s' root (p @ [i]) = None"
    "r \<noteq> Panic" "card (free_frames (pmm s)) \<le> card (free_frames (pmm s')) + 1" by blast+
qed

lemma walk_tables_spec:
  assumes "owned_tree P U d s root" "3 \<le> d" "d \<le> 4"
    and "table_at P s root p = Some t" "valid_path U (p @ is)" "length (p @ is) \<le> 3"
    and "walk_tables P u t is s = (r, s')"
  shows "owned_tree P U d s' root \<and> tree_evolves P U s s' root \<and>
    (\<forall>c. r = Ok c \<longrightarrow> table_at P s' root (p @ is) = Some c) \<and>
    (\<forall>e. r = Err e \<longrightarrow> e = FrameAllocationFailed \<and> card (free_frames (pmm s)) < length is
      \<and> table_at P s' root (p @ is) = None) \<and> r \<noteq> Panic \<and>
    card (free_frames (pmm s)) \<le> card (free_frames (pmm s')) + length is"
  using assms
proof (induction "is" arbitrary: p t s)
  case Nil
  then show ?case using tree_evolves_refl [of U s root] by auto
next
  case (Cons i "is")
  obtain r1 s1 where step: "walk_next P u t i s = (r1, s1)" by (cases "walk_next P u t i s")
  have vi: "valid_path U (p @ [i])" using Cons.prems(5) by (cases p) (auto simp: valid_path_def)
  have len: "length p < 3" using Cons.prems(6) by simp
  note W = walk_next_spec [OF Cons.prems(1-4) vi len step]
  show ?case
  proof (cases r1)
    case (Ok c)
    then have run: "walk_tables P u c is s1 = (r, s')" using Cons.prems(7) step by simp
    have "owned_tree P U d s' root \<and> tree_evolves P U s1 s' root \<and>
      (\<forall>c. r = Ok c \<longrightarrow> table_at P s' root ((p @ [i]) @ is) = Some c) \<and>
      (\<forall>e. r = Err e \<longrightarrow> e = FrameAllocationFailed \<and> card (free_frames (pmm s1)) < length is
        \<and> table_at P s' root ((p @ [i]) @ is) = None) \<and> r \<noteq> Panic \<and>
      card (free_frames (pmm s1)) \<le> card (free_frames (pmm s')) + length is"
      by (rule Cons.IH [OF W(1) Cons.prems(2,3) W(3) [OF Ok] _ _ run]) (use Cons.prems(5,6) in simp_all)
    then show ?thesis using W(6) tree_evolves_trans [OF W(2)] by auto
  next
    case (Err e)
    then have "r = Err e" "s' = s1" using Cons.prems(7) step by simp_all
    then show ?thesis using W Err table_at_append_None [of P s' root "p @ [i]" "is"] by auto
  next
    case Panic
    then show ?thesis using W(5) by simp
  qed
qed

lemma table_at_leaf:
  "table_at P s root (q @ [j]) =
     (if pte_present P (leaf_at P s root q j) then Some (pte_addr P (leaf_at P s root q j)) else None)"
  by (simp add: table_at_snoc leaf_at_def child_def absent_zero split: option.split)

text \<open>Writing one leaf entry changes the address space at that page only.\<close>

lemma set_leaf_spec:
  assumes tree: "owned_tree P U d s root" "3 \<le> d" "d \<le> 4"
    and p: "table_at P s root p = Some t" "valid_path U (p @ [i])" "length p = 3"
    and s': "s' = set_entry t i w s"
    and fresh: "d = 3 \<or> \<not> pte_present P w \<or>
       frame_of (pte_addr P w) \<notin> tree_frames P U 4 s root \<union> free_frames (pmm s)"
  shows "owned_tree P U d s' root"
    and "valid_path U q \<Longrightarrow> length q = 3 \<Longrightarrow> j < 512 \<Longrightarrow>
      leaf_at P s' root q j = (if q = p \<and> j = i then w else leaf_at P s root q j)"
proof -
  note root = owned_tree_root [OF tree(1)]
  have al: "page_aligned x" if "table_at P s root r = Some x" for r x
    using table_at_aligned [OF that] root by simp
  have E: "entry s' x k = (if x = t \<and> k = i then w else entry s x k)"
    if "table_at P s root r = Some x" "k < 512" for r x k
    using entry_set_entry [of t x i k] al [OF that(1)] al [OF p(1)] p(2) that(2) by (auto simp: s')
  have it: "i < 512" using p by simp
  have c: "child P s' t i = (if pte_present P w then Some (pte_addr P w) else None)"
    using E [OF p(1) it] by (simp add: child_def)
  have same: "entry s' x k = entry s x k"
    if "table_at P s root r = Some x" "valid_path U (r @ [k])" "length r \<le> 3" "\<not> (x = t \<and> k = i)" for r x k
    using E [OF that(1)] that(2,4) by auto
  have len: "length p \<le> 3" using p by simp
  have pool: "pool_ok s'" "free_frames (pmm s') \<subseteq> free_frames (pmm s)"
    using root by (simp_all add: s' pool_ok_def)
  have nr: "table_at P s root r \<noteq> Some (pte_addr P w)"
    if "valid_path U r" "length r \<le> d" "d = 4" "pte_present P w" for r
    using tree_frames_I [of U r 4 P s root "pte_addr P w"] fresh that tree by auto
  show "owned_tree P U d s' root"
    by (rule owned_tree_update [OF tree p(1,2) len c same _ pool])
      (use p fresh nr tree in \<open>auto simp: s'\<close>)
  have upd: "table_at P s' root q = (if q = p @ [i] then child P s' t i else table_at P s root q)"
    if "valid_path U q" "length q \<le> 4" for q
    by (rule table_at_update [OF tree(1,2) p(1,2) len refl same _ that]) (use p in auto)
  show "leaf_at P s' root q j = (if q = p \<and> j = i then w else leaf_at P s root q j)"
    if q: "valid_path U q" "length q = 3" "j < 512"
  proof (cases "table_at P s root q")
    case None
    then show ?thesis using upd [of q] q p by (auto simp: leaf_at_def)
  next
    case (Some x)
    have "x = t \<longleftrightarrow> q = p"
      using owned_tree_inj [OF tree(1), of q p t] q p tree(2) Some by auto
    moreover have "table_at P s' root q = Some x" using upd [of q] q p Some by auto
    ultimately show ?thesis using E [OF Some q(3)] Some by (simp add: leaf_at_def)
  qed
qed

lemma upper_path_valid: "hd (upper_path v) \<in> U \<Longrightarrow> valid_path U (upper_path v @ [leaf_idx v])"
proof -
  have "x AND 0x1FF < 512" for x :: usize
    by (rule order_le_less_trans [OF word_and_le1]) simp
  then show "hd (upper_path v) \<in> U \<Longrightarrow> valid_path U (upper_path v @ [leaf_idx v])"
    by (auto simp: valid_path_def upper_path_def leaf_idx_def)
qed

text \<open>The frames of the whole tree after a walk are old ones or were free.\<close>

lemma tree_frames_evolves:
  assumes "tree_evolves P U s s' root"
  shows "tree_frames P U 4 s' root \<subseteq> tree_frames P U 4 s root \<union> free_frames (pmm s)"
proof
  fix x assume "x \<in> tree_frames P U 4 s' root"
  then obtain t p where p: "x = frame_of t" "valid_path U p" "length p \<le> 4" "table_at P s' root p = Some t"
    unfolding tree_frames_def by blast
  show "x \<in> tree_frames P U 4 s root \<union> free_frames (pmm s)"
  proof (cases "length p = 4")
    case True
    then obtain q j where q: "p = q @ [j]" "length q = 3" by (cases p rule: rev_cases) auto
    then have "leaf_at P s' root q j = leaf_at P s root q j" using assms p by (auto simp: tree_evolves_def)
    then have "table_at P s root p = Some t" using p(4) unfolding q(1) table_at_leaf by (auto split: if_splits)
    then show ?thesis using tree_frames_I [OF p(2,3)] p(1) by auto
  next
    case False
    then have "x \<in> scope P U s' root" using tree_frames_I [of U p 3 P s' root t] p by (auto simp: scope_def)
    then have "x \<in> scope P U s root" using assms by (auto simp: tree_evolves_def)
    moreover have "tree_frames P U 3 s root \<subseteq> tree_frames P U 4 s root"
      unfolding tree_frames_def by fastforce
    ultimately show ?thesis by (auto simp: scope_def)
  qed
qed

lemma walk_map_spec:
  assumes tree: "owned_tree P U d s root" "3 \<le> d" "d \<le> 4"
    and v: "hd (upper_path virt) \<in> U"
    and fresh: "d = 3 \<or> frame_of (pte_addr P phys) \<notin> tree_frames P U 4 s root \<union> free_frames (pmm s)"
    and run: "walk_map P root virt phys flags s = (r, s')"
  shows "owned_tree P U d s' root"
    and "\<And>q j. valid_path U q \<Longrightarrow> length q = 3 \<Longrightarrow> j < 512 \<Longrightarrow> leaf_at P s' root q j =
      (if r = Ok () \<and> q = upper_path virt \<and> j = leaf_idx virt then pte_leaf P phys flags else leaf_at P s root q j)"
    and "r = (if virt AND 0xFFF \<noteq> 0 \<or> phys AND 0xFFF \<noteq> 0 then Err InvalidAddress
       else if pte_present P (leaf_entry P s root virt) then Err AlreadyMapped else Ok ())
      \<or> r = Err FrameAllocationFailed \<and> card (free_frames (pmm s)) < 3 \<and> \<not> pte_present P (leaf_entry P s root virt)"
    and "\<And>a. ram s' a \<noteq> ram s a \<Longrightarrow> frame_of a \<in> scope P U s root"
    and "free_frames (pmm s') \<subseteq> free_frames (pmm s)"
    and "\<exists>m p. s' = s\<lparr>ram := m, pmm := p\<rparr>"
    and "card (free_frames (pmm s)) \<le> card (free_frames (pmm s')) + 3"
proof -
  let ?p = "upper_path virt" and ?i = "leaf_idx virt" and ?bad = "virt AND 0xFFF \<noteq> 0 \<or> phys AND 0xFFF \<noteq> 0"
  note valid = upper_path_valid [OF v]
  have len: "length ?p = 3" by (simp add: upper_path_def)
  have it: "?i < 512" and vp: "valid_path U ?p" using valid by simp_all
  obtain w s1 where walk: "walk_tables P (user_accessible flags) root ?p s = (w, s1)"
    by (cases "walk_tables P (user_accessible flags) root ?p s")
  have W: "owned_tree P U d s1 root" "tree_evolves P U s s1 root"
      "\<And>c. w = Ok c \<Longrightarrow> table_at P s1 root ?p = Some c"
      "\<And>e. w = Err e \<Longrightarrow> e = FrameAllocationFailed \<and> card (free_frames (pmm s)) < 3 \<and> table_at P s1 root ?p = None"
      "w \<noteq> Panic" "card (free_frames (pmm s)) \<le> card (free_frames (pmm s1)) + 3"
    using walk_tables_spec [OF tree, of "[]" root ?p] walk valid len by auto
  have leaf1: "leaf_at P s1 root q j = leaf_at P s root q j" if "valid_path U q" "length q = 3" "j < 512" for q j
    using W(2) that by (simp add: tree_evolves_def)
  have pres: "leaf_entry P s root virt = leaf_at P s1 root ?p ?i"
    using leaf1 [OF vp len it] by (simp add: leaf_entry_def)
  have conf1: "frame_of a \<in> scope P U s root" if "ram s1 a \<noteq> ram s a" for a
    using W(2) that by (simp add: tree_evolves_def)
  have ex1: "\<exists>m p. s1 = s\<lparr>ram := m, pmm := p\<rparr>" and free1: "free_frames (pmm s1) \<subseteq> free_frames (pmm s)"
    using W(2) by (simp_all add: tree_evolves_def)
  have exs: "\<exists>m p. s = s\<lparr>ram := m, pmm := p\<rparr>"
    by (intro exI [of _ "ram s"] exI [of _ "pmm s"]) simp
  consider (bad) "?bad" "r = Err InvalidAddress" "s' = s"
    | (err) e where "\<not> ?bad" "w = Err e" "r = Err e" "s' = s1"
    | (mapped) c where "\<not> ?bad" "w = Ok c" "pte_present P (entry s1 c ?i)" "r = Err AlreadyMapped" "s' = s1"
    | (ok) c where "\<not> ?bad" "w = Ok c" "\<not> pte_present P (entry s1 c ?i)" "r = Ok ()"
        "s' = set_entry c ?i (pte_leaf P phys flags) s1"
    using run W(5) by (auto simp: walk_map_def walk split: if_splits outcome.splits)
  then have "owned_tree P U d s' root \<and> (\<forall>q j. valid_path U q \<longrightarrow> length q = 3 \<longrightarrow> j < 512 \<longrightarrow> leaf_at P s' root q j =
      (if r = Ok () \<and> q = ?p \<and> j = ?i then pte_leaf P phys flags else leaf_at P s root q j)) \<and>
    (r = (if ?bad then Err InvalidAddress
       else if pte_present P (leaf_entry P s root virt) then Err AlreadyMapped else Ok ())
      \<or> r = Err FrameAllocationFailed \<and> card (free_frames (pmm s)) < 3 \<and> \<not> pte_present P (leaf_entry P s root virt)) \<and>
    (\<forall>a. ram s' a \<noteq> ram s a \<longrightarrow> frame_of a \<in> scope P U s root) \<and>
    free_frames (pmm s') \<subseteq> free_frames (pmm s) \<and> (\<exists>m p. s' = s\<lparr>ram := m, pmm := p\<rparr>) \<and>
    card (free_frames (pmm s)) \<le> card (free_frames (pmm s')) + 3"
  proof cases
    case bad
    then show ?thesis using tree(1) exs by simp
  next
    case err
    then show ?thesis using W(1,4,6) leaf1 conf1 ex1 free1 pres by (auto simp: leaf_at_def absent_zero)
  next
    case mapped
    then show ?thesis using W(1,3,6) leaf1 conf1 ex1 free1 pres by (auto simp: leaf_at_def)
  next
    case ok
    have c: "table_at P s1 root ?p = Some c" using W(3) ok by simp
    have al: "page_aligned c" using table_at_aligned [OF c] owned_tree_root [OF tree(1)] by simp
    have fr: "d = 3 \<or> \<not> pte_present P (pte_leaf P phys flags) \<or>
        frame_of (pte_addr P (pte_leaf P phys flags)) \<notin> tree_frames P U 4 s1 root \<union> free_frames (pmm s1)"
      using fresh tree_frames_evolves [OF W(2)] free1 by (auto simp: format_laws)
    note S = set_leaf_spec [OF W(1) tree(2,3) c valid len ok(5) fr]
    have "frame_of c \<in> scope P U s root"
      using tree_frames_I [OF vp _ c, of 3] W(2) len by (auto simp: tree_evolves_def scope_def)
    then have conf: "frame_of a \<in> scope P U s root" if "ram s' a \<noteq> ram s a" for a
      using conf1 [of a] ram_set_entry [OF al it, of a] that ok(5) by metis
    obtain m p where "s1 = s\<lparr>ram := m, pmm := p\<rparr>" using ex1 by blast
    then have ex: "\<exists>m p. s' = s\<lparr>ram := m, pmm := p\<rparr>"
      by (intro exI [of _ "ram s'"] exI [of _ p]) (simp add: ok(5) set_entry_def)
    have "r = Ok ()" "\<not> pte_present P (leaf_entry P s root virt)"
      using ok pres c by (simp_all add: leaf_at_def)
    then show ?thesis using S leaf1 conf ex ok(1,5) free1 W(6) by simp
  qed
  then show "owned_tree P U d s' root"
    "\<And>q j. valid_path U q \<Longrightarrow> length q = 3 \<Longrightarrow> j < 512 \<Longrightarrow> leaf_at P s' root q j =
      (if r = Ok () \<and> q = upper_path virt \<and> j = leaf_idx virt then pte_leaf P phys flags else leaf_at P s root q j)"
    "r = (if ?bad then Err InvalidAddress
       else if pte_present P (leaf_entry P s root virt) then Err AlreadyMapped else Ok ())
      \<or> r = Err FrameAllocationFailed \<and> card (free_frames (pmm s)) < 3 \<and> \<not> pte_present P (leaf_entry P s root virt)"
    "\<And>a. ram s' a \<noteq> ram s a \<Longrightarrow> frame_of a \<in> scope P U s root"
    "free_frames (pmm s') \<subseteq> free_frames (pmm s)" "\<exists>m p. s' = s\<lparr>ram := m, pmm := p\<rparr>"
    "card (free_frames (pmm s)) \<le> card (free_frames (pmm s')) + 3" by blast+
qed

lemma walk_unmap_spec:
  assumes tree: "owned_tree P U d s root" "3 \<le> d" "d \<le> 4"
    and v: "hd (upper_path virt) \<in> U"
    and run: "walk_unmap P root virt s = (r, s')"
  shows "owned_tree P U d s' root"
    and "\<And>q j. valid_path U q \<Longrightarrow> length q = 3 \<Longrightarrow> j < 512 \<Longrightarrow> leaf_at P s' root q j =
      (if r = Ok () \<and> q = upper_path virt \<and> j = leaf_idx virt then 0 else leaf_at P s root q j)"
    and "r = (if virt AND 0xFFF \<noteq> 0 \<or> \<not> pte_present P (leaf_entry P s root virt) then Err InvalidAddress else Ok ())"
    and "pmm s' = pmm s"
proof -
  let ?p = "upper_path virt" and ?i = "leaf_idx virt"
  note valid = upper_path_valid [OF v]
  have len: "length ?p = 3" by (simp add: upper_path_def)
  consider (err) "r = Err InvalidAddress" "s' = s" "virt AND 0xFFF \<noteq> 0 \<or> \<not> pte_present P (leaf_entry P s root virt)"
    | (ok) t where "r = Ok ()" "table_at P s root ?p = Some t" "s' = set_entry t ?i 0 s"
        "\<not> (virt AND 0xFFF \<noteq> 0 \<or> \<not> pte_present P (leaf_entry P s root virt))"
    using run by (auto simp: walk_unmap_def leaf_entry_def leaf_at_def absent_zero split: if_splits option.splits)
  then have "owned_tree P U d s' root \<and> (\<forall>q j. valid_path U q \<longrightarrow> length q = 3 \<longrightarrow> j < 512 \<longrightarrow> leaf_at P s' root q j =
      (if r = Ok () \<and> q = ?p \<and> j = ?i then 0 else leaf_at P s root q j)) \<and> pmm s' = pmm s \<and>
     r = (if virt AND 0xFFF \<noteq> 0 \<or> \<not> pte_present P (leaf_entry P s root virt) then Err InvalidAddress else Ok ())"
  proof cases
    case err
    then show ?thesis using tree(1) by auto
  next
    case ok
    note S = set_leaf_spec [OF tree ok(2) valid len ok(3)]
    show ?thesis using S ok absent_zero by simp
  qed
  then show "owned_tree P U d s' root"
    "\<And>q j. valid_path U q \<Longrightarrow> length q = 3 \<Longrightarrow> j < 512 \<Longrightarrow> leaf_at P s' root q j =
      (if r = Ok () \<and> q = upper_path virt \<and> j = leaf_idx virt then 0 else leaf_at P s root q j)"
    "r = (if virt AND 0xFFF \<noteq> 0 \<or> \<not> pte_present P (leaf_entry P s root virt) then Err InvalidAddress else Ok ())"
    "pmm s' = pmm s" by blast+
qed

lemma walk_translate_leaf:
  assumes tree: "owned_tree P U d s root" and v: "hd (upper_path virt) \<in> U"
  shows "walk_translate P s root virt =
    (if pte_present P (leaf_entry P s root virt)
     then Some (pte_addr P (leaf_entry P s root virt) + (virt AND 0xFFF)) else None)"
proof -
  define i0 i1 i2 where i: "i0 = drop_bit 39 virt AND 0x1FF" "i1 = drop_bit 30 virt AND 0x1FF" "i2 = drop_bit 21 virt AND 0x1FF"
  have valid: "valid_path U [i0, i1, i2, leaf_idx virt]"
    using upper_path_valid [OF v] by (simp add: upper_path_def i)
  then have v1: "valid_path U ([i0] @ [i1])" and v2: "valid_path U ([i0, i1] @ [i2])"
    by (simp_all add: valid_path_def)
  have b1: "\<not> pte_block P (entry s t i1)" if "table_at P s root [i0] = Some t" "pte_present P (entry s t i1)" for t
    using owned_tree_no_block [OF tree v1 _ that] by simp
  have b2: "\<not> pte_block P (entry s t i2)" if "table_at P s root [i0, i1] = Some t" "pte_present P (entry s t i2)" for t
    using owned_tree_no_block [OF tree v2 _ that] by simp
  show ?thesis
    unfolding walk_translate_def leaf_entry_def leaf_at_def upper_path_def i [symmetric] leaf_idx_def
    using b1 b2 by (simp add: child_def Let_def absent_zero)
qed

text \<open>Taking a frame out of the pool and zeroing it leaves an owned tree as it is.\<close>

lemma fresh_frame_keeps_tree:
  assumes tree: "owned_tree P U d s root" "3 \<le> d" and alloc: "alloc_frame s = (Some f, s1)"
    and s': "s' = zero_page f s1"
  shows "owned_tree P U d s' root"
    and "valid_path U (q @ [j]) \<Longrightarrow> length q = 3 \<Longrightarrow> leaf_at P s' root q j = leaf_at P s root q j"
    and "frame_of f \<notin> tree_frames P U d s' root \<union> free_frames (pmm s')"
    and "tree_frames P U d s' root = tree_frames P U d s root"
proof -
  note root = owned_tree_root [OF tree(1)]
  note A = alloc_frame_Some [OF alloc conjunct2 [OF root]]
  have free: "free_frames (pmm s') = free_frames (pmm s) - {frame_of f}" by (simp add: s' A(4))
  have E: "entry s' t j = entry s t j" "frame_of t \<noteq> frame_of f"
    if "table_at P s root q = Some t" "valid_path U q" "length q \<le> d" "j < 512" for q t j
  proof -
    have "page_aligned t" using table_at_aligned [OF that(1)] root by simp
    moreover show "frame_of t \<noteq> frame_of f" using owned_tree_not_free [OF tree(1) that(2,3,1)] A(3) by auto
    ultimately show "entry s' t j = entry s t j"
      using entry_zero_page [OF A(1), of t j] that(4) by (auto simp: s' A(4))
  qed
  have same: "table_at P s' root q = table_at P s root q" if "valid_path U q" "length q \<le> Suc d" for q
    using that
  proof (induction q rule: rev_induct)
    case (snoc j q)
    then show ?case
      by (cases "table_at P s root q") (auto simp: table_at_snoc intro!: child_cong E)
  qed simp
  show "leaf_at P s' root q j = leaf_at P s root q j" if q: "valid_path U (q @ [j])" "length q = 3"
    using E(1) [of q _ j] same [of q] q tree(2) by (auto simp: leaf_at_def split: option.split)
  show tf: "tree_frames P U d s' root = tree_frames P U d s root"
    using same unfolding tree_frames_def by force
  show "frame_of f \<notin> tree_frames P U d s' root \<union> free_frames (pmm s')"
    unfolding tf free using owned_tree_frames_not_free [OF tree(1)] A(3) by blast
  have pool: "pool_ok s'" using root by (simp add: s' A(4) pool_ok_def)
  have inj: "p = q" if "valid_path U p" "valid_path U q" "length p \<le> d" "length q \<le> d"
      "table_at P s' root p = Some t" "table_at P s' root q = Some t" for p q t
    using owned_tree_inj [OF tree(1) that(1-4), of t] that same [of p] same [of q] by simp
  have nf: "frame_of t \<notin> free_frames (pmm s')"
    if "valid_path U p" "length p \<le> d" "table_at P s' root p = Some t" for p t
    using owned_tree_not_free [OF tree(1) that(1,2), of t] same [of p] that free by simp
  have nb: "\<not> pte_block P (entry s' t i)"
    if "valid_path U (p @ [i])" "length p \<in> {1, 2}" "table_at P s' root p = Some t" "pte_present P (entry s' t i)" for p t i
  proof -
    have p: "valid_path U p" "length p \<le> d" "i < 512" using that(1,2) tree(2) by auto
    then have t: "table_at P s root p = Some t" using same [of p] that(3) by simp
    show ?thesis using owned_tree_no_block [OF tree(1) that(1,2) t] E(1) [OF t p] that(4) by simp
  qed
  show "owned_tree P U d s' root"
    unfolding owned_tree_def using root pool inj nf nb by blast
qed

text \<open>Writing to memory outside the tables of the tree leaves the tree as it is.\<close>

lemma read64_frame_cong:
  assumes "page_aligned t" "j < 512" "\<And>a. frame_of a = frame_of t \<Longrightarrow> m' a = m a"
  shows "read64 m' (t + 8 * j) = read64 m (t + 8 * j)"
proof (rule read64_cong)
  fix i :: nat assume i: "i < 8"
  have "t + 8 * j + word_of_nat i - (t + 8 * j) < 8" using i by (simp add: word_less_nat_alt unat_of_nat)
  then have "t + 8 * j + word_of_nat i - t < 4096" using assms(2) by (rule entry_offset_in_page [rotated])
  then show "m' (t + 8 * j + word_of_nat i) = m (t + 8 * j + word_of_nat i)"
    using assms(1,3) frame_of_page_offset by blast
qed

lemma data_write_keeps_tree:
  assumes tree: "owned_tree P U d s root" "3 \<le> d" "d \<le> 4"
    and m: "\<And>a. frame_of a \<in> tree_frames P U 3 s root \<Longrightarrow> m a = ram s a"
  shows "owned_tree P U d (s\<lparr>ram := m\<rparr>) root"
    and "valid_path U q \<Longrightarrow> length q \<le> 4 \<Longrightarrow> table_at P (s\<lparr>ram := m\<rparr>) root q = table_at P s root q"
    and "valid_path U (q @ [j]) \<Longrightarrow> length q = 3 \<Longrightarrow> leaf_at P (s\<lparr>ram := m\<rparr>) root q j = leaf_at P s root q j"
proof -
  let ?s = "s\<lparr>ram := m\<rparr>"
  note root = owned_tree_root [OF tree(1)]
  have E: "entry ?s t j = entry s t j"
    if "table_at P s root q = Some t" "valid_path U q" "length q \<le> 3" "j < 512" for q t j
    using read64_frame_cong [OF _ that(4), of t m "ram s"] table_at_aligned [OF that(1)] root
      tree_frames_I [OF that(2,3,1)] m by (auto simp: entry_def)
  have same: "table_at P ?s root q = table_at P s root q" if "valid_path U q" "length q \<le> 4" for q
    using that
  proof (induction q rule: rev_induct)
    case (snoc j q)
    then show ?case
      by (cases "table_at P s root q") (auto simp: table_at_snoc intro!: child_cong E)
  qed simp
  then show "valid_path U q \<Longrightarrow> length q \<le> 4 \<Longrightarrow> table_at P ?s root q = table_at P s root q" .
  show "leaf_at P ?s root q j = leaf_at P s root q j" if q: "valid_path U (q @ [j])" "length q = 3"
    using E [of q _ j] same [of q] q by (auto simp: leaf_at_def split: option.split)
  have inj: "p = q" if "valid_path U p" "valid_path U q" "length p \<le> d" "length q \<le> d"
      "table_at P ?s root p = Some t" "table_at P ?s root q = Some t" for p q t
    using owned_tree_inj [OF tree(1) that(1-4), of t] that same [of p] same [of q] tree(3) by simp
  have nf: "frame_of t \<notin> free_frames (pmm ?s)"
    if "valid_path U p" "length p \<le> d" "table_at P ?s root p = Some t" for p t
    using owned_tree_not_free [OF tree(1) that(1,2), of t] same [of p] that tree(3) by simp
  have nb: "\<not> pte_block P (entry ?s t i)"
    if "valid_path U (p @ [i])" "length p \<in> {1, 2}" "table_at P ?s root p = Some t" "pte_present P (entry ?s t i)" for p t i
  proof -
    have p: "valid_path U p" "length p \<le> 3" "i < 512" using that(1,2) by auto
    then have t: "table_at P s root p = Some t" using same [of p] that(3) by simp
    show ?thesis using owned_tree_no_block [OF tree(1) that(1,2) t] E [OF t p] that(4) by simp
  qed
  show "owned_tree P U d ?s root"
    unfolding owned_tree_def using root inj nf nb by (simp add: pool_ok_def) blast
qed

text \<open>With full ownership (\<open>d = 4\<close>), the frame of a mapped page is neither free nor a table.\<close>

lemma mapped_frame_private:
  assumes "owned_tree P U 4 s root" "valid_path U (q @ [j])" "length q = 3"
    and "pte_present P (leaf_at P s root q j)"
  shows "frame_of (pte_addr P (leaf_at P s root q j)) \<notin> free_frames (pmm s)"
    "frame_of (pte_addr P (leaf_at P s root q j)) \<notin> tree_frames P U 3 s root"
proof -
  let ?f = "pte_addr P (leaf_at P s root q j)"
  have f: "table_at P s root (q @ [j]) = Some ?f" using assms(4) by (simp add: table_at_leaf)
  then show "frame_of ?f \<notin> free_frames (pmm s)"
    using owned_tree_not_free [OF assms(1,2)] assms(3) by simp
  show "frame_of ?f \<notin> tree_frames P U 3 s root"
  proof
    assume "frame_of ?f \<in> tree_frames P U 3 s root"
    then obtain t p where p: "frame_of ?f = frame_of t" "valid_path U p" "length p \<le> 3" "table_at P s root p = Some t"
      unfolding tree_frames_def by blast
    moreover have "page_aligned t" using table_at_aligned [OF p(4)] owned_tree_root [OF assms(1)] by simp
    ultimately have "t = ?f" using frame_of_inj [OF _ addr_aligned, of t] by metis
    then have "p = q @ [j]" using owned_tree_inj [OF assms(1) p(2) assms(2), of t] p f assms(3) by simp
    then show False using p(3) assms(3) by simp
  qed
qed

end

text \<open>Both descriptor formats satisfy the contract.\<close>

lemma x86_mask: "(0x000FFFFFFFFFF000 :: u64) = push_bit 12 (mask 40)"
  by (simp add: mask_numeral push_bit_eq_mult)

lemma a64_mask: "(0x0000FFFFFFFFF000 :: u64) = push_bit 12 (mask 36)"
  by (simp add: mask_numeral push_bit_eq_mult)

lemma and_shifted_mask_id:
  fixes f :: u64
  assumes "page_aligned f" "unat f < 2 ^ 48" "36 \<le> n"
  shows "f AND push_bit 12 (mask n) = f"
proof (rule bit_word_eqI)
  fix k assume "k < LENGTH(64)"
  have low: "\<not> bit f k" if "k < 12"
  proof -
    have "take_bit 12 f = 0" using assms(1) by (simp add: page_aligned_def and_fff)
    then have "\<not> bit (take_bit 12 f) k" by simp
    with that show ?thesis by (simp add: bit_take_bit_iff)
  qed
  have "take_bit 48 f = f"
    using assms(2) by (simp add: word_unat_eq_iff unsigned_take_bit_eq take_bit_nat_eq_self)
  then have high: "\<not> bit f k" if "48 \<le> k" using that by (metis bit_take_bit_iff not_less)
  have "12 \<le> k \<and> k < 48" if "bit f k" using low high that not_less by blast
  then show "bit (f AND push_bit 12 (mask n)) k = bit f k"
    using assms(3) \<open>k < LENGTH(64)\<close> by (auto simp: bit_simps)
qed

lemma masked_aligned: "page_aligned (e AND push_bit 12 (mask n))"
  unfolding page_aligned_def and_fff by (auto intro!: bit_eqI simp: bit_simps)

lemma x86_set_frame_bits:
  "x86_set_frame f fl = (f AND 0x000FFFFFFFFFF000) OR 1 OR (if writable fl then 2 else 0)
     OR (if user_accessible fl then 4 else 0) OR (if execute_disable fl then 0x8000000000000000 else 0)"
  by (simp add: x86_set_frame_def Let_def push_bit_eq_mult or.assoc)

lemma a64_set_frame_bits:
  "a64_set_frame f fl tab = (f AND 0x0000FFFFFFFFF000) OR 3 OR 0x400 OR (if writable fl then 0 else 0x80)
     OR (if user_accessible fl then 0x40 else 0) OR (if execute_disable fl then 0x60000000000000 else 0)
     OR (if \<not> tab \<and> device fl then 4 else 0)"
  by (simp add: a64_set_frame_def Let_def push_bit_eq_mult or.assoc)

interpretation x86: pte_format x86_ops
proof unfold_locales
  show "page_aligned (pte_addr x86_ops e)" for e
    by (simp add: x86_ops_def x86_physical_address_def x86_mask masked_aligned)
  show "page_aligned f \<Longrightarrow> unat f < 2 ^ 48 \<Longrightarrow> pte_addr x86_ops f = f" for f
    using and_shifted_mask_id [of f 40] by (simp add: x86_ops_def x86_physical_address_def x86_mask)
qed (simp_all add: x86_ops_def x86_is_present_def x86_physical_address_def x86_set_frame_bits
    x86_ensure_user_accessible_def x86_is_user_accessible_def x86_is_writable_def table_flags_def
    push_bit_eq_mult bit.conj_disj_distrib2 and.assoc)

interpretation a64: pte_format a64_ops
proof unfold_locales
  show "page_aligned (pte_addr a64_ops e)" for e
    by (simp add: a64_ops_def a64_physical_address_def a64_mask masked_aligned)
  show "page_aligned f \<Longrightarrow> unat f < 2 ^ 48 \<Longrightarrow> pte_addr a64_ops f = f" for f
    using and_shifted_mask_id [of f 36] by (simp add: a64_ops_def a64_physical_address_def a64_mask)
qed (simp_all add: a64_ops_def a64_is_present_def a64_physical_address_def a64_set_frame_bits
    a64_is_user_accessible_def a64_is_writable_def table_flags_def
    push_bit_eq_mult bit.conj_disj_distrib2 and.assoc)

interpretation arch: pte_format "arch_ops tgt" for tgt
  by (cases tgt) (simp_all add: arch_ops_def x86.pte_format_axioms a64.pte_format_axioms)

end
