(* ===== verification/Vmm.thy ===== *)
theory Vmm
  imports PageTable
begin

text \<open>
  Virtual memory management (\<^verbatim>\<open>src/vmm.rs\<close> and the mapping half of \<^verbatim>\<open>src/memory.rs\<close>): mapping,
  unmapping and translating pages on both architectures, demand paging, creation and teardown of
  process address spaces, and the validation of user pointers. TLB maintenance has no effect on the
  modelled state.
\<close>

section \<open>x86_64\<close>

definition x86_next_table :: "usize \<Rightarrow> bool \<Rightarrow> machine \<Rightarrow> (MemoryError, usize) outcome \<times> machine" where
  "x86_next_table ent user s =
     (if \<not> x86_is_present (read_u64 s ent)
      then (case alloc_frame s of
              (None, s) \<Rightarrow> (Err FrameAllocationFailed, s)
            | (Some frame, s) \<Rightarrow>
                (let s = write_bytes (phys_to_virt s frame) 0 4096 s;
                     s = write_u64 ent (x86_set_frame frame table_flags) s
                 in (Ok (phys_to_virt s (x86_physical_address (read_u64 s ent))), s)))
      else (let s = (if user then write_u64 ent (x86_ensure_user_accessible (read_u64 s ent)) s else s)
            in (Ok (phys_to_virt s (x86_physical_address (read_u64 s ent))), s)))"

definition x86_map_page ::
    "usize \<Rightarrow> usize \<Rightarrow> usize \<Rightarrow> MapFlags \<Rightarrow> machine \<Rightarrow> (MemoryError, unit) outcome \<times> machine" where
  "x86_map_page root virt phys flags s =
     (if virt AND 0xFFF \<noteq> 0 \<or> phys AND 0xFFF \<noteq> 0 then (Err InvalidAddress, s)
      else
        let root = phys_to_virt s root;
            pml4_idx = drop_bit 39 virt AND 0x1FF;
            pdpt_idx = drop_bit 30 virt AND 0x1FF;
            pd_idx = drop_bit 21 virt AND 0x1FF;
            pt_idx = drop_bit 12 virt AND 0x1FF
        in try_then (x86_next_table (root + 8 * pml4_idx) (user_accessible flags) s) (\<lambda>pdpt s.
           try_then (x86_next_table (pdpt + 8 * pdpt_idx) (user_accessible flags) s) (\<lambda>pd s.
           try_then (x86_next_table (pd + 8 * pd_idx) (user_accessible flags) s) (\<lambda>pt s.
             if x86_is_present (read_u64 s (pt + 8 * pt_idx)) then (Err AlreadyMapped, s)
             else (Ok (), write_u64 (pt + 8 * pt_idx) (x86_set_frame phys flags) s)))))"

definition x86_unmap_page :: "usize \<Rightarrow> usize \<Rightarrow> machine \<Rightarrow> (MemoryError, unit) outcome \<times> machine" where
  "x86_unmap_page root virt s =
     (if virt AND 0xFFF \<noteq> 0 then (Err InvalidAddress, s)
      else
        let root = phys_to_virt s root;
            pml4_entry = root + 8 * (drop_bit 39 virt AND 0x1FF)
        in if \<not> x86_is_present (read_u64 s pml4_entry) then (Err InvalidAddress, s)
        else let pdpt = phys_to_virt s (x86_physical_address (read_u64 s pml4_entry));
                 pdpt_entry = pdpt + 8 * (drop_bit 30 virt AND 0x1FF)
        in if \<not> x86_is_present (read_u64 s pdpt_entry) then (Err InvalidAddress, s)
        else let pd = phys_to_virt s (x86_physical_address (read_u64 s pdpt_entry));
                 pd_entry = pd + 8 * (drop_bit 21 virt AND 0x1FF)
        in if \<not> x86_is_present (read_u64 s pd_entry) then (Err InvalidAddress, s)
        else let pt = phys_to_virt s (x86_physical_address (read_u64 s pd_entry));
                 pt_entry = pt + 8 * (drop_bit 12 virt AND 0x1FF)
        in if \<not> x86_is_present (read_u64 s pt_entry) then (Err InvalidAddress, s)
        else (Ok (), write_u64 pt_entry 0 s))"

definition x86_translate_addr :: "machine \<Rightarrow> usize \<Rightarrow> usize \<Rightarrow> usize option" where
  "x86_translate_addr s root virt =
     (let root = phys_to_virt s root;
          pml4_entry = read_u64 s (root + 8 * (drop_bit 39 virt AND 0x1FF))
      in if \<not> x86_is_present pml4_entry then None
      else let pdpt = phys_to_virt s (x86_physical_address pml4_entry);
               pdpt_entry = read_u64 s (pdpt + 8 * (drop_bit 30 virt AND 0x1FF))
      in if \<not> x86_is_present pdpt_entry then None
      else if pdpt_entry AND push_bit 7 1 \<noteq> 0
      then Some ((x86_physical_address pdpt_entry AND NOT 0x3FFFFFFF) + (virt AND 0x3FFFFFFF))
      else let pd = phys_to_virt s (x86_physical_address pdpt_entry);
               pd_entry = read_u64 s (pd + 8 * (drop_bit 21 virt AND 0x1FF))
      in if \<not> x86_is_present pd_entry then None
      else if pd_entry AND push_bit 7 1 \<noteq> 0
      then Some ((x86_physical_address pd_entry AND NOT 0x1FFFFF) + (virt AND 0x1FFFFF))
      else let pt = phys_to_virt s (x86_physical_address pd_entry);
               pt_entry = read_u64 s (pt + 8 * (drop_bit 12 virt AND 0x1FF))
      in if \<not> x86_is_present pt_entry then None
      else Some (x86_physical_address pt_entry + (virt AND 0xFFF)))"

section \<open>AArch64\<close>

text \<open>Table pointers are physical addresses here: the kernel runs on a permanent identity map.\<close>

definition a64_next_table :: "usize \<Rightarrow> machine \<Rightarrow> (MemoryError, usize) outcome \<times> machine" where
  "a64_next_table ent s =
     (if \<not> a64_is_present (read_u64 s ent)
      then (case alloc_frame s of
              (None, s) \<Rightarrow> (Err FrameAllocationFailed, s)
            | (Some frame, s) \<Rightarrow>
                (let s = write_bytes frame 0 4096 s;
                     s = write_u64 ent (a64_set_frame frame table_flags True) s
                 in (Ok (a64_physical_address (read_u64 s ent)), s)))
      else (Ok (a64_physical_address (read_u64 s ent)), s))"

definition a64_map_page ::
    "usize \<Rightarrow> usize \<Rightarrow> usize \<Rightarrow> MapFlags \<Rightarrow> machine \<Rightarrow> (MemoryError, unit) outcome \<times> machine" where
  "a64_map_page root virt phys flags s =
     (if virt AND 0xFFF \<noteq> 0 \<or> phys AND 0xFFF \<noteq> 0 then (Err InvalidAddress, s)
      else
        let l0_idx = drop_bit 39 virt AND 0x1FF;
            l1_idx = drop_bit 30 virt AND 0x1FF;
            l2_idx = drop_bit 21 virt AND 0x1FF;
            l3_idx = drop_bit 12 virt AND 0x1FF
        in try_then (a64_next_table (root + 8 * l0_idx) s) (\<lambda>l1 s.
           try_then (a64_next_table (l1 + 8 * l1_idx) s) (\<lambda>l2 s.
           try_then (a64_next_table (l2 + 8 * l2_idx) s) (\<lambda>l3 s.
             if a64_is_present (read_u64 s (l3 + 8 * l3_idx)) then (Err AlreadyMapped, s)
             else (Ok (), write_u64 (l3 + 8 * l3_idx) (a64_set_frame phys flags False) s)))))"

definition a64_unmap_page :: "usize \<Rightarrow> usize \<Rightarrow> machine \<Rightarrow> (MemoryError, unit) outcome \<times> machine" where
  "a64_unmap_page root virt s =
     (if virt AND 0xFFF \<noteq> 0 then (Err InvalidAddress, s)
      else
        let l0_entry = root + 8 * (drop_bit 39 virt AND 0x1FF)
        in if \<not> a64_is_present (read_u64 s l0_entry) then (Err InvalidAddress, s)
        else let l1 = a64_physical_address (read_u64 s l0_entry);
                 l1_entry = l1 + 8 * (drop_bit 30 virt AND 0x1FF)
        in if \<not> a64_is_present (read_u64 s l1_entry) then (Err InvalidAddress, s)
        else let l2 = a64_physical_address (read_u64 s l1_entry);
                 l2_entry = l2 + 8 * (drop_bit 21 virt AND 0x1FF)
        in if \<not> a64_is_present (read_u64 s l2_entry) then (Err InvalidAddress, s)
        else let l3 = a64_physical_address (read_u64 s l2_entry);
                 l3_entry = l3 + 8 * (drop_bit 12 virt AND 0x1FF)
        in if \<not> a64_is_present (read_u64 s l3_entry) then (Err InvalidAddress, s)
        else (Ok (), write_u64 l3_entry 0 s))"

definition a64_translate_addr :: "machine \<Rightarrow> usize \<Rightarrow> usize \<Rightarrow> usize option" where
  "a64_translate_addr s root virt =
     (let l0_entry = read_u64 s (root + 8 * (drop_bit 39 virt AND 0x1FF))
      in if \<not> a64_is_present l0_entry then None
      else let l1 = a64_physical_address l0_entry;
               l1_entry = read_u64 s (l1 + 8 * (drop_bit 30 virt AND 0x1FF))
      in if \<not> a64_is_present l1_entry then None
      else if l1_entry AND 3 = 1
      then Some ((a64_physical_address l1_entry AND NOT 0x3FFFFFFF) + (virt AND 0x3FFFFFFF))
      else let l2 = a64_physical_address l1_entry;
               l2_entry = read_u64 s (l2 + 8 * (drop_bit 21 virt AND 0x1FF))
      in if \<not> a64_is_present l2_entry then None
      else if l2_entry AND 3 = 1
      then Some ((a64_physical_address l2_entry AND NOT 0x1FFFFF) + (virt AND 0x1FFFFF))
      else let l3 = a64_physical_address l2_entry;
               l3_entry = read_u64 s (l3 + 8 * (drop_bit 12 virt AND 0x1FF))
      in if \<not> a64_is_present l3_entry then None
      else Some (a64_physical_address l3_entry + (virt AND 0xFFF)))"

section \<open>Architecture-independent services\<close>

definition USER_SPACE_BASE :: usize where
  "USER_SPACE_BASE = push_bit 39 1"

text \<open>\<open>vmm::arch\<close> is the module of the compilation target.\<close>

definition arch_map_page ::
    "usize \<Rightarrow> usize \<Rightarrow> usize \<Rightarrow> MapFlags \<Rightarrow> machine \<Rightarrow> (MemoryError, unit) outcome \<times> machine" where
  "arch_map_page root virt phys flags s =
     (case target s of X86_64 \<Rightarrow> x86_map_page root virt phys flags s
                     | AArch64 \<Rightarrow> a64_map_page root virt phys flags s)"

definition arch_unmap_page :: "usize \<Rightarrow> usize \<Rightarrow> machine \<Rightarrow> (MemoryError, unit) outcome \<times> machine" where
  "arch_unmap_page root virt s =
     (case target s of X86_64 \<Rightarrow> x86_unmap_page root virt s | AArch64 \<Rightarrow> a64_unmap_page root virt s)"

definition arch_translate_addr :: "machine \<Rightarrow> usize \<Rightarrow> usize \<Rightarrow> usize option" where
  "arch_translate_addr s root virt =
     (case target s of X86_64 \<Rightarrow> x86_translate_addr s root virt | AArch64 \<Rightarrow> a64_translate_addr s root virt)"

abbreviation ops :: "machine \<Rightarrow> pte_ops" where
  "ops s \<equiv> arch_ops (target s)"

definition active_root :: "machine \<Rightarrow> usize \<Rightarrow> usize" where
  "active_root s fault_addr =
     (case target s of
        X86_64 \<Rightarrow> cr3 s AND 0x000FFFFFFFFFF000
      | AArch64 \<Rightarrow> (if fault_addr < 0xFFFF000000000000 then cr3 s else ttbr1 s) AND 0x0000FFFFFFFFF000)"

definition handle_page_fault :: "usize \<Rightarrow> bool \<Rightarrow> bool \<Rightarrow> machine \<Rightarrow> (unit, bool) outcome \<times> machine" where
  "handle_page_fault fault_addr is_present is_user s =
     (if is_present then (Ok False, s)
      else
        let aligned_virt = fault_addr AND NOT 0xFFF;
            root = active_root s fault_addr
        in case alloc_frame s of
             (None, s) \<Rightarrow> (Ok False, s)
           | (Some frame, s) \<Rightarrow>
               if frame = 0 then (Panic, s)
               else
                 let s = write_bytes (phys_to_virt s frame) 0 4096 s;
                     flags = \<lparr>writable = True, user_accessible = is_user,
                              execute_disable = False, device = False\<rparr>
                 in case arch_map_page root aligned_virt frame flags s of
                      (r, s) \<Rightarrow> (Ok (r = Ok ()), s))"

text \<open>\<open>free_process_page_table\<close>, one definition per nesting level of its loops.\<close>

definition free_l3_table :: "usize \<Rightarrow> machine \<Rightarrow> machine" where
  "free_l3_table l3_phys s =
     fold (\<lambda>l3 s. let e3 = read_u64 s (phys_to_virt s l3_phys + 8 * word_of_nat l3)
                  in if \<not> pte_present (ops s) e3 then s else release_frame (pte_addr (ops s) e3) s)
       [0..<512] s"

definition free_l2_table :: "usize \<Rightarrow> machine \<Rightarrow> machine" where
  "free_l2_table l2_phys s =
     fold (\<lambda>l2 s. let e2 = read_u64 s (phys_to_virt s l2_phys + 8 * word_of_nat l2)
                  in if \<not> pte_present (ops s) e2 then s
                     else let l3_phys = pte_addr (ops s) e2
                          in release_frame l3_phys (free_l3_table l3_phys s))
       [0..<512] s"

definition free_l1_table :: "usize \<Rightarrow> machine \<Rightarrow> machine" where
  "free_l1_table l1_phys s =
     fold (\<lambda>l1 s. let e1 = read_u64 s (phys_to_virt s l1_phys + 8 * word_of_nat l1)
                  in if \<not> pte_present (ops s) e1 then s
                     else let l2_phys = pte_addr (ops s) e1
                          in release_frame l2_phys (free_l2_table l2_phys s))
       [0..<512] s"

definition free_process_page_table :: "usize \<Rightarrow> machine \<Rightarrow> machine" where
  "free_process_page_table root s =
     release_frame root
       (fold (\<lambda>l0 s. let e0 = read_u64 s (phys_to_virt s root + 8 * word_of_nat l0)
                     in if \<not> pte_present (ops s) e0 then s
                        else let l1_phys = pte_addr (ops s) e0
                             in release_frame l1_phys (free_l1_table l1_phys s))
          [1..<512] s)"

definition present_child :: "machine \<Rightarrow> u64 \<Rightarrow> usize option" where
  "present_child s e =
     (if pte_present (ops s) e then Some (phys_to_virt s (pte_addr (ops s) e)) else None)"

definition page_is_user_accessible :: "machine \<Rightarrow> usize \<Rightarrow> usize \<Rightarrow> bool \<Rightarrow> bool" where
  "page_is_user_accessible s root virt need_write =
     (let root = phys_to_virt s root
      in case present_child s (read_u64 s (root + 8 * (drop_bit 39 virt AND 0x1FF))) of
           None \<Rightarrow> False
         | Some l1 \<Rightarrow> (case present_child s (read_u64 s (l1 + 8 * (drop_bit 30 virt AND 0x1FF))) of
             None \<Rightarrow> False
           | Some l2 \<Rightarrow> (case present_child s (read_u64 s (l2 + 8 * (drop_bit 21 virt AND 0x1FF))) of
               None \<Rightarrow> False
             | Some l3 \<Rightarrow>
                 (let leaf = read_u64 s (l3 + 8 * (drop_bit 12 virt AND 0x1FF))
                  in pte_present (ops s) leaf \<and> pte_user (ops s) leaf
                     \<and> (\<not> need_write \<or> pte_writable (ops s) leaf)))))"

text \<open>The page loop of \<open>validate_user_range\<close>; \<open>None\<close> would be a loop that never ends.\<close>

partial_function (option) validate_pages ::
    "machine \<Rightarrow> usize \<Rightarrow> bool \<Rightarrow> usize \<Rightarrow> usize \<Rightarrow> bool option" where
  "validate_pages s root need_write page last_page =
     (if \<not> page_is_user_accessible s root page need_write then Some False
      else if page = last_page then Some True
      else validate_pages s root need_write (page + 0x1000) last_page)"

definition validate_user_range :: "machine \<Rightarrow> usize \<Rightarrow> usize \<Rightarrow> usize \<Rightarrow> bool \<Rightarrow> bool option" where
  "validate_user_range s root ptr len need_write =
     (if len = 0 then Some True
      else case checked_add ptr len of
             None \<Rightarrow> Some False
           | Some end \<Rightarrow>
               if ptr < USER_SPACE_BASE then Some False
               else validate_pages s root need_write (ptr AND NOT 0xFFF) ((end - 1) AND NOT 0xFFF))"

section \<open>Process address spaces\<close>

definition create_process_page_table :: "machine \<Rightarrow> usize option \<times> machine" where
  "create_process_page_table s =
     (case alloc_frame s of
        (None, s) \<Rightarrow> (None, s)
      | (Some root_frame, s) \<Rightarrow>
          let s = write_bytes (phys_to_virt s root_frame) 0 4096 s
          in case target s of
               X86_64 \<Rightarrow>
                 (let active_root = phys_to_virt s (cr3 s AND NOT 0xFFF);
                      new_root = phys_to_virt s root_frame
                  in (Some root_frame,
                      fold (\<lambda>i s. write_u64 (new_root + 8 * word_of_nat i)
                                     (read_u64 s (active_root + 8 * word_of_nat i)) s) [0..<512] s))
             | AArch64 \<Rightarrow>
                 (Some root_frame,
                  if kernel_root s \<noteq> 0
                  then copy_nonoverlapping (read_bytes s (kernel_root s) 4096) root_frame s
                  else s))"

text \<open>\<open>memory::map_page\<close>, the unconditional user mapping used for the boot-time demo process.\<close>

definition get_or_create_table :: "usize \<Rightarrow> machine \<Rightarrow> (string, usize) outcome \<times> machine" where
  "get_or_create_table ent s =
     (let val = read_u64 s ent
      in if val AND 1 \<noteq> 0 then (Ok (phys_to_virt s (val AND NOT 0xFFF)), s)
         else case alloc_frame s of
                (None, s) \<Rightarrow> (Err ''Out of memory: failed to allocate page table frame'', s)
              | (Some new_frame, s) \<Rightarrow>
                  (let s = write_bytes (phys_to_virt s new_frame) 0 PAGE_SIZE s;
                       s = write_u64 ent (new_frame OR 7) s
                   in (Ok (phys_to_virt s new_frame), s)))"

definition memory_map_page :: "usize \<Rightarrow> usize \<Rightarrow> usize \<Rightarrow> machine \<Rightarrow> (string, unit) outcome \<times> machine" where
  "memory_map_page page_table_root vaddr paddr s =
     (case target s of
        X86_64 \<Rightarrow>
          (let pml4 = phys_to_virt s page_table_root;
               pml4_idx = drop_bit 39 vaddr AND 0x1FF;
               pdpt_idx = drop_bit 30 vaddr AND 0x1FF;
               pd_idx = drop_bit 21 vaddr AND 0x1FF;
               pt_idx = drop_bit 12 vaddr AND 0x1FF
           in try_then (get_or_create_table (pml4 + 8 * pml4_idx) s) (\<lambda>pdpt s.
              try_then (get_or_create_table (pdpt + 8 * pdpt_idx) s) (\<lambda>pd s.
              try_then (get_or_create_table (pd + 8 * pd_idx) s) (\<lambda>pt s.
                (Ok (), write_u64 (pt + 8 * pt_idx) (paddr OR 7) s)))))
      | AArch64 \<Rightarrow> (Err ''map_page not implemented for AArch64'', s))"

definition unmap_low_half_identity_map :: "machine \<Rightarrow> machine" where
  "unmap_low_half_identity_map s = write_u64 (phys_to_virt s (cr3 s AND NOT 0xFFF)) 0 s"

section \<open>The code as walks over the entry formats\<close>

lemma pointer_access [simp]:
  assumes "phys_to_virt s = phys_to_virt s0"
  shows "read_u64 s (phys_to_virt s0 t + 8 * i) = entry s t i"
    "write_u64 (phys_to_virt s0 t + 8 * i) w s = set_entry t i w s"
    "write_bytes (phys_to_virt s0 f) 0 4096 s = zero_page f s"
  unfolding assms [symmetric]
  by (simp_all add: read_u64_def write_u64_def write_bytes_def entry_def set_entry_def zero_page_def)

lemma alloc_frame_static:
  "alloc_frame s = (r, s') \<Longrightarrow> phys_to_virt s' = phys_to_virt s \<and> target s' = target s \<and> ram s' = ram s"
  by (auto simp: alloc_frame_def split: prod.splits)

lemma walk_next_static:
  "walk_next P u t i s = (r, s') \<Longrightarrow> phys_to_virt s' = phys_to_virt s \<and> target s' = target s"
  by (auto simp: walk_next_def Let_def split: if_splits prod.splits option.splits dest!: alloc_frame_static)

lemma x86_next_table_walk:
  assumes "phys_to_virt s = phys_to_virt s0"
  shows "x86_next_table (phys_to_virt s0 t + 8 * i) u s =
     try_then (walk_next x86_ops u t i s) (\<lambda>c s'. (Ok (phys_to_virt s0 c), s'))"
proof (cases "x86_is_present (entry s t i)")
  case True
  then show ?thesis
    by (simp add: x86_next_table_def walk_next_def x86_ops_def Let_def assms)
next
  case False
  obtain r s1 where a: "alloc_frame s = (r, s1)" by (cases "alloc_frame s")
  have ptv: "phys_to_virt s1 = phys_to_virt s0" using alloc_frame_static [OF a] assms by simp
  show ?thesis using False a
    by (cases r) (simp_all add: x86_next_table_def walk_next_def x86_ops_def Let_def ptv assms)
qed

lemma x86_map_page_walk: "x86_map_page root virt phys flags s = walk_map x86_ops root virt phys flags s"
proof -
  let ?u = "user_accessible flags"
  obtain r1 s1 where w1: "walk_next x86_ops ?u root (drop_bit 39 virt AND 0x1FF) s = (r1, s1)" by fastforce
  have p1: "phys_to_virt s1 = phys_to_virt s" using walk_next_static [OF w1] by simp
  obtain r2 s2 where w2: "\<And>c. r1 = Ok c \<Longrightarrow> walk_next x86_ops ?u c (drop_bit 30 virt AND 0x1FF) s1 = (r2, s2)"
    by (cases r1) fastforce+
  have p2: "phys_to_virt s2 = phys_to_virt s" if "r1 = Ok c" for c
    using walk_next_static [OF w2 [OF that]] p1 by simp
  obtain r3 s3 where w3: "\<And>c. r2 = Ok c \<Longrightarrow> walk_next x86_ops ?u c (drop_bit 21 virt AND 0x1FF) s2 = (r3, s3)"
    by (cases r2) fastforce+
  have p3: "phys_to_virt s3 = phys_to_virt s" if "r1 = Ok c" "r2 = Ok d" for c d
    using walk_next_static [OF w3 [OF that(2)]] p2 [OF that(1)] by simp
  show ?thesis
    unfolding x86_map_page_def walk_map_def upper_path_def leaf_idx_def
    using w1 w2 w3 p1 p2 p3
    by (cases r1; cases r2; cases r3) (simp_all add: x86_next_table_walk Let_def, simp_all add: x86_ops_def)
qed

lemma x86_unmap_page_walk: "x86_unmap_page root virt s = walk_unmap x86_ops root virt s"
  unfolding x86_unmap_page_def walk_unmap_def upper_path_def leaf_idx_def
  by (simp add: Let_def child_def x86_ops_def)

lemma x86_translate_addr_walk: "x86_translate_addr s root virt = walk_translate x86_ops s root virt"
  unfolding x86_translate_addr_def walk_translate_def by (simp add: Let_def x86_ops_def)

lemma a64_pointer_access [simp]:
  assumes "target s = AArch64"
  shows "read_u64 s (t + 8 * i) = entry s t i"
    "write_u64 (t + 8 * i) w s = set_entry t i w s"
    "write_bytes f 0 4096 s = zero_page f s"
  using assms
  by (simp_all add: read_u64_def write_u64_def write_bytes_def entry_def set_entry_def zero_page_def virt_to_ram_def)

lemma a64_next_table_walk:
  assumes "target s = AArch64"
  shows "a64_next_table (t + 8 * i) s = walk_next a64_ops u t i s"
proof (cases "a64_is_present (entry s t i)")
  case True
  then show ?thesis
    by (simp add: a64_next_table_def walk_next_def a64_ops_def assms)
next
  case False
  obtain r s1 where a: "alloc_frame s = (r, s1)" by (cases "alloc_frame s")
  have "target s1 = AArch64" using alloc_frame_static [OF a] assms by simp
  then show ?thesis using False a
    by (cases r) (simp_all add: a64_next_table_def walk_next_def a64_ops_def Let_def assms)
qed

lemma a64_map_page_walk:
  assumes "target s = AArch64"
  shows "a64_map_page root virt phys flags s = walk_map a64_ops root virt phys flags s"
proof -
  let ?u = "user_accessible flags"
  obtain r1 s1 where w1: "walk_next a64_ops ?u root (drop_bit 39 virt AND 0x1FF) s = (r1, s1)" by fastforce
  have p1: "target s1 = AArch64" using walk_next_static [OF w1] assms by simp
  obtain r2 s2 where w2: "\<And>c. r1 = Ok c \<Longrightarrow> walk_next a64_ops ?u c (drop_bit 30 virt AND 0x1FF) s1 = (r2, s2)"
    by (cases r1) fastforce+
  have p2: "target s2 = AArch64" if "r1 = Ok c" for c
    using walk_next_static [OF w2 [OF that]] p1 by simp
  obtain r3 s3 where w3: "\<And>c. r2 = Ok c \<Longrightarrow> walk_next a64_ops ?u c (drop_bit 21 virt AND 0x1FF) s2 = (r3, s3)"
    by (cases r2) fastforce+
  have p3: "target s3 = AArch64" if "r1 = Ok c" "r2 = Ok d" for c d
    using walk_next_static [OF w3 [OF that(2)]] p2 [OF that(1)] by simp
  show ?thesis
    unfolding a64_map_page_def walk_map_def upper_path_def leaf_idx_def
    using w1 w2 w3 p1 p2 p3 assms
    by (cases r1; cases r2; cases r3)
      (simp_all add: a64_next_table_walk [where u = ?u] Let_def, simp_all add: a64_ops_def)
qed

lemma a64_unmap_page_walk:
  "target s = AArch64 \<Longrightarrow> a64_unmap_page root virt s = walk_unmap a64_ops root virt s"
  unfolding a64_unmap_page_def walk_unmap_def upper_path_def leaf_idx_def
  by (simp add: Let_def child_def a64_ops_def)

lemma a64_translate_addr_walk:
  "target s = AArch64 \<Longrightarrow> a64_translate_addr s root virt = walk_translate a64_ops s root virt"
  unfolding a64_translate_addr_def walk_translate_def by (simp add: Let_def a64_ops_def)

lemma arch_walk:
  "arch_map_page root virt phys flags s = walk_map (ops s) root virt phys flags s"
  "arch_unmap_page root virt s = walk_unmap (ops s) root virt s"
  "arch_translate_addr s root virt = walk_translate (ops s) s root virt"
  by (simp_all add: arch_map_page_def arch_unmap_page_def arch_translate_addr_def arch_ops_def
      x86_map_page_walk x86_unmap_page_walk x86_translate_addr_walk
      a64_map_page_walk a64_unmap_page_walk a64_translate_addr_walk split: target_arch.split)

lemma page_is_user_accessible_leaf:
  "page_is_user_accessible s root virt need_write \<longleftrightarrow>
     pte_present (ops s) (leaf_entry (ops s) s root virt) \<and> pte_user (ops s) (leaf_entry (ops s) s root virt)
     \<and> (need_write \<longrightarrow> pte_writable (ops s) (leaf_entry (ops s) s root virt))"
  by (simp add: page_is_user_accessible_def present_child_def leaf_entry_def leaf_at_def upper_path_def
      leaf_idx_def child_def Let_def arch.absent_zero)

section \<open>Mapping, unmapping and translating\<close>

definition top_index :: "usize \<Rightarrow> usize" where
  "top_index virt = drop_bit 39 virt AND 0x1FF"

lemma hd_upper_path [simp]: "hd (upper_path v) = top_index v"
  by (simp add: upper_path_def top_index_def)

lemma upper_path_length [simp]: "length (upper_path v) = 3"
  by (simp add: upper_path_def)

lemma upper_path_nonempty [simp]: "upper_path v \<noteq> []"
  by (simp add: upper_path_def)

lemma path_valid: "top_index v \<in> U \<Longrightarrow> valid_path U (upper_path v)" "leaf_idx v < 512"
  using arch.upper_path_valid [of v U] arch.upper_path_valid [of v UNIV] by simp_all

lemma translate_leaf:
  "owned_tree (ops s) U d s root \<Longrightarrow> top_index v \<in> U \<Longrightarrow> arch_translate_addr s root v =
     (if pte_present (ops s) (leaf_entry (ops s) s root v)
      then Some (pte_addr (ops s) (leaf_entry (ops s) s root v) + (v AND 0xFFF)) else None)"
  by (simp add: arch_walk arch.walk_translate_leaf)

lemma map_page_leaf:
  assumes "owned_tree (ops s) U d s root" "3 \<le> d" "d \<le> 4" "top_index virt \<in> U"
    and "d = 3 \<or> frame_of (pte_addr (ops s) phys) \<notin> tree_frames (ops s) U 4 s root \<union> free_frames (pmm s)"
    and "arch_map_page root virt phys flags s = (r, s')"
  shows "owned_tree (ops s) U d s' root" "target s' = target s"
    "\<And>w. top_index w \<in> U \<Longrightarrow> leaf_entry (ops s) s' root w =
       (if r = Ok () \<and> same_page w virt then pte_leaf (ops s) phys flags else leaf_entry (ops s) s root w)"
    "r = (if virt AND 0xFFF \<noteq> 0 \<or> phys AND 0xFFF \<noteq> 0 then Err InvalidAddress
       else if pte_present (ops s) (leaf_entry (ops s) s root virt) then Err AlreadyMapped else Ok ())
      \<or> r = Err FrameAllocationFailed \<and> card (free_frames (pmm s)) < 3
         \<and> \<not> pte_present (ops s) (leaf_entry (ops s) s root virt)"
    "\<And>a. ram s' a \<noteq> ram s a \<Longrightarrow> frame_of a \<in> scope (ops s) U s root"
    "free_frames (pmm s') \<subseteq> free_frames (pmm s)" "\<exists>m p. s' = s\<lparr>ram := m, pmm := p\<rparr>"
    "card (free_frames (pmm s)) \<le> card (free_frames (pmm s')) + 3"
proof -
  note M = arch.walk_map_spec [OF assms(1-3) _ assms(5) assms(6) [unfolded arch_walk], simplified, OF assms(4)]
  show "owned_tree (ops s) U d s' root" by (rule M(1))
  show ex: "\<exists>m p. s' = s\<lparr>ram := m, pmm := p\<rparr>" by (rule M(6))
  then show "target s' = target s" by auto
  show "leaf_entry (ops s) s' root w =
       (if r = Ok () \<and> same_page w virt then pte_leaf (ops s) phys flags else leaf_entry (ops s) s root w)"
    if "top_index w \<in> U" for w
    using M(2) [OF path_valid(1) [OF that] upper_path_length path_valid(2)]
    by (simp add: leaf_entry_def same_page_path)
  show "r = (if virt AND 0xFFF \<noteq> 0 \<or> phys AND 0xFFF \<noteq> 0 then Err InvalidAddress
       else if pte_present (ops s) (leaf_entry (ops s) s root virt) then Err AlreadyMapped else Ok ())
      \<or> r = Err FrameAllocationFailed \<and> card (free_frames (pmm s)) < 3
         \<and> \<not> pte_present (ops s) (leaf_entry (ops s) s root virt)"
    using M(3) by simp
  show "\<And>a. ram s' a \<noteq> ram s a \<Longrightarrow> frame_of a \<in> scope (ops s) U s root" by (rule M(4))
  show "free_frames (pmm s') \<subseteq> free_frames (pmm s)" by (rule M(5))
  show "card (free_frames (pmm s)) \<le> card (free_frames (pmm s')) + 3" by (rule M(7))
qed

lemma unmap_page_leaf:
  assumes "owned_tree (ops s) U d s root" "3 \<le> d" "d \<le> 4" "top_index virt \<in> U"
    and "arch_unmap_page root virt s = (r, s')"
  shows "owned_tree (ops s) U d s' root" "target s' = target s" "pmm s' = pmm s"
    "\<And>w. top_index w \<in> U \<Longrightarrow> leaf_entry (ops s) s' root w =
       (if r = Ok () \<and> same_page w virt then 0 else leaf_entry (ops s) s root w)"
    "r = (if virt AND 0xFFF \<noteq> 0 \<or> \<not> pte_present (ops s) (leaf_entry (ops s) s root virt)
          then Err InvalidAddress else Ok ())"
proof -
  note M = arch.walk_unmap_spec [OF assms(1-3) _ assms(5) [unfolded arch_walk], simplified, OF assms(4)]
  show "owned_tree (ops s) U d s' root" by (rule M(1))
  show "target s' = target s"
    using assms(5) by (auto simp: arch_walk walk_unmap_def split: if_splits option.splits)
  show "pmm s' = pmm s" by (rule M(4))
  show "leaf_entry (ops s) s' root w = (if r = Ok () \<and> same_page w virt then 0 else leaf_entry (ops s) s root w)"
    if "top_index w \<in> U" for w
    using M(2) [OF path_valid(1) [OF that] upper_path_length path_valid(2)]
    by (simp add: leaf_entry_def same_page_path)
  show "r = (if virt AND 0xFFF \<noteq> 0 \<or> \<not> pte_present (ops s) (leaf_entry (ops s) s root virt)
          then Err InvalidAddress else Ok ())" using M(3) by simp
qed

section \<open>User-pointer validation\<close>

lemma page_base_shift: "a AND NOT 0xFFF = push_bit 12 (drop_bit 12 (a :: usize))"
proof -
  have m: "(0xFFF :: usize) = mask 12" by (simp add: mask_numeral)
  show ?thesis
    unfolding m
    by (rule bit_word_eqI, simp only: bit_and_iff bit_not_iff bit_mask_iff bit_push_bit_iff bit_drop_bit_eq) auto
qed

lemma page_base_unat: "unat (a AND NOT 0xFFF) = 4096 * (unat (a :: usize) div 4096)"
proof -
  have "unat a < 2 ^ 64" using unsigned_less [of a, where ?'a = nat] by simp
  then have "4096 * (unat a div 4096) < 2 ^ 64" by linarith
  then show ?thesis
    unfolding page_base_shift by (simp only: unsigned_push_bit_eq unsigned_drop_bit_eq)
      (simp add: push_bit_eq_mult drop_bit_eq_div take_bit_nat_eq_self mult.commute)
qed

lemma page_base_same_page: "same_page (a AND NOT 0xFFF) a"
  unfolding same_page_def page_base_shift by (subst field_eq_iff) (simp_all add: bit_simps)

lemma page_accessible_cong:
  "same_page v w \<Longrightarrow> page_is_user_accessible s root v nw = page_is_user_accessible s root w nw"
  by (simp add: page_is_user_accessible_leaf leaf_entry_def same_page_path)

lemma page_accessible_base:
  "page_is_user_accessible s root a nw = page_is_user_accessible s root (word_of_nat (4096 * (unat a div 4096))) nw"
proof -
  have "word_of_nat (4096 * (unat a div 4096)) = a AND NOT 0xFFF"
    unfolding page_base_unat [symmetric] by simp
  then show ?thesis using page_accessible_cong [OF page_base_same_page] by simp
qed

lemma validate_pages_spec:
  assumes "4096 * (j + n) < 2 ^ 64"
  shows "validate_pages s root nw (word_of_nat (4096 * j)) (word_of_nat (4096 * (j + n))) =
    Some (\<forall>k \<in> {j..j + n}. page_is_user_accessible s root (word_of_nat (4096 * k)) nw)"
  using assms
proof (induction n arbitrary: j)
  case 0
  then show ?case by (subst validate_pages.simps) simp
next
  case (Suc n)
  have u: "unat (word_of_nat x :: usize) = x" if "x < 2 ^ 64" for x using that by (simp add: unat_of_nat)
  define p L :: usize where "p = word_of_nat (4096 * j)" and "L = word_of_nat (4096 * (Suc j + n))"
  have "unat p = 4096 * j" "unat L = 4096 * (Suc j + n)"
    unfolding p_def L_def using Suc.prems by (subst u; simp)+
  then have ne: "p \<noteq> L" by auto
  have step: "p + 0x1000 = word_of_nat (4096 * Suc j)" by (simp add: p_def)
  have IH: "validate_pages s root nw (word_of_nat (4096 * Suc j)) L =
      Some (\<forall>k \<in> {Suc j..Suc j + n}. page_is_user_accessible s root (word_of_nat (4096 * k)) nw)"
    unfolding L_def by (rule Suc.IH) (use Suc.prems in simp)
  have "validate_pages s root nw p L =
      Some (page_is_user_accessible s root p nw \<and>
        (\<forall>k \<in> {Suc j..Suc j + n}. page_is_user_accessible s root (word_of_nat (4096 * k)) nw))"
    by (subst validate_pages.simps, cases "page_is_user_accessible s root p nw")
      (simp_all only: ne step IH if_False if_True simp_thms)
  moreover have "{j..j + Suc n} = insert j {Suc j..Suc j + n}" by auto
  moreover have "j + Suc n = Suc j + n" by simp
  ultimately show ?case by (simp only: p_def [symmetric] L_def ball_simps)
qed

definition range_bytes :: "usize \<Rightarrow> usize \<Rightarrow> usize set" where
  "range_bytes ptr len = {a. unat ptr \<le> unat a \<and> unat a < unat ptr + unat len}"

definition accessible_bytes :: "machine \<Rightarrow> usize \<Rightarrow> bool \<Rightarrow> usize set" where
  "accessible_bytes s root need_write = {a. page_is_user_accessible s root a need_write}"

lemma range_pages:
  assumes "unat ptr + unat len < 2 ^ 64" "0 < unat len"
  shows "range_bytes ptr len \<subseteq> accessible_bytes s root nw \<longleftrightarrow>
    (\<forall>k \<in> {unat ptr div 4096..(unat ptr + unat len - 1) div 4096}.
       page_is_user_accessible s root (word_of_nat (4096 * k)) nw)" (is "?l \<longleftrightarrow> ?r")
proof
  assume l: ?l
  show ?r
  proof
    fix k assume k: "k \<in> {unat ptr div 4096..(unat ptr + unat len - 1) div 4096}"
    define m where "m = max (unat ptr) (4096 * k)"
    have m: "unat ptr \<le> m" "m < unat ptr + unat len" "m div 4096 = k"
      using k assms(2) by (auto simp: m_def max_def)
    then have "unat (word_of_nat m :: usize) = m" using assms(1) by (simp add: unat_of_nat)
    with m l have "page_is_user_accessible s root (word_of_nat m) nw"
      by (auto simp: range_bytes_def accessible_bytes_def subset_iff)
    then show "page_is_user_accessible s root (word_of_nat (4096 * k)) nw"
      using page_accessible_base [of s root "word_of_nat m" nw] m(3) \<open>unat (word_of_nat m) = m\<close> by simp
  qed
next
  assume r: ?r
  show ?l
  proof
    fix a assume "a \<in> range_bytes ptr len"
    then have "unat ptr \<le> unat a" "unat a \<le> unat ptr + unat len - 1" by (auto simp: range_bytes_def)
    then have "unat a div 4096 \<in> {unat ptr div 4096..(unat ptr + unat len - 1) div 4096}"
      by (simp add: div_le_mono)
    with r show "a \<in> accessible_bytes s root nw"
      using page_accessible_base [of s root a nw] by (simp add: accessible_bytes_def)
  qed
qed

section \<open>Teardown of an address space\<close>

text \<open>Releasing a set of frames: only the pool changes, and every tracked non-zero frame joins it.\<close>

definition frees :: "nat set \<Rightarrow> machine \<Rightarrow> machine \<Rightarrow> bool" where
  "frees X s s' \<longleftrightarrow> (\<exists>p. s' = s\<lparr>pmm := p\<rparr> \<and> tracked_frames p = tracked_frames (pmm s) \<and>
     free_frames p = free_frames (pmm s) \<union> (X \<inter> {0<..<tracked_frames (pmm s)}))"

lemma frees_refl: "frees {} s s"
  unfolding frees_def by (intro exI [of _ "pmm s"]) simp

lemma frees_trans: "frees X s s1 \<Longrightarrow> frees Y s1 s2 \<Longrightarrow> frees (X \<union> Y) s s2"
  unfolding frees_def by auto

lemma frees_release: "frees {frame_of a} s (release_frame a s)"
  unfolding frees_def release_frame_def vmm_free_frame_def frame_of_def
  by (intro exI [of _ "free_frame (unat a div 4096) (pmm s)"]) auto

lemma frees_static:
  assumes "frees X s s'"
  shows "ops s' = ops s" "entry s' = entry s" "child P s' = child P s" "phys_to_virt s' = phys_to_virt s"
  using assms by (auto simp: frees_def child_def fun_eq_iff)

lemma frees_fold:
  assumes "\<And>i s'. i \<in> set is \<Longrightarrow> ops s' = ops s \<Longrightarrow> child (ops s) s' = child (ops s) s \<Longrightarrow>
    frees (X i) s' (f i s')"
  shows "frees (\<Union> (X ` set is)) s (fold f is s)"
  using assms
proof (induction "is" arbitrary: s)
  case Nil
  then show ?case using frees_refl by simp
next
  case (Cons i "is")
  have 1: "frees (X i) s (f i s)" using Cons.prems [of i s] by simp
  note st = frees_static [OF 1]
  have "frees (\<Union> (X ` set is)) (f i s) (fold f is (f i s))"
    by (rule Cons.IH) (use Cons.prems st in simp)
  with frees_trans [OF 1] show ?case by simp
qed

text \<open>The frames of the entries of a table, down to \<open>n\<close> levels below it.\<close>

fun below :: "pte_ops \<Rightarrow> machine \<Rightarrow> nat \<Rightarrow> usize \<Rightarrow> nat set" where
  "below P s 0 t = {}"
| "below P s (Suc n) t =
     (\<Union>i \<in> {0..<512}. case child P s t (word_of_nat i) of
        None \<Rightarrow> {} | Some c \<Rightarrow> insert (frame_of c) (below P s n c))"

lemma below_cong: "child P s' = child P s \<Longrightarrow> below P s' n t = below P s n t"
  by (induction n arbitrary: t) (simp_all cong: option.case_cong)

lemma child_entry: "child P s t i = (if pte_present P (entry s t i) then Some (pte_addr P (entry s t i)) else None)"
  by (simp add: child_def Let_def)

lemma free_l3_frees: "frees (below (ops s) s 1 t) s (free_l3_table t s)"
proof -
  have "frees (\<Union> ((\<lambda>i. case child (ops s) s t (word_of_nat i) of None \<Rightarrow> {} | Some c \<Rightarrow> {frame_of c}) ` set [0..<512]))
      s (free_l3_table t s)"
    unfolding free_l3_table_def
  proof (rule frees_fold)
    fix i s' assume "ops s' = ops s" "child (ops s) s' = child (ops s) s"
    then have "child (ops s) s t (word_of_nat i) = child (ops s') s' t (word_of_nat i)" by simp
    then show "frees (case child (ops s) s t (word_of_nat i) of None \<Rightarrow> {} | Some c \<Rightarrow> {frame_of c}) s'
       (let e3 = read_u64 s' (phys_to_virt s' t + 8 * word_of_nat i)
        in if \<not> pte_present (ops s') e3 then s' else release_frame (pte_addr (ops s') e3) s')"
      by (simp add: child_entry frees_refl frees_release Let_def)
  qed
  then show ?thesis by (simp only: One_nat_def below.simps set_upt)
qed

lemma free_level_frees:
  assumes lower: "\<And>c s'. frees (below (ops s') s' n c) s' (g c s')"
  shows "frees (\<Union>i \<in> set idxs. case child (ops s) s t (word_of_nat i) of
      None \<Rightarrow> {} | Some c \<Rightarrow> insert (frame_of c) (below (ops s) s n c)) s
    (fold (\<lambda>l s. let e = read_u64 s (phys_to_virt s t + 8 * word_of_nat l)
       in if \<not> pte_present (ops s) e then s
          else let c = pte_addr (ops s) e in release_frame c (g c s)) idxs s)"
proof (rule frees_fold)
  fix i s' assume st: "ops s' = ops s" "child (ops s) s' = child (ops s) s"
  have "frees (below (ops s') s' n c \<union> {frame_of c}) s' (release_frame c (g c s'))" for c
    by (rule frees_trans [OF lower frees_release])
  then have "frees (insert (frame_of c) (below (ops s) s n c)) s' (release_frame c (g c s'))" for c
    using below_cong [OF st(2)] st(1) by simp
  moreover have "child (ops s) s t (word_of_nat i) = child (ops s') s' t (word_of_nat i)" using st by simp
  ultimately show "frees (case child (ops s) s t (word_of_nat i) of
      None \<Rightarrow> {} | Some c \<Rightarrow> insert (frame_of c) (below (ops s) s n c)) s'
    (let e = read_u64 s' (phys_to_virt s' t + 8 * word_of_nat i)
       in if \<not> pte_present (ops s') e then s'
          else let c = pte_addr (ops s') e in release_frame c (g c s'))"
    by (simp add: child_entry frees_refl Let_def)
qed

lemmas free_table_frees = free_level_frees [where idxs = "[0..<512]", unfolded set_upt below.simps(2) [symmetric]]

lemma free_l2_frees: "frees (below (ops s) s 2 t) s (free_l2_table t s)"
proof -
  have "(2 :: nat) = Suc 1" by simp
  then show ?thesis
    unfolding free_l2_table_def by (simp only:) (rule free_table_frees, rule free_l3_frees)
qed

lemma free_l1_frees: "frees (below (ops s) s 3 t) s (free_l1_table t s)"
proof -
  have "(3 :: nat) = Suc 2" by simp
  then show ?thesis
    unfolding free_l1_table_def by (simp only:) (rule free_table_frees, rule free_l2_frees)
qed

lemma word_idx_range: "(i :: usize) < 512 \<longleftrightarrow> (\<exists>n<512. i = word_of_nat n)"
proof
  assume "i < 512"
  then show "\<exists>n<512. i = word_of_nat n" by (intro exI [of _ "unat i"]) (simp add: word_less_nat_alt)
qed (auto simp: word_less_nat_alt unat_of_nat)

lemma below_paths:
  "below P s n t = {frame_of c | c p. p \<noteq> [] \<and> (\<forall>i \<in> set p. i < 512) \<and> length p \<le> n \<and> table_at P s t p = Some c}"
proof (induction n arbitrary: t)
  case (Suc n)
  have "x \<in> below P s (Suc n) t \<longleftrightarrow>
      (\<exists>i c. i < 512 \<and> child P s t i = Some c \<and> (x = frame_of c \<or> x \<in> below P s n c))" for x
  proof -
    have "x \<in> below P s (Suc n) t \<longleftrightarrow> (\<exists>k<512. \<exists>c. child P s t (word_of_nat k) = Some c
        \<and> (x = frame_of c \<or> x \<in> below P s n c))"
      by (auto split: option.splits)
    then show ?thesis unfolding word_idx_range by blast
  qed
  also have "\<dots> x \<longleftrightarrow> (\<exists>c p. x = frame_of c \<and> p \<noteq> [] \<and> (\<forall>i \<in> set p. i < 512) \<and> length p \<le> Suc n \<and> table_at P s t p = Some c)"
      (is "?l x \<longleftrightarrow> ?r x") for x
  proof
    assume "?l x"
    then obtain i c where ic: "i < 512" "child P s t i = Some c" "x = frame_of c \<or> x \<in> below P s n c" by blast
    from ic(3) show "?r x"
    proof
      assume "x = frame_of c"
      then show ?thesis using ic by (intro exI [of _ c] exI [of _ "[i]"]) simp
    next
      assume "x \<in> below P s n c"
      then obtain d p where "x = frame_of d" "p \<noteq> []" "\<forall>i \<in> set p. i < 512" "length p \<le> n" "table_at P s c p = Some d"
        unfolding Suc.IH by blast
      then show ?thesis using ic by (intro exI [of _ d] exI [of _ "i # p"]) simp
    qed
  next
    assume "?r x"
    then obtain c p where p: "x = frame_of c" "p \<noteq> []" "\<forall>i \<in> set p. i < 512" "length p \<le> Suc n" "table_at P s t p = Some c"
      by blast
    then obtain i q where q: "p = i # q" by (cases p) auto
    with p obtain d where d: "child P s t i = Some d" "table_at P s d q = Some c" by (auto split: option.splits)
    show "?l x"
    proof (cases "q = []")
      case True
      then show ?thesis using p q d by auto
    next
      case False
      then have "x \<in> below P s n d" unfolding Suc.IH using p q d by auto
      then show ?thesis using p q d by auto
    qed
  qed
  finally show ?case by blast
qed auto

definition private_indices :: "usize set" where
  "private_indices = {i. 0 < i \<and> i < 512}"

lemma private_idx_range: "i \<in> private_indices \<longleftrightarrow> (\<exists>n \<in> {1..<512}. i = word_of_nat n)"
proof
  assume "i \<in> private_indices"
  then show "\<exists>n \<in> {1..<512}. i = word_of_nat n"
    by (intro bexI [of _ "unat i"]) (auto simp: private_indices_def word_less_nat_alt)
qed (auto simp: private_indices_def word_less_nat_alt unat_of_nat)

lemma tree_frames_below:
  "tree_frames P private_indices 4 s root = insert (frame_of root)
     (\<Union>i \<in> {1..<512}. case child P s root (word_of_nat i) of
        None \<Rightarrow> {} | Some c \<Rightarrow> insert (frame_of c) (below P s 3 c))" (is "?l = insert _ ?r")
proof -
  have r: "x \<in> ?r \<longleftrightarrow> (\<exists>i c. i \<in> private_indices \<and> child P s root i = Some c \<and> (x = frame_of c \<or> x \<in> below P s 3 c))" for x
    unfolding private_idx_range by (auto split: option.splits)
  have "x \<in> ?l \<longleftrightarrow> x = frame_of root \<or> x \<in> ?r" for x
  proof
    assume "x \<in> ?l"
    then obtain t p where p: "x = frame_of t" "valid_path private_indices p" "length p \<le> 4" "table_at P s root p = Some t"
      unfolding tree_frames_def by blast
    show "x = frame_of root \<or> x \<in> ?r"
    proof (cases p)
      case Nil
      then show ?thesis using p by simp
    next
      case (Cons i q)
      with p obtain c where c: "child P s root i = Some c" "table_at P s c q = Some t" by (auto split: option.splits)
      have "i \<in> private_indices" "\<forall>j \<in> set q. j < 512" using p(2) Cons by (auto simp: valid_path_def)
      moreover have "x = frame_of c \<or> x \<in> below P s 3 c"
        using c(2) p(1,3) Cons calculation(2) unfolding below_paths by (cases "q = []") auto
      ultimately show ?thesis using c(1) r by blast
    qed
  next
    assume "x = frame_of root \<or> x \<in> ?r"
    then show "x \<in> ?l"
    proof
      assume "x = frame_of root"
      then show ?thesis using tree_frames_I [of private_indices "[]" 4 P s root root] by simp
    next
      assume "x \<in> ?r"
      then obtain i c where i: "i \<in> private_indices" "child P s root i = Some c" "x = frame_of c \<or> x \<in> below P s 3 c"
        using r by blast
      obtain t q where q: "x = frame_of t" "\<forall>j \<in> set q. j < 512" "length q \<le> 3" "table_at P s c q = Some t"
      proof (cases "x = frame_of c")
        case True
        then show ?thesis using that [of c "[]"] by simp
      next
        case False
        then show ?thesis using i(3) that unfolding below_paths by blast
      qed
      then show ?thesis
        using i tree_frames_I [of private_indices "i # q" 4 P s root t]
        by (simp add: valid_path_def private_indices_def)
    qed
  qed
  then show ?thesis by blast
qed

lemma free_process_page_table_frees:
  "frees (tree_frames (ops s) private_indices 4 s root) s (free_process_page_table root s)"
proof -
  note upper = free_level_frees [where idxs = "[1..<512]" and n = 3 and g = free_l1_table and s = s and t = root,
      OF free_l1_frees, unfolded set_upt]
  show ?thesis
    using frees_trans [OF upper frees_release [of root]]
    unfolding free_process_page_table_def tree_frames_below by simp
qed

section \<open>Demand paging and process creation\<close>

lemma unat_less_bound: "unat (x :: usize) < 512 \<longleftrightarrow> x < 512"
  by (simp add: word_less_nat_alt)

lemma translate_None_leaf:
  "owned_tree (ops s) U d s root \<Longrightarrow> top_index v \<in> U \<Longrightarrow> arch_translate_addr s root v = None \<Longrightarrow>
     \<not> pte_present (ops s) (leaf_entry (ops s) s root v)"
  by (simp add: translate_leaf split: if_splits)

text \<open>The common step of demand paging, the ELF loader and the user-stack allocator: allocate a
  frame, zero it, map it.\<close>

lemma map_fresh_page:
  assumes tree: "owned_tree (ops s) U d s root" "3 \<le> d" "d \<le> 4"
    and v: "top_index v \<in> U" "v AND 0xFFF = 0" "\<not> pte_present (ops s) (leaf_entry (ops s) s root v)"
    and alloc: "alloc_frame s = (Some f, s1)"
    and map: "arch_map_page root v f flags (zero_page f s1) = (r, s2)"
  shows "owned_tree (ops s) U d s2 root" "target s2 = target s" "pte_addr (ops s) f = f"
    "r = Ok () \<or> r = Err FrameAllocationFailed \<and> card (free_frames (pmm s)) < 4"
    "\<And>w. top_index w \<in> U \<Longrightarrow> leaf_entry (ops s) s2 root w =
       (if r = Ok () \<and> same_page w v then pte_leaf (ops s) f flags else leaf_entry (ops s) s root w)"
    "\<And>a. frame_of a = frame_of f \<Longrightarrow> ram s2 a = 0"
    "\<And>a. frame_of a \<notin> free_frames (pmm s) \<Longrightarrow> frame_of a \<notin> tree_frames (ops s) U 3 s root \<Longrightarrow> ram s2 a = ram s a"
    "free_frames (pmm s2) \<subseteq> free_frames (pmm s) - {frame_of f}"
    "\<exists>m p. s2 = s\<lparr>ram := m, pmm := p\<rparr>"
    "card (free_frames (pmm s)) \<le> card (free_frames (pmm s2)) + 4"
proof -
  define s' where "s' = zero_page f s1"
  note A = alloc_frame_Some [OF alloc conjunct2 [OF owned_tree_root [OF tree(1)]]]
  note F = arch.fresh_frame_keeps_tree [OF tree(1,2) alloc s'_def]
  have t: "target s' = target s" by (simp add: s'_def A(4))
  have fa: "pte_addr (ops s) f = f" by (rule arch.addr_id [OF A(1,2)])
  then show "pte_addr (ops s) f = f" .
  have fresh: "d = 3 \<or> frame_of (pte_addr (ops s') f) \<notin> tree_frames (ops s') U 4 s' root \<union> free_frames (pmm s')"
  proof -
    have "d = 3 \<or> d = 4" using tree(2,3) by linarith
    then show ?thesis using F(3) fa t by auto
  qed
  note M = map_page_leaf [of s' U d root v f flags r s2, unfolded t, OF F(1) tree(2,3) v(1) fresh [unfolded t]
      map [folded s'_def]]
  show "owned_tree (ops s) U d s2 root" by (rule M(1))
  show "target s2 = target s" using M(2) t by simp
  have leaf: "leaf_entry (ops s) s' root w = leaf_entry (ops s) s root w" if "top_index w \<in> U" for w
    using F(2) [of "upper_path w" "leaf_idx w"] path_valid(1) [of w U] path_valid(2) [of w] that by (simp add: leaf_entry_def)
  have free: "free_frames (pmm s') = free_frames (pmm s) - {frame_of f}" by (simp add: s'_def A(4))
  have "card (free_frames (pmm s)) = Suc (card (free_frames (pmm s')))"
    unfolding free using card.remove [OF finite_free_frames A(3)] by simp
  then show "r = Ok () \<or> r = Err FrameAllocationFailed \<and> card (free_frames (pmm s)) < 4"
    "card (free_frames (pmm s)) \<le> card (free_frames (pmm s2)) + 4"
    using M(4,8) leaf [OF v(1)] v(2,3) A(1) by (auto simp: page_aligned_def)
  show "leaf_entry (ops s) s2 root w =
       (if r = Ok () \<and> same_page w v then pte_leaf (ops s) f flags else leaf_entry (ops s) s root w)"
    if "top_index w \<in> U" for w
    using M(3) [OF that] leaf [OF that] by simp
  have tf: "tree_frames (ops s) U 3 s' root \<subseteq> tree_frames (ops s) U d s root"
    using tree_frames_mono [OF tree(2), of "ops s" U s' root] F(4) by simp
  show "ram s2 a = 0" if "frame_of a = frame_of f" for a
    using M(5) [of a] ram_zero_page_same [OF A(1) that, of s1] F(3) tf F(4) that
    by (auto simp: scope_def s'_def [symmetric])
  show "ram s2 a = ram s a" if "frame_of a \<notin> free_frames (pmm s)" "frame_of a \<notin> tree_frames (ops s) U 3 s root" for a
  proof -
    have "frame_of a \<notin> tree_frames (ops s) U 3 s' root"
      using arch.fresh_frame_keeps_tree(4) [OF _ _ alloc s'_def, where d = 3] that(2) owned_tree_shallow [OF tree(1,2)]
      by simp
    then have "ram s2 a = ram s' a" using M(5) [of a] that(1) free by (auto simp: scope_def)
    also have "frame_of a \<noteq> frame_of f" using that(1) A(3) by auto
    then have "ram s' a = ram s a" using ram_zero_page [OF A(1), of a s1] by (simp add: s'_def A(4))
    finally show ?thesis .
  qed
  show "free_frames (pmm s2) \<subseteq> free_frames (pmm s) - {frame_of f}" using M(6) free by simp
  obtain m p where "s2 = s'\<lparr>ram := m, pmm := p\<rparr>" using M(7) by blast
  then show "\<exists>m p. s2 = s\<lparr>ram := m, pmm := p\<rparr>"
    by (intro exI [of _ m] exI [of _ p]) (simp add: s'_def zero_page_def A(4))
qed

lemma copy_root_entries:
  assumes al: "page_aligned f" "page_aligned act" "f \<noteq> act" and n: "n \<le> 512"
    and s': "s' = fold (\<lambda>i s. write_u64 (phys_to_virt s0 f + 8 * word_of_nat i)
        (read_u64 s (phys_to_virt s0 act + 8 * word_of_nat i)) s) [0..<n] s0"
  shows "phys_to_virt s' = phys_to_virt s0 \<and> target s' = target s0 \<and> pmm s' = pmm s0 \<and>
    (\<forall>t j. page_aligned t \<longrightarrow> j < 512 \<longrightarrow>
      entry s' t j = (if t = f \<and> unat j < n then entry s0 act j else entry s0 t j))"
  using n s'
proof (induction n arbitrary: s')
  case (Suc n)
  define s1 where "s1 = fold (\<lambda>i s. write_u64 (phys_to_virt s0 f + 8 * word_of_nat i)
        (read_u64 s (phys_to_virt s0 act + 8 * word_of_nat i)) s) [0..<n] s0"
  have IH: "phys_to_virt s1 = phys_to_virt s0" "target s1 = target s0" "pmm s1 = pmm s0"
      "\<And>t j. page_aligned t \<Longrightarrow> j < 512 \<Longrightarrow>
        entry s1 t j = (if t = f \<and> unat j < n then entry s0 act j else entry s0 t j)"
    using Suc.IH [OF _ s1_def] Suc.prems(1) by auto
  let ?n = "word_of_nat n :: usize"
  have un: "unat ?n = n" "?n < 512" using Suc.prems(1) by (simp_all add: unat_of_nat word_less_nat_alt)
  have s': "s' = set_entry f ?n (entry s1 act ?n) s1"
    using Suc.prems(2) IH(1) by (simp add: s1_def [symmetric])
  have "entry s1 act ?n = entry s0 act ?n" using IH(4) [OF al(2) un(2)] al(3) by auto
  then have E: "entry s' t j = (if f = t \<and> ?n = j then entry s0 act ?n else entry s1 t j)"
    if "page_aligned t" "j < 512" for t j
    using entry_set_entry [OF al(1) that(1) un(2) that(2)] by (simp add: s')
  have "unat j = n \<longleftrightarrow> j = ?n" for j :: usize using un(1) by (auto simp: word_unat_eq_iff)
  then show ?case using E IH by (auto simp: s' less_Suc_eq)
qed simp

lemma create_x86_root:
  assumes "target s = X86_64" "pool_ok s" "frame_of (cr3 s AND NOT 0xFFF) \<notin> free_frames (pmm s)"
    and run: "create_process_page_table s = (Some f, s')"
  shows "page_aligned f" "frame_of f \<in> free_frames (pmm s)" "target s' = X86_64"
    "pmm s' = reserve_frame (frame_of f) (pmm s)"
    "\<And>j. j < 512 \<Longrightarrow> entry s' f j = entry s (cr3 s AND NOT 0xFFF) j"
    "\<And>t j. page_aligned t \<Longrightarrow> t \<noteq> f \<Longrightarrow> j < 512 \<Longrightarrow> entry s' t j = entry s t j"
proof -
  let ?act = "cr3 s AND NOT 0xFFF"
  obtain r s1 where alloc': "alloc_frame s = (r, s1)" by fastforce
  have alloc: "alloc_frame s = (Some f, s1)" and tgt: "target s1 = X86_64"
    using run assms(1) alloc' alloc_frame_static [OF alloc']
    by (auto simp: create_process_page_table_def Let_def split: option.splits)
  note A = alloc_frame_Some [OF alloc assms(2)]
  have s': "s' = fold (\<lambda>i x. write_u64 (phys_to_virt (zero_page f s1) f + 8 * word_of_nat i)
        (read_u64 x (phys_to_virt (zero_page f s1) ?act + 8 * word_of_nat i)) x) [0..<512] (zero_page f s1)"
    using run alloc tgt by (simp add: create_process_page_table_def Let_def) (simp add: A(4))
  have act: "page_aligned ?act" by (simp add: page_aligned_def and.assoc)
  have ne: "f \<noteq> ?act" using A(3) assms(3) by auto
  note C = copy_root_entries [OF A(1) act ne order_refl s']
  show "page_aligned f" "frame_of f \<in> free_frames (pmm s)" using A by simp_all
  show "target s' = X86_64" "pmm s' = reserve_frame (frame_of f) (pmm s)"
    using C assms(1) by (simp_all add: A(4))
  show "entry s' f j = entry s ?act j" if "j < 512" for j
    using C A(1) that entry_zero_page [OF A(1) act that] ne by (auto simp: unat_less_bound A(4))
  show "entry s' t j = entry s t j" if "page_aligned t" "t \<noteq> f" "j < 512" for t j
    using C that entry_zero_page [OF A(1) that(1,3)] by (simp add: A(4))
qed

text \<open>A concrete machine for the witnesses: zeroed RAM, frames 1 to 15 free, a root in frame 20.\<close>

definition demo_machine :: machine where
  "demo_machine = \<lparr>target = X86_64, hhdm = 0xFFFF800000000000, ram = (\<lambda>_. 0),
     pmm = \<lparr>bitmap = [0xFFFFFFFFFFFF0001]\<rparr>, cr3 = 0x14000, ttbr1 = 0, kernel_root = 0\<rparr>"

lemma demo_entry [simp]: "entry demo_machine t i = 0"
  by (simp add: entry_def demo_machine_def read64_def u64_le_def upt_rec)

lemma demo_free: "i \<in> free_frames (pmm demo_machine) \<longleftrightarrow> 0 < i \<and> i < 16"
proof -
  have w: "0xFFFFFFFFFFFF0001 = NOT (mask 16) OR (1 :: u64)" by (simp add: mask_numeral)
  have "bit (0xFFFFFFFFFFFF0001 :: u64) i \<longleftrightarrow> i < 64 \<and> \<not> (0 < i \<and> i < 16)"
    unfolding w by (auto simp: bit_simps)
  moreover have "i \<in> free_frames (pmm demo_machine) \<longleftrightarrow> i < 64 \<and> \<not> bit (0xFFFFFFFFFFFF0001 :: u64) i"
    by (cases "i < 64") (simp_all only: free_frames_def frame_free_def tracked_frames_def demo_machine_def
        machine.simps bitmap_allocator.simps mem_Collect_eq, simp_all)
  ultimately show ?thesis by (simp only:) auto
qed

lemma demo_ram [simp]: "ram demo_machine a = 0"
  by (simp add: demo_machine_def)

lemma demo_free_frames: "free_frames (pmm demo_machine) = {1..<16}"
  by (rule set_eqI) (simp add: demo_free Suc_le_eq)

lemma demo_owned: "owned_tree (ops demo_machine) U d demo_machine 0x14000"
  by (rule owned_tree_empty)
    (simp_all add: demo_free arch.absent_zero page_aligned_def frame_of_def pool_ok_def tracked_frames_def,
      simp add: demo_machine_def)

lemma demo_translate: "arch_translate_addr demo_machine 0x14000 v = None"
  by (simp add: arch_walk walk_translate_def arch.absent_zero)

section \<open>Properties of the address-space operations\<close>

text \<open>C1: \<open>map_page\<close> refines the update of one page of the address space. On a root that owns the
  tables below the top-level indices \<open>U\<close>, a successful call makes exactly the requested page
  translate to the given frame; every other address of \<open>U\<close> translates as before, also when the
  call fails; ownership is preserved; and with three free frames available the result is
  determined by alignment and by whether the page was mapped already.\<close>

theorem map_page_refines:
  assumes "owned_tree (ops s) U 3 s root" "top_index virt \<in> U"
  shows "case arch_map_page root virt phys flags s of (r, s') \<Rightarrow>
    owned_tree (ops s) U 3 s' root \<and>
    (\<forall>w. top_index w \<in> U \<longrightarrow> arch_translate_addr s' root w =
       (if r = Ok () \<and> same_page w virt then Some (pte_addr (ops s) phys + (w AND 0xFFF))
        else arch_translate_addr s root w)) \<and>
    (3 \<le> card (free_frames (pmm s)) \<longrightarrow>
       r = (if virt AND 0xFFF \<noteq> 0 \<or> phys AND 0xFFF \<noteq> 0 then Err InvalidAddress
            else if arch_translate_addr s root virt \<noteq> None then Err AlreadyMapped else Ok ()))"
proof -
  obtain r s' where run: "arch_map_page root virt phys flags s = (r, s')" by fastforce
  note M = map_page_leaf [OF assms(1) _ _ assms(2) _ run, simplified]
  have "arch_translate_addr s' root w = (if r = Ok () \<and> same_page w virt
      then Some (pte_addr (ops s) phys + (w AND 0xFFF)) else arch_translate_addr s root w)"
    if "top_index w \<in> U" for w
    using translate_leaf [of s' U 3 root w] translate_leaf [OF assms(1) that] M(1-3) that
    by (simp add: arch.format_laws)
  moreover have "r = (if virt AND 0xFFF \<noteq> 0 \<or> phys AND 0xFFF \<noteq> 0 then Err InvalidAddress
            else if arch_translate_addr s root virt \<noteq> None then Err AlreadyMapped else Ok ())"
    if "3 \<le> card (free_frames (pmm s))"
    using M(4) translate_leaf [OF assms] that by auto
  ultimately show ?thesis using run M(1) by simp
qed

theorem map_page_refines_witness:
  "fst (arch_map_page 0x14000 0x8000000000 0x5000 kernel_data demo_machine) = Ok ()"
  using map_page_refines [OF demo_owned [of "{1}" 3], where virt = "0x8000000000" and phys = "0x5000" and flags = kernel_data]
  by (simp add: top_index_def demo_free_frames demo_translate split: prod.splits)

text \<open>C4: \<open>map_page\<close> writes only to frames that are tables of the tree it extends or that were free:
  no frame owned by another process, by the kernel or by a mapped page changes.\<close>

theorem map_page_confined:
  assumes "owned_tree (ops s) U 3 s root" "top_index virt \<in> U"
    and "frame_of a \<notin> free_frames (pmm s)" "frame_of a \<notin> tree_frames (ops s) U 3 s root"
  shows "ram (snd (arch_map_page root virt phys flags s)) a = ram s a"
proof -
  obtain r s' where run: "arch_map_page root virt phys flags s = (r, s')" by fastforce
  show ?thesis
    using map_page_leaf(5) [OF assms(1) _ _ assms(2) _ run, of a] assms(3,4) run by (auto simp: scope_def)
qed

theorem map_page_confined_witness:
  "ram (snd (arch_map_page 0x14000 0x8000000000 0x5000 kernel_data demo_machine)) 0x20004 = 0"
proof -
  have "tree_frames (ops demo_machine) {1} 3 demo_machine 0x14000 \<subseteq> {20}"
    unfolding tree_frames_def by (auto simp: frame_of_def child_def arch.absent_zero elim!: table_at.elims)
  then have "32 \<notin> tree_frames (ops demo_machine) {1} 3 demo_machine 0x14000" by auto
  then show ?thesis
    using map_page_confined [OF demo_owned [of "{1}" 3], where virt = "0x8000000000" and a = "0x20004" and phys = "0x5000" and flags = kernel_data]
    by (simp add: top_index_def demo_free_frames frame_of_def)
qed

text \<open>C6: \<open>unmap_page\<close> undoes \<open>map_page\<close>: after a successful map, unmapping the same page succeeds and
  gives back the translation of every address as it was before the map.\<close>

theorem map_unmap_roundtrip:
  assumes "owned_tree (ops s) U 3 s root" "top_index virt \<in> U"
    and "arch_map_page root virt phys flags s = (Ok (), s1)"
  shows "\<exists>s2. arch_unmap_page root virt s1 = (Ok (), s2) \<and> owned_tree (ops s) U 3 s2 root \<and>
    (\<forall>w. top_index w \<in> U \<longrightarrow> arch_translate_addr s2 root w = arch_translate_addr s root w)"
proof -
  note M = map_page_leaf [OF assms(1) _ _ assms(2) _ assms(3), simplified]
  have t1: "ops s1 = ops s" using M(2) by simp
  obtain r s2 where run: "arch_unmap_page root virt s1 = (r, s2)" by fastforce
  note N = unmap_page_leaf [of s1 U 3 root virt r s2, unfolded t1, OF M(1) _ _ assms(2) run, simplified]
  have same: "same_page virt virt" by (simp add: same_page_def)
  have align: "virt AND 0xFFF = 0" and absent: "\<not> pte_present (ops s) (leaf_entry (ops s) s root virt)"
    using M(4) by (auto split: if_splits)
  have ok: "r = Ok ()" using N(5) M(3) [OF assms(2)] align same by (simp add: arch.format_laws)
  have "arch_translate_addr s2 root w = arch_translate_addr s root w" if w: "top_index w \<in> U" for w
  proof (cases "same_page w virt")
    case True
    then have "leaf_entry (ops s) s root w = leaf_entry (ops s) s root virt"
      using same_page_align align by blast
    with True show ?thesis
      using translate_leaf [of s2 U 3 root w] translate_leaf [OF assms(1) w] N(1,2,4) M(2) w absent ok
      by (simp add: arch.format_laws)
  next
    case False
    with translate_leaf [of s2 U 3 root w] translate_leaf [OF assms(1) w] N(1,2,4) M(2,3) w
    show ?thesis by simp
  qed
  with run ok N(1) show ?thesis by blast
qed

theorem map_unmap_roundtrip_witness:
  "\<exists>s1 s2. arch_map_page 0x14000 0x8000000000 0x5000 kernel_data demo_machine = (Ok (), s1) \<and>
     arch_unmap_page 0x14000 0x8000000000 s1 = (Ok (), s2) \<and>
     arch_translate_addr s2 0x14000 0x8000000123 = None"
proof -
  obtain r s1 where run: "arch_map_page 0x14000 0x8000000000 0x5000 kernel_data demo_machine = (r, s1)" by fastforce
  have "leaf_entry (ops demo_machine) demo_machine 0x14000 0x8000000000 = 0"
    by (simp add: leaf_entry_def leaf_at_def upper_path_def child_def arch.absent_zero)
  then have "r = Ok ()"
    using map_page_leaf(4) [OF demo_owned [of "{1}" 3] _ _ _ _ run]
    by (simp add: top_index_def demo_free_frames arch.absent_zero)
  then have "\<exists>s2. arch_unmap_page 0x14000 0x8000000000 s1 = (Ok (), s2) \<and>
      owned_tree (ops demo_machine) {1} 3 s2 0x14000 \<and> (\<forall>w. top_index w \<in> {1} \<longrightarrow>
        arch_translate_addr s2 0x14000 w = arch_translate_addr demo_machine 0x14000 w)"
    using run by (intro map_unmap_roundtrip [OF demo_owned]) (simp_all add: top_index_def)
  then obtain s2 where "arch_unmap_page 0x14000 0x8000000000 s1 = (Ok (), s2)"
    "arch_translate_addr s2 0x14000 0x8000000123 = None"
    using demo_translate by (auto simp: top_index_def)
  with run \<open>r = Ok ()\<close> show ?thesis by blast
qed

lemma validate_range_spec:
  "validate_user_range s root ptr len need_write =
     Some (len = 0 \<or> (unat ptr + unat len < 2 ^ 64 \<and> USER_SPACE_BASE \<le> ptr \<and>
                      range_bytes ptr len \<subseteq> accessible_bytes s root need_write))"
proof (cases "len = 0 \<or> \<not> unat ptr + unat len < 2 ^ 64 \<or> ptr < USER_SPACE_BASE")
  case True
  then show ?thesis
    by (auto simp: validate_user_range_def checked_add_Some split: option.split)
next
  case False
  then have lt: "unat ptr + unat len < 2 ^ 64" and pos: "0 < unat len" and base: "\<not> ptr < USER_SPACE_BASE"
    by (auto simp: unat_gt_0)
  define j n where "j = unat ptr div 4096" and "n = (unat ptr + unat len - 1) div 4096 - j"
  have jn: "j + n = (unat ptr + unat len - 1) div 4096"
    using pos by (simp add: j_def n_def div_le_mono)
  have sum: "unat (ptr + len) = unat ptr + unat len" using lt by (rule unat_add_lt)
  then have last: "unat (ptr + len - 1) = unat ptr + unat len - 1"
    using pos by (simp add: unat_sub_if')
  have p: "ptr AND NOT 0xFFF = word_of_nat (4096 * j)"
    unfolding j_def page_base_unat [symmetric] by simp
  have l: "(ptr + len - 1) AND NOT 0xFFF = word_of_nat (4096 * (j + n))"
    unfolding jn last [symmetric] page_base_unat [symmetric] by simp
  have "4096 * (j + n) < 2 ^ 64" unfolding jn using lt by linarith
  from validate_pages_spec [OF this, of s root need_write] range_pages [OF lt pos, of s root need_write]
  have "validate_pages s root need_write (ptr AND NOT 0xFFF) ((ptr + len - 1) AND NOT 0xFFF) =
      Some (range_bytes ptr len \<subseteq> accessible_bytes s root need_write)"
    unfolding p l by (simp only: j_def [symmetric] jn [symmetric])
  moreover have "checked_add ptr len = Some (ptr + len)" using lt by (simp add: checked_add_Some)
  moreover have "USER_SPACE_BASE \<le> ptr" using base by (simp only: not_less)
  ultimately show ?thesis using False lt by (simp add: validate_user_range_def)
qed

text \<open>C3: \<open>validate_user_range\<close> always returns, and accepts a non-empty range exactly when it does not
  wrap around, starts at or above \<open>USER_SPACE_BASE\<close>, and every single byte of it lies on a page
  whose leaf descriptor is present, user-accessible and (if asked for) writable.\<close>

theorem validate_user_range_exact:
  "validate_user_range s root ptr len need_write =
     Some (len = 0 \<or> (unat ptr + unat len < 2 ^ 64 \<and> USER_SPACE_BASE \<le> ptr \<and>
                      range_bytes ptr len \<subseteq> accessible_bytes s root need_write))"
  by (rule validate_range_spec)

text \<open>C7: \<open>free_process_page_table\<close> returns exactly the frames of the tree below top-level indices 1 to
  511 to the pool: the root, all intermediate tables and all mapped pages (as far as they are
  tracked and not frame zero). RAM and every other part of the machine are untouched.\<close>

theorem teardown_releases_tree:
  "free_frames (pmm (free_process_page_table root s)) = free_frames (pmm s) \<union>
     (tree_frames (ops s) private_indices 4 s root \<inter> {0<..<tracked_frames (pmm s)})
   \<and> (\<exists>p. free_process_page_table root s = s\<lparr>pmm := p\<rparr>)"
proof -
  obtain p where p: "free_process_page_table root s = s\<lparr>pmm := p\<rparr>"
    "free_frames p = free_frames (pmm s) \<union> (tree_frames (ops s) private_indices 4 s root \<inter> {0<..<tracked_frames (pmm s)})"
    using free_process_page_table_frees [of s root] unfolding frees_def by blast
  show ?thesis unfolding p(1) using p(2) by (intro conjI exI) simp_all
qed

lemma demand_page_mapped:
  assumes "owned_tree (ops s) U 3 s (active_root s a)" "top_index a \<in> U"
    and "arch_translate_addr s (active_root s a) a = None"
    and "4 \<le> card (free_frames (pmm s))" "0 \<notin> free_frames (pmm s)"
  shows "\<exists>s' f. handle_page_fault a False is_user s = (Ok True, s') \<and> frame_of f \<in> free_frames (pmm s) \<and>
    (\<forall>b. frame_of b = frame_of f \<longrightarrow> ram s' b = 0) \<and>
    (pte_user (ops s) (leaf_entry (ops s) s' (active_root s a) a) \<longleftrightarrow> is_user) \<and>
    (\<forall>w. top_index w \<in> U \<longrightarrow> arch_translate_addr s' (active_root s a) w =
       (if same_page w a then Some (f + (w AND 0xFFF)) else arch_translate_addr s (active_root s a) w))"
proof -
  let ?v = "a AND NOT 0xFFF" and ?root = "active_root s a"
  let ?flags = "\<lparr>writable = True, user_accessible = is_user, execute_disable = False, device = False\<rparr>"
  have sp: "same_page w ?v \<longleftrightarrow> same_page w a" for w
    using page_base_same_page [of a] by (auto simp: same_page_def)
  have v: "?v AND 0xFFF = 0" by (simp add: and.assoc)
  have top: "top_index ?v = top_index a"
    using page_base_same_page [of a] by (simp add: same_page_path upper_path_def top_index_def)
  have leaf: "leaf_entry (ops s) s r ?v = leaf_entry (ops s) s r a" for s r
    using page_base_same_page [of a] by (simp add: leaf_entry_def same_page_path)
  have absent: "\<not> pte_present (ops s) (leaf_entry (ops s) s ?root ?v)"
    unfolding leaf by (rule translate_None_leaf [OF assms(1-3)])
  obtain fo s1 where alloc': "alloc_frame s = (fo, s1)" by fastforce
  then obtain f where alloc: "alloc_frame s = (Some f, s1)"
    using alloc_frame_None [of s s1] assms(4) by (cases fo) auto
  note A = alloc_frame_Some [OF alloc conjunct2 [OF owned_tree_root [OF assms(1)]]]
  obtain r s2 where map: "arch_map_page ?root ?v f ?flags (zero_page f s1) = (r, s2)" by fastforce
  note M = map_fresh_page [OF assms(1) _ _ _ v absent alloc map, unfolded top, simplified, OF assms(2)]
  have ok: "r = Ok ()" using M(4) assms(4) by auto
  have "f \<noteq> 0" using A(3) assms(5) by (auto simp: frame_of_def)
  moreover have "write_bytes (phys_to_virt s1 f) 0 4096 s1 = zero_page f s1" by simp
  ultimately have "handle_page_fault a False is_user s = (Ok True, s2)"
    using alloc map ok by (simp add: handle_page_fault_def)
  moreover have "arch_translate_addr s2 ?root w = (if same_page w a then Some (f + (w AND 0xFFF))
      else arch_translate_addr s ?root w)" if "top_index w \<in> U" for w
    using translate_leaf [of s2 U 3 ?root w] translate_leaf [OF assms(1) that] M(1-3,5) that ok sp
    by (simp add: arch.format_laws)
  moreover have "pte_user (ops s) (leaf_entry (ops s) s2 ?root a) = is_user"
    using M(5) [OF assms(2)] ok sp by (simp add: arch.format_laws same_page_def)
  ultimately show ?thesis using A(3) M(6) by blast
qed

text \<open>C9: Demand paging. A not-present fault on an address whose page is unmapped is resolved as long
  as four frames are free: the page becomes mapped, to a frame that was free, filled with zeros
  and with the privilege of the faulting access; no other address changes its translation. The
  address itself is not checked against any range: the statement holds for kernel addresses and
  addresses below \<open>USER_SPACE_BASE\<close> alike.\<close>

theorem demand_paging_maps_zero_page:
  assumes "owned_tree (ops s) U 3 s (active_root s a)" "top_index a \<in> U"
    and "arch_translate_addr s (active_root s a) a = None"
    and "4 \<le> card (free_frames (pmm s))" "0 \<notin> free_frames (pmm s)"
  shows "\<exists>s' f. handle_page_fault a False is_user s = (Ok True, s') \<and> frame_of f \<in> free_frames (pmm s) \<and>
    (\<forall>b. frame_of b = frame_of f \<longrightarrow> ram s' b = 0) \<and>
    (pte_user (ops s) (leaf_entry (ops s) s' (active_root s a) a) \<longleftrightarrow> is_user) \<and>
    (\<forall>w. top_index w \<in> U \<longrightarrow> arch_translate_addr s' (active_root s a) w =
       (if same_page w a then Some (f + (w AND 0xFFF)) else arch_translate_addr s (active_root s a) w))"
  using assms by (rule demand_page_mapped)

theorem demand_paging_witness:
  "(0x1000 :: usize) < USER_SPACE_BASE \<and>
   (\<exists>s' f. handle_page_fault 0x1000 False True demo_machine = (Ok True, s') \<and>
      arch_translate_addr s' 0x14000 0x1234 = Some (f + 0x234))"
proof -
  have root: "active_root demo_machine 0x1000 = 0x14000" by (simp add: active_root_def demo_machine_def)
  have top: "top_index 0x1000 = 0" "top_index 0x1234 = 0" by (simp_all add: top_index_def)
  have sp: "same_page 0x1234 0x1000" by (simp add: same_page_def)
  from demand_paging_maps_zero_page [of demo_machine "{0}" "0x1000" True, unfolded root]
  show ?thesis
    by (fastforce simp: demo_owned demo_translate demo_free_frames top sp USER_SPACE_BASE_def)
qed

text \<open>C8: On x86_64 the address space of a new process shares the kernel's tables (all 512 root entries
  are copied), and tearing that process down hands those shared tables, and every page mapped
  through them, back to the frame allocator while the kernel still uses them.\<close>

theorem x86_teardown_frees_kernel_tables:
  assumes "target s = X86_64" "pool_ok s"
    and live: "tree_frames (ops s) private_indices 3 s (cr3 s AND NOT 0xFFF) \<inter> free_frames (pmm s) = {}"
    and run: "create_process_page_table s = (Some f, s')"
    and x: "x \<in> tree_frames (ops s) private_indices 4 s (cr3 s AND NOT 0xFFF)"
      "x \<noteq> frame_of (cr3 s AND NOT 0xFFF)" "0 < x" "x < tracked_frames (pmm s)"
  shows "x \<in> free_frames (pmm (free_process_page_table f s'))"
proof -
  let ?act = "cr3 s AND NOT 0xFFF" and ?U = private_indices
  have "frame_of ?act \<notin> free_frames (pmm s)"
    using live tree_frames_I [of ?U "[]" 3 "ops s" s ?act ?act] by auto
  note C = create_x86_root [OF assms(1,2) this run]
  have same: "table_at (ops s) s' f p = table_at (ops s) s ?act p"
    if "p \<noteq> []" "valid_path ?U p" "length p \<le> 4" "table_at (ops s) s ?act p \<noteq> None" for p
    using that
  proof (induction p rule: rev_induct)
    case (snoc j p)
    show ?case
    proof (cases "p = []")
      case True
      with snoc.prems show ?thesis using C(5) [of j] by (simp add: child_entry valid_path_def)
    next
      case False
      from snoc.prems(4) obtain u where u: "table_at (ops s) s ?act p = Some u"
        by (auto simp: table_at_snoc split: option.splits)
      have "frame_of u \<noteq> frame_of f"
        using live C(2) tree_frames_I [of ?U p 3 "ops s" s ?act u] u snoc.prems by auto
      moreover have "page_aligned u"
        using arch.table_at_aligned [OF u] by (simp add: page_aligned_def and.assoc)
      ultimately have "entry s' u j = entry s u j" using C(6) [of u j] snoc.prems by auto
      moreover have "table_at (ops s) s' f p = Some u" using snoc False u by simp
      ultimately show ?thesis using u by (simp add: table_at_snoc child_def)
    qed
  qed simp
  from x(1) obtain t p where p: "x = frame_of t" "valid_path ?U p" "length p \<le> 4" "table_at (ops s) s ?act p = Some t"
    unfolding tree_frames_def by blast
  then have "p \<noteq> []" using x(2) by auto
  with same [of p] p have "table_at (ops s) s' f p = Some t" by simp
  moreover have t: "ops s' = ops s" using C(3) assms(1) by simp
  ultimately have "x \<in> tree_frames (ops s') ?U 4 s' f" using tree_frames_I [OF p(2,3)] p(1) by simp
  moreover have "tracked_frames (pmm s') = tracked_frames (pmm s)" using C(4) by simp
  ultimately show ?thesis
    using free_process_page_table_frees [of s' f] x(3,4) unfolding frees_def by auto
qed

text \<open>A kernel with one table, in frame 21, behind the top-level entry 256.\<close>

definition demo_kernel :: machine where
  "demo_kernel = set_entry 0x14000 256 0x15003 demo_machine"

lemma demo_kernel_simps [simp]:
  "target demo_kernel = X86_64" "cr3 demo_kernel = 0x14000" "pmm demo_kernel = pmm demo_machine"
  by (simp_all add: demo_kernel_def) (simp_all add: demo_machine_def)

lemma demo_kernel_entry:
  "page_aligned t \<Longrightarrow> i < 512 \<Longrightarrow> entry demo_kernel t i = (if t = 0x14000 \<and> i = 256 then 0x15003 else 0)"
  using entry_set_entry [of "0x14000" t 256 i "0x15003" demo_machine] by (auto simp: demo_kernel_def page_aligned_def)

lemma demo_kernel_tables:
  assumes "valid_path private_indices p" "table_at (arch_ops X86_64) demo_kernel 0x14000 p = Some t"
  shows "frame_of t \<in> {20, 21}"
proof -
  have c1: "child (arch_ops X86_64) demo_kernel 0x14000 i = (if i = 256 then Some 0x15000 else None)" if "i < 512" for i
    using demo_kernel_entry [of "0x14000" i] that
    by (cases "i = 256") (simp_all add: child_entry page_aligned_def arch_ops_def x86_ops_def x86_is_present_def x86_physical_address_def)
  have c2: "child (arch_ops X86_64) demo_kernel 0x15000 i = None" if "i < 512" for i
    using demo_kernel_entry [of "0x15000" i] that by (simp add: child_entry page_aligned_def arch.absent_zero)
  show ?thesis
    using assms
  proof (cases p)
    case (Cons i q)
    then show ?thesis using assms c1 c2
      by (cases q) (auto simp: valid_path_def frame_of_def split: if_splits)
  qed (simp add: frame_of_def)
qed

theorem x86_teardown_witness:
  "\<exists>f s'. create_process_page_table demo_kernel = (Some f, s') \<and>
     21 \<in> free_frames (pmm (free_process_page_table f s'))"
proof -
  obtain r s' where run: "create_process_page_table demo_kernel = (r, s')" by fastforce
  obtain r1 s1 where alloc: "alloc_frame demo_kernel = (r1, s1)" by fastforce
  have "r1 \<noteq> None" using alloc_frame_None [of demo_kernel s1] alloc by (auto simp: demo_free_frames)
  then obtain f where f: "r = Some f"
    using run alloc by (auto simp: create_process_page_table_def Let_def split: target_arch.splits)
  have "tree_frames (arch_ops X86_64) private_indices 3 demo_kernel 0x14000 \<subseteq> {20, 21}"
    using demo_kernel_tables unfolding tree_frames_def by blast
  moreover have "child (arch_ops X86_64) demo_kernel 0x14000 256 = Some 0x15000"
    using demo_kernel_entry [of "0x14000" 256]
    by (simp add: child_entry page_aligned_def arch_ops_def x86_ops_def x86_is_present_def x86_physical_address_def)
  then have "21 \<in> tree_frames (arch_ops X86_64) private_indices 4 demo_kernel 0x14000"
    using tree_frames_I [of private_indices "[256]" 4 "arch_ops X86_64" demo_kernel "0x14000" "0x15000"]
    by (simp add: valid_path_def private_indices_def frame_of_def)
  ultimately have live: "tree_frames (ops demo_kernel) private_indices 3 demo_kernel (cr3 demo_kernel AND NOT 0xFFF)
      \<inter> free_frames (pmm demo_kernel) = {}"
    and x: "21 \<in> tree_frames (ops demo_kernel) private_indices 4 demo_kernel (cr3 demo_kernel AND NOT 0xFFF)"
    by (auto simp: demo_free_frames)
  have "tracked_frames (pmm demo_machine) = 64" by (simp add: tracked_frames_def demo_machine_def)
  then have "21 \<in> free_frames (pmm (free_process_page_table f s'))"
    using run f
    by (intro x86_teardown_frees_kernel_tables [OF _ _ live _ x]) (simp_all add: frame_of_def pool_ok_def)
  with run f show ?thesis by blast
qed

end
