(* ===== verification/MemFields.thy ===== *)
theory MemFields
  imports PhysMem
begin

text \<open>
  32-bit fields of structures in memory: the framebuffer, the structures a disk controller reads and the
  information a boot loader leaves behind are all accessed by 32-bit stores and loads at byte offsets.
\<close>

section \<open>Loads and stores\<close>

definition write_u32 :: "usize \<Rightarrow> u32 \<Rightarrow> machine \<Rightarrow> machine" where
  "write_u32 p v s = copy_nonoverlapping (to_le_bytes 4 v) p s"

definition read_u32 :: "machine \<Rightarrow> usize \<Rightarrow> u32" where
  "read_u32 s p = u32_le (read_bytes s p 4)"

section \<open>Reads over writes\<close>

lemma read_u32_write_same [simp]: "read_u32 (write_u32 p v s) p = v"
proof -
  have v: "virt_to_ram (write_u32 p v s) = virt_to_ram s"
    by (intro ext) (simp add: write_u32_def copy_nonoverlapping_def virt_to_ram_def split: target_arch.split)
  have "read_bytes (write_u32 p v s) p 4 = to_le_bytes 4 v"
  proof (rule nth_equalityI)
    fix i assume "i < length (read_bytes (write_u32 p v s) p 4)"
    then have "i < 4" by (simp add: read_bytes_def)
    then have "unat (word_of_nat i :: usize) = i" by (simp add: unat_of_nat take_bit_nat_eq_self)
    with \<open>i < 4\<close> show "read_bytes (write_u32 p v s) p 4 ! i = to_le_bytes 4 v ! i"
      unfolding read_bytes_def v by (simp add: write_u32_def copy_nonoverlapping_def copy_bytes_def)
  qed (simp add: read_bytes_def)
  then show ?thesis
    using unsigned_less [of v, where ?'a = nat] by (simp add: read_u32_def u32_le_def le_nat_to_le_bytes)
qed

lemma unat_neg: "w \<noteq> 0 \<Longrightarrow> unat w + unat (- w) = 2 ^ 64" for w :: usize
proof -
  assume "w \<noteq> 0"
  then have "0 < unat w" by (simp add: unat_gt_0)
  have "(unat w + unat (- w)) mod 2 ^ 64 = 0"
    using unat_word_ariths(1) [of w "- w"] by simp
  then obtain k where k: "unat w + unat (- w) = 2 ^ 64 * k" by auto
  have "unat w < 2 ^ 64" "unat (- w) < 2 ^ 64"
    using unsigned_less [of w, where ?'a = nat] unsigned_less [of "- w", where ?'a = nat] by simp_all
  with k \<open>0 < unat w\<close> have "0 < k" "k < 2" by auto
  then have "k = 1" by simp
  with k show ?thesis by simp
qed

lemma read_u32_write_other:
  assumes "4 \<le> unat (q - p)" "4 \<le> unat (p - q)"
  shows "read_u32 (write_u32 p v s) q = read_u32 s q"
proof -
  have v: "virt_to_ram (write_u32 p v s) q = virt_to_ram s q"
    by (simp add: write_u32_def copy_nonoverlapping_def virt_to_ram_def split: target_arch.split)
  have d: "virt_to_ram s q + word_of_nat i - virt_to_ram s p = (q - p) + word_of_nat i" for i
    by (simp add: virt_to_ram_def split: target_arch.split)
  have "read_bytes (write_u32 p v s) q 4 = read_bytes s q 4"
  proof (rule nth_equalityI)
    fix i assume "i < length (read_bytes (write_u32 p v s) q 4)"
    then have i: "i < 4" by (simp add: read_bytes_def)
    have "q - p \<noteq> 0" using assms(1) by auto
    then have "unat (q - p) + unat (p - q) = 2 ^ 64"
      using unat_neg [of "q - p"] by simp
    then have "unat (q - p) + i < 2 ^ 64" using assms(2) i by linarith
    then have "unat (q - p + word_of_nat i) = unat (q - p) + i"
      using i by (subst unat_add_lt) (simp_all add: unat_of_nat take_bit_nat_eq_self)
    then have "\<not> unat (q - p + word_of_nat i) < 4" using assms(1) by simp
    then show "read_bytes (write_u32 p v s) q 4 ! i = read_bytes s q 4 ! i"
      using i unfolding read_bytes_def v by (simp add: write_u32_def copy_nonoverlapping_def copy_bytes_def d)
  qed (simp add: read_bytes_def)
  then show ?thesis by (simp add: read_u32_def)
qed

lemma field_distance:
  assumes "x < 2 ^ 62" "y < 2 ^ 62" "4 dvd x" "4 dvd y" "x \<noteq> y"
  shows "4 \<le> unat (word_of_nat x - word_of_nat y :: usize)"
proof (cases "y < x")
  case True
  then have "4 dvd x - y" using assms(3,4) by (simp add: dvd_diff_nat)
  then have "4 \<le> x - y" using True by (intro dvd_imp_le) simp_all
  moreover have "word_of_nat x - word_of_nat y = (word_of_nat (x - y) :: usize)" using True by (simp add: of_nat_diff)
  moreover have "unat (word_of_nat (x - y) :: usize) = x - y" using assms(1) by (simp add: unat_of_nat take_bit_nat_eq_self)
  ultimately show ?thesis by simp
next
  case False
  then have lt: "x < y" using assms(5) by simp
  have e: "word_of_nat x - word_of_nat y = - (word_of_nat (y - x) :: usize)" using lt by (simp add: of_nat_diff)
  have u: "unat (word_of_nat (y - x) :: usize) = y - x" using assms(2) by (simp add: unat_of_nat take_bit_nat_eq_self)
  then have "word_of_nat (y - x) \<noteq> (0 :: usize)" using lt by auto
  then have "unat (- (word_of_nat (y - x) :: usize)) = 2 ^ 64 - (y - x)" using u unat_neg by fastforce
  then show ?thesis using assms(2) e by simp
qed

lemma read_field_write_field:
  assumes "x < 2 ^ 62" "y < 2 ^ 62" "4 dvd x" "4 dvd y"
  shows "read_u32 (write_u32 (t + word_of_nat x) v s) (t + word_of_nat y) = (if x = y then v else read_u32 s (t + word_of_nat y))"
proof (cases "x = y")
  case False
  have "4 \<le> unat ((t + word_of_nat y) - (t + word_of_nat x))" "4 \<le> unat ((t + word_of_nat x) - (t + word_of_nat y))"
    using field_distance [OF assms(2,1,4,3)] field_distance [OF assms] False by simp_all
  from read_u32_write_other [OF this] False show ?thesis by simp
qed simp

section \<open>Regions\<close>

text \<open>Two ranges of addresses with no byte in common, on the circle of the address space.\<close>

definition apart :: "usize \<Rightarrow> nat \<Rightarrow> usize \<Rightarrow> nat \<Rightarrow> bool" where
  "apart p n q m \<longleftrightarrow> n \<le> unat (q - p) \<and> m \<le> unat (p - q)"

lemma apart_sym: "apart p n q m \<longleftrightarrow> apart q m p n"
  by (auto simp: apart_def)

lemma apart_byte:
  assumes "apart p n q m" "k < m"
  shows "n \<le> unat (q - p + word_of_nat k)"
proof -
  have "q - p \<noteq> 0" using assms by (auto simp: apart_def)
  then have sum: "unat (q - p) + unat (p - q) = 2 ^ 64" using unat_neg [of "q - p"] by simp
  then have lt: "unat (q - p) + k < 2 ^ 64" using assms by (simp add: apart_def)
  then have "unat (word_of_nat k :: usize) = k" by (simp add: unat_of_nat take_bit_nat_eq_self)
  with lt have "unat (q - p + word_of_nat k) = unat (q - p) + k" by (subst unat_add_lt) simp_all
  then show ?thesis using assms(1) by (simp add: apart_def)
qed

lemma apart_sub:
  assumes "apart p n q m" "i + n' \<le> n" "0 < n'"
  shows "apart (p + word_of_nat i) n' q m"
proof -
  have i: "i < unat (q - p)" using assms by (simp add: apart_def)
  then have "q - p \<noteq> 0" by auto
  then have sum: "unat (q - p) + unat (p - q) = 2 ^ 64" using unat_neg [of "q - p"] by simp
  have "unat (q - p) < 2 ^ 64" using unsigned_less [of "q - p", where ?'a = nat] by simp
  then have u: "unat (word_of_nat i :: usize) = i" using i by (simp add: unat_of_nat take_bit_nat_eq_self)
  have "unat (p - q + word_of_nat i) = unat (p - q) + i" using sum i u by (subst unat_add_lt) simp_all
  moreover have "unat (q - p - word_of_nat i) = unat (q - p) - i" using i u by (subst unat_sub) (simp_all add: word_le_nat_alt)
  ultimately have "unat (p + word_of_nat i - q) = unat (p - q) + i" "unat (q - (p + word_of_nat i)) = unat (q - p) - i"
    by (simp_all add: algebra_simps)
  then show ?thesis using assms unfolding apart_def by linarith
qed

lemma ram_copy_apart:
  assumes "apart p (length bs) q m" "k < m"
  shows "ram (copy_nonoverlapping bs p s) (virt_to_ram s q + word_of_nat k) = ram s (virt_to_ram s q + word_of_nat k)"
proof -
  have "virt_to_ram s q + word_of_nat k - virt_to_ram s p = q - p + word_of_nat k"
    by (simp add: virt_to_ram_def split: target_arch.split)
  then have "\<not> unat (virt_to_ram s q + word_of_nat k - virt_to_ram s p) < length bs"
    using apart_byte [OF assms] by (simp only: not_less)
  then show ?thesis by (simp add: copy_nonoverlapping_def copy_bytes_def)
qed

lemma virt_to_ram_copy [simp]:
  "virt_to_ram (copy_nonoverlapping bs p s) q = virt_to_ram s q" "virt_to_ram (write_u32 p v s) q = virt_to_ram s q"
  by (simp_all add: write_u32_def copy_nonoverlapping_def virt_to_ram_def split: target_arch.split)

lemma read_bytes_copy_apart: "apart p (length bs) q m \<Longrightarrow> read_bytes (copy_nonoverlapping bs p s) q m = read_bytes s q m"
  unfolding read_bytes_def by (simp add: ram_copy_apart)

lemma read_bytes_write_u32_apart: "apart p 4 q m \<Longrightarrow> read_bytes (write_u32 p v s) q m = read_bytes s q m"
  by (simp add: write_u32_def read_bytes_copy_apart)

lemma read_bytes_copy_same:
  assumes "length bs < 2 ^ 64"
  shows "read_bytes (copy_nonoverlapping bs p s) p (length bs) = bs"
proof (rule nth_equalityI)
  fix k assume "k < length (read_bytes (copy_nonoverlapping bs p s) p (length bs))"
  then have k: "k < length bs" by (simp add: read_bytes_def)
  then have "unat (word_of_nat k :: usize) = k" using assms by (simp add: unat_of_nat take_bit_nat_eq_self)
  then show "read_bytes (copy_nonoverlapping bs p s) p (length bs) ! k = bs ! k"
    using k by (simp add: read_bytes_def) (simp add: copy_nonoverlapping_def copy_bytes_def)
qed (simp add: read_bytes_def)

lemma read_u32_apart: "read_bytes s' q 4 = read_bytes s q 4 \<Longrightarrow> read_u32 s' q = read_u32 s q"
  by (simp add: read_u32_def)

end
