(* ===== verification/Ahci.thy ===== *)
theory Ahci
  imports Vmm Device MemFields
begin

text \<open>
  The AHCI disk controller driver (\<^verbatim>\<open>drivers/ahci.rs\<close>). The trait \<open>Hal\<close> is a record of operations on the
  machine; its busy wait \<open>wait_micros\<close> has no effect and is left out. The registers are those of a device
  parameter, and \<open>dma\<close> is what the controller does to memory between the issue of a command and its
  completion. The interrupt handler is in no descriptor table, so the polling loop runs undisturbed.
\<close>

section \<open>Constants\<close>

abbreviation HBA_CAP :: usize where "HBA_CAP \<equiv> 0x00"
abbreviation HBA_GHC :: usize where "HBA_GHC \<equiv> 0x04"
abbreviation HBA_IS :: usize where "HBA_IS \<equiv> 0x08"
abbreviation HBA_PI :: usize where "HBA_PI \<equiv> 0x0C"
abbreviation HBA_VS :: usize where "HBA_VS \<equiv> 0x10"
abbreviation HBA_CAP2 :: usize where "HBA_CAP2 \<equiv> 0x24"
abbreviation HBA_BOHC :: usize where "HBA_BOHC \<equiv> 0x28"
definition HBA_PORT_BASE :: nat where "HBA_PORT_BASE = 0x100"
definition HBA_PORT_SIZE :: nat where "HBA_PORT_SIZE = 0x80"
definition HBA_MAX_PORTS :: nat where "HBA_MAX_PORTS = 32"
definition HBA_MMIO_SIZE :: usize where "HBA_MMIO_SIZE = 0x2000"

abbreviation PORT_CLB :: usize where "PORT_CLB \<equiv> 0x00"
abbreviation PORT_CLBU :: usize where "PORT_CLBU \<equiv> 0x04"
abbreviation PORT_FB :: usize where "PORT_FB \<equiv> 0x08"
abbreviation PORT_FBU :: usize where "PORT_FBU \<equiv> 0x0C"
abbreviation PORT_IS :: usize where "PORT_IS \<equiv> 0x10"
abbreviation PORT_IE :: usize where "PORT_IE \<equiv> 0x14"
abbreviation PORT_CMD :: usize where "PORT_CMD \<equiv> 0x18"
abbreviation PORT_TFD :: usize where "PORT_TFD \<equiv> 0x20"
abbreviation PORT_SIG :: usize where "PORT_SIG \<equiv> 0x24"
abbreviation PORT_SSTS :: usize where "PORT_SSTS \<equiv> 0x28"
abbreviation PORT_SERR :: usize where "PORT_SERR \<equiv> 0x30"
abbreviation PORT_SACT :: usize where "PORT_SACT \<equiv> 0x34"
abbreviation PORT_CI :: usize where "PORT_CI \<equiv> 0x38"

abbreviation SIG_ATAPI :: u32 where "SIG_ATAPI \<equiv> 0xEB140101"
abbreviation SIG_SEMB :: u32 where "SIG_SEMB \<equiv> 0xC33C0101"
abbreviation SIG_PM :: u32 where "SIG_PM \<equiv> 0x96690101"

abbreviation FIS_TYPE_REG_H2D :: u8 where "FIS_TYPE_REG_H2D \<equiv> 0x27"
abbreviation ATA_CMD_READ_DMA_EXT :: u8 where "ATA_CMD_READ_DMA_EXT \<equiv> 0x25"
abbreviation ATA_CMD_WRITE_DMA_EXT :: u8 where "ATA_CMD_WRITE_DMA_EXT \<equiv> 0x35"
abbreviation ATA_CMD_FLUSH_CACHE_EXT :: u8 where "ATA_CMD_FLUSH_CACHE_EXT \<equiv> 0xEA"
abbreviation ATA_CMD_IDENTIFY :: u8 where "ATA_CMD_IDENTIFY \<equiv> 0xEC"

definition AHCI_SECTOR_SIZE :: nat where "AHCI_SECTOR_SIZE = 512"
definition CMD_LIST_ENTRIES :: nat where "CMD_LIST_ENTRIES = 32"
definition PRDT_ENTRIES :: nat where "PRDT_ENTRIES = 9"
definition MAX_TRANSFER_BYTES :: nat where "MAX_TRANSFER_BYTES = (PRDT_ENTRIES - 1) * 4096"
definition CMD_TABLE_STRIDE :: nat where "CMD_TABLE_STRIDE = 384"
definition FIS_RECV_SIZE :: nat where "FIS_RECV_SIZE = 256"

abbreviation ATA_STS_ERR :: u32 where "ATA_STS_ERR \<equiv> push_bit 0 1"
abbreviation ATA_STS_DRQ :: u32 where "ATA_STS_DRQ \<equiv> push_bit 3 1"
abbreviation ATA_STS_BSY :: u32 where "ATA_STS_BSY \<equiv> push_bit 7 1"
abbreviation PXCMD_ST :: u32 where "PXCMD_ST \<equiv> push_bit 0 1"
abbreviation PXCMD_SUD :: u32 where "PXCMD_SUD \<equiv> push_bit 1 1"
abbreviation PXCMD_POD :: u32 where "PXCMD_POD \<equiv> push_bit 2 1"
abbreviation PXCMD_FRE :: u32 where "PXCMD_FRE \<equiv> push_bit 4 1"
abbreviation PXCMD_FR :: u32 where "PXCMD_FR \<equiv> push_bit 14 1"
abbreviation PXCMD_CR :: u32 where "PXCMD_CR \<equiv> push_bit 15 1"
abbreviation GHC_IE :: u32 where "GHC_IE \<equiv> push_bit 1 1"
abbreviation GHC_AE :: u32 where "GHC_AE \<equiv> push_bit 31 1"
abbreviation CAP_S64A :: u32 where "CAP_S64A \<equiv> push_bit 31 1"
abbreviation CAP2_BOH :: u32 where "CAP2_BOH \<equiv> push_bit 0 1"
abbreviation BOHC_BOS :: u32 where "BOHC_BOS \<equiv> push_bit 0 1"
abbreviation BOHC_OOS :: u32 where "BOHC_OOS \<equiv> push_bit 1 1"
abbreviation BOHC_BB :: u32 where "BOHC_BB \<equiv> push_bit 4 1"

datatype AhciError = NotAnAhciController | PortNotPresent | DeviceNotAta | EngineStopTimeout | EngineStartTimeout
  | FisReceiveStopTimeout | NoFreeCommandSlot | CommandTimeout | TaskFileError u8 u8 | BufferNotSectorAligned
  | BufferTooLargeForOneCommand | DmaAllocationFailed | AddressTranslationFailed | Requires64BitDma

datatype DeviceKind = Sata | Satapi | PortMultiplier | EnclosureManagement

section \<open>Hardware abstraction, registers and state\<close>

record hal =
  map_mmio :: "usize \<Rightarrow> usize \<Rightarrow> machine \<Rightarrow> usize \<times> machine"
  alloc_dma :: "nat \<Rightarrow> machine \<Rightarrow> (usize \<times> usize) option \<times> machine"
  virt_to_phys :: "usize \<Rightarrow> usize option"

record ahci =
  a_mach :: machine
  a_hist :: history
  AHCI_BASE_VIRT :: usize
  SLOT_COMPLETION :: "bool list"
  PENDING_SLOTS :: u32

definition reg_read :: "device \<Rightarrow> usize \<Rightarrow> usize \<Rightarrow> ahci \<Rightarrow> u32 \<times> ahci" where
  "reg_read dev base offset st = (case dev_read dev (base + offset) (a_hist st) of (v, h) \<Rightarrow> (ucast v, st\<lparr>a_hist := h\<rparr>))"

definition reg_write :: "usize \<Rightarrow> usize \<Rightarrow> u32 \<Rightarrow> ahci \<Rightarrow> ahci" where
  "reg_write base offset v st = st\<lparr>a_hist := dev_write (base + offset) (ucast v) (a_hist st)\<rparr>"

definition set_bits :: "device \<Rightarrow> usize \<Rightarrow> usize \<Rightarrow> u32 \<Rightarrow> ahci \<Rightarrow> ahci" where
  "set_bits dev base offset m st = (case reg_read dev base offset st of (v, st) \<Rightarrow> reg_write base offset (v OR m) st)"

definition clear_bits :: "device \<Rightarrow> usize \<Rightarrow> usize \<Rightarrow> u32 \<Rightarrow> ahci \<Rightarrow> ahci" where
  "clear_bits dev base offset m st = (case reg_read dev base offset st of (v, st) \<Rightarrow> reg_write base offset (v AND NOT m) st)"

text \<open>
  \<open>wait_while\<close>: the condition is a test of one register. It is evaluated once more than there are steps in
  the timeout; all its callers have a timeout that is a multiple of the step.
\<close>

fun wait_steps :: "nat \<Rightarrow> device \<Rightarrow> usize \<Rightarrow> usize \<Rightarrow> u32 \<Rightarrow> ahci \<Rightarrow> bool \<times> ahci" where
  "wait_steps 0 dev base offset m st = (case reg_read dev base offset st of (v, st) \<Rightarrow> (v AND m = 0, st))"
| "wait_steps (Suc n) dev base offset m st =
     (case reg_read dev base offset st of (v, st) \<Rightarrow> if v AND m \<noteq> 0 then wait_steps n dev base offset m st else (True, st))"

definition wait_while :: "device \<Rightarrow> usize \<Rightarrow> usize \<Rightarrow> u32 \<Rightarrow> nat \<Rightarrow> nat \<Rightarrow> ahci \<Rightarrow> bool \<times> ahci" where
  "wait_while dev base offset m timeout_us step_us st = wait_steps (timeout_us div step_us) dev base offset m st"

section \<open>Commands\<close>

record AtaIdentify =
  id_sectors :: u64
  id_lba48 :: bool
  id_model :: bytes

definition id_word :: "bytes \<Rightarrow> nat \<Rightarrow> u16" where
  "id_word buf i = u16_le [buf ! (i * 2), buf ! (i * 2 + 1)]"

definition parse_identify :: "bytes \<Rightarrow> AtaIdentify" where
  "parse_identify buf =
     (let lba48 = (id_word buf 83 AND push_bit 10 1 \<noteq> 0);
          w = (\<lambda>i. ucast (id_word buf i) :: u64);
          sectors = (if lba48 then w 100 OR push_bit 16 (w 101) OR push_bit 32 (w 102) OR push_bit 48 (w 103)
                     else w 60 OR push_bit 16 (w 61))
      in \<lparr>id_sectors = sectors, id_lba48 = lba48,
          id_model = concat (map (\<lambda>i. [ucast (drop_bit 8 (id_word buf (27 + i))), ucast (id_word buf (27 + i))]) [0..<20])\<rparr>)"

record AhciPort =
  port_index :: u8
  port_regs :: usize
  clb_virt :: usize
  ctba_virt :: usize
  num_slots :: nat
  port_kind :: DeviceKind
  port_sectors :: u64
  port_lba48 :: bool

definition enable_interrupts :: "AhciPort \<Rightarrow> ahci \<Rightarrow> ahci" where
  "enable_interrupts p st = reg_write (port_regs p) PORT_IE (push_bit 0 1) st"

definition cmd_header :: "AhciPort \<Rightarrow> nat \<Rightarrow> usize" where
  "cmd_header p slot = clb_virt p + word_of_nat (32 * slot)"

definition cmd_table :: "AhciPort \<Rightarrow> nat \<Rightarrow> usize" where
  "cmd_table p slot = ctba_virt p + word_of_nat (slot * CMD_TABLE_STRIDE)"

definition find_free_slot :: "device \<Rightarrow> AhciPort \<Rightarrow> ahci \<Rightarrow> (AhciError, nat) outcome \<times> ahci" where
  "find_free_slot dev p st =
     (let (sact, st) = reg_read dev (port_regs p) PORT_SACT st;
          (ci, st) = reg_read dev (port_regs p) PORT_CI st;
          busy = sact OR ci
      in case find (\<lambda>slot. busy AND push_bit slot 1 = 0) [0..<num_slots p] of
           Some slot \<Rightarrow> (Ok slot, st) | None \<Rightarrow> (Err NoFreeCommandSlot, st))"

text \<open>An entry of the scatter list, at offset 128 of the command table: base, upper base, reserved, count.\<close>

definition prdt_addr :: "usize \<Rightarrow> nat \<Rightarrow> usize" where
  "prdt_addr table i = table + word_of_nat (128 + 16 * i)"

definition write_prdt :: "usize \<Rightarrow> nat \<Rightarrow> usize \<Rightarrow> nat \<Rightarrow> machine \<Rightarrow> machine" where
  "write_prdt table i phys chunk s =
     (let p = prdt_addr table i;
          s = write_u32 p (ucast phys) s;
          s = write_u32 (p + 4) (ucast (drop_bit 32 phys)) s;
          s = write_u32 (p + 8) 0 s
      in write_u32 (p + 12) ((word_of_nat (chunk - 1) AND 0x003FFFFF) OR push_bit 31 1) s)"

function prdt_loop :: "hal \<Rightarrow> usize \<Rightarrow> usize \<Rightarrow> nat \<Rightarrow> nat \<Rightarrow> nat \<Rightarrow> machine \<Rightarrow> (AhciError, nat) outcome \<times> machine" where
  "prdt_loop hl table buf len offset count s =
     (if offset < len then
        if PRDT_ENTRIES \<le> count then (Err BufferTooLargeForOneCommand, s)
        else let virt = buf + word_of_nat offset;
                 page_off = unat virt mod 4096;
                 chunk = min (4096 - page_off) (len - offset)
        in case virt_to_phys hl virt of
             None \<Rightarrow> (Err AddressTranslationFailed, s)
           | Some phys \<Rightarrow> prdt_loop hl table buf len (offset + chunk) (count + 1) (write_prdt table count phys chunk s)
      else (Ok count, s))"
  by pat_completeness auto
termination
  by (relation "measure (\<lambda>(hl, table, buf, len, offset, count, s). len - offset)") auto

declare prdt_loop.simps [simp del]

definition build_prdt :: "hal \<Rightarrow> usize \<Rightarrow> usize \<Rightarrow> nat \<Rightarrow> machine \<Rightarrow> (AhciError, nat) outcome \<times> machine" where
  "build_prdt hl table buf len s =
     (if len = 0 then (Ok 0, s)
      else if MAX_TRANSFER_BYTES < len then (Err BufferTooLargeForOneCommand, s)
      else prdt_loop hl table buf len 0 0 s)"

definition fis_bytes :: "u8 \<Rightarrow> u64 \<Rightarrow> u16 \<Rightarrow> bytes" where
  "fis_bytes command lba sector_count =
     [FIS_TYPE_REG_H2D, push_bit 7 1, command, 0, ucast lba, ucast (drop_bit 8 lba), ucast (drop_bit 16 lba), push_bit 6 1,
      ucast (drop_bit 24 lba), ucast (drop_bit 32 lba), ucast (drop_bit 40 lba), 0,
      ucast sector_count, ucast (drop_bit 8 sector_count), 0, 0, 0, 0, 0, 0]"

text \<open>The polling loop of \<open>issue_command\<close>, with the number of waits of ten microseconds that are left.\<close>

fun completion_wait :: "nat \<Rightarrow> device \<Rightarrow> usize \<Rightarrow> nat \<Rightarrow> ahci \<Rightarrow> bool \<times> ahci" where
  "completion_wait 0 dev base slot st = (False, st)"
| "completion_wait (Suc n) dev base slot st =
     (case reg_read dev base PORT_CI st of (ci, st) \<Rightarrow>
        if ci AND push_bit slot 1 = 0
        then (True, st\<lparr>SLOT_COMPLETION := (SLOT_COMPLETION st)[slot := True], PENDING_SLOTS := PENDING_SLOTS st AND NOT (push_bit slot 1)\<rparr>)
        else if n = 0 then (False, st\<lparr>PENDING_SLOTS := PENDING_SLOTS st AND NOT (push_bit slot 1)\<rparr>)
        else completion_wait n dev base slot st)"

definition run_command :: "device \<Rightarrow> (history \<Rightarrow> machine \<Rightarrow> machine) \<Rightarrow> AhciPort \<Rightarrow> nat \<Rightarrow> ahci \<Rightarrow> (AhciError, unit) outcome \<times> ahci" where
  "run_command dev dma p slot st =
     (let st = reg_write (port_regs p) PORT_CI (push_bit slot 1) st;
          st = st\<lparr>a_mach := dma (a_hist st) (a_mach st)\<rparr>;
          (finished, st) = completion_wait 200000 dev (port_regs p) slot st
      in if \<not> finished then (Err CommandTimeout, st)
         else case reg_read dev (port_regs p) PORT_TFD st of (tfd, st) \<Rightarrow>
           if tfd AND ATA_STS_ERR \<noteq> 0 then (Err (TaskFileError (ucast tfd) (ucast (drop_bit 8 tfd))), st) else (Ok (), st))"

definition issue_command :: "hal \<Rightarrow> device \<Rightarrow> (history \<Rightarrow> machine \<Rightarrow> machine) \<Rightarrow> AhciPort \<Rightarrow> u8 \<Rightarrow> u64 \<Rightarrow> u16 \<Rightarrow> bool \<Rightarrow> usize \<Rightarrow> nat \<Rightarrow> ahci
    \<Rightarrow> (AhciError, unit) outcome \<times> ahci" where
  "issue_command hl dev dma p command lba sector_count wr buf len st =
     (case wait_while dev (port_regs p) PORT_TFD (ATA_STS_BSY OR ATA_STS_DRQ) 500000 1000 st of (ready, st) \<Rightarrow>
        if \<not> ready then (Err CommandTimeout, st)
        else case find_free_slot dev p st of
          (Ok slot, st) \<Rightarrow>
            let st = st\<lparr>SLOT_COMPLETION := (SLOT_COMPLETION st)[slot := False], PENDING_SLOTS := PENDING_SLOTS st OR push_bit slot 1\<rparr>;
                table = cmd_table p slot
            in (case build_prdt hl table buf len (a_mach st) of
                  (Ok prdt_count, s) \<Rightarrow>
                    let header = cmd_header p slot;
                        dw0 = 5 OR push_bit 6 (if wr then 1 else 0) OR push_bit 16 (word_of_nat prdt_count);
                        s = write_u32 header dw0 s;
                        s = write_u32 (header + 4) 0 s;
                        s = copy_nonoverlapping (fis_bytes command lba sector_count) table s
                    in run_command dev dma p slot (st\<lparr>a_mach := s\<rparr>)
                | (Err e, s) \<Rightarrow> (Err e, st\<lparr>a_mach := s\<rparr>)
                | (Panic, s) \<Rightarrow> (Panic, st\<lparr>a_mach := s\<rparr>))
        | (Err e, st) \<Rightarrow> (Err e, st)
        | (Panic, st) \<Rightarrow> (Panic, st))"

text \<open>\<open>stack_buf\<close> is where the compiler puts the 512-byte buffer of \<open>identify\<close>.\<close>

definition identify :: "hal \<Rightarrow> device \<Rightarrow> (history \<Rightarrow> machine \<Rightarrow> machine) \<Rightarrow> usize \<Rightarrow> AhciPort \<Rightarrow> ahci \<Rightarrow> (AhciError, AtaIdentify) outcome \<times> ahci" where
  "identify hl dev dma stack_buf p st =
     (case issue_command hl dev dma p ATA_CMD_IDENTIFY 0 1 False stack_buf 512 (st\<lparr>a_mach := write_bytes stack_buf 0 512 (a_mach st)\<rparr>) of
        (Ok _, st) \<Rightarrow> (Ok (parse_identify (read_bytes (a_mach st) stack_buf 512)), st)
      | (Err e, st) \<Rightarrow> (Err e, st)
      | (Panic, st) \<Rightarrow> (Panic, st))"

definition flush :: "hal \<Rightarrow> device \<Rightarrow> (history \<Rightarrow> machine \<Rightarrow> machine) \<Rightarrow> AhciPort \<Rightarrow> ahci \<Rightarrow> (AhciError, unit) outcome \<times> ahci" where
  "flush hl dev dma p st = issue_command hl dev dma p ATA_CMD_FLUSH_CACHE_EXT 0 0 False 1 0 st"

function rw_loop :: "hal \<Rightarrow> device \<Rightarrow> (history \<Rightarrow> machine \<Rightarrow> machine) \<Rightarrow> AhciPort \<Rightarrow> u8 \<Rightarrow> bool \<Rightarrow> usize \<Rightarrow> nat \<Rightarrow> nat \<Rightarrow> u64 \<Rightarrow> ahci
    \<Rightarrow> (AhciError, unit) outcome \<times> ahci" where
  "rw_loop hl dev dma p command wr buf len finished cur_lba st =
     (if finished < len then
        let chunk_len = min (len - finished) MAX_TRANSFER_BYTES;
            sectors = word_of_nat (chunk_len div AHCI_SECTOR_SIZE) :: u16
        in case issue_command hl dev dma p command cur_lba sectors wr (buf + word_of_nat finished) chunk_len st of
             (Ok _, st) \<Rightarrow> rw_loop hl dev dma p command wr buf len (finished + chunk_len) (cur_lba + ucast sectors) st
           | (e, st) \<Rightarrow> (e, st)
      else (Ok (), st))"
  by pat_completeness auto
termination
  by (relation "measure (\<lambda>(hl, dev, dma, p, command, wr, buf, len, finished, lba, st). len - finished)")
    (auto simp: MAX_TRANSFER_BYTES_def PRDT_ENTRIES_def)

declare rw_loop.simps [simp del]

definition rw_sectors :: "hal \<Rightarrow> device \<Rightarrow> (history \<Rightarrow> machine \<Rightarrow> machine) \<Rightarrow> AhciPort \<Rightarrow> u64 \<Rightarrow> usize \<Rightarrow> nat \<Rightarrow> bool \<Rightarrow> ahci
    \<Rightarrow> (AhciError, unit) outcome \<times> ahci" where
  "rw_sectors hl dev dma p lba buf len wr st =
     (if port_kind p \<noteq> Sata then (Err DeviceNotAta, st)
      else if len = 0 \<or> len mod AHCI_SECTOR_SIZE \<noteq> 0 then (Err BufferNotSectorAligned, st)
      else rw_loop hl dev dma p (if wr then ATA_CMD_WRITE_DMA_EXT else ATA_CMD_READ_DMA_EXT) wr buf len 0 lba st)"

section \<open>The controller\<close>

definition stop_cmd_engine :: "device \<Rightarrow> usize \<Rightarrow> ahci \<Rightarrow> (AhciError, unit) outcome \<times> ahci" where
  "stop_cmd_engine dev base st =
     (let (cmd, st) = reg_read dev base PORT_CMD st;
          st = (if cmd AND PXCMD_ST \<noteq> 0 then clear_bits dev base PORT_CMD PXCMD_ST st else st);
          (stopped, st) = wait_while dev base PORT_CMD PXCMD_CR 500000 1000 st
      in if \<not> stopped then (Err EngineStopTimeout, st)
         else let (cmd, st) = reg_read dev base PORT_CMD st;
                  st = (if cmd AND PXCMD_FRE \<noteq> 0 then clear_bits dev base PORT_CMD PXCMD_FRE st else st);
                  (stopped, st) = wait_while dev base PORT_CMD PXCMD_FR 500000 1000 st
         in if \<not> stopped then (Err FisReceiveStopTimeout, st) else (Ok (), st))"

definition start_cmd_engine :: "device \<Rightarrow> usize \<Rightarrow> ahci \<Rightarrow> (AhciError, unit) outcome \<times> ahci" where
  "start_cmd_engine dev base st =
     (let (idle, st) = wait_while dev base PORT_CMD PXCMD_CR 500000 1000 st
      in if \<not> idle then (Err EngineStartTimeout, st)
         else (Ok (), set_bits dev base PORT_CMD PXCMD_ST (set_bits dev base PORT_CMD PXCMD_FRE st)))"

definition bios_os_handoff :: "device \<Rightarrow> usize \<Rightarrow> ahci \<Rightarrow> ahci" where
  "bios_os_handoff dev hba st =
     (let (cap2, st) = reg_read dev hba HBA_CAP2 st
      in if cap2 AND CAP2_BOH = 0 then st
         else let st = set_bits dev hba HBA_BOHC BOHC_OOS st;
                  (_, st) = wait_while dev hba HBA_BOHC BOHC_BOS 25000 1000 st
         in snd (reg_read dev hba HBA_BOHC st))"

fun init_headers :: "usize \<Rightarrow> usize \<Rightarrow> nat list \<Rightarrow> machine \<Rightarrow> machine" where
  "init_headers clb ctba_phys [] s = s"
| "init_headers clb ctba_phys (slot # slots) s =
     (let hdr = clb + word_of_nat (32 * slot);
          ctba = ctba_phys + word_of_nat (slot * CMD_TABLE_STRIDE);
          s = write_u32 hdr 0 s;
          s = write_u32 (hdr + 4) 0 s;
          s = write_u32 (hdr + 8) (ucast ctba) s;
          s = write_u32 (hdr + 12) (ucast (drop_bit 32 ctba)) s
      in init_headers clb ctba_phys slots s)"

definition device_kind :: "u32 \<Rightarrow> DeviceKind" where
  "device_kind sig =
     (if sig = SIG_ATAPI then Satapi else if sig = SIG_SEMB then EnclosureManagement else if sig = SIG_PM then PortMultiplier else Sata)"

text \<open>\<open>init_port\<close> up to the start of the command engine: the three allocations, the command headers and the registers.\<close>

definition setup_port :: "hal \<Rightarrow> device \<Rightarrow> usize \<Rightarrow> nat \<Rightarrow> bool \<Rightarrow> ahci \<Rightarrow> (AhciError, usize \<times> usize) outcome \<times> ahci" where
  "setup_port hl dev base slots dma64 st =
     (case alloc_dma hl (CMD_LIST_ENTRIES * 32) (a_mach st) of
        (None, s) \<Rightarrow> (Err DmaAllocationFailed, st\<lparr>a_mach := s\<rparr>)
      | (Some (clb_phys, clb), s) \<Rightarrow>
          (case alloc_dma hl FIS_RECV_SIZE s of
             (None, s) \<Rightarrow> (Err DmaAllocationFailed, st\<lparr>a_mach := s\<rparr>)
           | (Some (fis_phys, _), s) \<Rightarrow>
               (case alloc_dma hl (slots * CMD_TABLE_STRIDE) s of
                  (None, s) \<Rightarrow> (Err DmaAllocationFailed, st\<lparr>a_mach := s\<rparr>)
                | (Some (ctba_phys, ctba), s) \<Rightarrow>
                    if \<not> dma64 \<and> (0xFFFFFFFF < clb_phys \<or> 0xFFFFFFFF < fis_phys \<or> 0xFFFFFFFF < ctba_phys)
                    then (Err Requires64BitDma, st\<lparr>a_mach := s\<rparr>)
                    else let st = st\<lparr>a_mach := init_headers clb ctba_phys [0..<slots] s\<rparr>;
                             st = reg_write base PORT_CLB (ucast clb_phys) st;
                             st = reg_write base PORT_CLBU (ucast (drop_bit 32 clb_phys)) st;
                             st = reg_write base PORT_FB (ucast fis_phys) st;
                             st = reg_write base PORT_FBU (ucast (drop_bit 32 fis_phys)) st;
                             (serr, st) = reg_read dev base PORT_SERR st;
                             st = reg_write base PORT_SERR serr st;
                             (pis, st) = reg_read dev base PORT_IS st;
                             st = reg_write base PORT_IS pis st;
                             st = set_bits dev base PORT_CMD (PXCMD_SUD OR PXCMD_POD OR PXCMD_FRE) st;
                             (_, st) = wait_while dev base PORT_TFD (ATA_STS_BSY OR ATA_STS_DRQ) 1000000 1000 st
                    in (Ok (clb, ctba), st))))"

definition init_port :: "hal \<Rightarrow> device \<Rightarrow> (history \<Rightarrow> machine \<Rightarrow> machine) \<Rightarrow> usize \<Rightarrow> usize \<Rightarrow> nat \<Rightarrow> bool \<Rightarrow> nat \<Rightarrow> ahci
    \<Rightarrow> (AhciError, AhciPort) outcome \<times> ahci" where
  "init_port hl dev dma stack_buf hba slots dma64 index st =
     (let base = hba + word_of_nat (HBA_PORT_BASE + index * HBA_PORT_SIZE);
          (ssts, st) = reg_read dev base PORT_SSTS st
      in if ssts AND 0xF \<noteq> 3 then (Err PortNotPresent, st)
         else try_then (stop_cmd_engine dev base st) (\<lambda>_ st.
              try_then (setup_port hl dev base slots dma64 st) (\<lambda>(clb, ctba) st.
              try_then (start_cmd_engine dev base st) (\<lambda>_ st.
                let (sig, st) = reg_read dev base PORT_SIG st;
                    port = \<lparr>port_index = word_of_nat index, port_regs = base, clb_virt = clb, ctba_virt = ctba, num_slots = slots,
                            port_kind = device_kind sig, port_sectors = 0, port_lba48 = False\<rparr>
                in if port_kind port = Sata then
                     (case identify hl dev dma stack_buf port st of
                        (Ok i, st) \<Rightarrow> (Ok (port\<lparr>port_sectors := id_sectors i, port_lba48 := id_lba48 i\<rparr>), st)
                      | (Err _, st) \<Rightarrow> (Ok port, st)
                      | (Panic, st) \<Rightarrow> (Panic, st))
                   else (Ok port, st)))))"

record AhciController =
  hba_base :: usize
  ctrl_slots :: nat
  supports_64bit_dma :: bool
  ctrl_ports :: "AhciPort option list"

fun init_ports :: "hal \<Rightarrow> device \<Rightarrow> (history \<Rightarrow> machine \<Rightarrow> machine) \<Rightarrow> usize \<Rightarrow> u32 \<Rightarrow> nat list \<Rightarrow> AhciController \<Rightarrow> ahci
    \<Rightarrow> (AhciError, AhciController) outcome \<times> ahci" where
  "init_ports hl dev dma stack_buf pi [] c st = (Ok c, st)"
| "init_ports hl dev dma stack_buf pi (i # is') c st =
     (if pi AND push_bit i 1 = 0 then init_ports hl dev dma stack_buf pi is' c st
      else case init_port hl dev dma stack_buf (hba_base c) (ctrl_slots c) (supports_64bit_dma c) i st of
             (Ok port, st) \<Rightarrow>
               init_ports hl dev dma stack_buf pi is' (c\<lparr>ctrl_ports := (ctrl_ports c)[i := Some port]\<rparr>) (enable_interrupts port st)
           | (Err _, st) \<Rightarrow> init_ports hl dev dma stack_buf pi is' c st
           | (Panic, st) \<Rightarrow> (Panic, st))"

definition ahci_new :: "hal \<Rightarrow> device \<Rightarrow> (history \<Rightarrow> machine \<Rightarrow> machine) \<Rightarrow> usize \<Rightarrow> usize \<Rightarrow> ahci \<Rightarrow> (AhciError, AhciController) outcome \<times> ahci" where
  "ahci_new hl dev dma stack_buf abar_phys st =
     (let (hba, s) = map_mmio hl abar_phys HBA_MMIO_SIZE (a_mach st);
          st = st\<lparr>a_mach := s\<rparr>;
          (vs, st) = reg_read dev hba HBA_VS st
      in if vs = 0 \<or> vs = 0xFFFFFFFF then (Err NotAnAhciController, st)
         else let st = st\<lparr>AHCI_BASE_VIRT := hba\<rparr>;
                  st = bios_os_handoff dev hba st;
                  st = set_bits dev hba HBA_GHC (GHC_AE OR GHC_IE) st;
                  (cap, st) = reg_read dev hba HBA_CAP st;
                  (pi, st) = reg_read dev hba HBA_PI st;
                  slots = unat ((drop_bit 8 cap AND 0x1F) + 1);
                  c = \<lparr>hba_base = hba, ctrl_slots = slots, supports_64bit_dma = (cap AND CAP_S64A \<noteq> 0),
                       ctrl_ports = replicate HBA_MAX_PORTS None\<rparr>
         in init_ports hl dev dma stack_buf pi [0..<HBA_MAX_PORTS] c st)"

text \<open>The interrupt handler: the part for one port, the loop over the ports, and the acknowledgements.\<close>

definition irq_port :: "device \<Rightarrow> usize \<Rightarrow> ahci \<Rightarrow> ahci" where
  "irq_port dev base st =
     (let (status, st) = reg_read dev base PORT_IS st;
          st = reg_write base PORT_IS status st;
          (active_slots, st) = reg_read dev base PORT_CI st;
          completed = PENDING_SLOTS st AND NOT active_slots
      in st\<lparr>PENDING_SLOTS := PENDING_SLOTS st AND NOT completed,
            SLOT_COMPLETION := map (\<lambda>(i, b). b \<or> bit completed i) (zip [0..<32] (SLOT_COMPLETION st))\<rparr>)"

fun irq_ports :: "device \<Rightarrow> u32 \<Rightarrow> nat list \<Rightarrow> ahci \<Rightarrow> ahci" where
  "irq_ports dev active [] st = st"
| "irq_ports dev active (i # is') st =
     irq_ports dev active is'
       (if active AND push_bit i 1 \<noteq> 0
        then irq_port dev (AHCI_BASE_VIRT st + word_of_nat (HBA_PORT_BASE + i * HBA_PORT_SIZE)) st else st)"

definition ahci_irq_handler :: "device \<Rightarrow> ahci \<Rightarrow> ahci" where
  "ahci_irq_handler dev st =
     (if AHCI_BASE_VIRT st = 0 then st
      else let (active, st) = reg_read dev (AHCI_BASE_VIRT st) HBA_IS st;
               st = (if active \<noteq> 0 then reg_write (AHCI_BASE_VIRT st) HBA_IS active (irq_ports dev active [0..<32] st) else st)
      in case target (a_mach st) of
           X86_64 \<Rightarrow> st\<lparr>a_hist := dev_write (phys_to_virt (a_mach st) 0xFEE000B0) 0 (a_hist st)\<rparr>
         | AArch64 \<Rightarrow> st)"

section \<open>The scatter list\<close>

text \<open>What the controller reads from an entry: its base and byte count, and the bytes of memory it names.\<close>

definition prd_base :: "machine \<Rightarrow> usize \<Rightarrow> nat \<Rightarrow> usize" where
  "prd_base s table i =
     ucast (read_u32 s (table + word_of_nat (128 + 16 * i))) OR push_bit 32 (ucast (read_u32 s (table + word_of_nat (132 + 16 * i))))"

definition prd_count :: "machine \<Rightarrow> usize \<Rightarrow> nat \<Rightarrow> nat" where
  "prd_count s table i = unat (read_u32 s (table + word_of_nat (140 + 16 * i)) AND 0x3FFFFF) + 1"

definition prd_bytes :: "machine \<Rightarrow> usize \<Rightarrow> nat \<Rightarrow> usize list" where
  "prd_bytes s table i = map (\<lambda>k. prd_base s table i + word_of_nat k) [0..<prd_count s table i]"

lemma write_prdt_fields:
  "write_prdt table i phys chunk s =
     write_u32 (table + word_of_nat (140 + 16 * i)) ((word_of_nat (chunk - 1) AND 0x003FFFFF) OR push_bit 31 1)
       (write_u32 (table + word_of_nat (136 + 16 * i)) 0
         (write_u32 (table + word_of_nat (132 + 16 * i)) (ucast (drop_bit 32 phys))
           (write_u32 (table + word_of_nat (128 + 16 * i)) (ucast phys) s)))"
  by (simp add: write_prdt_def prdt_addr_def Let_def algebra_simps)

lemma prd_write_other:
  assumes "i < PRDT_ENTRIES" "j < PRDT_ENTRIES" "i \<noteq> j"
  shows "prd_base (write_prdt table i phys chunk s) table j = prd_base s table j"
    "prd_count (write_prdt table i phys chunk s) table j = prd_count s table j"
proof -
  have f: "4 dvd 128 + 16 * k" "4 dvd 132 + 16 * k" "4 dvd 136 + 16 * k" "4 dvd 140 + 16 * k" for k :: nat
    by (simp_all add: dvd_add)
  have n: "128 + 16 * i \<noteq> 128 + 16 * j" "132 + 16 * i \<noteq> 128 + 16 * j" "136 + 16 * i \<noteq> 128 + 16 * j" "140 + 16 * i \<noteq> 128 + 16 * j"
    "128 + 16 * i \<noteq> 132 + 16 * j" "132 + 16 * i \<noteq> 132 + 16 * j" "136 + 16 * i \<noteq> 132 + 16 * j" "140 + 16 * i \<noteq> 132 + 16 * j"
    "128 + 16 * i \<noteq> 140 + 16 * j" "132 + 16 * i \<noteq> 140 + 16 * j" "136 + 16 * i \<noteq> 140 + 16 * j" "140 + 16 * i \<noteq> 140 + 16 * j"
    using assms(3) by presburger+
  have b: "140 + 16 * i < 2 ^ 62" "140 + 16 * j < 2 ^ 62" using assms(1,2) by (simp_all add: PRDT_ENTRIES_def)
  show "prd_base (write_prdt table i phys chunk s) table j = prd_base s table j"
    "prd_count (write_prdt table i phys chunk s) table j = prd_count s table j"
    using b unfolding prd_base_def prd_count_def write_prdt_fields
    by (simp_all only: read_field_write_field f n if_False)
qed

lemma prd_write_same:
  assumes "i < PRDT_ENTRIES" "0 < chunk" "chunk \<le> 4096"
  shows "prd_base (write_prdt table i phys chunk s) table i = phys" "prd_count (write_prdt table i phys chunk s) table i = chunk"
proof -
  have f: "4 dvd 128 + 16 * k" "4 dvd 132 + 16 * k" "4 dvd 136 + 16 * k" "4 dvd 140 + 16 * k" for k :: nat
    by (simp_all add: dvd_add)
  have b: "140 + 16 * i < 2 ^ 62" using assms(1) by (simp add: PRDT_ENTRIES_def)
  have "prd_base (write_prdt table i phys chunk s) table i
      = ucast (ucast phys :: u32) OR push_bit 32 (ucast (ucast (drop_bit 32 phys) :: u32))"
    using b unfolding prd_base_def write_prdt_fields by (simp add: read_field_write_field f del: of_nat_add of_nat_mult)
  also have "\<dots> = phys"
  proof (rule bit_word_eqI)
    fix n assume "n < LENGTH(64)"
    then consider "n < 32" | "32 \<le> n" "n < 64" by force
    then show "bit (ucast (ucast phys :: u32) OR push_bit 32 (ucast (ucast (drop_bit 32 phys) :: u32)) :: usize) n \<longleftrightarrow> bit phys n"
      by cases (simp_all add: bit_simps less_diff_conv2)
  qed
  finally show "prd_base (write_prdt table i phys chunk s) table i = phys" .
  define c :: u32 where "c = word_of_nat (chunk - 1)"
  have m: "(0x3FFFFF :: u32) = mask 22" by (simp add: mask_eq_exp_minus_1)
  have uc: "unat c = chunk - 1" using assms(3) by (simp add: c_def unat_of_nat take_bit_nat_eq_self)
  have h: "take_bit 22 (push_bit 31 1 :: u32) = 0" by simp
  have "((c AND mask 22) OR push_bit 31 1) AND mask 22 = take_bit 22 c"
    unfolding take_bit_eq_mask [symmetric] take_bit_or h by simp
  moreover have "unat (take_bit 22 c) = chunk - 1"
    using assms(3) by (simp add: unsigned_take_bit_eq uc take_bit_nat_eq_self)
  ultimately have "unat (((c AND 0x3FFFFF) OR push_bit 31 1) AND 0x3FFFFF) = chunk - 1" unfolding m by simp
  moreover have "prd_count (write_prdt table i phys chunk s) table i = unat (((c AND 0x3FFFFF) OR push_bit 31 1) AND 0x3FFFFF) + 1"
    using b unfolding prd_count_def write_prdt_fields c_def by (simp only: read_field_write_field f simp_thms if_True)
  ultimately show "prd_count (write_prdt table i phys chunk s) table i = chunk" using assms(2) by simp
qed

lemma unat_add_mod_page: "unat (w + word_of_nat k :: usize) mod 4096 = (unat w + k) mod 4096"
proof -
  have d: "(4096 :: nat) dvd 2 ^ 64" by (rule dvdI [of _ _ "2 ^ 52"]) simp
  have "unat (w + word_of_nat k :: usize) = (unat w + k) mod 2 ^ 64"
    by (simp add: unat_word_ariths(1) unat_of_nat take_bit_eq_mod mod_simps)
  then show ?thesis using mod_mod_cancel [OF d] by simp
qed

text \<open>The contract of the address translation of \<open>Hal\<close>: every address is translated, linearly within a page.\<close>

locale hal_contract =
  fixes vtp :: "usize \<Rightarrow> usize option"
  assumes total: "\<exists>p. vtp v = Some p"
    and page_linear: "vtp v = Some p \<Longrightarrow> unat v mod 4096 + k < 4096 \<Longrightarrow> vtp (v + word_of_nat k) = Some (p + word_of_nat k)"
begin

lemma prdt_loop_covers:
  assumes "virt_to_phys hl = vtp" "offset \<le> len"
    and "offset < len \<longrightarrow> count + (unat (buf + word_of_nat offset) mod 4096 + (len - offset) + 4095) div 4096 \<le> PRDT_ENTRIES"
    and "count \<le> PRDT_ENTRIES"
  shows "\<exists>n s'. prdt_loop hl table buf len offset count s = (Ok n, s') \<and> count \<le> n \<and> n \<le> PRDT_ENTRIES \<and>
    (\<forall>i < count. prd_base s' table i = prd_base s table i \<and> prd_count s' table i = prd_count s table i) \<and>
    map Some (concat (map (prd_bytes s' table) [count..<n])) = map (\<lambda>k. vtp (buf + word_of_nat k)) [offset..<len]"
  using assms
proof (induction "len - offset" arbitrary: offset count s rule: less_induct)
  case less
  show ?case
  proof (cases "offset < len")
    case False
    then show ?thesis using less.prems by (subst prdt_loop.simps) simp
  next
    case True
    define v where "v = buf + word_of_nat offset"
    define chunk where "chunk = min (4096 - unat v mod 4096) (len - offset)"
    have po: "unat v mod 4096 < 4096" by simp
    have c: "0 < chunk" "chunk \<le> 4096" "chunk \<le> len - offset" "unat v mod 4096 + chunk \<le> 4096"
      using True po by (auto simp: chunk_def)
    obtain phys where ph: "vtp v = Some phys" using total by blast
    define s1 where "s1 = write_prdt table count phys chunk s"
    have need: "count + (unat v mod 4096 + (len - offset) + 4095) div 4096 \<le> PRDT_ENTRIES"
      using less.prems(3) True by (simp add: v_def)
    have lt: "count < PRDT_ENTRIES" using need c(1,3) by (auto simp: div_eq_0_iff)
    have step: "prdt_loop hl table buf len offset count s = prdt_loop hl table buf len (offset + chunk) (count + 1) s1"
      using True lt ph less.prems(1) by (subst prdt_loop.simps) (simp add: v_def chunk_def s1_def Let_def)
    have need': "offset + chunk < len \<longrightarrow>
        count + 1 + (unat (buf + word_of_nat (offset + chunk)) mod 4096 + (len - (offset + chunk)) + 4095) div 4096 \<le> PRDT_ENTRIES"
    proof
      assume "offset + chunk < len"
      then have e: "chunk = 4096 - unat v mod 4096" by (auto simp: chunk_def)
      have "unat (buf + word_of_nat (offset + chunk)) mod 4096 = (unat v mod 4096 + chunk) mod 4096"
        using unat_add_mod_page [of v chunk] by (simp add: v_def mod_simps algebra_simps)
      then have z: "unat (buf + word_of_nat (offset + chunk)) mod 4096 = 0" using e po by simp
      have "unat v mod 4096 + (len - offset) + 4095 = (len - (offset + chunk)) + 4095 + 4096"
        using e po \<open>offset + chunk < len\<close> by simp
      then have "(unat v mod 4096 + (len - offset) + 4095) div 4096 = ((len - (offset + chunk)) + 4095) div 4096 + 1" by simp
      then show "count + 1 + (unat (buf + word_of_nat (offset + chunk)) mod 4096 + (len - (offset + chunk)) + 4095) div 4096 \<le> PRDT_ENTRIES"
        using need z by simp
    qed
    have d: "len - (offset + chunk) < len - offset" "offset + chunk \<le> len" "count + 1 \<le> PRDT_ENTRIES"
      using c(1,3) True lt by linarith+
    obtain n s' where ih: "prdt_loop hl table buf len (offset + chunk) (count + 1) s1 = (Ok n, s')" "count + 1 \<le> n" "n \<le> PRDT_ENTRIES"
      "\<forall>i < count + 1. prd_base s' table i = prd_base s1 table i \<and> prd_count s' table i = prd_count s1 table i"
      "map Some (concat (map (prd_bytes s' table) [count + 1..<n])) = map (\<lambda>k. vtp (buf + word_of_nat k)) [offset + chunk..<len]"
      using less.hyps [OF d(1) less.prems(1) d(2) need' d(3), of s1] by blast
    note same = prd_write_same [OF lt c(1,2), of table phys s, folded s1_def]
    have "prd_bytes s' table count = map (\<lambda>k. phys + word_of_nat k) [0..<chunk]"
      using ih(4) same by (simp add: prd_bytes_def)
    moreover have "Some (phys + word_of_nat k) = vtp (buf + word_of_nat (offset + k))" if "k < chunk" for k
      using page_linear [OF ph, of k] that c(4) by (simp add: v_def algebra_simps)
    ultimately have "map Some (prd_bytes s' table count) = map (\<lambda>k. vtp (buf + word_of_nat k)) [offset..<offset + chunk]"
      by (intro nth_equalityI) simp_all
    moreover have "[offset..<len] = [offset..<offset + chunk] @ [offset + chunk..<len]"
      using upt_add_eq_append [of offset "offset + chunk" "len - (offset + chunk)"] d(2) by simp
    ultimately have "map Some (concat (map (prd_bytes s' table) [count..<n])) = map (\<lambda>k. vtp (buf + word_of_nat k)) [offset..<len]"
      using ih(2,5) by (simp add: upt_conv_Cons)
    moreover have "\<forall>i < count. prd_base s' table i = prd_base s table i \<and> prd_count s' table i = prd_count s table i"
      using ih(4) prd_write_other [OF lt] lt by (simp add: s1_def)
    ultimately show ?thesis using step ih(1-3) by auto
  qed
qed

lemma build_prdt_covers:
  assumes "virt_to_phys hl = vtp" "len \<le> MAX_TRANSFER_BYTES"
  shows "\<exists>n s'. build_prdt hl table buf len s = (Ok n, s') \<and> n \<le> PRDT_ENTRIES \<and>
    map Some (concat (map (prd_bytes s' table) [0..<n])) = map (\<lambda>k. vtp (buf + word_of_nat k)) [0..<len]"
proof (cases "len = 0")
  case False
  have "unat buf mod 4096 < 4096" by simp
  then have "(unat buf mod 4096 + len + 4095) div 4096 \<le> PRDT_ENTRIES"
    using assms(2) by (simp add: MAX_TRANSFER_BYTES_def PRDT_ENTRIES_def)
  then show ?thesis
    using prdt_loop_covers [OF assms(1), of 0 len 0 buf table s] assms(2) False by (simp add: build_prdt_def)
qed (simp add: build_prdt_def)

end

end
