(* ===== verification/Pci.thy ===== *)
theory Pci
  imports Ahci Text
begin

text \<open>
  The PCI bus enumerator and the hardware abstraction the AHCI driver runs on (\<^verbatim>\<open>pci.rs\<close>, x86_64 only).
  Configuration space is a device parameter behind the ports 0xCF8 and 0xCFC; what is written to the console is
  returned as a string.
\<close>

section \<open>Configuration space\<close>

abbreviation CONFIG_ADDRESS :: usize where "CONFIG_ADDRESS \<equiv> 0xCF8"
abbreviation CONFIG_DATA :: usize where "CONFIG_DATA \<equiv> 0xCFC"

definition config_address :: "u8 \<Rightarrow> u8 \<Rightarrow> u8 \<Rightarrow> u8 \<Rightarrow> u32" where
  "config_address bus slot func offset =
     push_bit 31 1 OR push_bit 16 (ucast bus) OR push_bit 11 (ucast slot) OR push_bit 8 (ucast func) OR (ucast offset AND 0xFC)"

definition read_config_32 :: "device \<Rightarrow> u8 \<Rightarrow> u8 \<Rightarrow> u8 \<Rightarrow> u8 \<Rightarrow> history \<Rightarrow> u32 \<times> history" where
  "read_config_32 cfg bus slot func offset h =
     (case dev_read cfg CONFIG_DATA (dev_write CONFIG_ADDRESS (ucast (config_address bus slot func offset)) h) of
        (v, h) \<Rightarrow> (ucast v, h))"

definition read_config_16 :: "device \<Rightarrow> u8 \<Rightarrow> u8 \<Rightarrow> u8 \<Rightarrow> u8 \<Rightarrow> history \<Rightarrow> u16 \<times> history" where
  "read_config_16 cfg bus slot func offset h =
     (case read_config_32 cfg bus slot func offset h of
        (v, h) \<Rightarrow> (ucast (drop_bit (unat ((offset AND 2) * 8)) v AND 0xFFFF), h))"

definition read_config_8 :: "device \<Rightarrow> u8 \<Rightarrow> u8 \<Rightarrow> u8 \<Rightarrow> u8 \<Rightarrow> history \<Rightarrow> u8 \<times> history" where
  "read_config_8 cfg bus slot func offset h =
     (case read_config_32 cfg bus slot func offset h of
        (v, h) \<Rightarrow> (ucast (drop_bit (unat ((offset AND 3) * 8)) v AND 0xFF), h))"

section \<open>The hardware abstraction of the kernel\<close>

definition mmio_flags :: MapFlags where
  "mmio_flags = \<lparr>writable = True, user_accessible = False, execute_disable = True, device = True\<rparr>"

text \<open>The pages the mapping loop visits; a page that is already mapped is left as it is.\<close>

definition mmio_pages :: "usize \<Rightarrow> usize \<Rightarrow> usize list" where
  "mmio_pages phys sz =
     (let page_start = phys AND NOT 0xFFF;
          page_end = (phys + max sz 1 + 0xFFF) AND NOT 0xFFF
      in if page_start < page_end
         then map (\<lambda>i. page_start + word_of_nat (4096 * i)) [0..<unat (page_end - page_start) div 4096] else [])"

definition kernel_map_mmio :: "usize \<Rightarrow> usize \<Rightarrow> machine \<Rightarrow> usize \<times> machine" where
  "kernel_map_mmio phys sz s =
     (phys, foldl (\<lambda>s page. snd (x86_map_page (cr3 s AND NOT 0xFFF) page page mmio_flags s)) s (mmio_pages phys sz))"

definition kernel_alloc_dma :: "usize \<Rightarrow> nat \<Rightarrow> machine \<Rightarrow> (usize \<times> usize) option \<times> machine" where
  "kernel_alloc_dma phys_mem_offset sz s =
     (let frames_needed = (sz + 4095) div 4096
      in case alloc_frame s of
           (None, s) \<Rightarrow> (None, s)
         | (Some start_phys, s) \<Rightarrow>
             let virt = start_phys + phys_mem_offset
             in (Some (start_phys, virt), write_bytes virt 0 (word_of_nat (frames_needed * 4096)) s))"

definition kernel_virt_to_phys :: "usize \<Rightarrow> usize \<Rightarrow> usize option" where
  "kernel_virt_to_phys phys_mem_offset virt = Some (virt - phys_mem_offset)"

definition KernelHal :: "usize \<Rightarrow> hal" where
  "KernelHal phys_mem_offset =
     \<lparr>map_mmio = kernel_map_mmio, alloc_dma = kernel_alloc_dma phys_mem_offset, virt_to_phys = kernel_virt_to_phys phys_mem_offset\<rparr>"

interpretation khal: hal_contract "kernel_virt_to_phys phys_mem_offset" for phys_mem_offset
  by unfold_locales (auto simp: kernel_virt_to_phys_def)

section \<open>Enumeration\<close>

record PciDevice =
  pci_bus :: u8
  pci_slot :: u8
  pci_func :: u8
  vendor_id :: u16
  device_id :: u16
  pci_class :: u8
  pci_subclass :: u8
  prog_if :: u8
  bar5 :: u32

definition probe_slot :: "device \<Rightarrow> u8 \<Rightarrow> u8 \<Rightarrow> history \<Rightarrow> PciDevice option \<times> history" where
  "probe_slot cfg bus slot h =
     (let (vendor, h) = read_config_16 cfg bus slot 0 0x00 h
      in if vendor = 0xFFFF then (None, h)
         else let (dev, h) = read_config_16 cfg bus slot 0 0x02 h;
                  (cls, h) = read_config_8 cfg bus slot 0 0x0B h;
                  (sub, h) = read_config_8 cfg bus slot 0 0x0A h;
                  (prog, h) = read_config_8 cfg bus slot 0 0x09 h;
                  (bar, h) = read_config_32 cfg bus slot 0 0x24 h
         in (Some \<lparr>pci_bus = bus, pci_slot = slot, pci_func = 0, vendor_id = vendor, device_id = dev,
                   pci_class = cls, pci_subclass = sub, prog_if = prog, bar5 = bar\<rparr>, h))"

fun scan_slots :: "device \<Rightarrow> (u8 \<times> u8) list \<Rightarrow> history \<Rightarrow> PciDevice list \<times> history" where
  "scan_slots cfg [] h = ([], h)"
| "scan_slots cfg ((bus, slot) # ps) h =
     (case probe_slot cfg bus slot h of (d, h) \<Rightarrow>
        case scan_slots cfg ps h of (ds, h) \<Rightarrow> ((case d of None \<Rightarrow> ds | Some d \<Rightarrow> d # ds), h))"

definition all_slots :: "(u8 \<times> u8) list" where
  "all_slots = concat (map (\<lambda>bus. map (\<lambda>slot. (word_of_nat bus, word_of_nat slot)) [0..<32]) [0..<256])"

definition scan_buses :: "device \<Rightarrow> history \<Rightarrow> PciDevice list \<times> history" where
  "scan_buses cfg h = scan_slots cfg all_slots h"

section \<open>Starting the controllers\<close>

fun show_ahci_error :: "AhciError \<Rightarrow> string" where
  "show_ahci_error NotAnAhciController = ''NotAnAhciController''"
| "show_ahci_error PortNotPresent = ''PortNotPresent''"
| "show_ahci_error DeviceNotAta = ''DeviceNotAta''"
| "show_ahci_error EngineStopTimeout = ''EngineStopTimeout''"
| "show_ahci_error EngineStartTimeout = ''EngineStartTimeout''"
| "show_ahci_error FisReceiveStopTimeout = ''FisReceiveStopTimeout''"
| "show_ahci_error NoFreeCommandSlot = ''NoFreeCommandSlot''"
| "show_ahci_error CommandTimeout = ''CommandTimeout''"
| "show_ahci_error (TaskFileError status err) =
     ''TaskFileError { status: '' @ show_nat (unat status) @ '', error: '' @ show_nat (unat err) @ '' }''"
| "show_ahci_error BufferNotSectorAligned = ''BufferNotSectorAligned''"
| "show_ahci_error BufferTooLargeForOneCommand = ''BufferTooLargeForOneCommand''"
| "show_ahci_error DmaAllocationFailed = ''DmaAllocationFailed''"
| "show_ahci_error AddressTranslationFailed = ''AddressTranslationFailed''"
| "show_ahci_error Requires64BitDma = ''Requires64BitDma''"

definition sata_line :: "AhciPort \<Rightarrow> string" where
  "sata_line p = ''Found SATA Drive on Port '' @ show_nat (unat (port_index p)) @ '': '' @ show_nat (unat (port_sectors p))
     @ '' sectors (LBA48: '' @ (if port_lba48 p then ''true'' else ''false'') @ '')'' @ [CHR 0x0A]"

definition iter_ports :: "AhciController \<Rightarrow> AhciPort list" where
  "iter_ports c = List.map_filter (\<lambda>p. p) (ctrl_ports c)"

fun controller_report :: "(AhciError, AhciController) outcome \<Rightarrow> string" where
  "controller_report (Ok c) = ''AHCI Controller initialized successfully!'' @ [CHR 0x0A]
     @ concat (map sata_line (filter (\<lambda>p. port_kind p = Sata) (iter_ports c)))"
| "controller_report (Err e) = ''Failed to initialize AHCI controller: '' @ show_ahci_error e @ [CHR 0x0A]"
| "controller_report Panic = []"

fun init_controllers :: "device \<Rightarrow> (history \<Rightarrow> machine \<Rightarrow> machine) \<Rightarrow> usize \<Rightarrow> PciDevice list \<Rightarrow> ahci \<Rightarrow> string \<times> ahci" where
  "init_controllers dev dma stack_buf [] st = ([], st)"
| "init_controllers dev dma stack_buf (d # ds) st =
     (if pci_class d = 0x01 \<and> pci_subclass d = 0x06 then
        case ahci_new (KernelHal (hhdm (a_mach st))) dev dma stack_buf (ucast (bar5 d)) st of (r, st) \<Rightarrow>
          (case init_controllers dev dma stack_buf ds st of (out, st) \<Rightarrow> (controller_report r @ out, st))
      else init_controllers dev dma stack_buf ds st)"

definition init_ahci_devices :: "device \<Rightarrow> device \<Rightarrow> (history \<Rightarrow> machine \<Rightarrow> machine) \<Rightarrow> usize \<Rightarrow> history \<Rightarrow> ahci \<Rightarrow> string \<times> history \<times> ahci" where
  "init_ahci_devices cfg dev dma stack_buf h st =
     (case scan_buses cfg h of (ds, h) \<Rightarrow> case init_controllers dev dma stack_buf ds st of (out, st) \<Rightarrow> (out, h, st))"

section \<open>Properties\<close>

lemma kernel_virt_to_phys_hal [simp]: "virt_to_phys (KernelHal off) = kernel_virt_to_phys off"
  by (simp add: KernelHal_def)

text \<open>C40: \<open>KernelHal::alloc_dma\<close> takes one frame from the pool whatever the size, and then clears all the
  frames the size needs: from 4097 bytes on it overwrites frames it does not own. The command tables of a
  controller with 32 slots are 12288 bytes, three frames.\<close>

theorem alloc_dma_clears_unowned_frames:
  assumes "target s = X86_64" "pool_ok s" "sz \<le> 2 ^ 40" "alloc_dma (KernelHal (hhdm s)) sz s = (Some (p, v), s')"
  shows "frame_of p \<in> free_frames (pmm s) \<and> free_frames (pmm s') = free_frames (pmm s) - {frame_of p} \<and>
    (\<forall>x. ram s' x = (if unat (x - p) < (sz + 4095) div 4096 * 4096 then 0 else ram s x))"
proof -
  obtain s1 where a: "alloc_frame s = (Some p, s1)" and s': "s' = write_bytes (p + hhdm s) 0 (word_of_nat ((sz + 4095) div 4096 * 4096)) s1"
    using assms(4) by (auto simp: KernelHal_def kernel_alloc_dma_def Let_def split: prod.splits option.splits)
  note f = alloc_frame_Some [OF a assms(2)]
  have "(sz + 4095) div 4096 * 4096 < 2 ^ 64" using assms(3) by simp
  then have u: "unat (word_of_nat ((sz + 4095) div 4096 * 4096) :: usize) = (sz + 4095) div 4096 * 4096"
    by (simp add: unat_of_nat take_bit_nat_eq_self del: of_nat_mult)
  have "ram s' x = (if unat (x - p) < (sz + 4095) div 4096 * 4096 then 0 else ram s x)" for x
    using f(4) assms(1) unfolding s' by (simp add: write_bytes_def fill_def virt_to_ram_def word_less_nat_alt u del: of_nat_mult)
  moreover have "free_frames (pmm s') = free_frames (pmm s) - {frame_of p}"
    using f(3,4) by (simp add: s' write_bytes_def)
  ultimately show ?thesis using f(3) by blast
qed

definition dma_demo :: machine where
  "dma_demo = \<lparr>target = X86_64, hhdm = 0xFFFF800000000000, ram = (\<lambda>_. 0xAB), pmm = \<lparr>bitmap = [NOT 1]\<rparr>,
     cr3 = 0, ttbr1 = 0, kernel_root = 0\<rparr>"

theorem alloc_dma_clears_unowned_frames_witness:
  "\<exists>p v s'. alloc_dma (KernelHal (hhdm dma_demo)) 12288 dma_demo = (Some (p, v), s') \<and>
     frame_of (p + 4096) \<notin> free_frames (pmm dma_demo) \<and> ram dma_demo (p + 4096) = 0xAB \<and> ram s' (p + 4096) = 0"
proof -
  define s' where "s' = snd (alloc_dma (KernelHal (hhdm dma_demo)) 12288 dma_demo)"
  have a: "fst (alloc_dma (KernelHal (hhdm dma_demo)) 12288 dma_demo) = Some (0, 0xFFFF800000000000)" by code_simp
  then have e: "alloc_dma (KernelHal (hhdm dma_demo)) 12288 dma_demo = (Some (0, 0xFFFF800000000000), s')"
    by (simp add: s'_def prod_eq_iff)
  have h: "target dma_demo = X86_64" "pool_ok dma_demo" by (simp_all add: dma_demo_def pool_ok_def tracked_frames_def)
  have "ram s' 4096 = 0" using alloc_dma_clears_unowned_frames [OF h _ e] by simp
  moreover have "frame_of 4096 \<notin> free_frames (pmm dma_demo)"
    by (simp add: frame_of_def dma_demo_def free_frames_def frame_free_def tracked_frames_def bit_simps)
  moreover have "ram dma_demo 4096 = 0xAB" by (simp add: dma_demo_def)
  ultimately show ?thesis
    using e by (intro exI [of _ 0] exI [of _ "0xFFFF800000000000"] exI [of _ s']) (simp only: add_0 simp_thms)
qed

end
