(* ===== verification/AhciDisk.thy ===== *)
theory AhciDisk
  imports Pci
begin

text \<open>
  Reading sectors through the AHCI driver, end to end. What the controller does when a command is issued is
  specified here as the AHCI and ATA documents describe it: it follows the command header to the command table,
  decodes the command in it, and moves the sectors to the bytes of memory that the scatter list names.
\<close>

section \<open>The controller\<close>

definition fis_lba :: "bytes \<Rightarrow> nat" where
  "fis_lba fis = le_nat [fis ! 4, fis ! 5, fis ! 6, fis ! 8, fis ! 9, fis ! 10]"

definition dma_store :: "usize list \<Rightarrow> bytes \<Rightarrow> (usize \<Rightarrow> u8) \<Rightarrow> usize \<Rightarrow> u8" where
  "dma_store addrs bs m = fold (\<lambda>(a, b) m. m(a := b)) (zip addrs bs) m"

definition header_table :: "machine \<Rightarrow> usize \<Rightarrow> usize" where
  "header_table s hdr = phys_to_virt s (ucast (read_u32 s (hdr + word_of_nat 8)) OR push_bit 32 (ucast (read_u32 s (hdr + word_of_nat 12))))"

definition ahci_transfer :: "(nat \<Rightarrow> u8) \<Rightarrow> usize \<Rightarrow> machine \<Rightarrow> machine" where
  "ahci_transfer disk hdr s =
     (let dw0 = read_u32 s hdr;
          table = header_table s hdr;
          fis = read_bytes s table 20;
          addrs = concat (map (prd_bytes s table) [0..<unat (drop_bit 16 dw0)])
      in if fis ! 2 = ATA_CMD_READ_DMA_EXT \<and> \<not> bit dw0 6
         then s\<lparr>ram := dma_store addrs (map disk [512 * fis_lba fis..<512 * (fis_lba fis + le_nat [fis ! 12, fis ! 13])]) (ram s)\<rparr>
         else s)"

section \<open>Memory\<close>

lemma apart_offsets:
  assumes "x + n \<le> y" "y + m < 2 ^ 62" "0 < n"
  shows "apart (t + word_of_nat x) n (t + word_of_nat y) m"
proof -
  have e: "word_of_nat y - word_of_nat x = (word_of_nat (y - x) :: usize)" using assms by (simp add: of_nat_diff)
  have u: "unat (word_of_nat (y - x) :: usize) = y - x" using assms by (simp add: unat_of_nat take_bit_nat_eq_self del: of_nat_diff)
  have "y - x \<noteq> 0" using assms by simp
  then have "word_of_nat (y - x) \<noteq> (0 :: usize)" using u by (metis unat_0)
  then have "unat (word_of_nat (y - x) :: usize) + unat (- word_of_nat (y - x) :: usize) = 2 ^ 64" by (rule unat_neg)
  moreover have "word_of_nat x - word_of_nat y = (- word_of_nat (y - x) :: usize)" using e by (metis minus_diff_eq)
  ultimately have "unat (word_of_nat x - word_of_nat y :: usize) + (y - x) = 2 ^ 64" using u by simp
  moreover have "(2 :: nat) ^ 64 = 4 * 2 ^ 62" by simp
  ultimately have "m \<le> unat (word_of_nat x - word_of_nat y :: usize)" using assms by linarith
  moreover have "n \<le> unat (word_of_nat y - word_of_nat x :: usize)" unfolding e u using assms by simp
  ultimately show ?thesis by (simp add: apart_def)
qed

lemma read_bytes_append: "read_bytes s p (a + b) = read_bytes s p a @ read_bytes s (p + word_of_nat a) b"
proof (rule nth_equalityI)
  fix i assume "i < length (read_bytes s p (a + b))"
  then have "i < a + b" by (simp add: read_bytes_def)
  then show "read_bytes s p (a + b) ! i = (read_bytes s p a @ read_bytes s (p + word_of_nat a) b) ! i"
    by (auto simp: read_bytes_def nth_append virt_to_ram_def of_nat_diff algebra_simps split: target_arch.split)
qed (simp add: read_bytes_def)

lemma dma_store_other: "x \<notin> set addrs \<Longrightarrow> dma_store addrs bs m x = m x"
proof (induction addrs arbitrary: bs m)
  case (Cons a addrs)
  then show ?case by (cases bs) (auto simp: dma_store_def)
qed (simp add: dma_store_def)

lemma dma_store_nth:
  "distinct addrs \<Longrightarrow> length bs = length addrs \<Longrightarrow> k < length addrs \<Longrightarrow> dma_store addrs bs m (addrs ! k) = bs ! k"
proof (induction addrs arbitrary: bs m k)
  case (Cons a addrs)
  obtain b bs' where bs: "bs = b # bs'" using Cons.prems(2) by (cases bs) auto
  have st: "dma_store (a # addrs) (b # bs') m = dma_store addrs bs' (m(a := b))" by (simp add: dma_store_def)
  show ?case
  proof (cases k)
    case 0
    then show ?thesis using Cons.prems(1) by (simp add: st dma_store_other bs)
  next
    case (Suc j)
    have "dma_store addrs bs' (m(a := b)) (addrs ! j) = bs' ! j"
      by (rule Cons.IH) (use Cons.prems Suc in \<open>simp_all add: bs\<close>)
    then show ?thesis unfolding bs st Suc nth_Cons_Suc .
  qed
qed simp

section \<open>One command\<close>

lemma write_prdt_apart:
  assumes "i < PRDT_ENTRIES" "apart table 384 q m"
  shows "read_bytes (write_prdt table i phys chunk s) q m = read_bytes s q m"
proof -
  have "apart (table + word_of_nat (k + 16 * i)) 4 q m" if "k \<in> {128, 132, 136, 140}" for k
    using assms that by (intro apart_sub [OF assms(2)]) (auto simp: PRDT_ENTRIES_def)
  then show ?thesis unfolding write_prdt_fields by (simp add: read_bytes_write_u32_apart del: of_nat_add of_nat_mult)
qed

lemma machine_static [simp]:
  "target (copy_nonoverlapping bs p s) = target s" "hhdm (copy_nonoverlapping bs p s) = hhdm s"
  "target (write_u32 p v s) = target s" "hhdm (write_u32 p v s) = hhdm s"
  "target (write_prdt table i phys chunk s) = target s" "hhdm (write_prdt table i phys chunk s) = hhdm s"
  by (simp_all add: write_prdt_def write_u32_def copy_nonoverlapping_def Let_def)

lemma prdt_loop_frame:
  assumes "prdt_loop hl table buf len offset count s = (r, s')"
  shows "target s' = target s" "hhdm s' = hhdm s" "apart table 384 q m \<Longrightarrow> read_bytes s' q m = read_bytes s q m"
proof -
  have "target s' = target s \<and> hhdm s' = hhdm s \<and> (apart table 384 q m \<longrightarrow> read_bytes s' q m = read_bytes s q m)"
    using assms
  proof (induction hl table buf len offset count s rule: prdt_loop.induct)
    case (1 hl table buf len offset count s)
    note prems = 1(2) and IH = 1(1)
    show ?case
    proof (cases "offset < len \<and> count < PRDT_ENTRIES \<and> virt_to_phys hl (buf + word_of_nat offset) \<noteq> None")
      case False
      then have "s' = s" using prems by (subst (asm) prdt_loop.simps) (auto simp: Let_def split: if_splits option.splits)
      then show ?thesis by simp
    next
      case True
      then obtain phys where p: "virt_to_phys hl (buf + word_of_nat offset) = Some phys" by auto
      define chunk where "chunk = min (4096 - unat (buf + word_of_nat offset) mod 4096) (len - offset)"
      have "prdt_loop hl table buf len (offset + chunk) (count + 1) (write_prdt table count phys chunk s) = (r, s')"
        using prems True p by (subst (asm) prdt_loop.simps) (simp add: Let_def chunk_def)
      from IH [OF _ _ refl refl _ p, folded chunk_def, OF _ _ refl this] True write_prdt_apart [of count table q m phys chunk s]
      show ?thesis by auto
    qed
  qed
  then show "target s' = target s" "hhdm s' = hhdm s" "apart table 384 q m \<Longrightarrow> read_bytes s' q m = read_bytes s q m" by blast+
qed

text \<open>The controller is idle: it accepts a command, has completed it when the driver looks, and reports no error.\<close>

definition idle_port :: "device \<Rightarrow> AhciPort \<Rightarrow> bool" where
  "idle_port dev p \<longleftrightarrow> (\<forall>h. (ucast (dev h (port_regs p + PORT_TFD)) :: u32) AND (ATA_STS_BSY OR ATA_STS_DRQ) = 0 \<and>
     (ucast (dev h (port_regs p + PORT_TFD)) :: u32) AND ATA_STS_ERR = 0 \<and>
     (ucast (dev h (port_regs p + PORT_SACT)) :: u32) = 0 \<and> (ucast (dev h (port_regs p + PORT_CI)) :: u32) = 0)"

lemma idle_commands:
  assumes "idle_port dev p" "0 < num_slots p"
  shows "\<exists>h. wait_while dev (port_regs p) PORT_TFD (ATA_STS_BSY OR ATA_STS_DRQ) 500000 1000 st = (True, st\<lparr>a_hist := h\<rparr>)"
    "\<exists>h. find_free_slot dev p st = (Ok 0, st\<lparr>a_hist := h\<rparr>)"
    "\<exists>st'. run_command dev dma p 0 st = (Ok (), st') \<and> a_mach st' = dma (Wr (port_regs p + PORT_CI) 1 # a_hist st) (a_mach st)"
proof -
  have t: "\<And>h. (ucast (dev h (port_regs p + PORT_TFD)) :: u32) AND (ATA_STS_BSY OR ATA_STS_DRQ) = 0"
    "\<And>h. (ucast (dev h (port_regs p + PORT_TFD)) :: u32) AND ATA_STS_ERR = 0"
    "\<And>h. (ucast (dev h (port_regs p + PORT_SACT)) :: u32) = 0" "\<And>h. (ucast (dev h (port_regs p + PORT_CI)) :: u32) = 0"
    using assms(1) unfolding idle_port_def by blast+
  have w: "wait_steps (Suc n) dev (port_regs p) PORT_TFD (ATA_STS_BSY OR ATA_STS_DRQ) st =
      (True, st\<lparr>a_hist := Rd (port_regs p + PORT_TFD) (dev (a_hist st) (port_regs p + PORT_TFD)) # a_hist st\<rparr>)" for n
    unfolding wait_steps.simps reg_read_def dev_read_def prod.case t by simp
  show "\<exists>h. wait_while dev (port_regs p) PORT_TFD (ATA_STS_BSY OR ATA_STS_DRQ) 500000 1000 st = (True, st\<lparr>a_hist := h\<rparr>)"
  proof -
    have "(500000 :: nat) div 1000 = Suc 499" by simp
    then show ?thesis unfolding wait_while_def by (simp only: w) blast
  qed
  obtain n where n: "num_slots p = Suc n" using assms(2) by (cases "num_slots p") auto
  have "[0..<Suc n] = 0 # [1..<Suc n]" by (simp add: upt_rec)
  then show "\<exists>h. find_free_slot dev p st = (Ok 0, st\<lparr>a_hist := h\<rparr>)"
    unfolding find_free_slot_def reg_read_def dev_read_def Let_def prod.case n ahci.simps t by (auto simp: t)
  have c: "completion_wait (Suc m) dev (port_regs p) 0 st =
      (True, st\<lparr>a_hist := Rd (port_regs p + PORT_CI) (dev (a_hist st) (port_regs p + PORT_CI)) # a_hist st,
         SLOT_COMPLETION := (SLOT_COMPLETION st)[0 := True], PENDING_SLOTS := PENDING_SLOTS st AND NOT (push_bit 0 1)\<rparr>)" for m st
    unfolding completion_wait.simps reg_read_def dev_read_def prod.case t by simp
  have "(200000 :: nat) = Suc 199999" by simp
  then show "\<exists>st'. run_command dev dma p 0 st = (Ok (), st') \<and> a_mach st' = dma (Wr (port_regs p + PORT_CI) 1 # a_hist st) (a_mach st)"
    unfolding run_command_def Let_def by (simp only: c prod.case) (auto simp: reg_read_def dev_read_def reg_write_def dev_write_def t(2) [simplified])
qed

text \<open>The fields of a read command.\<close>

lemma fis_fields:
  assumes "unat lba < 2 ^ 48"
  shows "length (fis_bytes cmd lba n) = 20" "fis_bytes cmd lba n ! 2 = cmd" "fis_lba (fis_bytes cmd lba n) = unat lba"
    "le_nat [fis_bytes cmd lba n ! 12, fis_bytes cmd lba n ! 13] = unat n"
proof -
  show "length (fis_bytes cmd lba n) = 20" "fis_bytes cmd lba n ! 2 = cmd" by (simp_all add: fis_bytes_def)
  have "[fis_bytes cmd lba n ! 4, fis_bytes cmd lba n ! 5, fis_bytes cmd lba n ! 6, fis_bytes cmd lba n ! 8, fis_bytes cmd lba n ! 9,
      fis_bytes cmd lba n ! 10] = to_le_bytes 6 lba" by (simp add: fis_bytes_def to_le_bytes_def upt_rec)
  then show "fis_lba (fis_bytes cmd lba n) = unat lba" using assms by (simp only: fis_lba_def le_nat_to_le_bytes) simp
  have "[fis_bytes cmd lba n ! 12, fis_bytes cmd lba n ! 13] = to_le_bytes 2 n" by (simp add: fis_bytes_def to_le_bytes_def upt_rec)
  then show "le_nat [fis_bytes cmd lba n ! 12, fis_bytes cmd lba n ! 13] = unat n"
    using unsigned_less [of n, where ?'a = nat] by (simp only: le_nat_to_le_bytes) simp
qed

lemma header_dw0: "n \<le> 9 \<Longrightarrow> unat (drop_bit 16 (5 OR push_bit 6 0 OR push_bit 16 (word_of_nat n) :: u32)) = n"
  "n \<le> 9 \<Longrightarrow> \<not> bit (5 OR push_bit 6 0 OR push_bit 16 (word_of_nat n) :: u32) 6"
proof -
  assume "n \<le> 9"
  then have "n \<in> {0, 1, 2, 3, 4, 5, 6, 7, 8, 9}" by auto
  then show "unat (drop_bit 16 (5 OR push_bit 6 0 OR push_bit 16 (word_of_nat n) :: u32)) = n"
    "\<not> bit (5 OR push_bit 6 0 OR push_bit 16 (word_of_nat n) :: u32) 6" by auto
qed

text \<open>The header and the command of a slot, as \<open>issue_command\<close> writes them.\<close>

lemma prepared_slot:
  assumes ap: "apart hdr 32 table 384" and fis: "length fis = 20"
    and s4: "s4 = copy_nonoverlapping fis table (write_u32 (hdr + 4) 0 (write_u32 hdr dw0 s))"
  shows "read_u32 s4 hdr = dw0" "read_bytes s4 table 20 = fis" "i < PRDT_ENTRIES \<Longrightarrow> prd_bytes s4 table i = prd_bytes s table i"
    "apart hdr 32 q m \<Longrightarrow> apart table 384 q m \<Longrightarrow> read_bytes s4 q m = read_bytes s q m"
    "k \<in> {8, 12} \<Longrightarrow> read_bytes s4 (hdr + word_of_nat k) 4 = read_bytes s (hdr + word_of_nat k) 4"
proof -
  define s3 where "s3 = write_u32 (hdr + 4) 0 (write_u32 hdr dw0 s)"
  have s4': "s4 = copy_nonoverlapping fis table s3" by (simp add: s4 s3_def)
  have from_hdr: "apart table 20 (hdr + word_of_nat k) 4" if "k \<le> 28" for k
    using apart_sub [OF ap, of k 4] apart_sub [of table 384 "hdr + word_of_nat k" 4 0 20] that by (simp add: apart_sym)
  have "read_u32 s3 hdr = dw0"
    using read_field_write_field [of 4 0 hdr 0 "write_u32 hdr dw0 s"] by (simp add: s3_def)
  moreover have "read_bytes s4 hdr 4 = read_bytes s3 hdr 4"
    unfolding s4' using from_hdr [of 0] by (intro read_bytes_copy_apart) (simp add: fis)
  ultimately show "read_u32 s4 hdr = dw0" using read_u32_apart by metis
  show "read_bytes s4 table 20 = fis" unfolding s4' using read_bytes_copy_same [of fis table s3] fis by simp
  have hw: "read_bytes s3 q m = read_bytes s q m" if "apart hdr 8 q m" for q m
  proof -
    have "apart hdr 4 q m" "apart (hdr + 4) 4 q m"
      using apart_sub [OF that, of 0 4] apart_sub [OF that, of 4 4] by simp_all
    then show ?thesis unfolding s3_def by (simp add: read_bytes_write_u32_apart)
  qed
  show "read_bytes s4 q m = read_bytes s q m" if "apart hdr 32 q m" "apart table 384 q m"
    using hw [of q m] apart_sub [OF that(1), of 0 8] apart_sub [OF that(2), of 0 20] by (simp add: s4' read_bytes_copy_apart fis)
  show "read_bytes s4 (hdr + word_of_nat k) 4 = read_bytes s (hdr + word_of_nat k) 4" if "k \<in> {8, 12}"
  proof -
    have k: "8 \<le> k" "k \<le> 28" using that by auto
    have "apart (hdr + word_of_nat 0) 8 (hdr + word_of_nat k) 4" using k by (intro apart_offsets) simp_all
    then show ?thesis using hw [of "hdr + word_of_nat k" 4] from_hdr [OF k(2)] by (simp add: s4' read_bytes_copy_apart fis)
  qed
  have field: "read_u32 s4 (table + word_of_nat x) = read_u32 s (table + word_of_nat x)" if "20 \<le> x" "x + 4 \<le> 384" for x
  proof (rule read_u32_apart)
    have "apart (table + word_of_nat 0) 20 (table + word_of_nat x) 4" using that by (intro apart_offsets) simp_all
    moreover have "apart hdr 8 (table + word_of_nat x) 4"
    proof -
      have "apart (table + word_of_nat x) 4 hdr 32" using ap that by (intro apart_sub [of table 384]) (simp_all add: apart_sym)
      then show ?thesis using apart_sub [of hdr 32 "table + word_of_nat x" 4 0 8] by (simp add: apart_sym)
    qed
    ultimately show "read_bytes s4 (table + word_of_nat x) 4 = read_bytes s (table + word_of_nat x) 4"
      using hw [of "table + word_of_nat x" 4] by (simp add: s4' read_bytes_copy_apart fis)
  qed
  show "prd_bytes s4 table i = prd_bytes s table i" if "i < PRDT_ENTRIES"
    using that field [of "128 + 16 * i"] field [of "132 + 16 * i"] field [of "140 + 16 * i"]
    unfolding prd_bytes_def prd_base_def prd_count_def by (simp add: PRDT_ENTRIES_def)
qed

text \<open>The transfer of a read command.\<close>

lemma transfer_read:
  assumes tbl: "header_table s hdr = table" and x86: "target s = X86_64" and dw0: "unat (drop_bit 16 (read_u32 s hdr)) = c" "\<not> bit (read_u32 s hdr) 6"
    and fis: "read_bytes s table 20 = fis_bytes ATA_CMD_READ_DMA_EXT lba cnt" "unat lba < 2 ^ 48" "512 * unat cnt = len"
    and prd: "concat (map (prd_bytes s table) [0..<c]) = map (\<lambda>k. buf + word_of_nat k - hhdm s) [0..<len]"
    and s': "s' = ahci_transfer disk hdr s"
  shows "target s' = target s" "hhdm s' = hhdm s" "read_bytes s' buf len = map disk [512 * unat lba..<512 * unat lba + len]"
    "apart buf len q m \<Longrightarrow> read_bytes s' q m = read_bytes s q m"
proof -
  define addrs where "addrs = map (\<lambda>k. buf + word_of_nat k - hhdm s) [0..<len]"
  define bs where "bs = map disk [512 * unat lba..<512 * unat lba + len]"
  have e: "s' = s\<lparr>ram := dma_store addrs bs (ram s)\<rparr>"
    using dw0 fis(3) unfolding s' ahci_transfer_def Let_def tbl fis(1) fis_fields [OF fis(2)] dw0(1) prd
    by (simp add: addrs_def bs_def algebra_simps)
  then show "target s' = target s" "hhdm s' = hhdm s" by simp_all
  have "len < 2 ^ 64" using fis(3) unsigned_less [of cnt, where ?'a = nat] by simp
  then have u: "unat (word_of_nat k :: usize) = k" if "k < len" for k using that by (simp add: unat_of_nat take_bit_nat_eq_self)
  have inj: "k = k'" if "k < len" "k' < len" "word_of_nat k = (word_of_nat k' :: usize)" for k k'
    using u [OF that(1)] u [OF that(2)] that(3) by metis
  have d: "distinct addrs" unfolding addrs_def by (auto simp: distinct_map inj_on_def dest: inj)
  have v: "virt_to_ram s' x = x - hhdm s" "virt_to_ram s x = x - hhdm s" for x using x86 by (simp_all add: e virt_to_ram_def)
  have l: "length addrs = len" "length bs = length addrs" by (simp_all add: addrs_def bs_def)
  show "read_bytes s' buf len = map disk [512 * unat lba..<512 * unat lba + len]"
  proof (rule nth_equalityI)
    fix k assume "k < length (read_bytes s' buf len)"
    then have k: "k < len" by (simp add: read_bytes_def)
    have "buf - hhdm s + word_of_nat k = addrs ! k" using k by (simp add: addrs_def algebra_simps)
    then show "read_bytes s' buf len ! k = map disk [512 * unat lba..<512 * unat lba + len] ! k"
      using dma_store_nth [OF d l(2), of k "ram s"] k l by (simp add: read_bytes_def v) (simp add: e bs_def)
  qed (simp add: read_bytes_def)
  assume ap: "apart buf len q m"
  have "ram s' (q - hhdm s + word_of_nat j) = ram s (q - hhdm s + word_of_nat j)" if "j < m" for j
  proof -
    have "q - hhdm s + word_of_nat j \<notin> set addrs"
    proof
      assume "q - hhdm s + word_of_nat j \<in> set addrs"
      then obtain k where k: "k < len" "q - hhdm s + word_of_nat j = buf + word_of_nat k - hhdm s" by (auto simp: addrs_def)
      then have "q - buf + word_of_nat j = word_of_nat k" by (simp add: algebra_simps)
      then show False using apart_byte [OF ap that] u [OF k(1)] k(1) by simp
    qed
    then show ?thesis by (simp add: e dma_store_other)
  qed
  then show "read_bytes s' q m = read_bytes s q m" by (simp add: read_bytes_def v)
qed

text \<open>The driver's memory for slot 0: the header points to the command table, and the two do not overlap.\<close>

definition slot_ready :: "AhciPort \<Rightarrow> machine \<Rightarrow> bool" where
  "slot_ready p s \<longleftrightarrow> target s = X86_64 \<and> header_table s (cmd_header p 0) = cmd_table p 0 \<and> apart (cmd_header p 0) 32 (cmd_table p 0) 384"

lemma slot_ready_keep:
  assumes "slot_ready p s" "target s' = target s" "hhdm s' = hhdm s"
    and "\<And>k. k \<in> {8, 12} \<Longrightarrow> read_bytes s' (cmd_header p 0 + word_of_nat k) 4 = read_bytes s (cmd_header p 0 + word_of_nat k) 4"
  shows "slot_ready p s'"
proof -
  have "read_u32 s' (cmd_header p 0 + word_of_nat 8) = read_u32 s (cmd_header p 0 + word_of_nat 8)"
    "read_u32 s' (cmd_header p 0 + word_of_nat 12) = read_u32 s (cmd_header p 0 + word_of_nat 12)"
    using assms(4) by (intro read_u32_apart; blast)+
  then have "header_table s' (cmd_header p 0) = header_table s (cmd_header p 0)"
    unfolding header_table_def phys_to_virt_def assms(2,3) by (simp only:)
  then show ?thesis using assms(1,2) by (simp add: slot_ready_def)
qed

definition read_ok :: "(nat \<Rightarrow> u8) \<Rightarrow> AhciPort \<Rightarrow> usize \<Rightarrow> nat \<Rightarrow> nat \<Rightarrow> ahci \<Rightarrow> ahci \<Rightarrow> bool" where
  "read_ok disk p buf len start st st' \<longleftrightarrow>
     read_bytes (a_mach st') buf len = map disk [start..<start + len] \<and> slot_ready p (a_mach st') \<and> hhdm (a_mach st') = hhdm (a_mach st) \<and>
     (\<forall>q m. apart (cmd_header p 0) 32 q m \<longrightarrow> apart (cmd_table p 0) 384 q m \<longrightarrow> apart buf len q m \<longrightarrow>
        read_bytes (a_mach st') q m = read_bytes (a_mach st) q m)"

lemma issue_read:
  assumes idle: "idle_port dev p" "0 < num_slots p"
    and dma: "\<And>h s. dma (Wr (port_regs p + PORT_CI) 1 # h) s = ahci_transfer disk (cmd_header p 0) s"
    and ready: "slot_ready p (a_mach st)"
    and len: "0 < len" "len \<le> MAX_TRANSFER_BYTES" "len = 512 * n" and lba: "unat lba < 2 ^ 48"
    and buf: "apart buf len (cmd_header p 0) 32" "apart buf len (cmd_table p 0) 384"
  shows "\<exists>st'. issue_command (KernelHal (hhdm (a_mach st))) dev dma p ATA_CMD_READ_DMA_EXT lba (word_of_nat n) False buf len st = (Ok (), st') \<and>
    read_ok disk p buf len (512 * unat lba) st st'"
proof -
  define off hdr table where "off = hhdm (a_mach st)" and "hdr = cmd_header p 0" and "table = cmd_table p 0"
  obtain h1 where w: "wait_while dev (port_regs p) PORT_TFD (ATA_STS_BSY OR ATA_STS_DRQ) 500000 1000 st = (True, st\<lparr>a_hist := h1\<rparr>)"
    using idle_commands(1) [OF idle] by blast
  obtain h2 where f: "find_free_slot dev p (st\<lparr>a_hist := h1\<rparr>) = (Ok 0, st\<lparr>a_hist := h1\<rparr>\<lparr>a_hist := h2\<rparr>)"
    using idle_commands(2) [OF idle] by blast
  obtain c s1 where b: "build_prdt (KernelHal off) table buf len (a_mach st) = (Ok c, s1)" "c \<le> 9"
    "map Some (concat (map (prd_bytes s1 table) [0..<c])) = map (\<lambda>k. kernel_virt_to_phys off (buf + word_of_nat k)) [0..<len]"
    using khal.build_prdt_covers [OF kernel_virt_to_phys_hal len(2)] unfolding PRDT_ENTRIES_def by blast
  have loop: "prdt_loop (KernelHal off) table buf len 0 0 (a_mach st) = (Ok c, s1)"
    using b(1) len(1,2) by (simp add: build_prdt_def)
  note fr = prdt_loop_frame [OF loop]
  have prd: "concat (map (prd_bytes s1 table) [0..<c]) = map (\<lambda>k. buf + word_of_nat k - off) [0..<len]"
  proof -
    have "map Some (concat (map (prd_bytes s1 table) [0..<c])) = map Some (map (\<lambda>k. buf + word_of_nat k - off) [0..<len])"
      using b(3) by (simp add: kernel_virt_to_phys_def)
    then show ?thesis by (simp only: inj_map_eq_map [OF inj_Some])
  qed
  define s4 where "s4 = copy_nonoverlapping (fis_bytes ATA_CMD_READ_DMA_EXT lba (word_of_nat n)) table
      (write_u32 (hdr + 4) 0 (write_u32 hdr (5 OR push_bit 6 0 OR push_bit 16 (word_of_nat c)) s1))"
  have ap: "apart hdr 32 table 384" using ready by (simp add: slot_ready_def hdr_def table_def)
  note P = prepared_slot [OF ap fis_fields(1) [OF lba] s4_def]
  have st4: "target s4 = target (a_mach st)" "hhdm s4 = off" using fr(1,2) by (simp_all add: s4_def off_def)
  have keep: "read_bytes s1 (hdr + word_of_nat k) 4 = read_bytes (a_mach st) (hdr + word_of_nat k) 4" if "k \<in> {8, 12}" for k
    using fr(3) apart_sub [OF ap, of k 4] that by (auto simp: apart_sym)
  have r4: "slot_ready p s4"
    using slot_ready_keep [OF ready st4(1)] st4(2) P(5) keep by (simp add: hdr_def off_def)
  have "map (prd_bytes s4 table) [0..<c] = map (prd_bytes s1 table) [0..<c]" using P(3) b(2) by (simp add: PRDT_ENTRIES_def)
  then have prd4: "concat (map (prd_bytes s4 table) [0..<c]) = map (\<lambda>k. buf + word_of_nat k - hhdm s4) [0..<len]"
    using prd unfolding st4(2) by (simp only:)
  have "n \<le> 64" using len(2,3) by (simp add: MAX_TRANSFER_BYTES_def PRDT_ENTRIES_def)
  then have n: "512 * unat (word_of_nat n :: u16) = len" using len(3) by (simp add: unat_of_nat take_bit_nat_eq_self)
  define s5 where "s5 = ahci_transfer disk hdr s4"
  have t4: "header_table s4 hdr = table" "target s4 = X86_64" using r4 by (simp_all add: slot_ready_def hdr_def table_def)
  note T = transfer_read [OF t4 _ _ P(2) lba n prd4 s5_def, unfolded P(1), OF header_dw0(1) [OF b(2)] header_dw0(2) [OF b(2)]]
  have r5: "slot_ready p s5"
  proof (rule slot_ready_keep [OF r4 T(1,2)])
    fix k :: nat assume "k \<in> {8, 12}"
    then have "apart (cmd_header p 0 + word_of_nat k) 4 buf len"
      by (intro apart_sub [OF buf(1) [THEN apart_sym [THEN iffD1]]]) auto
    then show "read_bytes s5 (cmd_header p 0 + word_of_nat k) 4 = read_bytes s4 (cmd_header p 0 + word_of_nat k) 4"
      by (intro T(4)) (simp only: apart_sym)
  qed
  define st4 where "st4 = st\<lparr>a_hist := h2, SLOT_COMPLETION := (SLOT_COMPLETION st)[0 := False], PENDING_SLOTS := PENDING_SLOTS st OR push_bit 0 1, a_mach := s4\<rparr>"
  obtain st' where rc: "run_command dev dma p 0 st4 = (Ok (), st')" "a_mach st' = s5"
    using idle_commands(3) [OF idle, of dma st4] by (auto simp: dma s5_def st4_def hdr_def)
  have "issue_command (KernelHal off) dev dma p ATA_CMD_READ_DMA_EXT lba (word_of_nat n) False buf len st = (Ok (), st')"
    using rc(1) b(1) unfolding issue_command_def w prod.case f s4_def st4_def hdr_def table_def by (simp add: Let_def)
  moreover have "read_bytes s5 q m = read_bytes (a_mach st) q m" if "apart hdr 32 q m" "apart table 384 q m" "apart buf len q m" for q m
    using T(4) [OF that(3)] P(4) [OF that(1,2)] fr(3) [OF that(2)] by simp
  ultimately show ?thesis
    using T(2,3) r5 rc(2) st4 by (auto simp: read_ok_def off_def hdr_def table_def)
qed

section \<open>Transfers of any length\<close>

lemma rw_loop_reads:
  assumes idle: "idle_port dev p" "0 < num_slots p"
    and dma: "\<And>h s. dma (Wr (port_regs p + PORT_CI) 1 # h) s = ahci_transfer disk (cmd_header p 0) s"
    and buf: "apart buf len (cmd_header p 0) 32" "apart buf len (cmd_table p 0) 384" "len < 2 ^ 48" "512 dvd len"
    and lba: "unat lba + len div 512 \<le> 2 ^ 48"
    and ready: "slot_ready p (a_mach st)" and fin: "fin \<le> len" "512 dvd fin" "cur = lba + word_of_nat (fin div 512)"
    and pre: "read_bytes (a_mach st) buf fin = map disk [512 * unat lba..<512 * unat lba + fin]"
  shows "\<exists>st'. rw_loop (KernelHal (hhdm (a_mach st))) dev dma p ATA_CMD_READ_DMA_EXT False buf len fin cur st = (Ok (), st') \<and>
    read_bytes (a_mach st') buf len = map disk [512 * unat lba..<512 * unat lba + len] \<and> slot_ready p (a_mach st') \<and>
    (\<forall>q m. apart (cmd_header p 0) 32 q m \<longrightarrow> apart (cmd_table p 0) 384 q m \<longrightarrow> apart buf len q m \<longrightarrow>
       read_bytes (a_mach st') q m = read_bytes (a_mach st) q m)"
  using ready fin pre
proof (induction "len - fin" arbitrary: fin cur st rule: less_induct)
  case less
  show ?case
  proof (cases "fin < len")
    case False
    then have "fin = len" using less.prems(2) by simp
    then show ?thesis using less.prems by (subst rw_loop.simps) simp
  next
    case True
    define chunk where "chunk = min (len - fin) MAX_TRANSFER_BYTES"
    have d: "512 dvd chunk" using buf(4) less.prems(3) True by (auto simp: chunk_def min_def MAX_TRANSFER_BYTES_def PRDT_ENTRIES_def dvd_diff_nat)
    then obtain n where n: "chunk = 512 * n" by (elim dvdE)
    obtain j where j: "fin = 512 * j" using less.prems(3) by (elim dvdE)
    have c: "0 < chunk" "chunk \<le> MAX_TRANSFER_BYTES" "fin + chunk \<le> len"
      using True by (auto simp: chunk_def MAX_TRANSFER_BYTES_def PRDT_ENTRIES_def)
    have "n \<le> 64" using c(2) n by (simp add: MAX_TRANSFER_BYTES_def PRDT_ENTRIES_def)
    have jn: "j + n \<le> len div 512" using c(3) by (simp add: j n less_eq_div_iff_mult_less_eq)
    have uj: "unat (word_of_nat j :: usize) = j" using buf(3) True j by (simp add: unat_of_nat take_bit_nat_eq_self)
    have ucur: "unat cur = unat lba + j"
      using lba jn uj c(1) n unfolding less.prems(4) j by (subst unat_add_lt) simp_all
    have cur: "unat cur < 2 ^ 48" using ucur lba jn c(1) n by simp
    have apc: "apart (buf + word_of_nat fin) chunk (cmd_header p 0) 32" "apart (buf + word_of_nat fin) chunk (cmd_table p 0) 384"
      using apart_sub [OF buf(1) c(3,1)] apart_sub [OF buf(2) c(3,1)] by simp_all
    obtain st1 where st1: "issue_command (KernelHal (hhdm (a_mach st))) dev dma p ATA_CMD_READ_DMA_EXT cur (word_of_nat n) False (buf + word_of_nat fin) chunk st = (Ok (), st1)"
      "read_ok disk p (buf + word_of_nat fin) chunk (512 * unat cur) st st1"
      using issue_read [where dma = dma and disk = disk, OF idle dma less.prems(1) c(1,2) n cur apc] by blast
    note R = st1(2) [unfolded read_ok_def]
    have keep: "read_bytes (a_mach st1) q m = read_bytes (a_mach st) q m"
      if "apart (cmd_header p 0) 32 q m" "apart (cmd_table p 0) 384 q m" "apart (buf + word_of_nat fin) chunk q m" for q m
      using R that by blast
    have same: "read_bytes (a_mach st1) buf fin = read_bytes (a_mach st) buf fin"
    proof (cases "fin = 0")
      case True
      then show ?thesis by (simp add: read_bytes_def)
    next
      case False
      have "apart (buf + word_of_nat 0) fin (buf + word_of_nat fin) chunk" using False c(3) buf(3) by (intro apart_offsets) simp_all
      then show ?thesis using keep [of buf fin] apart_sub [OF buf(1), of 0 fin] apart_sub [OF buf(2), of 0 fin] False less.prems(2)
        by (simp add: apart_sym)
    qed
    have "512 * unat cur = 512 * unat lba + fin" by (simp add: ucur j)
    then have a: "read_bytes (a_mach st1) (buf + word_of_nat fin) chunk = map disk [512 * unat lba + fin..<512 * unat lba + fin + chunk]"
      using R by (simp only:)
    have "[512 * unat lba..<512 * unat lba + (fin + chunk)] = [512 * unat lba..<512 * unat lba + fin] @ [512 * unat lba + fin..<512 * unat lba + fin + chunk]"
      using upt_add_eq_append [of "512 * unat lba" "512 * unat lba + fin" chunk] by (simp add: add.assoc)
    then have pre1: "read_bytes (a_mach st1) buf (fin + chunk) = map disk [512 * unat lba..<512 * unat lba + (fin + chunk)]"
      by (simp only: read_bytes_append a same less.prems(5) map_append)
    have "cur + word_of_nat n = lba + word_of_nat ((fin + chunk) div 512)" using less.prems(4) by (simp add: j n)
    moreover have "len - (fin + chunk) < len - fin" "512 dvd fin + chunk" using c True d less.prems(3) by auto
    ultimately obtain st' where st': "rw_loop (KernelHal (hhdm (a_mach st1))) dev dma p ATA_CMD_READ_DMA_EXT False buf len (fin + chunk) (cur + word_of_nat n) st1 = (Ok (), st')"
      "read_bytes (a_mach st') buf len = map disk [512 * unat lba..<512 * unat lba + len]" "slot_ready p (a_mach st')"
      "\<forall>q m. apart (cmd_header p 0) 32 q m \<longrightarrow> apart (cmd_table p 0) 384 q m \<longrightarrow> apart buf len q m \<longrightarrow> read_bytes (a_mach st') q m = read_bytes (a_mach st1) q m"
      using less.hyps [of "fin + chunk" st1 "cur + word_of_nat n"] R c(3) pre1 by blast
    have "chunk div 512 = n" "ucast (word_of_nat n :: u16) = (word_of_nat n :: usize)"
      using n \<open>n \<le> 64\<close> by (simp_all add: unsigned_ucast_eq word_unat_eq_iff unat_of_nat take_bit_nat_eq_self)
    then have "rw_loop (KernelHal (hhdm (a_mach st))) dev dma p ATA_CMD_READ_DMA_EXT False buf len fin cur st = (Ok (), st')"
      using True st1(1) st'(1) R by (subst rw_loop.simps) (simp add: Let_def chunk_def [symmetric] AHCI_SECTOR_SIZE_def)
    moreover have "read_bytes (a_mach st') q m = read_bytes (a_mach st) q m"
      if "apart (cmd_header p 0) 32 q m" "apart (cmd_table p 0) 384 q m" "apart buf len q m" for q m
      using st'(4) that keep [OF that(1,2) apart_sub [OF that(3) c(3,1)]] by simp
    ultimately show ?thesis using st'(2,3) by blast
  qed
qed


text \<open>\<open>init_port\<close> leaves slot 0 as the read path needs it: its header names the command table.\<close>

lemma init_headers_other:
  assumes "y < 32" "4 dvd y" "\<forall>x \<in> set xs. 1 \<le> x \<and> x \<le> 32"
  shows "read_u32 (init_headers clb ctba xs s) (clb + word_of_nat y) = read_u32 s (clb + word_of_nat y)"
  using assms(3)
proof (induction xs arbitrary: s)
  case (Cons x xs)
  have x: "1 \<le> x" "x \<le> 32" using Cons.prems by simp_all
  have w: "read_u32 (write_u32 (clb + word_of_nat (32 * x + k)) v s) (clb + word_of_nat y) = read_u32 s (clb + word_of_nat y)"
    if "k \<in> {0, 4, 8, 12}" for k v s
    using read_field_write_field [of "32 * x + k" y clb v s] assms x that by (auto simp del: of_nat_add of_nat_mult)
  define t where "t = write_u32 (clb + word_of_nat (32 * x + 12)) (ucast (drop_bit 32 (ctba + word_of_nat (x * CMD_TABLE_STRIDE))))
        (write_u32 (clb + word_of_nat (32 * x + 8)) (ucast (ctba + word_of_nat (x * CMD_TABLE_STRIDE)))
          (write_u32 (clb + word_of_nat (32 * x + 4)) 0 (write_u32 (clb + word_of_nat (32 * x + 0)) 0 s)))"
  have "init_headers clb ctba (x # xs) s = init_headers clb ctba xs t"
    by (simp add: t_def Let_def algebra_simps)
  moreover have "read_u32 t (clb + word_of_nat y) = read_u32 s (clb + word_of_nat y)"
    unfolding t_def by (simp only: w insertI1 insertI2 insert_iff simp_thms)
  moreover have "\<forall>x \<in> set xs. 1 \<le> x \<and> x \<le> 32" using Cons.prems by simp
  ultimately show ?case using Cons.IH [of t] by presburger
qed simp

lemma init_headers_links:
  assumes "0 < slots" "slots \<le> 32"
  shows "header_table (init_headers clb ctba [0..<slots] s) clb = phys_to_virt s ctba"
proof -
  define s1 where "s1 = write_u32 (clb + word_of_nat 12) (ucast (drop_bit 32 ctba)) (write_u32 (clb + word_of_nat 8) (ucast ctba) (write_u32 (clb + word_of_nat 4) 0 (write_u32 clb 0 s)))"
  have "[0..<slots] = 0 # [1..<slots]" using assms(1) by (simp add: upt_conv_Cons)
  then have i: "init_headers clb ctba [0..<slots] s = init_headers clb ctba [1..<slots] s1" by (simp add: s1_def Let_def)
  have e: "read_u32 (write_u32 (clb + word_of_nat 12) v t) (clb + word_of_nat 8) = read_u32 t (clb + word_of_nat 8)" for v t
    using read_field_write_field [of 12 8 clb v t] by simp
  have r: "read_u32 s1 (clb + word_of_nat 8) = ucast ctba" "read_u32 s1 (clb + word_of_nat 12) = ucast (drop_bit 32 ctba)"
    unfolding s1_def by (simp_all only: e read_u32_write_same)
  have k: "read_u32 (init_headers clb ctba [1..<slots] s1) (clb + word_of_nat y) = read_u32 s1 (clb + word_of_nat y)" if "y \<in> {8, 12}" for y
    using assms(2) that by (intro init_headers_other) auto
  have j: "ucast (ucast ctba :: u32) OR push_bit 32 (ucast (ucast (drop_bit 32 ctba) :: u32)) = ctba"
  proof (rule bit_word_eqI)
    fix n assume "n < LENGTH(64)"
    then consider "n < 32" | "32 \<le> n" "n < 64" by force
    then show "bit (ucast (ucast ctba :: u32) OR push_bit 32 (ucast (ucast (drop_bit 32 ctba) :: u32)) :: usize) n \<longleftrightarrow> bit ctba n"
      by cases (simp_all add: bit_simps less_diff_conv2)
  qed
  have st: "target (init_headers clb ctba xs t) = target t \<and> hhdm (init_headers clb ctba xs t) = hhdm t" for xs t
    by (induction xs arbitrary: t) (simp_all add: Let_def)
  have t1: "target s1 = target s" "hhdm s1 = hhdm s" by (simp_all add: s1_def)
  have p: "phys_to_virt (init_headers clb ctba [1..<slots] s1) a = phys_to_virt s a" for a
    using st [of "[1..<slots]" s1] t1 by (simp add: phys_to_virt_def del: One_nat_def split: target_arch.split)
  show ?thesis unfolding header_table_def i p by (simp only: k insertI1 insertI2 insert_iff simp_thms r j)
qed

definition demo_port :: AhciPort where
  "demo_port = \<lparr>port_index = 0, port_regs = 0xFEBB1100, clb_virt = 0xFFFF800000010000, ctba_virt = 0xFFFF800000020000, num_slots = 32,
     port_kind = Sata, port_sectors = 65536, port_lba48 = True\<rparr>"

definition demo_disk :: "nat \<Rightarrow> u8" where
  "demo_disk i = word_of_nat (i div 512)"

definition demo_ahci :: ahci where
  "demo_ahci = \<lparr>a_mach = init_headers 0xFFFF800000010000 0x20000 [0..<32] dma_demo, a_hist = [], AHCI_BASE_VIRT = 0xFEBB1000,
     SLOT_COMPLETION = replicate 32 False, PENDING_SLOTS = 0\<rparr>"


end
