(* ===== verification/Mmu.thy ===== *)
theory Mmu
  imports Vmm
begin

text \<open>
  Turning the MMU of AArch64 on (\<^verbatim>\<open>mmu.rs\<close>). The root table and the translation base register are the fields
  \<open>kernel_root\<close> and \<open>cr3\<close> of the machine; the other system registers are a record, and the value read from the
  feature register and the old control register are arguments.
\<close>

section \<open>The kernel's identity map\<close>

definition identity_map_range :: "usize \<Rightarrow> usize \<Rightarrow> usize \<Rightarrow> MapFlags \<Rightarrow> machine \<Rightarrow> machine" where
  "identity_map_range root base sz flags s =
     fold (\<lambda>i s. snd (a64_map_page root (base + word_of_nat i * 4096) (base + word_of_nat i * 4096) flags s))
       [0..<unat ((sz + 4096 - 1) div 4096)] s"

definition normal_flags :: MapFlags where
  "normal_flags = \<lparr>writable = True, user_accessible = False, execute_disable = False, device = False\<rparr>"

definition device_flags :: MapFlags where
  "device_flags = \<lparr>writable = True, user_accessible = False, execute_disable = True, device = True\<rparr>"

text \<open>\<open>KERNEL_IDENTITY_MAP_SIZE\<close>, \<open>LOCAL_BASE\<close>, \<open>GPIO_BASE\<close>, \<open>UART0_BASE\<close>, and \<open>FB_ADDR\<close> with \<open>FB_SIZE\<close>.\<close>

definition mmu_ranges :: "(usize \<times> usize \<times> MapFlags) list" where
  "mmu_ranges = [(0x0, 32 * 1024 * 1024, normal_flags), (0x40000000, 4096, device_flags), (0x3F200000, 4096, device_flags),
     (0x3F201000, 4096, device_flags), (0xFD000000, 4096 * 768, device_flags)]"

record mmu_regs =
  mair_el1 :: u64
  tcr_el1 :: u64
  sctlr_el1 :: u64

definition mmu_tcr :: "u64 \<Rightarrow> u64" where
  "mmu_tcr mmfr0 =
     (let ips = mmfr0 AND 0xF
      in 16 OR push_bit 8 1 OR push_bit 10 1 OR push_bit 12 3 OR push_bit 14 0 OR push_bit 16 16 OR push_bit 23 1 OR push_bit 30 2
         OR push_bit 32 ips)"

text \<open>\<open>None\<close> is the endless loop after a failed allocation of the root table.\<close>

definition mmu_init :: "u64 \<Rightarrow> u64 \<Rightarrow> machine \<Rightarrow> (mmu_regs \<times> machine) option" where
  "mmu_init mmfr0 sctlr s =
     (case alloc_frame s of
        (None, s) \<Rightarrow> None
      | (Some root_frame, s) \<Rightarrow>
          let s = write_bytes root_frame 0 4096 s;
              s = fold (\<lambda>(base, sz, flags). identity_map_range root_frame base sz flags) mmu_ranges s
          in Some (\<lparr>mair_el1 = 0xFF, tcr_el1 = mmu_tcr mmfr0, sctlr_el1 = sctlr OR push_bit 0 1 OR push_bit 2 1 OR push_bit 12 1\<rparr>,
                   s\<lparr>kernel_root := root_frame, cr3 := root_frame\<rparr>))"

section \<open>Pages that are mapped to themselves\<close>

definition low48 :: "usize \<Rightarrow> bool" where
  "low48 w \<longleftrightarrow> unat w < 2 ^ 48"

lemma same_page_low48:
  assumes "low48 v" "low48 w"
  shows "same_page v w \<longleftrightarrow> unat v div 4096 = unat w div 4096"
proof -
  have "unat (take_bit 36 (drop_bit 12 x)) = unat x div 4096" if "low48 x" for x :: usize
  proof -
    have "unat x div 4096 < 2 ^ 36" using that by (simp add: low48_def less_mult_imp_div_less)
    then show ?thesis by (simp add: unsigned_take_bit_eq unsigned_drop_bit_eq drop_bit_eq_div unat_div take_bit_nat_eq_self)
  qed
  then show ?thesis using assms by (simp add: same_page_def word_unat_eq_iff)
qed

lemma unat_page_offset_and: "unat (w AND 0xFFF) = unat w mod 4096" for w :: usize
proof -
  have m12: "(0xFFF :: usize) = mask 12" by (simp add: mask_numeral)
  show ?thesis unfolding m12 by (simp add: take_bit_eq_mask [symmetric] take_bit_eq_mod unat_mod)
qed

lemma same_page_identity:
  assumes "page_aligned p" "low48 p" "low48 w" "same_page w p"
  shows "p + (w AND 0xFFF) = w"
proof -
  obtain k where k: "unat p = 4096 * k" using page_aligned_mult [OF assms(1)] .
  have "unat w div 4096 = k" using same_page_low48 [OF assms(3,2)] assms(4) k by simp
  then have w: "unat w = unat p + unat w mod 4096" using k by (metis mult_div_mod_eq)
  have "unat (p + (w AND 0xFFF)) = unat p + unat w mod 4096"
    using w unsigned_less [of w, where ?'a = nat] by (subst unat_add_lt) (simp_all add: unat_page_offset_and)
  then show ?thesis using w by (simp add: word_unat_eq_iff)
qed

text \<open>The root maps the pages \<open>M\<close> to themselves, out of reach of user code, and nothing else.\<close>

definition identity_tree :: "machine \<Rightarrow> usize \<Rightarrow> usize set \<Rightarrow> bool" where
  "identity_tree s root M \<longleftrightarrow> target s = AArch64 \<and> owned_tree (ops s) UNIV 3 s root \<and>
     (\<forall>w. if \<exists>p \<in> M. same_page w p
          then \<exists>p \<in> M. \<exists>flags. same_page w p \<and> \<not> user_accessible flags \<and> leaf_entry (ops s) s root w = pte_leaf (ops s) p flags
          else \<not> pte_present (ops s) (leaf_entry (ops s) s root w))"

lemma same_page_equiv: "same_page v w \<Longrightarrow> same_page v u \<longleftrightarrow> same_page w u" "same_page v v"
  by (auto simp: same_page_def)

lemma identity_tree_step:
  assumes "identity_tree s root M" "p AND 0xFFF = 0" "\<not> user_accessible flags" "3 \<le> card (free_frames (pmm s))"
    and "a64_map_page root p p flags s = (r, s')"
  shows "identity_tree s' root (insert p M)" "card (free_frames (pmm s)) \<le> card (free_frames (pmm s')) + 3"
proof -
  have tr: "owned_tree (ops s) UNIV 3 s root" and t: "target s = AArch64"
    and cov: "if \<exists>q \<in> M. same_page w q
          then \<exists>q \<in> M. \<exists>flags. same_page w q \<and> \<not> user_accessible flags \<and> leaf_entry (ops s) s root w = pte_leaf (ops s) q flags
          else \<not> pte_present (ops s) (leaf_entry (ops s) s root w)" for w
    using assms(1) unfolding identity_tree_def by blast+
  have "arch_map_page root p p flags s = (r, s')" using assms(5) t by (simp add: arch_map_page_def)
  note M = map_page_leaf [OF tr order_refl _ UNIV_I _ this, simplified]
  show "card (free_frames (pmm s)) \<le> card (free_frames (pmm s')) + 3" by (rule M(8))
  have r: "r = (if pte_present (ops s) (leaf_entry (ops s) s root p) then Err AlreadyMapped else Ok ())"
    using M(4) assms(2,4) by auto
  have pres: "pte_present (ops s) (leaf_entry (ops s) s root p) \<longleftrightarrow> (\<exists>q \<in> M. same_page p q)"
    using cov [of p] by (auto simp: arch.present_leaf split: if_splits)
  have "if \<exists>q \<in> insert p M. same_page w q
     then \<exists>q \<in> insert p M. \<exists>flags. same_page w q \<and> \<not> user_accessible flags \<and> leaf_entry (ops s) s' root w = pte_leaf (ops s) q flags
     else \<not> pte_present (ops s) (leaf_entry (ops s) s' root w)" for w
  proof (cases "same_page w p")
    case True
    have c: "(\<exists>q \<in> M. same_page w q) \<longleftrightarrow> (\<exists>q \<in> M. same_page p q)" using same_page_equiv(1) [OF True] by blast
    show ?thesis
    proof (cases "\<exists>q \<in> M. same_page p q")
      case True
      then have "leaf_entry (ops s) s' root w = leaf_entry (ops s) s root w" using M(3) r pres by simp
      then show ?thesis using cov [of w] c True \<open>same_page w p\<close> by auto
    next
      case False
      then have "leaf_entry (ops s) s' root w = pte_leaf (ops s) p flags" using M(3) r pres \<open>same_page w p\<close> by simp
      then show ?thesis using assms(3) \<open>same_page w p\<close> by auto
    qed
  next
    case False
    then have "leaf_entry (ops s) s' root w = leaf_entry (ops s) s root w" using M(3) by simp
    then show ?thesis using cov [of w] False by (auto split: if_splits)
  qed
  then show "identity_tree s' root (insert p M)"
    unfolding identity_tree_def M(2) using M(1) t by blast
qed

lemma page_offset_add: "base AND 0xFFF = 0 \<Longrightarrow> (base + k * 4096) AND 0xFFF = 0" for base :: usize
proof -
  assume "base AND 0xFFF = 0"
  then have b: "unat base mod 4096 = 0" using unat_page_offset_and [of base] by simp
  have d: "(4096 :: nat) dvd 2 ^ 64" by (rule dvdI [of _ _ "2 ^ 52"]) simp
  have "unat (base + k * 4096) mod 4096 = (unat base + unat k * 4096) mod 2 ^ 64 mod 4096"
    by (simp add: unat_word_ariths mod_simps)
  also have "\<dots> = 0" using mod_mod_cancel [OF d, of "unat base + unat k * 4096"] b by simp
  finally show ?thesis using unat_page_offset_and [of "base + k * 4096"] by (simp add: unat_eq_0)
qed

definition range_pages :: "usize \<Rightarrow> usize \<Rightarrow> usize set" where
  "range_pages base sz = (\<lambda>i. base + word_of_nat i * 4096) ` {..<unat ((sz + 4096 - 1) div 4096)}"

lemma identity_map_pages:
  assumes "identity_tree s root M" "base AND 0xFFF = 0" "\<not> user_accessible flags" "3 * length is' \<le> card (free_frames (pmm s))"
    and "s' = fold (\<lambda>i s. snd (a64_map_page root (base + word_of_nat i * 4096) (base + word_of_nat i * 4096) flags s)) is' s"
  shows "identity_tree s' root (M \<union> (\<lambda>i. base + word_of_nat i * 4096) ` set is')"
    "card (free_frames (pmm s)) \<le> card (free_frames (pmm s')) + 3 * length is'"
proof -
  have "identity_tree s' root (M \<union> (\<lambda>i. base + word_of_nat i * 4096) ` set is') \<and>
    card (free_frames (pmm s)) \<le> card (free_frames (pmm s')) + 3 * length is'"
    using assms
  proof (induction is' arbitrary: s M)
    case (Cons i is')
    obtain r s1 where m: "a64_map_page root (base + word_of_nat i * 4096) (base + word_of_nat i * 4096) flags s = (r, s1)" by fastforce
    have al: "(base + word_of_nat i * 4096) AND 0xFFF = 0" using Cons.prems(2) by (rule page_offset_add)
    have c: "3 \<le> card (free_frames (pmm s))" using Cons.prems(4) by simp
    note st = identity_tree_step [OF Cons.prems(1) al Cons.prems(3) c m]
    have l: "3 * length is' \<le> card (free_frames (pmm s1))" using st(2) Cons.prems(4) by simp
    have f: "s' = fold (\<lambda>i s. snd (a64_map_page root (base + word_of_nat i * 4096) (base + word_of_nat i * 4096) flags s)) is' s1"
      using Cons.prems(5) m by simp
    have "M \<union> (\<lambda>i. base + word_of_nat i * 4096) ` set (i # is') =
        insert (base + word_of_nat i * 4096) M \<union> (\<lambda>i. base + word_of_nat i * 4096) ` set is'" by auto
    with Cons.IH [OF st(1) Cons.prems(2,3) l f] st(2) show ?case by (simp only: list.size) simp
  qed simp
  then show "identity_tree s' root (M \<union> (\<lambda>i. base + word_of_nat i * 4096) ` set is')"
    "card (free_frames (pmm s)) \<le> card (free_frames (pmm s')) + 3 * length is'" by blast+
qed

lemma identity_map_range_pages:
  assumes "identity_tree s root M" "base AND 0xFFF = 0" "\<not> user_accessible flags"
    and "3 * unat ((sz + 4096 - 1) div 4096) \<le> card (free_frames (pmm s))"
  shows "identity_tree (identity_map_range root base sz flags s) root (M \<union> range_pages base sz)"
    "card (free_frames (pmm s)) \<le> card (free_frames (pmm (identity_map_range root base sz flags s))) + 3 * unat ((sz + 4096 - 1) div 4096)"
  using identity_map_pages [OF assms(1-3), of "[0..<unat ((sz + 4096 - 1) div 4096)]", OF _ refl] assms(4)
  by (simp_all add: identity_map_range_def range_pages_def atLeast0LessThan)

text \<open>The pages of a range cover exactly its bytes.\<close>

lemma range_pages_cover:
  assumes "unat base mod 4096 = 0" "unat sz = 4096 * n" "unat base + unat sz < 2 ^ 48" "low48 w"
  shows "(\<exists>p \<in> range_pages base sz. same_page w p) \<longleftrightarrow> base \<le> w \<and> w < base + sz"
proof -
  obtain b where b: "unat base = 4096 * b" using assms(1) by (auto simp: mod_eq_0_iff_dvd)
  have "sz + 4096 - 1 = sz + 4095" by simp
  then have "unat (sz + 4096 - 1) = 4096 * n + 4095"
    using assms(2,3) by (simp only:) (subst unat_add_lt, simp_all)
  then have pages: "unat ((sz + 4096 - 1) div 4096) = n" by (simp add: unat_div)
  have p: "unat (base + word_of_nat i * 4096) = 4096 * (b + i)" if "i < n" for i
  proof -
    have "4096 * i < 2 ^ 48" using that assms(2,3) by simp
    then have "unat (word_of_nat (i * 4096) :: usize) = i * 4096"
      by (simp only: unat_of_nat) (simp add: take_bit_nat_eq_self)
    then show ?thesis using b that assms(2,3) by (subst unat_add_lt) (simp_all add: of_nat_mult)
  qed
  have "same_page w (base + word_of_nat i * 4096) \<longleftrightarrow> unat w div 4096 = b + i" if "i < n" for i
    using same_page_low48 [OF assms(4), of "base + word_of_nat i * 4096"] p [OF that] that assms(2,3) b by (simp add: low48_def)
  then have "(\<exists>p \<in> range_pages base sz. same_page w p) \<longleftrightarrow> (\<exists>i < n. unat w div 4096 = b + i)"
    unfolding range_pages_def pages by auto
  also have "\<dots> \<longleftrightarrow> b \<le> unat w div 4096 \<and> unat w div 4096 < b + n"
  proof
    assume "b \<le> unat w div 4096 \<and> unat w div 4096 < b + n"
    then show "\<exists>i < n. unat w div 4096 = b + i" by (intro exI [of _ "unat w div 4096 - b"]) linarith
  qed auto
  also have "\<dots> \<longleftrightarrow> 4096 * b \<le> unat w \<and> unat w < 4096 * b + 4096 * n"
    by (simp add: less_eq_div_iff_mult_less_eq div_less_iff_less_mult algebra_simps)
  also have "unat (base + sz) = 4096 * b + 4096 * n" using assms(2,3) b by (subst unat_add_lt) simp_all
  then have "4096 * b \<le> unat w \<and> unat w < 4096 * b + 4096 * n \<longleftrightarrow> base \<le> w \<and> w < base + sz"
    by (simp add: word_le_nat_alt word_less_nat_alt b)
  finally show ?thesis .
qed

section \<open>The map after initialisation\<close>

lemma identity_tree_empty:
  assumes "target s = AArch64" "pool_ok s" "alloc_frame s = (Some root, s1)"
  shows "identity_tree (write_bytes root 0 4096 s1) root {}" "card (free_frames (pmm s)) = card (free_frames (pmm (write_bytes root 0 4096 s1))) + 1"
proof -
  note f = alloc_frame_Some [OF assms(3,2)]
  have t: "target s1 = AArch64" using assms(1) f(4) by simp
  have w: "write_bytes root 0 4096 s1 = zero_page root s1" using t by simp
  have e: "entry (zero_page root s1) root i = 0" if "i < 512" for i
    using entry_zero_page [OF f(1,1) that, of s1] by simp
  have fr: "frame_of root \<notin> free_frames (pmm (zero_page root s1))" using f(4) by simp
  have ow: "owned_tree (ops (zero_page root s1)) UNIV 3 (zero_page root s1) root"
    by (rule owned_tree_empty [OF f(1) _ fr]) (use assms(2) f(4) e in \<open>simp_all add: pool_ok_def arch.absent_zero\<close>)
  have "leaf_entry (ops (zero_page root s1)) (zero_page root s1) root v = 0" for v
    using e path_valid(1) [of v UNIV] by (simp add: leaf_entry_def leaf_at_def upper_path_def child_def valid_path_def arch.absent_zero Let_def)
  then have nl: "\<not> pte_present (ops (zero_page root s1)) (leaf_entry (ops (zero_page root s1)) (zero_page root s1) root v)" for v
    by (simp only: arch.absent_zero simp_thms)
  have t0: "target (zero_page root s1) = AArch64" using t by simp
  show "identity_tree (write_bytes root 0 4096 s1) root {}"
    unfolding w identity_tree_def bex_empty if_False using ow t0 nl by blast
  show "card (free_frames (pmm s)) = card (free_frames (pmm (write_bytes root 0 4096 s1))) + 1"
    unfolding w using card.remove [OF finite_free_frames f(3)] by (simp add: f(4))
qed

lemma identity_tree_translate:
  assumes "identity_tree s root M" "\<forall>p \<in> M. p AND 0xFFF = 0 \<and> low48 p" "low48 w"
  shows "a64_translate_addr s root w = (if \<exists>p \<in> M. same_page w p then Some w else None)" "\<not> page_is_user_accessible s root w b"
proof -
  have tr: "owned_tree (ops s) UNIV 3 s root" and t: "target s = AArch64" using assms(1) unfolding identity_tree_def by blast+
  have a: "a64_translate_addr s root w = arch_translate_addr s root w" using t by (simp add: arch_translate_addr_def)
  show "a64_translate_addr s root w = (if \<exists>p \<in> M. same_page w p then Some w else None)" "\<not> page_is_user_accessible s root w b"
  proof (atomize (full), cases "\<exists>p \<in> M. same_page w p")
    case True
    then obtain p flags where p: "p \<in> M" "same_page w p" "\<not> user_accessible flags" "leaf_entry (ops s) s root w = pte_leaf (ops s) p flags"
      using assms(1) unfolding identity_tree_def by meson
    have al: "page_aligned p" "low48 p" using assms(2) p(1) by (simp_all add: page_aligned_def)
    have "pte_addr (ops s) (leaf_entry (ops s) s root w) = p" using al arch.addr_id [OF al(1)] by (simp add: p(4) arch.addr_leaf low48_def)
    then have "arch_translate_addr s root w = Some (p + (w AND 0xFFF))"
      using translate_leaf [OF tr UNIV_I, of w] by (simp add: p(4) arch.present_leaf)
    then show "a64_translate_addr s root w = (if \<exists>p \<in> M. same_page w p then Some w else None) \<and> \<not> page_is_user_accessible s root w b"
      using True same_page_identity [OF al assms(3) p(2)] p(3) by (simp add: a page_is_user_accessible_leaf p(4) arch.user_leaf)
  next
    case False
    then have "\<not> pte_present (ops s) (leaf_entry (ops s) s root w)" using assms(1) unfolding identity_tree_def by meson
    then show "a64_translate_addr s root w = (if \<exists>p \<in> M. same_page w p then Some w else None) \<and> \<not> page_is_user_accessible s root w b"
      using translate_leaf [OF tr UNIV_I, of w] False by (simp add: a page_is_user_accessible_leaf)
  qed
qed

definition range_count :: "usize \<times> usize \<times> MapFlags \<Rightarrow> nat" where
  "range_count = (\<lambda>(base, sz, flags). unat ((sz + 4096 - 1) div 4096))"

lemma identity_map_ranges:
  assumes "identity_tree s root M" "\<forall>(base, sz, flags) \<in> set rs. base AND 0xFFF = 0 \<and> \<not> user_accessible flags"
    and "3 * sum_list (map range_count rs) \<le> card (free_frames (pmm s))"
  shows "identity_tree (fold (\<lambda>(base, sz, flags). identity_map_range root base sz flags) rs s) root
    (M \<union> (\<Union>(base, sz, flags) \<in> set rs. range_pages base sz))"
  using assms
proof (induction rs arbitrary: s M)
  case (Cons r rs)
  obtain base sz flags where r: "r = (base, sz, flags)" using prod_cases3 by blast
  have h: "base AND 0xFFF = 0" "\<not> user_accessible flags" "3 * unat ((sz + 4096 - 1) div 4096) \<le> card (free_frames (pmm s))"
    using Cons.prems(2,3) by (simp_all add: r range_count_def)
  note st = identity_map_range_pages [OF Cons.prems(1) h]
  have "3 * sum_list (map range_count rs) \<le> card (free_frames (pmm (identity_map_range root base sz flags s)))"
    using st(2) Cons.prems(3) by (simp add: r range_count_def)
  from Cons.IH [OF st(1) _ this] Cons.prems(2) show ?case by (simp add: r Un_assoc)
qed simp

lemma roots_not_walked [simp]:
  "a64_translate_addr (s\<lparr>kernel_root := a, cr3 := b\<rparr>) root w = a64_translate_addr s root w"
  "page_is_user_accessible (s\<lparr>kernel_root := a, cr3 := b\<rparr>) root w wr = page_is_user_accessible s root w wr"
proof -
  have r: "read_u64 (s\<lparr>kernel_root := a, cr3 := b\<rparr>) = read_u64 s"
    by (intro ext) (simp add: read_u64_def virt_to_ram_def split: target_arch.split)
  have p: "phys_to_virt (s\<lparr>kernel_root := a, cr3 := b\<rparr>) = phys_to_virt s" "target (s\<lparr>kernel_root := a, cr3 := b\<rparr>) = target s"
    by (intro ext, simp add: phys_to_virt_def split: target_arch.split) simp
  have c: "present_child (s\<lparr>kernel_root := a, cr3 := b\<rparr>) = present_child s"
    by (intro ext) (simp only: present_child_def p)
  show "a64_translate_addr (s\<lparr>kernel_root := a, cr3 := b\<rparr>) root w = a64_translate_addr s root w"
    unfolding a64_translate_addr_def r ..
  show "page_is_user_accessible (s\<lparr>kernel_root := a, cr3 := b\<rparr>) root w wr = page_is_user_accessible s root w wr"
    unfolding page_is_user_accessible_def r p c ..
qed

lemma mmu_ranges_cover:
  assumes "low48 w"
  shows "(\<exists>p \<in> (\<Union>(base, sz, flags) \<in> set mmu_ranges. range_pages base sz). same_page w p) \<longleftrightarrow>
    (\<exists>(base, sz, flags) \<in> set mmu_ranges. base \<le> w \<and> w < base + sz)"
proof -
  have "(\<exists>p \<in> range_pages base sz. same_page w p) \<longleftrightarrow> base \<le> w \<and> w < base + sz" if "(base, sz, flags) \<in> set mmu_ranges" for base sz flags
    by (rule range_pages_cover [where n = "unat sz div 4096"]) (use that assms in \<open>auto simp: mmu_ranges_def\<close>)
  then show ?thesis by fastforce
qed

lemma mmu_pages_low48:
  assumes "p \<in> (\<Union>(base, sz, flags) \<in> set mmu_ranges. range_pages base sz)"
  shows "p AND 0xFFF = 0 \<and> low48 p"
proof -
  obtain base sz flags i where r: "(base, sz, flags) \<in> set mmu_ranges" "p = base + word_of_nat i * 4096" "i < unat ((sz + 4096 - 1) div 4096)"
    using assms by (auto simp: range_pages_def)
  have b: "base AND 0xFFF = 0" "unat base < 2 ^ 40" using r(1) by (auto simp: mmu_ranges_def)
  have "unat ((sz + 4096 - 1) div 4096) \<le> 8192" using r(1) by (auto simp: mmu_ranges_def)
  then have "i < 8192" using r(3) by simp
  then have u: "unat (word_of_nat i * 4096 :: usize) = i * 4096" by (simp add: unat_word_ariths unat_of_nat take_bit_nat_eq_self)
  then have "unat p = unat base + i * 4096" using b(2) \<open>i < 8192\<close> unfolding r(2) by (subst unat_add_lt) simp_all
  then show ?thesis using b \<open>i < 8192\<close> page_offset_add [OF b(1)] by (simp add: r(2) low48_def)
qed

text \<open>C26: Switching the MMU on keeps the kernel running. With 26890 free frames (three for each of the 8963 pages, and the
  root), \<open>mmu::init\<close> returns; the new root, which every process table is later copied from, translates each address
  of the kernel's memory, the device registers and the framebuffer to itself and every other address below
  \<open>2^48\<close> to nothing, no page is accessible to user code, translation is on and the unused upper half is disabled.\<close>

theorem mmu_init_identity_maps:
  assumes "target s = AArch64" "pool_ok s" "26890 \<le> card (free_frames (pmm s))"
  shows "\<exists>regs s'. mmu_init mmfr0 sctlr s = Some (regs, s') \<and> kernel_root s' = cr3 s' \<and>
    (\<forall>w. low48 w \<longrightarrow>
       a64_translate_addr s' (cr3 s') w = (if \<exists>(base, sz, flags) \<in> set mmu_ranges. base \<le> w \<and> w < base + sz then Some w else None) \<and>
       \<not> page_is_user_accessible s' (cr3 s') w False) \<and>
    bit (sctlr_el1 regs) 0 \<and> bit (tcr_el1 regs) 23"
proof -
  obtain root s1 where a: "alloc_frame s = (Some root, s1)"
    using alloc_frame_None [of s] assms(3) by (cases "alloc_frame s"; cases "fst (alloc_frame s)") fastforce+
  define s2 where "s2 = fold (\<lambda>(base, sz, flags). identity_map_range root base sz flags) mmu_ranges (write_bytes root 0 4096 s1)"
  note e = identity_tree_empty [OF assms(1,2) a]
  have r: "\<forall>(base, sz, flags) \<in> set mmu_ranges. base AND 0xFFF = 0 \<and> \<not> user_accessible flags"
    by (simp add: mmu_ranges_def normal_flags_def device_flags_def)
  have "sum_list (map range_count mmu_ranges) = 8963" by (simp add: mmu_ranges_def range_count_def)
  then have "3 * sum_list (map range_count mmu_ranges) \<le> card (free_frames (pmm (write_bytes root 0 4096 s1)))" using e(2) assms(3) by simp
  note it = identity_map_ranges [OF e(1) r this, folded s2_def, unfolded Un_empty_left]
  have "\<forall>p \<in> (\<Union>(base, sz, flags) \<in> set mmu_ranges. range_pages base sz). p AND 0xFFF = 0 \<and> low48 p" using mmu_pages_low48 by blast
  note T = identity_tree_translate [OF it this]
  have "\<forall>w. low48 w \<longrightarrow> a64_translate_addr s2 root w = (if \<exists>(base, sz, flags) \<in> set mmu_ranges. base \<le> w \<and> w < base + sz then Some w else None) \<and>
       \<not> page_is_user_accessible s2 root w False"
    using T by (simp only: mmu_ranges_cover) blast
  moreover have "mmu_init mmfr0 sctlr s = Some (\<lparr>mair_el1 = 0xFF, tcr_el1 = mmu_tcr mmfr0,
      sctlr_el1 = sctlr OR push_bit 0 1 OR push_bit 2 1 OR push_bit 12 1\<rparr>, s2\<lparr>kernel_root := root, cr3 := root\<rparr>)"
    using a by (simp add: mmu_init_def Let_def s2_def)
  moreover have "bit (sctlr OR push_bit 0 1 OR push_bit 2 1 OR push_bit 12 1) 0" by (simp add: bit_simps)
  moreover have "bit (mmu_tcr mmfr0) 23" unfolding mmu_tcr_def Let_def bit_or_iff by (simp add: bit_simps)
  ultimately show ?thesis by simp
qed

definition rpi_machine :: machine where
  "rpi_machine = \<lparr>target = AArch64, hhdm = 0, ram = (\<lambda>_. 0), pmm = init_pmm_static (bitmap_new 1024), cr3 = 0, ttbr1 = 0, kernel_root = 0\<rparr>"

theorem mmu_init_identity_maps_witness:
  "\<exists>regs s'. mmu_init 2 0x30C50830 rpi_machine = Some (regs, s') \<and>
     a64_translate_addr s' (cr3 s') 0x80123 = Some 0x80123 \<and> a64_translate_addr s' (cr3 s') 0x3F201018 = Some 0x3F201018 \<and>
     a64_translate_addr s' (cr3 s') 0x2000000 = None"
proof -
  have t: "target rpi_machine = AArch64" by (simp add: rpi_machine_def)
  have p: "pool_ok rpi_machine" by (simp add: rpi_machine_def pool_ok_def init_pmm_static_def)
  have "free_frames (pmm rpi_machine) = {0<..<65536}" by (auto simp: rpi_machine_def init_pmm_static_def)
  then have c: "26890 \<le> card (free_frames (pmm rpi_machine))" by simp
  show ?thesis using mmu_init_identity_maps [OF t p c, of 2 "0x30C50830"] by (auto simp: low48_def mmu_ranges_def)
qed

end
