(* ===== verification/BootInfo.thy ===== *)
theory BootInfo
  imports Pmm PhysMem
begin

text \<open>
  What the boot loader tells the kernel (\<^verbatim>\<open>limine.rs\<close> and \<^verbatim>\<open>boot_info.rs\<close>, x86_64). The loader leaves its answers in
  memory: \<open>mem\<close> is the memory the kernel sees through the mapping the loader built, by virtual address, and the
  response pointers of the Limine requests are an argument. The answers are read and nothing is written.
\<close>

section \<open>Limine responses\<close>

definition mem32 :: "(usize \<Rightarrow> u8) \<Rightarrow> usize \<Rightarrow> u32" where
  "mem32 mem p = u32_le (map (\<lambda>i. mem (p + word_of_nat i)) [0..<4])"

record limine_requests =
  base_revision_1 :: u64
  base_revision_2 :: u64
  hhdm_response :: usize
  executable_response :: usize
  framebuffer_response :: usize
  memmap_response_ptr :: usize
  module_response :: usize
  rsdp_response :: usize

abbreviation REQUESTED_BASE_REVISION :: u64 where "REQUESTED_BASE_REVISION \<equiv> 4"
abbreviation BASE_REVISION_MAGIC_1 :: u64 where "BASE_REVISION_MAGIC_1 \<equiv> 0x6a7b384944536bdc"

definition base_revision_supported :: "limine_requests \<Rightarrow> bool" where
  "base_revision_supported lim \<longleftrightarrow> base_revision_2 lim = 0"

definition loaded_base_revision :: "limine_requests \<Rightarrow> u64" where
  "loaded_base_revision lim =
     (if base_revision_supported lim then REQUESTED_BASE_REVISION
      else if base_revision_1 lim \<noteq> BASE_REVISION_MAGIC_1 then base_revision_1 lim else 0)"

definition limine_hhdm_offset :: "(usize \<Rightarrow> u8) \<Rightarrow> limine_requests \<Rightarrow> u64 option" where
  "limine_hhdm_offset mem lim = (if hhdm_response lim = 0 then None else Some (read64 mem (hhdm_response lim + 8)))"

definition executable_address :: "(usize \<Rightarrow> u8) \<Rightarrow> limine_requests \<Rightarrow> (u64 \<times> u64) option" where
  "executable_address mem lim =
     (if executable_response lim = 0 then None
      else Some (read64 mem (executable_response lim + 8), read64 mem (executable_response lim + 16)))"

definition limine_framebuffer :: "(usize \<Rightarrow> u8) \<Rightarrow> limine_requests \<Rightarrow> (usize \<times> usize \<times> usize \<times> usize) option" where
  "limine_framebuffer mem lim =
     (let resp = framebuffer_response lim
      in if resp = 0 then None
         else if read64 mem (resp + 8) = 0 \<or> read64 mem (resp + 16) = 0 then None
         else let fb = read64 mem (read64 mem (resp + 16))
         in if fb = 0 then None
            else Some (read64 mem fb, read64 mem (fb + 8), read64 mem (fb + 16), read64 mem (fb + 24)))"

text \<open>The entries of the memory map: an array of pointers to entries of three quadwords.\<close>

definition entry_at :: "(usize \<Rightarrow> u8) \<Rightarrow> usize \<Rightarrow> memmap_entry option" where
  "entry_at mem p =
     (if p = 0 then None else Some \<lparr>me_base = read64 mem p, me_length = read64 mem (p + 8), me_typ = read64 mem (p + 16)\<rparr>)"

definition memmap :: "(usize \<Rightarrow> u8) \<Rightarrow> limine_requests \<Rightarrow> memmap_response option" where
  "memmap mem lim =
     (let resp = memmap_response_ptr lim
      in if resp = 0 then None
         else Some (map (\<lambda>i. entry_at mem (read64 mem (read64 mem (resp + 16) + word_of_nat (8 * i)))) [0..<unat (read64 mem (resp + 8))]))"

definition limine_memmap_summary :: "(usize \<Rightarrow> u8) \<Rightarrow> limine_requests \<Rightarrow> (usize \<times> u64) option" where
  "limine_memmap_summary mem lim =
     (let resp = memmap_response_ptr lim
      in if resp = 0 then None
         else if read64 mem (resp + 16) = 0 then Some (0, 0)
         else Some (read64 mem (resp + 8),
           fold (\<lambda>e usable. case e of None \<Rightarrow> usable | Some e \<Rightarrow> if me_typ e = LIMINE_MEMMAP_USABLE then usable + me_length e else usable)
             (the (memmap mem lim)) 0))"

definition first_module :: "(usize \<Rightarrow> u8) \<Rightarrow> limine_requests \<Rightarrow> (usize \<times> usize) option" where
  "first_module mem lim =
     (let resp = module_response lim
      in if resp = 0 then None
         else if read64 mem (resp + 8) = 0 \<or> read64 mem (resp + 16) = 0 then None
         else let file = read64 mem (read64 mem (resp + 16))
         in if file = 0 then None else Some (read64 mem (file + 8), read64 mem (file + 16)))"

definition limine_rsdp :: "(usize \<Rightarrow> u8) \<Rightarrow> limine_requests \<Rightarrow> usize option" where
  "limine_rsdp mem lim =
     (if rsdp_response lim = 0 then None
      else if read64 mem (rsdp_response lim + 8) = 0 then None else Some (read64 mem (rsdp_response lim + 8)))"

definition limine_detected :: "limine_requests \<Rightarrow> bool" where
  "limine_detected lim \<longleftrightarrow> hhdm_response lim \<noteq> 0 \<or> framebuffer_response lim \<noteq> 0 \<or> memmap_response_ptr lim \<noteq> 0 \<or>
     module_response lim \<noteq> 0 \<or> executable_response lim \<noteq> 0"

section \<open>Boot information\<close>

datatype BootProtocol = Unknown | Limine | Multiboot2

record boot_info =
  PROTOCOL :: BootProtocol
  FB_ADDR :: u64
  FB_WIDTH :: u64
  FB_HEIGHT :: u64
  FB_PITCH :: u64
  FB_NEEDS_MAPPING :: bool
  MOD_ADDR :: u64
  MOD_SIZE :: u64
  MEMMAP_ENTRIES :: u64
  MEMMAP_USABLE_BYTES :: u64
  KERNEL_PHYS_START :: u64
  HHDM_OFFSET :: usize

definition boot_info_initial :: boot_info where
  "boot_info_initial =
     \<lparr>PROTOCOL = Unknown, FB_ADDR = 0, FB_WIDTH = 0, FB_HEIGHT = 0, FB_PITCH = 0, FB_NEEDS_MAPPING = False, MOD_ADDR = 0, MOD_SIZE = 0,
      MEMMAP_ENTRIES = 0, MEMMAP_USABLE_BYTES = 0, KERNEL_PHYS_START = 0x00100000, HHDM_OFFSET = 0xFFFF800000000000\<rparr>"

abbreviation MULTIBOOT2_MAGIC :: u64 where "MULTIBOOT2_MAGIC \<equiv> 0x36d76289"
abbreviation MB2_MAX_INFO_SIZE :: nat where "MB2_MAX_INFO_SIZE \<equiv> 64 * 1024"

abbreviation MB2_TAG_END :: u32 where "MB2_TAG_END \<equiv> 0"
abbreviation MB2_TAG_MODULE :: u32 where "MB2_TAG_MODULE \<equiv> 3"
abbreviation MB2_TAG_MMAP :: u32 where "MB2_TAG_MMAP \<equiv> 6"
abbreviation MB2_TAG_FRAMEBUFFER :: u32 where "MB2_TAG_FRAMEBUFFER \<equiv> 8"
abbreviation MB2_MEMORY_AVAILABLE :: u32 where "MB2_MEMORY_AVAILABLE \<equiv> 1"

text \<open>
  Reads at an offset of the Multiboot2 information. The offsets stay below \<open>2^33\<close>, so they are natural numbers.
\<close>

definition info32 :: "(usize \<Rightarrow> u8) \<Rightarrow> usize \<Rightarrow> nat \<Rightarrow> u32" where
  "info32 mem base offset = mem32 mem (base + word_of_nat offset)"

definition info64 :: "(usize \<Rightarrow> u8) \<Rightarrow> usize \<Rightarrow> nat \<Rightarrow> u64" where
  "info64 mem base offset = read64 mem (base + word_of_nat offset)"

function mmap_loop :: "(usize \<Rightarrow> u8) \<Rightarrow> usize \<Rightarrow> nat \<Rightarrow> nat \<Rightarrow> nat \<Rightarrow> u64 \<times> u64 \<Rightarrow> u64 \<times> u64" where
  "mmap_loop mem base entry_size entries_end eoff (count, usable) =
     (if eoff + 24 \<le> entries_end then
        mmap_loop mem base entry_size entries_end (eoff + max entry_size 1)
          (count + 1, if info32 mem base (eoff + 16) = MB2_MEMORY_AVAILABLE then usable + info64 mem base (eoff + 8) else usable)
      else (count, usable))"
  by pat_completeness auto
termination
  by (relation "measure (\<lambda>(mem, base, entry_size, entries_end, eoff, acc). entries_end - eoff)") auto

declare mmap_loop.simps [simp del]

definition read_tag :: "(usize \<Rightarrow> u8) \<Rightarrow> usize \<Rightarrow> nat \<Rightarrow> u32 \<Rightarrow> nat \<Rightarrow> boot_info \<times> u64 \<times> u64 \<Rightarrow> boot_info \<times> u64 \<times> u64" where
  "read_tag mem base offset tag_type tag_size = (\<lambda>(bi, mm).
     if tag_type = MB2_TAG_FRAMEBUFFER \<and> 24 \<le> tag_size then
       (bi\<lparr>FB_ADDR := info64 mem base (offset + 8), FB_WIDTH := ucast (info32 mem base (offset + 20)),
           FB_HEIGHT := ucast (info32 mem base (offset + 24)), FB_PITCH := ucast (info32 mem base (offset + 16)),
           FB_NEEDS_MAPPING := True\<rparr>, mm)
     else if tag_type = MB2_TAG_MODULE \<and> 16 \<le> tag_size then
       (if MOD_ADDR bi = 0 then
          let mod_start = info32 mem base (offset + 8); mod_end = info32 mem base (offset + 12)
          in if mod_start < mod_end then (bi\<lparr>MOD_ADDR := ucast mod_start, MOD_SIZE := ucast (mod_end - mod_start)\<rparr>, mm) else (bi, mm)
        else (bi, mm))
     else if tag_type = MB2_TAG_MMAP \<and> 16 \<le> tag_size then
       (bi, mmap_loop mem base (unat (info32 mem base (offset + 8))) (offset + tag_size) (offset + 16) mm)
     else (bi, mm))"

function tag_loop :: "(usize \<Rightarrow> u8) \<Rightarrow> usize \<Rightarrow> nat \<Rightarrow> nat \<Rightarrow> boot_info \<times> u64 \<times> u64 \<Rightarrow> boot_info \<times> u64 \<times> u64" where
  "tag_loop mem base total_size offset acc =
     (if offset + 8 \<le> total_size then
        let tag_type = info32 mem base offset;
            tag_size = unat (info32 mem base (offset + 4))
        in if tag_type = MB2_TAG_END \<or> tag_size < 8 then acc
           else tag_loop mem base total_size (offset + (tag_size + 7) div 8 * 8) (read_tag mem base offset tag_type tag_size acc)
      else acc)"
  by pat_completeness auto
termination
proof (relation "measure (\<lambda>(mem, base, total_size, offset, acc). total_size - offset)", goal_cases)
  case (2 mem base total_size offset acc tag_type tag_size)
  then have "8 \<le> (tag_size + 7) div 8 * 8" by (simp add: not_less div_le_mono [of 8 _ 8, simplified])
  then show ?case using 2 by simp
qed simp

declare tag_loop.simps [simp del]

definition parse_multiboot2 :: "(usize \<Rightarrow> u8) \<Rightarrow> usize \<Rightarrow> boot_info \<Rightarrow> boot_info" where
  "parse_multiboot2 mem info_phys bi =
     (if info_phys = 0 then bi
      else let base = info_phys + HHDM_OFFSET bi;
               total_size = min (unat (info32 mem base 0)) MB2_MAX_INFO_SIZE
      in case tag_loop mem base total_size 8 (bi, 0, 0) of (bi, entries, usable) \<Rightarrow>
        if 0 < entries then bi\<lparr>MEMMAP_ENTRIES := entries, MEMMAP_USABLE_BYTES := usable\<rparr> else bi)"

definition boot_info_init :: "(usize \<Rightarrow> u8) \<Rightarrow> limine_requests \<Rightarrow> u64 \<Rightarrow> u64 \<Rightarrow> boot_info \<Rightarrow> boot_info" where
  "boot_info_init mem lim arg0 arg1 bi =
     (if arg1 = MULTIBOOT2_MAGIC then parse_multiboot2 mem arg0 (bi\<lparr>PROTOCOL := Multiboot2\<rparr>)
      else if limine_detected lim then
        let bi = bi\<lparr>PROTOCOL := Limine\<rparr>;
            bi = (case limine_hhdm_offset mem lim of Some off \<Rightarrow> bi\<lparr>HHDM_OFFSET := off\<rparr> | None \<Rightarrow> bi);
            bi = (case executable_address mem lim of Some (phys, _) \<Rightarrow> bi\<lparr>KERNEL_PHYS_START := phys\<rparr> | None \<Rightarrow> bi);
            bi = (case limine_framebuffer mem lim of
                    Some (addr, w, h, pitch) \<Rightarrow> bi\<lparr>FB_ADDR := addr, FB_WIDTH := w, FB_HEIGHT := h, FB_PITCH := pitch, FB_NEEDS_MAPPING := False\<rparr>
                  | None \<Rightarrow> bi);
            bi = (case first_module mem lim of Some (addr, sz) \<Rightarrow> bi\<lparr>MOD_ADDR := addr, MOD_SIZE := sz\<rparr> | None \<Rightarrow> bi)
        in (case limine_memmap_summary mem lim of Some (n, b) \<Rightarrow> bi\<lparr>MEMMAP_ENTRIES := n, MEMMAP_USABLE_BYTES := b\<rparr> | None \<Rightarrow> bi)
      else bi\<lparr>PROTOCOL := Unknown\<rparr>)"

definition boot_framebuffer :: "boot_info \<Rightarrow> (usize \<times> usize \<times> usize \<times> usize \<times> bool) option" where
  "boot_framebuffer bi =
     (if FB_ADDR bi = 0 then None else Some (FB_ADDR bi, FB_WIDTH bi, FB_HEIGHT bi, FB_PITCH bi, FB_NEEDS_MAPPING bi))"

definition boot_module :: "boot_info \<Rightarrow> (usize \<times> usize) option" where
  "boot_module bi = (if MOD_ADDR bi = 0 then None else Some (MOD_ADDR bi, MOD_SIZE bi))"

definition boot_memmap_summary :: "boot_info \<Rightarrow> (usize \<times> u64) option" where
  "boot_memmap_summary bi = (if MEMMAP_ENTRIES bi = 0 then None else Some (MEMMAP_ENTRIES bi, MEMMAP_USABLE_BYTES bi))"

section \<open>Multiboot2 information as the specification lays it out\<close>

text \<open>The tags, their encoding, and what each of them means for the boot information.\<close>

datatype mb2_tag =
    TagFramebuffer (tf_addr: u64) (tf_pitch: u32) (tf_width: u32) (tf_height: u32) (tf_rest: bytes)
  | TagModule (tm_start: u32) (tm_end: u32) (tm_string: bytes)
  | TagMmap (tp_version: u32) (tp_entries: "(u64 \<times> u64 \<times> u32) list")
  | TagOther (to_type: u32) (to_body: bytes)

fun mmap_entry_bytes :: "u64 \<times> u64 \<times> u32 \<Rightarrow> bytes" where
  "mmap_entry_bytes (base, len, typ) = to_le_bytes 8 base @ to_le_bytes 8 len @ to_le_bytes 4 typ @ replicate 4 0"

fun tag_type :: "mb2_tag \<Rightarrow> u32" where
  "tag_type (TagFramebuffer a p w h r) = MB2_TAG_FRAMEBUFFER"
| "tag_type (TagModule s e n) = MB2_TAG_MODULE"
| "tag_type (TagMmap v es) = MB2_TAG_MMAP"
| "tag_type (TagOther t b) = t"

fun tag_body :: "mb2_tag \<Rightarrow> bytes" where
  "tag_body (TagFramebuffer a p w h r) = to_le_bytes 8 a @ to_le_bytes 4 p @ to_le_bytes 4 w @ to_le_bytes 4 h @ r"
| "tag_body (TagModule s e n) = to_le_bytes 4 s @ to_le_bytes 4 e @ n"
| "tag_body (TagMmap v es) = to_le_bytes 4 (24 :: u32) @ to_le_bytes 4 v @ concat (map mmap_entry_bytes es)"
| "tag_body (TagOther t b) = b"

definition tag_size :: "mb2_tag \<Rightarrow> nat" where
  "tag_size t = 8 + length (tag_body t)"

definition tag_bytes :: "mb2_tag \<Rightarrow> bytes" where
  "tag_bytes t = to_le_bytes 4 (tag_type t) @ to_le_bytes 4 (word_of_nat (tag_size t) :: u32) @ tag_body t
     @ replicate ((tag_size t + 7) div 8 * 8 - tag_size t) 0"

definition mb2_bytes :: "mb2_tag list \<Rightarrow> bytes" where
  "mb2_bytes tags =
     to_le_bytes 4 (word_of_nat (16 + length (concat (map tag_bytes tags))) :: u32) @ replicate 4 0 @ concat (map tag_bytes tags)
       @ to_le_bytes 4 MB2_TAG_END @ to_le_bytes 4 (8 :: u32)"

fun tag_known :: "mb2_tag \<Rightarrow> bool" where
  "tag_known (TagOther t b) \<longleftrightarrow> t \<notin> {MB2_TAG_END, MB2_TAG_MODULE, MB2_TAG_MMAP, MB2_TAG_FRAMEBUFFER}"
| "tag_known _ \<longleftrightarrow> True"

fun count_entry :: "u64 \<times> u64 \<times> u32 \<Rightarrow> u64 \<times> u64 \<Rightarrow> u64 \<times> u64" where
  "count_entry (base, len, typ) (n, usable) = (n + 1, if typ = MB2_MEMORY_AVAILABLE then usable + len else usable)"

fun apply_tag :: "mb2_tag \<Rightarrow> boot_info \<times> u64 \<times> u64 \<Rightarrow> boot_info \<times> u64 \<times> u64" where
  "apply_tag (TagFramebuffer a p w h r) (bi, mm) =
     (bi\<lparr>FB_ADDR := a, FB_WIDTH := ucast w, FB_HEIGHT := ucast h, FB_PITCH := ucast p, FB_NEEDS_MAPPING := True\<rparr>, mm)"
| "apply_tag (TagModule s e n) (bi, mm) =
     (if MOD_ADDR bi = 0 \<and> s < e then bi\<lparr>MOD_ADDR := ucast s, MOD_SIZE := ucast (e - s)\<rparr> else bi, mm)"
| "apply_tag (TagMmap v es) (bi, mm) = (bi, fold count_entry es mm)"
| "apply_tag (TagOther t b) (bi, mm) = (bi, mm)"

section \<open>Reading what was laid out\<close>

definition mem_has :: "(usize \<Rightarrow> u8) \<Rightarrow> usize \<Rightarrow> nat \<Rightarrow> bytes \<Rightarrow> bool" where
  "mem_has mem base off bs \<longleftrightarrow> (\<forall>i < length bs. mem (base + word_of_nat (off + i)) = bs ! i)"

lemma mem_has_append: "mem_has mem base off (xs @ ys) \<longleftrightarrow> mem_has mem base off xs \<and> mem_has mem base (off + length xs) ys"
proof
  assume h: "mem_has mem base off (xs @ ys)"
  have "mem (base + word_of_nat (off + length xs + i)) = ys ! i" if "i < length ys" for i
    using h [unfolded mem_has_def, rule_format, of "length xs + i"] that by (simp add: nth_append add.assoc)
  moreover have "mem (base + word_of_nat (off + i)) = xs ! i" if "i < length xs" for i
    using h [unfolded mem_has_def, rule_format, of i] that by (simp add: nth_append)
  ultimately show "mem_has mem base off xs \<and> mem_has mem base (off + length xs) ys" by (simp add: mem_has_def)
next
  assume h: "mem_has mem base off xs \<and> mem_has mem base (off + length xs) ys"
  show "mem_has mem base off (xs @ ys)"
    unfolding mem_has_def
  proof (intro allI impI)
    fix i assume "i < length (xs @ ys)"
    then show "mem (base + word_of_nat (off + i)) = (xs @ ys) ! i"
      using h unfolding mem_has_def
      by (cases "i < length xs") (auto simp: nth_append dest!: spec [of _ "i - length xs"])
  qed
qed

lemma mem_has_map:
  assumes "mem_has mem base off bs" "n = length bs"
  shows "map (\<lambda>i. mem (base + word_of_nat off + word_of_nat i)) [0..<n] = bs"
  using assms by (intro nth_equalityI) (simp_all add: mem_has_def add.assoc)

lemma mem_has_info32: "mem_has mem base off (to_le_bytes 4 w) \<Longrightarrow> info32 mem base off = w"
  using unsigned_less [of w, where ?'a = nat]
  by (simp add: info32_def mem32_def mem_has_map u32_le_def le_nat_to_le_bytes)

lemma mem_has_info64: "mem_has mem base off (to_le_bytes 8 w) \<Longrightarrow> info64 mem base off = w"
  using unsigned_less [of w, where ?'a = nat]
  by (simp add: info64_def read64_def mem_has_map u64_le_def le_nat_to_le_bytes)

lemma length_mmap_entry_bytes [simp]: "length (mmap_entry_bytes e) = 24"
  by (cases e) simp

lemma mmap_loop_reads:
  "mem_has mem base off (concat (map mmap_entry_bytes es)) \<Longrightarrow>
     mmap_loop mem base 24 (off + 24 * length es) off acc = fold count_entry es acc"
proof (induction es arbitrary: off acc)
  case Nil
  then show ?case by (cases acc) (simp add: mmap_loop.simps)
next
  case (Cons e es)
  obtain b l t where e: "e = (b, l, t)" using prod_cases3 by blast
  obtain n u where acc: "acc = (n, u)" by (cases acc)
  have h: "mem_has mem base (off + 8) (to_le_bytes 8 l)" "mem_has mem base (off + 16) (to_le_bytes 4 t)"
    "mem_has mem base (off + 24) (concat (map mmap_entry_bytes es))"
    using Cons.prems by (simp_all add: e mem_has_append ac_simps)
  have "mmap_loop mem base 24 (off + 24 * length (e # es)) off acc =
      mmap_loop mem base 24 (off + 24 + 24 * length es) (off + 24) (count_entry e acc)"
    using mem_has_info64 [OF h(1)] mem_has_info32 [OF h(2)] unfolding acc e
    by (subst mmap_loop.simps) (simp add: add.assoc)
  then show ?case using Cons.IH [OF h(3)] by simp
qed

lemma tag_bytes_reads:
  assumes "mem_has mem base off (tag_bytes t)" "tag_size t < 2 ^ 32"
  shows "info32 mem base off = tag_type t" "unat (info32 mem base (off + 4)) = tag_size t"
    "tag_known t \<Longrightarrow> read_tag mem base off (tag_type t) (tag_size t) acc = apply_tag t acc"
    "length (tag_bytes t) = (tag_size t + 7) div 8 * 8"
proof -
  have h: "mem_has mem base off (to_le_bytes 4 (tag_type t))"
    "mem_has mem base (off + 4) (to_le_bytes 4 (word_of_nat (tag_size t) :: u32))" "mem_has mem base (off + 8) (tag_body t)"
    using assms(1) by (simp_all add: tag_bytes_def mem_has_append ac_simps)
  show "info32 mem base off = tag_type t" by (rule mem_has_info32 [OF h(1)])
  show "unat (info32 mem base (off + 4)) = tag_size t"
    using mem_has_info32 [OF h(2)] assms(2) by (simp add: unat_of_nat take_bit_nat_eq_self)
  have "tag_size t \<le> (tag_size t + 7) div 8 * 8" by presburger
  then show "length (tag_bytes t) = (tag_size t + 7) div 8 * 8" by (simp add: tag_bytes_def tag_size_def)
  obtain bi mm where acc: "acc = (bi, mm)" by (cases acc)
  assume k: "tag_known t"
  show "read_tag mem base off (tag_type t) (tag_size t) acc = apply_tag t acc"
  proof (cases t)
    case (TagFramebuffer a p w h' r)
    then have "mem_has mem base (off + 8) (to_le_bytes 8 a)" "mem_has mem base (off + 16) (to_le_bytes 4 p)"
      "mem_has mem base (off + 20) (to_le_bytes 4 w)" "mem_has mem base (off + 24) (to_le_bytes 4 h')"
      using h(3) by (simp_all add: mem_has_append ac_simps)
    with mem_has_info64 [OF this(1)] this(2-) [THEN mem_has_info32] TagFramebuffer show ?thesis by (simp add: read_tag_def acc tag_size_def)
  next
    case (TagModule s e n)
    then have "mem_has mem base (off + 8) (to_le_bytes 4 s)" "mem_has mem base (off + 12) (to_le_bytes 4 e)"
      using h(3) by (simp_all add: mem_has_append ac_simps)
    from this [THEN mem_has_info32] TagModule show ?thesis by (simp add: read_tag_def acc tag_size_def Let_def)
  next
    case (TagMmap v es)
    have l: "length (concat (map mmap_entry_bytes es)) = 24 * length es" by (induction es) simp_all
    from TagMmap have m: "mem_has mem base (off + 8) (to_le_bytes 4 (24 :: u32))" "mem_has mem base (off + 16) (concat (map mmap_entry_bytes es))"
      using h(3) by (simp_all add: mem_has_append ac_simps)
    have "mmap_loop mem base 24 (off + (16 + 24 * length es)) (off + 16) mm = fold count_entry es mm"
      using mmap_loop_reads [OF m(2), of mm] by (simp add: add.assoc)
    with mem_has_info32 [OF m(1)] TagMmap l show ?thesis by (simp add: read_tag_def acc tag_size_def)
  next
    case (TagOther ty b)
    then show ?thesis using k by (simp add: read_tag_def acc)
  qed
qed

lemma tag_loop_reads:
  assumes "mem_has mem base off (concat (map tag_bytes tags) @ to_le_bytes 4 MB2_TAG_END)"
    "off + length (concat (map tag_bytes tags)) + 8 \<le> limit" "limit < 2 ^ 32" "\<forall>t \<in> set tags. tag_known t"
  shows "tag_loop mem base limit off acc = fold apply_tag tags acc"
  using assms
proof (induction tags arbitrary: off acc)
  case Nil
  then have "info32 mem base off = MB2_TAG_END" by (intro mem_has_info32) simp
  then show ?case by (simp add: tag_loop.simps)
next
  case (Cons t tags)
  have h: "mem_has mem base off (tag_bytes t)"
    "mem_has mem base (off + length (tag_bytes t)) (concat (map tag_bytes tags) @ to_le_bytes 4 MB2_TAG_END)"
    using Cons.prems(1) by (simp_all add: mem_has_append ac_simps)
  have "tag_size t \<le> length (tag_bytes t)" by (simp add: tag_bytes_def tag_size_def)
  with Cons.prems(2,3) have sz: "tag_size t < 2 ^ 32" "8 \<le> tag_size t" by (simp_all add: tag_size_def)
  note r = tag_bytes_reads [OF h(1) sz(1)]
  have "tag_type t \<noteq> MB2_TAG_END" using Cons.prems(4) by (cases t) auto
  then have "tag_loop mem base limit off acc = tag_loop mem base limit (off + length (tag_bytes t)) (apply_tag t acc)"
    using Cons.prems(2,4) sz(2) r by (subst tag_loop.simps) (simp add: Let_def)
  then show ?case using Cons.IH [OF h(2), of "apply_tag t acc"] Cons.prems by (simp add: add.assoc)
qed

text \<open>C21: The Multiboot2 parser reads back what the loader wrote. With the encoding of any list of tags of at most 64 KiB
  at the information pointer, \<open>parse_multiboot2\<close> gives the boot information the tags describe: the last
  framebuffer, the first non-empty module, and the number of memory-map entries with the sum of the available ones.\<close>

theorem multiboot2_roundtrip:
  assumes "mem_has mem (info_phys + HHDM_OFFSET bi) 0 (mb2_bytes tags)" "info_phys \<noteq> 0"
    "length (mb2_bytes tags) \<le> MB2_MAX_INFO_SIZE" "\<forall>t \<in> set tags. tag_known t"
    "fold apply_tag tags (bi, 0, 0) = (bi', entries, usable)"
  shows "parse_multiboot2 mem info_phys bi =
    (if 0 < entries then bi'\<lparr>MEMMAP_ENTRIES := entries, MEMMAP_USABLE_BYTES := usable\<rparr> else bi')"
proof -
  let ?base = "info_phys + HHDM_OFFSET bi" and ?n = "length (concat (map tag_bytes tags))"
  have n: "16 + ?n \<le> 65536" using assms(3) by (simp add: mb2_bytes_def)
  have h: "mem_has mem ?base 0 (to_le_bytes 4 (word_of_nat (16 + ?n) :: u32))"
    "mem_has mem ?base 8 (concat (map tag_bytes tags) @ to_le_bytes 4 MB2_TAG_END)"
    using assms(1) unfolding mb2_bytes_def by (simp_all only: mem_has_append append_assoc) (simp_all add: mem_has_append)
  have "unat (info32 mem ?base 0) = 16 + ?n"
    using n by (simp only: mem_has_info32 [OF h(1)] unat_of_nat) (simp add: take_bit_nat_eq_self)
  moreover have "tag_loop mem ?base (16 + ?n) 8 (bi, 0, 0) = (bi', entries, usable)"
    using tag_loop_reads [OF h(2), of "16 + ?n"] n assms(4,5) by simp
  ultimately show ?thesis
    using assms(2) n by (simp add: parse_multiboot2_def Let_def)
qed

definition mb2_demo :: "mb2_tag list" where
  "mb2_demo = [TagOther 2 [71, 82, 85, 66, 0], TagModule 0x200000 0x210000 [0], TagModule 0x300000 0x300010 [0],
     TagMmap 0 [(0, 0x9FC00, 1), (0x100000, 0x7EE0000, 1), (0xFD000000, 0x1000000, 2)], TagFramebuffer 0xFD000000 4096 1024 768 [32, 1, 0, 0]]"

definition mb2_demo_memory :: "usize \<Rightarrow> u8" where
  "mb2_demo_memory p =
     (let i = unat (p - (0x9000 + 0xFFFF800000000000)) in if i < length (mb2_bytes mb2_demo) then mb2_bytes mb2_demo ! i else 0)"

theorem multiboot2_roundtrip_witness:
  "boot_module (parse_multiboot2 mb2_demo_memory 0x9000 boot_info_initial) = Some (0x200000, 0x10000) \<and>
   boot_framebuffer (parse_multiboot2 mb2_demo_memory 0x9000 boot_info_initial) = Some (0xFD000000, 1024, 768, 4096, True) \<and>
   boot_memmap_summary (parse_multiboot2 mb2_demo_memory 0x9000 boot_info_initial) = Some (3, 0x7F7FC00)"
proof -
  have len: "length (mb2_bytes mb2_demo) \<le> MB2_MAX_INFO_SIZE"
    by (simp add: mb2_bytes_def mb2_demo_def tag_bytes_def tag_size_def)
  have "unat (word_of_nat i :: usize) = i" if "i < length (mb2_bytes mb2_demo)" for i
    using that len by (simp add: unat_of_nat take_bit_nat_eq_self)
  then have h: "mem_has mb2_demo_memory (0x9000 + HHDM_OFFSET boot_info_initial) 0 (mb2_bytes mb2_demo)"
    by (simp add: mem_has_def mb2_demo_memory_def boot_info_initial_def Let_def)
  have k: "\<forall>t \<in> set mb2_demo. tag_known t" by (simp add: mb2_demo_def)
  obtain bi e u where f: "fold apply_tag mb2_demo (boot_info_initial, 0, 0) = (bi, e, u)" using prod_cases3 by blast
  have v: "(bi, e, u) = (boot_info_initial\<lparr>FB_ADDR := 0xFD000000, FB_WIDTH := 1024, FB_HEIGHT := 768, FB_PITCH := 4096,
      FB_NEEDS_MAPPING := True, MOD_ADDR := 0x200000, MOD_SIZE := 0x10000\<rparr>, 3, 0x7F7FC00)"
    unfolding f [symmetric] by (simp add: mb2_demo_def boot_info_initial_def)
  show ?thesis using multiboot2_roundtrip [OF h _ len k f] v
    by (simp add: boot_module_def boot_framebuffer_def boot_memmap_summary_def)
qed

section \<open>The frame pool at boot\<close>

text \<open>The steps of \<open>kmain_common\<close> that fill the pool on x86_64: an error of \<open>init_pmm_from_limine\<close> is only logged.\<close>

definition boot_pool :: "memmap_response option \<Rightarrow> boot_info \<Rightarrow> usize \<Rightarrow> bitmap_allocator" where
  "boot_pool resp bi kernel_end_addr =
     (let pool = (case init_pmm_from_limine resp (bitmap_new 1024) of Ok pool \<Rightarrow> pool | _ \<Rightarrow> bitmap_new 1024);
          kernel_phys_start = KERNEL_PHYS_START bi;
          kernel_phys_end = kernel_phys_start + (kernel_end_addr - 0xffffffff80000000);
          pool = protect_boot_memory kernel_phys_start kernel_phys_end 0x150000 0xA0000 (boot_module bi) pool
      in reclaim_boot_memory resp pool)"

text \<open>C13: A kernel started by a Multiboot2 loader has no memory. The parser counts the memory map of the loader for a
  log line, while the frame pool is filled from Limine's answer alone; without one every frame stays reserved and
  no allocation ever succeeds.\<close>

theorem multiboot2_boot_has_no_memory:
  assumes "memmap_response_ptr lim = 0" "boot_info_init mem lim arg0 MULTIBOOT2_MAGIC boot_info_initial = bi"
  shows "free_frames (boot_pool (memmap mem lim) bi kernel_end_addr) = {} \<and>
    fst (allocate_next_frame (boot_pool (memmap mem lim) bi kernel_end_addr)) = None"
proof -
  have "free_frames (reserve_bytes a b pool) = {}" if "free_frames pool = {}" for a b pool
    using that by (simp add: reserve_bytes_def Let_def)
  then have "free_frames (boot_pool None bi kernel_end_addr) = {}"
    by (simp add: boot_pool_def init_pmm_from_limine_def reclaim_boot_memory_def protect_boot_memory_def Let_def split: option.split)
  moreover have "memmap mem lim = None" using assms(1) by (simp add: memmap_def)
  ultimately show ?thesis by (simp add: allocate_None)
qed

definition no_limine :: limine_requests where
  "no_limine = \<lparr>base_revision_1 = BASE_REVISION_MAGIC_1, base_revision_2 = 4, hhdm_response = 0, executable_response = 0,
     framebuffer_response = 0, memmap_response_ptr = 0, module_response = 0, rsdp_response = 0\<rparr>"

theorem multiboot2_boot_has_no_memory_witness:
  "fst (allocate_next_frame (boot_pool (memmap mb2_demo_memory no_limine)
      (boot_info_init mb2_demo_memory no_limine 0x9000 MULTIBOOT2_MAGIC boot_info_initial) 0xffffffff80200000)) = None"
  by (rule multiboot2_boot_has_no_memory [THEN conjunct2, OF _ refl]) (simp add: no_limine_def)

end
