(* ===== verification/Graphics.thy ===== *)
theory Graphics
  imports MemFields
begin

text \<open>
  The framebuffer console (\<^verbatim>\<open>graphics.rs\<close>). The framebuffer is a range of memory written through 32-bit stores;
  coordinates are machine words and wrap. Drawing a byte outside ASCII indexes past the font and panics.
\<close>

section \<open>Colours and pixels\<close>

record Color =
  red :: u8
  green :: u8
  blue :: u8

abbreviation BLACK :: Color where "BLACK \<equiv> \<lparr>red = 0, green = 0, blue = 0\<rparr>"
abbreviation WHITE :: Color where "WHITE \<equiv> \<lparr>red = 255, green = 255, blue = 255\<rparr>"
abbreviation RED :: Color where "RED \<equiv> \<lparr>red = 255, green = 0, blue = 0\<rparr>"
abbreviation GREEN :: Color where "GREEN \<equiv> \<lparr>red = 0, green = 255, blue = 0\<rparr>"
abbreviation BLUE :: Color where "BLUE \<equiv> \<lparr>red = 0, green = 0, blue = 255\<rparr>"
abbreviation YELLOW :: Color where "YELLOW \<equiv> \<lparr>red = 255, green = 255, blue = 0\<rparr>"
abbreviation MAGENTA :: Color where "MAGENTA \<equiv> \<lparr>red = 255, green = 0, blue = 255\<rparr>"

definition to_u32 :: "Color \<Rightarrow> u32" where
  "to_u32 c = push_bit 16 (ucast (red c)) OR push_bit 8 (ucast (green c)) OR ucast (blue c)"

record Framebuffer =
  fb_address :: usize
  fb_width :: usize
  fb_height :: usize
  fb_pitch :: usize

definition pixel_addr :: "Framebuffer \<Rightarrow> usize \<Rightarrow> usize \<Rightarrow> usize" where
  "pixel_addr fb x y = fb_address fb + 4 * (y * (fb_pitch fb div 4) + x)"

definition draw_pixel :: "Framebuffer \<Rightarrow> usize \<Rightarrow> usize \<Rightarrow> Color \<Rightarrow> machine \<Rightarrow> machine" where
  "draw_pixel fb x y color s =
     (if fb_width fb \<le> x \<or> fb_height fb \<le> y then s else write_u32 (pixel_addr fb x y) (to_u32 color) s)"

text \<open>\<open>core::ptr::copy\<close>: the bytes of the source as they were before the call.\<close>

definition ptr_copy :: "usize \<Rightarrow> usize \<Rightarrow> usize \<Rightarrow> machine \<Rightarrow> machine" where
  "ptr_copy src dst n s =
     s\<lparr>ram := (\<lambda>x. if x - virt_to_ram s dst < n then ram s (x - virt_to_ram s dst + virt_to_ram s src) else ram s x)\<rparr>"

definition scroll_up :: "Framebuffer \<Rightarrow> machine \<Rightarrow> machine" where
  "scroll_up fb s =
     (let font_height = 8;
          row_bytes = fb_pitch fb;
          bytes_to_move = (fb_height fb - font_height) * row_bytes;
          dst = fb_address fb;
          src = dst + font_height * row_bytes;
          s = ptr_copy src dst bytes_to_move s
      in write_bytes (dst + bytes_to_move) 0 (font_height * row_bytes) s)"

definition fill_region :: "Framebuffer \<Rightarrow> usize \<Rightarrow> usize \<Rightarrow> usize \<Rightarrow> usize \<Rightarrow> Color \<Rightarrow> machine \<Rightarrow> machine" where
  "fill_region fb start_x end_x start_y end_y color s =
     fold (\<lambda>row. fold (\<lambda>col. write_u32 (pixel_addr fb (word_of_nat col) (word_of_nat row)) (to_u32 color)) [unat start_x..<unat end_x])
       [unat start_y..<unat end_y] s"

definition fb_clear :: "Framebuffer \<Rightarrow> Color \<Rightarrow> machine \<Rightarrow> machine" where
  "fb_clear fb color s = fill_region fb 0 (fb_width fb) 0 (fb_height fb) color s"

definition draw_rect :: "Framebuffer \<Rightarrow> usize \<Rightarrow> usize \<Rightarrow> usize \<Rightarrow> usize \<Rightarrow> Color \<Rightarrow> machine \<Rightarrow> machine" where
  "draw_rect fb x y w h color s =
     fill_region fb (min x (fb_width fb)) (min (x + w) (fb_width fb)) (min y (fb_height fb)) (min (y + h) (fb_height fb)) color s"

definition draw_boot_splash :: "Framebuffer \<Rightarrow> machine \<Rightarrow> machine" where
  "draw_boot_splash fb s = draw_rect fb 10 10 200 50 BLUE (draw_rect fb 8 8 204 54 WHITE s)"

section \<open>Text\<close>

definition FONT_8X8 :: "u8 list list" where
  "FONT_8X8 = replicate 32 (replicate 8 0) @ [
     [0, 0, 0, 0, 0, 0, 0, 0], [0x18, 0x18, 0x18, 0x18, 0x18, 0, 0x18, 0], [0x66, 0x66, 0x22, 0, 0, 0, 0, 0],
     [0x24, 0x7E, 0x24, 0x24, 0x7E, 0x24, 0, 0], [0x10, 0x3C, 0x50, 0x38, 0x14, 0x78, 0x10, 0],
     [0x63, 0x33, 0x18, 0x0C, 0x66, 0x63, 0, 0], [0x30, 0x48, 0x30, 0x5A, 0x44, 0x3A, 0, 0], [0x18, 0x18, 0x08, 0, 0, 0, 0, 0],
     [0x0C, 0x18, 0x30, 0x30, 0x30, 0x18, 0x0C, 0], [0x30, 0x18, 0x0C, 0x0C, 0x0C, 0x18, 0x30, 0],
     [0, 0x24, 0x18, 0x7E, 0x18, 0x24, 0, 0], [0, 0x08, 0x08, 0x3E, 0x08, 0x08, 0, 0], [0, 0, 0, 0, 0x18, 0x18, 0x08, 0],
     [0, 0, 0, 0x3E, 0, 0, 0, 0], [0, 0, 0, 0, 0x18, 0x18, 0, 0], [0x02, 0x04, 0x08, 0x10, 0x20, 0x40, 0x80, 0],
     [0x3C, 0x66, 0x66, 0x66, 0x66, 0x66, 0x3C, 0], [0x18, 0x38, 0x18, 0x18, 0x18, 0x18, 0x7E, 0],
     [0x3C, 0x66, 0x06, 0x1C, 0x30, 0x60, 0x7E, 0], [0x3C, 0x66, 0x06, 0x1C, 0x06, 0x66, 0x3C, 0],
     [0x0C, 0x1C, 0x3C, 0x6C, 0x7E, 0x0C, 0x0C, 0], [0x7E, 0x60, 0x7C, 0x06, 0x06, 0x66, 0x3C, 0],
     [0x3C, 0x60, 0x7C, 0x66, 0x66, 0x66, 0x3C, 0], [0x7E, 0x06, 0x0C, 0x18, 0x30, 0x30, 0x30, 0],
     [0x3C, 0x66, 0x66, 0x3C, 0x66, 0x66, 0x3C, 0], [0x3C, 0x66, 0x66, 0x3E, 0x06, 0x0C, 0x38, 0],
     [0, 0x18, 0x18, 0, 0x18, 0x18, 0, 0], [0, 0x18, 0x18, 0, 0x18, 0x18, 0x08, 0], [0x06, 0x0C, 0x18, 0x30, 0x18, 0x0C, 0x06, 0],
     [0, 0, 0x3E, 0, 0x3E, 0, 0, 0], [0x30, 0x18, 0x0C, 0x06, 0x0C, 0x18, 0x30, 0], [0x3C, 0x66, 0x06, 0x1C, 0x18, 0, 0x18, 0],
     [0x3C, 0x66, 0x6E, 0x6A, 0x6E, 0x60, 0x3C, 0], [0x18, 0x3C, 0x66, 0x66, 0x7E, 0x66, 0x66, 0],
     [0x7C, 0x66, 0x66, 0x7C, 0x66, 0x66, 0x7C, 0], [0x3C, 0x66, 0x60, 0x60, 0x60, 0x66, 0x3C, 0],
     [0x78, 0x6C, 0x66, 0x66, 0x66, 0x6C, 0x78, 0], [0x7E, 0x60, 0x60, 0x7C, 0x60, 0x60, 0x7E, 0],
     [0x7E, 0x60, 0x60, 0x7C, 0x60, 0x60, 0x60, 0], [0x3C, 0x66, 0x60, 0x6E, 0x66, 0x66, 0x3C, 0],
     [0x66, 0x66, 0x66, 0x7E, 0x66, 0x66, 0x66, 0], [0x3C, 0x18, 0x18, 0x18, 0x18, 0x18, 0x3C, 0],
     [0x1E, 0x0C, 0x0C, 0x0C, 0x0C, 0x6C, 0x38, 0], [0x66, 0x6C, 0x78, 0x70, 0x78, 0x6C, 0x66, 0],
     [0x60, 0x60, 0x60, 0x60, 0x60, 0x60, 0x7E, 0], [0x63, 0x77, 0x7F, 0x6B, 0x63, 0x63, 0x63, 0],
     [0x66, 0x76, 0x7E, 0x6E, 0x66, 0x66, 0x66, 0], [0x3C, 0x66, 0x66, 0x66, 0x66, 0x66, 0x3C, 0],
     [0x7C, 0x66, 0x66, 0x7C, 0x60, 0x60, 0x60, 0], [0x3C, 0x66, 0x66, 0x66, 0x6A, 0x3C, 0x0A, 0],
     [0x7C, 0x66, 0x66, 0x7C, 0x78, 0x6C, 0x66, 0], [0x3C, 0x66, 0x60, 0x3C, 0x06, 0x66, 0x3C, 0],
     [0x7E, 0x18, 0x18, 0x18, 0x18, 0x18, 0x18, 0], [0x66, 0x66, 0x66, 0x66, 0x66, 0x66, 0x3C, 0],
     [0x66, 0x66, 0x66, 0x66, 0x66, 0x3C, 0x18, 0], [0x63, 0x63, 0x63, 0x6B, 0x7F, 0x77, 0x63, 0],
     [0x66, 0x66, 0x3C, 0x18, 0x3C, 0x66, 0x66, 0], [0x66, 0x66, 0x66, 0x3C, 0x18, 0x18, 0x18, 0],
     [0x7E, 0x06, 0x0C, 0x18, 0x30, 0x60, 0x7E, 0], [0x3C, 0x30, 0x30, 0x30, 0x30, 0x30, 0x3C, 0],
     [0x40, 0x20, 0x10, 0x08, 0x04, 0x02, 0x01, 0], [0x3C, 0x0C, 0x0C, 0x0C, 0x0C, 0x0C, 0x3C, 0],
     [0x08, 0x1C, 0x36, 0x63, 0, 0, 0, 0], [0, 0, 0, 0, 0, 0, 0, 0xFF], [0x18, 0x18, 0x0C, 0, 0, 0, 0, 0],
     [0, 0, 0x3C, 0x06, 0x3E, 0x66, 0x3E, 0], [0x60, 0x60, 0x7C, 0x66, 0x66, 0x66, 0x7C, 0], [0, 0, 0x3C, 0x60, 0x60, 0x60, 0x3C, 0],
     [0x06, 0x06, 0x3E, 0x66, 0x66, 0x66, 0x3E, 0], [0, 0, 0x3C, 0x66, 0x7E, 0x60, 0x3C, 0],
     [0x1C, 0x30, 0x7E, 0x30, 0x30, 0x30, 0x30, 0], [0, 0, 0x3E, 0x66, 0x66, 0x3E, 0x06, 0x3C],
     [0x60, 0x60, 0x7C, 0x66, 0x66, 0x66, 0x66, 0], [0x18, 0, 0x38, 0x18, 0x18, 0x18, 0x3C, 0],
     [0x06, 0, 0x06, 0x06, 0x06, 0x66, 0x3C, 0], [0x60, 0x60, 0x6C, 0x78, 0x70, 0x6C, 0x66, 0],
     [0x38, 0x18, 0x18, 0x18, 0x18, 0x18, 0x3C, 0], [0, 0, 0xEC, 0x7F, 0x6B, 0x6B, 0x63, 0], [0, 0, 0x7C, 0x66, 0x66, 0x66, 0x66, 0],
     [0, 0, 0x3C, 0x66, 0x66, 0x66, 0x3C, 0], [0, 0, 0x7C, 0x66, 0x66, 0x7C, 0x60, 0x60], [0, 0, 0x3E, 0x66, 0x66, 0x3E, 0x06, 0x06],
     [0, 0, 0x7C, 0x66, 0x60, 0x60, 0x60, 0], [0, 0, 0x3C, 0x60, 0x3C, 0x06, 0x3C, 0], [0x30, 0x30, 0x7E, 0x30, 0x30, 0x30, 0x1C, 0],
     [0, 0, 0x66, 0x66, 0x66, 0x66, 0x3E, 0], [0, 0, 0x66, 0x66, 0x66, 0x3C, 0x18, 0], [0, 0, 0x63, 0x6B, 0x7F, 0x7F, 0x36, 0],
     [0, 0, 0x66, 0x3C, 0x18, 0x3C, 0x66, 0], [0, 0, 0x66, 0x66, 0x66, 0x3E, 0x06, 0x3C], [0, 0, 0x7E, 0x0C, 0x18, 0x30, 0x7E, 0],
     [0x0E, 0x18, 0x18, 0x70, 0x18, 0x18, 0x0E, 0], [0x18, 0x18, 0x18, 0x18, 0x18, 0x18, 0x18, 0],
     [0x70, 0x18, 0x18, 0x0E, 0x18, 0x18, 0x70, 0], [0x76, 0xDC, 0, 0, 0, 0, 0, 0], [0, 0x10, 0x38, 0x6C, 0xC6, 0xFE, 0, 0]]"

text \<open>The pixels a glyph sets, in the order they are drawn: rows from the top, columns from the left.\<close>

definition glyph_pixels :: "u8 list \<Rightarrow> (nat \<times> nat) list" where
  "glyph_pixels glyph = filter (\<lambda>(r, c). glyph ! r AND push_bit (7 - c) 1 \<noteq> 0) (List.product [0..<8] [0..<8])"

definition draw_char :: "Framebuffer \<Rightarrow> usize \<Rightarrow> usize \<Rightarrow> u8 \<Rightarrow> Color \<Rightarrow> machine \<Rightarrow> (unit, unit) outcome \<times> machine" where
  "draw_char fb x y ascii color s =
     (if 128 \<le> ascii then (Panic, s)
      else (Ok (), fold (\<lambda>(r, c). draw_pixel fb (x + word_of_nat c) (y + word_of_nat r) color)
                     (glyph_pixels (FONT_8X8 ! unat ascii)) s))"

fun draw_text :: "Framebuffer \<Rightarrow> usize \<Rightarrow> usize \<Rightarrow> usize \<Rightarrow> bytes \<Rightarrow> Color \<Rightarrow> machine \<Rightarrow> (unit, unit) outcome \<times> machine" where
  "draw_text fb initial_x x y [] color s = (Ok (), s)"
| "draw_text fb initial_x x y (b # bs) color s =
     (if b = 0x0A then draw_text fb initial_x initial_x (y + 8) bs color s
      else if b = 0x0D then draw_text fb initial_x initial_x y bs color s
      else try_then (draw_char fb x y b color s) (\<lambda>_ s. draw_text fb initial_x (x + 8) y bs color s))"

definition draw_string :: "Framebuffer \<Rightarrow> usize \<Rightarrow> usize \<Rightarrow> bytes \<Rightarrow> Color \<Rightarrow> machine \<Rightarrow> (unit, unit) outcome \<times> machine" where
  "draw_string fb x y txt color s = draw_text fb x x y txt color s"

section \<open>The terminal\<close>

record Terminal =
  term_fb :: Framebuffer
  cursor_x :: usize
  cursor_y :: usize
  text_color :: Color

definition terminal_new :: "Framebuffer \<Rightarrow> Terminal" where
  "terminal_new fb = \<lparr>term_fb = fb, cursor_x = 0, cursor_y = 0, text_color = WHITE\<rparr>"

definition new_line :: "Terminal \<times> machine \<Rightarrow> Terminal \<times> machine" where
  "new_line = (\<lambda>(t, s).
     let t = t\<lparr>cursor_x := 0, cursor_y := cursor_y t + 8\<rparr>
     in if fb_height (term_fb t) \<le> cursor_y t then (t\<lparr>cursor_y := cursor_y t - 8\<rparr>, scroll_up (term_fb t) s) else (t, s))"

definition term_write_byte :: "u8 \<Rightarrow> Terminal \<times> machine \<Rightarrow> (unit, unit) outcome \<times> Terminal \<times> machine" where
  "term_write_byte b ts =
     (if b = 0x0A then (Ok (), new_line ts)
      else if b = 0x0D then (Ok (), (fst ts)\<lparr>cursor_x := 0\<rparr>, snd ts)
      else case (if fb_width (term_fb (fst ts)) \<le> cursor_x (fst ts) then new_line ts else ts) of (t, s) \<Rightarrow>
        case draw_char (term_fb t) (cursor_x t) (cursor_y t) b (text_color t) s of
          (Ok _, s) \<Rightarrow> (Ok (), t\<lparr>cursor_x := cursor_x t + 8\<rparr>, s)
        | (e, s) \<Rightarrow> (e, t, s))"

fun term_write_str :: "bytes \<Rightarrow> Terminal \<times> machine \<Rightarrow> (unit, unit) outcome \<times> Terminal \<times> machine" where
  "term_write_str [] ts = (Ok (), ts)"
| "term_write_str (b # bs) ts = try_then (term_write_byte b ts) (\<lambda>_ ts. term_write_str bs ts)"

text \<open>\<open>_print\<close>: what is printed before the terminal is set up is dropped.\<close>

definition print_bytes :: "bytes \<Rightarrow> Terminal option \<times> machine \<Rightarrow> (unit, unit) outcome \<times> Terminal option \<times> machine" where
  "print_bytes bs = (\<lambda>(w, s). case w of None \<Rightarrow> (Ok (), None, s)
     | Some t \<Rightarrow> (case term_write_str bs (t, s) of (r, t, s) \<Rightarrow> (r, Some t, s)))"

section \<open>Pixels as an array\<close>

text \<open>A framebuffer whose lines hold their pixels and whose size is far from the end of the address space.\<close>

definition fb_ok :: "Framebuffer \<Rightarrow> bool" where
  "fb_ok fb \<longleftrightarrow> 8 \<le> unat (fb_height fb) \<and> 4 dvd unat (fb_pitch fb) \<and> 4 * unat (fb_width fb) \<le> unat (fb_pitch fb) \<and>
     unat (fb_height fb) * unat (fb_pitch fb) < 2 ^ 62"

definition fb_size :: "Framebuffer \<Rightarrow> nat" where
  "fb_size fb = unat (fb_height fb) * unat (fb_pitch fb)"

definition px :: "Framebuffer \<Rightarrow> nat \<Rightarrow> nat \<Rightarrow> nat" where
  "px fb x y = y * unat (fb_pitch fb) + 4 * x"

definition pixel :: "machine \<Rightarrow> Framebuffer \<Rightarrow> nat \<Rightarrow> nat \<Rightarrow> u32" where
  "pixel s fb x y = read_u32 s (fb_address fb + word_of_nat (px fb x y))"

lemma pixel_addr_px:
  assumes "4 dvd unat (fb_pitch fb)"
  shows "pixel_addr fb x y = fb_address fb + word_of_nat (px fb (unat x) (unat y))"
proof -
  obtain k where k: "unat (fb_pitch fb) = 4 * k" using assms by (elim dvdE)
  have "fb_pitch fb div 4 = word_of_nat (unat (fb_pitch fb div 4))" by simp
  with k have e: "fb_pitch fb div 4 = word_of_nat k" by (simp only: unat_div) simp
  have "4 * (y * word_of_nat k + x) = (word_of_nat (px fb (unat x) (unat y)) :: usize)"
    unfolding px_def k by (simp add: algebra_simps)
  then show ?thesis by (simp only: pixel_addr_def e)
qed

lemma px_bound:
  assumes "fb_ok fb" "x < unat (fb_width fb)" "y < unat (fb_height fb)"
  shows "px fb x y + 4 \<le> fb_size fb" "4 dvd px fb x y" "px fb x y < 2 ^ 62"
proof -
  have "4 * x + 4 \<le> unat (fb_pitch fb)" using assms(1,2) by (simp add: fb_ok_def)
  moreover have "Suc y * unat (fb_pitch fb) \<le> fb_size fb"
    unfolding fb_size_def using assms(3) by (intro mult_le_mono) simp_all
  ultimately show b: "px fb x y + 4 \<le> fb_size fb" by (simp add: px_def)
  show "4 dvd px fb x y" using assms(1) by (simp add: px_def fb_ok_def)
  show "px fb x y < 2 ^ 62" using b assms(1) by (simp add: fb_ok_def fb_size_def)
qed

lemma px_inj:
  assumes "fb_ok fb" "x < unat (fb_width fb)" "x' < unat (fb_width fb)"
  shows "px fb x y = px fb x' y' \<longleftrightarrow> x = x' \<and> y = y'"
proof
  assume e: "px fb x y = px fb x' y'"
  have lt: "4 * x < unat (fb_pitch fb)" "4 * x' < unat (fb_pitch fb)" using assms by (simp_all add: fb_ok_def)
  then have "px fb x y div unat (fb_pitch fb) = y" "px fb x' y' div unat (fb_pitch fb) = y'" by (simp_all add: px_def)
  with e have "y = y'" by simp
  with e show "x = x' \<and> y = y'" by (simp add: px_def)
qed simp

lemma pixel_draw_pixel:
  assumes "fb_ok fb" "x' < unat (fb_width fb)" "y' < unat (fb_height fb)"
  shows "pixel (draw_pixel fb x y color s) fb x' y' = (if x' = unat x \<and> y' = unat y then to_u32 color else pixel s fb x' y')"
proof (cases "fb_width fb \<le> x \<or> fb_height fb \<le> y")
  case True
  then show ?thesis using assms(2,3) by (auto simp: draw_pixel_def word_le_nat_alt)
next
  case False
  then have b: "unat x < unat (fb_width fb)" "unat y < unat (fb_height fb)" by (simp_all add: word_le_nat_alt)
  have d: "4 dvd unat (fb_pitch fb)" using assms(1) by (simp add: fb_ok_def)
  note p = px_bound [OF assms(1) b] and p' = px_bound [OF assms]
  show ?thesis
    using False read_field_write_field [OF p(3) p'(3) p(2) p'(2), of "fb_address fb" "to_u32 color" s] px_inj [OF assms(1) b(1) assms(2)]
    by (auto simp: draw_pixel_def pixel_def pixel_addr_px [OF d])
qed

lemma pixel_draw_pixels:
  assumes "fb_ok fb" "x' < unat (fb_width fb)" "y' < unat (fb_height fb)"
  shows "pixel (fold (\<lambda>(r, c). draw_pixel fb (x + word_of_nat c) (y + word_of_nat r) color) ps s) fb x' y' =
    (if \<exists>(r, c) \<in> set ps. x' = unat (x + word_of_nat c) \<and> y' = unat (y + word_of_nat r) then to_u32 color else pixel s fb x' y')"
proof (induction ps arbitrary: s)
  case (Cons a ps)
  obtain r c where a: "a = (r, c)" by fastforce
  have "pixel (draw_pixel fb (x + word_of_nat c) (y + word_of_nat r) color s) fb x' y' =
      (if x' = unat (x + word_of_nat c) \<and> y' = unat (y + word_of_nat r) then to_u32 color else pixel s fb x' y')"
    by (rule pixel_draw_pixel [OF assms])
  then show ?case unfolding a fold_Cons comp_def prod.case Cons.IH list.set(2) bex_simps
    by (simp only: prod.case split: if_split) blast
qed simp

text \<open>What a byte lights in its cell.\<close>

definition lit :: "u8 \<Rightarrow> nat \<Rightarrow> nat \<Rightarrow> bool" where
  "lit b r c \<longleftrightarrow> bit (FONT_8X8 ! unat b ! r) (7 - c)"

lemma set_glyph_pixels: "(r, c) \<in> set (glyph_pixels g) \<longleftrightarrow> r < 8 \<and> c < 8 \<and> bit (g ! r) (7 - c)"
  by (auto simp: glyph_pixels_def bit_iff_and_push_bit_not_eq_0)

lemma pixel_draw_char:
  assumes "fb_ok fb" "x' < unat (fb_width fb)" "y' < unat (fb_height fb)" "b < 128" "8 * cx < 2 ^ 62" "8 * cy < 2 ^ 62"
    and "draw_char fb (word_of_nat (8 * cx)) (word_of_nat (8 * cy)) b color s = (r, s')"
  shows "r = Ok ()"
    "pixel s' fb x' y' = (if x' div 8 = cx \<and> y' div 8 = cy \<and> lit b (y' mod 8) (x' mod 8) then to_u32 color else pixel s fb x' y')"
proof -
  let ?f = "\<lambda>(r, c). draw_pixel fb (word_of_nat (8 * cx) + word_of_nat c) (word_of_nat (8 * cy) + word_of_nat r) color"
  from assms(4,7) show "r = Ok ()" by (auto simp: draw_char_def not_less [symmetric])
  have s': "s' = fold ?f (glyph_pixels (FONT_8X8 ! unat b)) s"
    using assms(4,7) by (auto simp: draw_char_def not_less [symmetric])
  have u: "unat (word_of_nat (8 * k) + word_of_nat c :: usize) = 8 * k + c" if "8 * k < 2 ^ 62" "c < 8" for k c
  proof -
    have "unat (word_of_nat (8 * k + c) :: usize) = 8 * k + c"
      using that by (simp only: unat_of_nat take_bit_nat_eq_self) simp
    then show ?thesis by (simp only: of_nat_add)
  qed
  have "(\<exists>(r, c) \<in> set (glyph_pixels (FONT_8X8 ! unat b)). x' = unat (word_of_nat (8 * cx) + word_of_nat c :: usize) \<and> y' = unat (word_of_nat (8 * cy) + word_of_nat r :: usize))
    \<longleftrightarrow> x' div 8 = cx \<and> y' div 8 = cy \<and> lit b (y' mod 8) (x' mod 8)" (is "?L \<longleftrightarrow> ?R")
  proof
    assume ?L
    then obtain r c where "r < 8" "c < 8" "bit (FONT_8X8 ! unat b ! r) (7 - c)" "x' = 8 * cx + c" "y' = 8 * cy + r"
      using u assms(5,6) by (auto simp: set_glyph_pixels)
    then show ?R by (simp add: lit_def)
  next
    assume R: ?R
    then have "x' = 8 * cx + x' mod 8" "y' = 8 * cy + y' mod 8" by auto
    then show ?L using R u [OF assms(5), of "x' mod 8"] u [OF assms(6), of "y' mod 8"]
      by (intro bexI [of _ "(y' mod 8, x' mod 8)"]) (auto simp: set_glyph_pixels lit_def)
  qed
  then show "pixel s' fb x' y' = (if x' div 8 = cx \<and> y' div 8 = cy \<and> lit b (y' mod 8) (x' mod 8) then to_u32 color else pixel s fb x' y')"
    unfolding s' pixel_draw_pixels [OF assms(1-3)] by simp
qed

section \<open>Filling\<close>

lemma pixel_store:
  assumes "fb_ok fb" "x < unat (fb_width fb)" "y < unat (fb_height fb)" "col < unat (fb_width fb)" "row < unat (fb_height fb)"
  shows "pixel (write_u32 (pixel_addr fb (word_of_nat col) (word_of_nat row)) (to_u32 color) s) fb x y =
    (if x = col \<and> y = row then to_u32 color else pixel s fb x y)"
proof -
  have "col < 2 ^ 64" "row < 2 ^ 64"
    using assms(4,5) unsigned_less [of "fb_width fb", where ?'a = nat] unsigned_less [of "fb_height fb", where ?'a = nat] by simp_all
  then have u: "unat (word_of_nat col :: usize) = col" "unat (word_of_nat row :: usize) = row"
    by (simp_all add: unat_of_nat take_bit_nat_eq_self)
  then have "write_u32 (pixel_addr fb (word_of_nat col) (word_of_nat row)) (to_u32 color) s
      = draw_pixel fb (word_of_nat col) (word_of_nat row) color s"
    using assms(4,5) by (simp add: draw_pixel_def word_le_nat_alt)
  then show ?thesis using pixel_draw_pixel [OF assms(1-3), of "word_of_nat col" "word_of_nat row" color s] u by simp
qed

lemma pixel_fill_row:
  assumes "fb_ok fb" "x < unat (fb_width fb)" "y < unat (fb_height fb)" "row < unat (fb_height fb)" "\<forall>c \<in> set cols. c < unat (fb_width fb)"
  shows "pixel (fold (\<lambda>col. write_u32 (pixel_addr fb (word_of_nat col) (word_of_nat row)) (to_u32 color)) cols s) fb x y =
    (if x \<in> set cols \<and> y = row then to_u32 color else pixel s fb x y)"
  using assms(5)
proof (induction cols arbitrary: s)
  case (Cons c cols)
  then show ?case using pixel_store [OF assms(1-3) _ assms(4), of c color s] by auto
qed simp

lemma pixel_fill_region:
  assumes "fb_ok fb" "x < unat (fb_width fb)" "y < unat (fb_height fb)" "x1 \<le> fb_width fb" "y1 \<le> fb_height fb"
  shows "pixel (fill_region fb x0 x1 y0 y1 color s) fb x y =
    (if unat x0 \<le> x \<and> x < unat x1 \<and> unat y0 \<le> y \<and> y < unat y1 then to_u32 color else pixel s fb x y)"
proof -
  have c: "\<forall>c \<in> set [unat x0..<unat x1]. c < unat (fb_width fb)" using assms(4) by (auto simp: word_le_nat_alt)
  have "pixel (fold (\<lambda>row. fold (\<lambda>col. write_u32 (pixel_addr fb (word_of_nat col) (word_of_nat row)) (to_u32 color)) [unat x0..<unat x1]) rows s) fb x y =
      (if x \<in> set [unat x0..<unat x1] \<and> y \<in> set rows then to_u32 color else pixel s fb x y)" if "\<forall>r \<in> set rows. r < unat (fb_height fb)" for rows
    using that
  proof (induction rows arbitrary: s)
    case (Cons r rows)
    then show ?case using pixel_fill_row [OF assms(1-3) _ c, of r color s] by auto
  qed simp
  from this [of "[unat y0..<unat y1]"] show ?thesis using assms(5) by (auto simp: fill_region_def word_le_nat_alt)
qed

section \<open>Confinement\<close>

text \<open>An operation changes nothing but the memory of the framebuffer.\<close>

definition only_fb :: "Framebuffer \<Rightarrow> machine \<Rightarrow> machine \<Rightarrow> bool" where
  "only_fb fb s s' \<longleftrightarrow> s' = s\<lparr>ram := ram s'\<rparr> \<and>
     (\<forall>a. fb_size fb \<le> unat (a - virt_to_ram s (fb_address fb)) \<longrightarrow> ram s' a = ram s a)"

lemma only_fb_refl [simp]: "only_fb fb s s"
  by (simp add: only_fb_def)

lemma virt_to_ram_same: "s' = s\<lparr>ram := m\<rparr> \<Longrightarrow> virt_to_ram s' p = virt_to_ram s p"
  by (simp add: virt_to_ram_def split: target_arch.split)

lemma virt_to_ram_add: "virt_to_ram s (p + x) = virt_to_ram s p + x"
  by (simp add: virt_to_ram_def split: target_arch.split)

lemma only_fb_trans:
  assumes "only_fb fb s s'" "only_fb fb s' s''"
  shows "only_fb fb s s''"
proof -
  have "virt_to_ram s' (fb_address fb) = virt_to_ram s (fb_address fb)"
    using assms(1) virt_to_ram_same unfolding only_fb_def by blast
  moreover have "s'' = s\<lparr>ram := ram s''\<rparr>"
  proof -
    have "s'' = s'\<lparr>ram := ram s''\<rparr>" "s' = s\<lparr>ram := ram s'\<rparr>" using assms by (simp_all add: only_fb_def)
    then show ?thesis by (metis machine.update_convs(3) machine.surjective)
  qed
  ultimately show ?thesis using assms by (simp add: only_fb_def)
qed

lemma unat_sub_of_nat: "k \<le> unat w \<Longrightarrow> unat (w - word_of_nat k) = unat w - k" for w :: usize
proof -
  assume k: "k \<le> unat w"
  moreover have "unat w < 2 ^ 64" using unsigned_less [of w, where ?'a = nat] by simp
  ultimately have u: "unat (word_of_nat k :: usize) = k" by (simp add: unat_of_nat take_bit_nat_eq_self)
  with k have "word_of_nat k \<le> w" by (simp add: word_le_nat_alt)
  then show ?thesis by (simp add: unat_sub u)
qed

lemma only_fb_write:
  assumes "o4 + 4 \<le> fb_size fb"
  shows "only_fb fb s (write_u32 (fb_address fb + word_of_nat o4) v s)"
proof -
  let ?d = "virt_to_ram s (fb_address fb)"
  have "ram (write_u32 (fb_address fb + word_of_nat o4) v s) a = ram s a" if "fb_size fb \<le> unat (a - ?d)" for a
  proof -
    have "unat (a - ?d - word_of_nat o4) = unat (a - ?d) - o4" using that assms by (intro unat_sub_of_nat) simp
    then have "4 \<le> unat (a - (?d + word_of_nat o4))" using that assms by (simp add: diff_diff_eq)
    then show ?thesis by (simp add: write_u32_def copy_nonoverlapping_def copy_bytes_def virt_to_ram_add)
  qed
  then show ?thesis by (simp add: only_fb_def write_u32_def copy_nonoverlapping_def)
qed

lemma only_fb_draw_pixel: "fb_ok fb \<Longrightarrow> only_fb fb s (draw_pixel fb x y color s)"
proof -
  assume ok: "fb_ok fb"
  then have d: "4 dvd unat (fb_pitch fb)" by (simp add: fb_ok_def)
  show ?thesis
  proof (cases "fb_width fb \<le> x \<or> fb_height fb \<le> y")
    case False
    then have "unat x < unat (fb_width fb)" "unat y < unat (fb_height fb)" by (simp_all add: word_le_nat_alt)
    from only_fb_write [OF px_bound(1) [OF ok this]] False show ?thesis by (simp add: draw_pixel_def pixel_addr_px [OF d])
  qed (simp add: draw_pixel_def)
qed

lemma only_fb_draw_char: "fb_ok fb \<Longrightarrow> draw_char fb x y b color s = (r, s') \<Longrightarrow> only_fb fb s s'"
proof -
  assume ok: "fb_ok fb" and d: "draw_char fb x y b color s = (r, s')"
  have "only_fb fb s (fold (\<lambda>(r, c). draw_pixel fb (x + word_of_nat c) (y + word_of_nat r) color) ps s)" for ps
  proof (induction ps arbitrary: s)
    case (Cons a ps)
    then show ?case using only_fb_draw_pixel [OF ok] only_fb_trans by (cases a) fastforce
  qed simp
  with d show ?thesis by (auto simp: draw_char_def split: if_splits)
qed

section \<open>Scrolling\<close>

lemma fb_words:
  assumes "fb_ok fb"
  shows "unat ((fb_height fb - 8) * fb_pitch fb) = (unat (fb_height fb) - 8) * unat (fb_pitch fb)"
    "unat (8 * fb_pitch fb) = 8 * unat (fb_pitch fb)" "8 * unat (fb_pitch fb) \<le> fb_size fb"
    "(unat (fb_height fb) - 8) * unat (fb_pitch fb) + 8 * unat (fb_pitch fb) = fb_size fb" "fb_size fb < 2 ^ 62"
proof -
  have h: "8 \<le> unat (fb_height fb)" and z: "fb_size fb < 2 ^ 62" using assms by (simp_all add: fb_ok_def fb_size_def)
  show z': "fb_size fb < 2 ^ 62" by (fact z)
  show sum: "(unat (fb_height fb) - 8) * unat (fb_pitch fb) + 8 * unat (fb_pitch fb) = fb_size fb"
    using h by (simp add: fb_size_def flip: add_mult_distrib)
  then show "8 * unat (fb_pitch fb) \<le> fb_size fb" by simp
  have "8 \<le> fb_height fb" using h by (simp add: word_le_nat_alt)
  then have "unat (fb_height fb - 8) = unat (fb_height fb) - 8" by (simp add: unat_sub)
  then show "unat ((fb_height fb - 8) * fb_pitch fb) = (unat (fb_height fb) - 8) * unat (fb_pitch fb)"
    using sum z by (simp add: unat_word_ariths)
  show "unat (8 * fb_pitch fb) = 8 * unat (fb_pitch fb)" using sum z by (simp add: unat_word_ariths)
qed

lemma ram_scroll:
  assumes "fb_ok fb"
  shows "ram (scroll_up fb s) a =
    (let off = unat (a - virt_to_ram s (fb_address fb))
     in if off < (unat (fb_height fb) - 8) * unat (fb_pitch fb) then ram s (a + 8 * fb_pitch fb)
        else if off < fb_size fb then 0 else ram s a)"
proof -
  define d n where "d = virt_to_ram s (fb_address fb)" and "n = (fb_height fb - 8) * fb_pitch fb"
  note w = fb_words [OF assms]
  define N where "N = (unat (fb_height fb) - 8) * unat (fb_pitch fb)"
  have un: "unat n = N" using w(1) by (simp add: n_def N_def)
  have nN: "n = word_of_nat N" by (simp flip: un)
  have v: "virt_to_ram (ptr_copy src dst m s) p = virt_to_ram s p" for src dst m p
    by (rule virt_to_ram_same) (simp add: ptr_copy_def)
  have e: "ram (scroll_up fb s) a = (if a - (d + n) < 8 * fb_pitch fb then 0 else if a - d < n then ram s (a + 8 * fb_pitch fb) else ram s a)"
    by (simp add: scroll_up_def Let_def write_bytes_def fill_def v virt_to_ram_add d_def n_def) (simp add: ptr_copy_def virt_to_ram_add)
  have lt: "a - d < n \<longleftrightarrow> unat (a - d) < N" by (simp add: word_less_nat_alt un)
  have "a - (d + n) < 8 * fb_pitch fb \<longleftrightarrow> N \<le> unat (a - d) \<and> unat (a - d) < fb_size fb"
  proof (cases "N \<le> unat (a - d)")
    case True
    then have "unat (a - d - n) = unat (a - d) - N" by (simp only: nN unat_sub_of_nat)
    then show ?thesis using True w(2,4) by (simp add: word_less_nat_alt diff_diff_eq N_def) linarith
  next
    case False
    then have "a - d - n \<noteq> 0" using un by auto
    then have "unat (a - d - n) + unat (n - (a - d)) = 2 ^ 64" using unat_neg [of "a - d - n"] by simp
    moreover have "unat (n - (a - d)) = N - unat (a - d)" using False un by (simp add: unat_sub word_le_nat_alt)
    moreover have "(2 :: nat) ^ 64 = 4 * 2 ^ 62" by simp
    ultimately have "\<not> unat (a - d - n) < 8 * unat (fb_pitch fb)" using w(3,4,5) N_def by linarith
    with False show ?thesis using w(2) by (simp add: word_less_nat_alt diff_diff_eq)
  qed
  then show ?thesis unfolding e lt by (simp add: d_def N_def Let_def)
qed

lemma only_fb_scroll: "fb_ok fb \<Longrightarrow> only_fb fb s (scroll_up fb s)"
proof -
  assume ok: "fb_ok fb"
  have "ram (scroll_up fb s) a = ram s a" if "fb_size fb \<le> unat (a - virt_to_ram s (fb_address fb))" for a
    using that fb_words(4) [OF ok] by (simp add: ram_scroll [OF ok] Let_def)
  then show ?thesis by (simp add: only_fb_def scroll_up_def ptr_copy_def write_bytes_def Let_def)
qed

lemma pixel_scroll:
  assumes "fb_ok fb" "x < unat (fb_width fb)" "y < unat (fb_height fb)"
  shows "pixel (scroll_up fb s) fb x y = (if y + 8 < unat (fb_height fb) then pixel s fb x (y + 8) else 0)"
proof -
  define d where "d = virt_to_ram s (fb_address fb)"
  note w = fb_words [OF assms(1)] and p = px_bound [OF assms]
  have v: "virt_to_ram (scroll_up fb s) q = virt_to_ram s q" for q
    by (rule virt_to_ram_same) (simp add: scroll_up_def ptr_copy_def write_bytes_def Let_def)
  have off: "unat (d + word_of_nat (px fb x y) + word_of_nat i - d) = px fb x y + i" if "i < 4" for i
  proof -
    have "unat (word_of_nat (px fb x y + i) :: usize) = px fb x y + i"
      using p(3) that by (simp add: unat_of_nat take_bit_nat_eq_self del: of_nat_add)
    then show ?thesis by (simp add: add.assoc)
  qed
  have le: "px fb x y + 4 \<le> Suc y * unat (fb_pitch fb)" using assms(1,2) by (simp add: px_def fb_ok_def)
  have q: "px fb x (y + 8) = px fb x y + 8 * unat (fb_pitch fb)" by (simp add: px_def algebra_simps)
  have b: "ram (scroll_up fb s) (d + word_of_nat (px fb x y) + word_of_nat i) =
      (if y + 8 < unat (fb_height fb) then ram s (d + word_of_nat (px fb x (y + 8)) + word_of_nat i) else 0)" if "i < 4" for i
  proof (cases "y + 8 < unat (fb_height fb)")
    case True
    then have "Suc y * unat (fb_pitch fb) \<le> (unat (fb_height fb) - 8) * unat (fb_pitch fb)" by (intro mult_le_mono) simp_all
    then have "px fb x y + i < (unat (fb_height fb) - 8) * unat (fb_pitch fb)" using le that by linarith
    then show ?thesis using True
      unfolding ram_scroll [OF assms(1)] Let_def d_def [symmetric] off [OF that] q by (simp add: algebra_simps)
  next
    case False
    then have "(unat (fb_height fb) - 8) * unat (fb_pitch fb) \<le> y * unat (fb_pitch fb)" by (intro mult_le_mono) simp_all
    then have "\<not> px fb x y + i < (unat (fb_height fb) - 8) * unat (fb_pitch fb)" unfolding px_def by linarith
    moreover have "px fb x y + i < fb_size fb" using p(1) that by simp
    ultimately show ?thesis using False
      unfolding ram_scroll [OF assms(1)] Let_def d_def [symmetric] off [OF that] by simp
  qed
  have m: "map (\<lambda>i. ram (scroll_up fb s) (d + word_of_nat (px fb x y) + word_of_nat i)) [0..<4] =
      map (\<lambda>i. if y + 8 < unat (fb_height fb) then ram s (d + word_of_nat (px fb x (y + 8)) + word_of_nat i) else 0) [0..<4]"
    by (rule map_cong) (simp_all only: set_upt atLeastLessThan_iff b)
  have "u32_le (map (\<lambda>i. 0) [0..<4]) = 0" by (simp add: u32_le_def upt_rec)
  then show ?thesis
    unfolding pixel_def read_u32_def read_bytes_def v virt_to_ram_add d_def [symmetric] m by simp
qed

section \<open>The terminal as a grid of characters\<close>

text \<open>
  The specification: a grid of cells, a cursor, and for every cell the characters that were drawn in it, one
  over the other, since it was last blank.
\<close>

record text_screen =
  cells :: "nat \<Rightarrow> nat \<Rightarrow> bytes"
  col_pos :: nat
  row_pos :: nat

definition screen_newline :: "nat \<Rightarrow> text_screen \<Rightarrow> text_screen" where
  "screen_newline rows sc =
     (if row_pos sc + 1 = rows
      then sc\<lparr>cells := (\<lambda>r c. if r + 1 = rows then [] else cells sc (r + 1) c), col_pos := 0\<rparr>
      else sc\<lparr>col_pos := 0, row_pos := row_pos sc + 1\<rparr>)"

definition screen_put :: "nat \<Rightarrow> nat \<Rightarrow> u8 \<Rightarrow> text_screen \<Rightarrow> text_screen" where
  "screen_put cols rows b sc =
     (if b = 0x0A then screen_newline rows sc
      else if b = 0x0D then sc\<lparr>col_pos := 0\<rparr>
      else let sc = (if col_pos sc = cols then screen_newline rows sc else sc)
           in sc\<lparr>cells := (\<lambda>r c. if r = row_pos sc \<and> c = col_pos sc then b # cells sc r c else cells sc r c),
                 col_pos := col_pos sc + 1\<rparr>)"

definition cell_pixel :: "u32 \<Rightarrow> text_screen \<Rightarrow> nat \<Rightarrow> nat \<Rightarrow> u32" where
  "cell_pixel v sc x y = (if \<exists>b \<in> set (cells sc (y div 8) (x div 8)). lit b (y mod 8) (x mod 8) then v else 0)"

definition displays :: "nat \<Rightarrow> nat \<Rightarrow> Terminal \<times> machine \<Rightarrow> text_screen \<Rightarrow> bool" where
  "displays cols rows ts sc \<longleftrightarrow>
     (let t = fst ts; fb = term_fb t in
      fb_ok fb \<and> unat (fb_width fb) = 8 * cols \<and> unat (fb_height fb) = 8 * rows \<and> 0 < cols \<and>
      cursor_x t = word_of_nat (8 * col_pos sc) \<and> col_pos sc \<le> cols \<and>
      cursor_y t = word_of_nat (8 * row_pos sc) \<and> row_pos sc < rows \<and>
      (\<forall>x < 8 * cols. \<forall>y < 8 * rows. pixel (snd ts) fb x y = cell_pixel (to_u32 (text_color t)) sc x y))"

lemma displaysD:
  assumes "displays cols rows (t, s) sc"
  shows "fb_ok (term_fb t)" "unat (fb_width (term_fb t)) = 8 * cols" "unat (fb_height (term_fb t)) = 8 * rows" "0 < cols"
    "cursor_x t = word_of_nat (8 * col_pos sc)" "col_pos sc \<le> cols" "cursor_y t = word_of_nat (8 * row_pos sc)" "row_pos sc < rows"
    "x < 8 * cols \<Longrightarrow> y < 8 * rows \<Longrightarrow> pixel s (term_fb t) x y = cell_pixel (to_u32 (text_color t)) sc x y"
  using assms by (simp_all add: displays_def Let_def)

lemma displays_small:
  assumes "displays cols rows (t, s) sc"
  shows "8 * rows < 2 ^ 62" "8 * cols < 2 ^ 62"
proof -
  note d = displaysD [OF assms]
  have z: "8 * rows * unat (fb_pitch (term_fb t)) < 2 ^ 62" "8 * (4 * cols) \<le> unat (fb_pitch (term_fb t))" "8 \<le> 8 * rows"
    using d(1-3) by (simp_all add: fb_ok_def)
  have "8 * rows * 1 \<le> 8 * rows * unat (fb_pitch (term_fb t))" "1 * unat (fb_pitch (term_fb t)) \<le> 8 * rows * unat (fb_pitch (term_fb t))"
    using z(2,3) d(4) by (intro mult_le_mono; simp)+
  with z show "8 * rows < 2 ^ 62" "8 * cols < 2 ^ 62" by linarith+
qed

lemma row_edge: "y < 8 * r \<Longrightarrow> y + 8 < 8 * r \<longleftrightarrow> y div 8 + 1 \<noteq> r" for y r :: nat
proof -
  assume "y < 8 * r"
  then have "y div 8 < r" by (simp add: less_mult_imp_div_less mult.commute)
  have "y = 8 * (y div 8) + y mod 8" "y mod 8 < 8" by simp_all
  with \<open>y div 8 < r\<close> show ?thesis by arith
qed

lemma new_line_displays:
  assumes "displays cols rows (t, s) sc" "new_line (t, s) = (t', s')"
  shows "displays cols rows (t', s') (screen_newline rows sc)" "only_fb (term_fb t) s s'"
    "term_fb t' = term_fb t" "text_color t' = text_color t"
proof -
  note d = displaysD [OF assms(1)] and sm = displays_small [OF assms(1)]
  have c: "cursor_y t + 8 = word_of_nat (8 * (row_pos sc + 1))" using d(7) by simp
  have u: "unat (word_of_nat (8 * (row_pos sc + 1)) :: usize) = 8 * (row_pos sc + 1)"
    using d(8) sm by (simp add: unat_of_nat take_bit_nat_eq_self del: of_nat_mult of_nat_add of_nat_Suc)
  have edge: "fb_height (term_fb t) \<le> cursor_y t + 8 \<longleftrightarrow> row_pos sc + 1 = rows"
    unfolding word_le_nat_alt c u d(3) using d(8) by auto
  show "term_fb t' = term_fb t" "text_color t' = text_color t" "only_fb (term_fb t) s s'"
    using assms(2) only_fb_scroll [OF d(1)] by (auto simp: new_line_def Let_def split: if_splits)
  show "displays cols rows (t', s') (screen_newline rows sc)"
  proof (cases "row_pos sc + 1 = rows")
    case False
    then have "t' = t\<lparr>cursor_x := 0, cursor_y := cursor_y t + 8\<rparr>" "s' = s"
      using assms(2) edge by (auto simp: new_line_def Let_def)
    then show ?thesis
      using assms(1) False c by (auto simp: displays_def Let_def screen_newline_def cell_pixel_def)
  next
    case True
    then have t': "t' = t\<lparr>cursor_x := 0\<rparr>" "s' = scroll_up (term_fb t) s"
      using assms(2) edge by (auto simp: new_line_def Let_def)
    have "pixel s' (term_fb t) x y = cell_pixel (to_u32 (text_color t)) (screen_newline rows sc) x y"
      if "x < 8 * cols" "y < 8 * rows" for x y
    proof -
      have n: "cells (screen_newline rows sc) (y div 8) (x div 8) = (if y div 8 + 1 = rows then [] else cells sc (y div 8 + 1) (x div 8))"
        using True by (simp add: screen_newline_def)
      have i: "y + 8 < 8 * rows \<longleftrightarrow> y div 8 + 1 \<noteq> rows" by (rule row_edge [OF that(2)])
      have p: "pixel s' (term_fb t) x y = (if y div 8 + 1 \<noteq> rows then pixel s (term_fb t) x (y + 8) else 0)"
        using pixel_scroll [OF d(1), of x y s, unfolded d(2,3), OF that] unfolding t'(2) i .
      show ?thesis
      proof (cases "y div 8 + 1 = rows")
        case True
        then show ?thesis using p n by (simp add: cell_pixel_def)
      next
        case False
        have "(y + 8) div 8 = y div 8 + 1" "(y + 8) mod 8 = y mod 8" by simp_all
        then show ?thesis using False p n d(9) [of x "y + 8"] that(1) i by (simp add: cell_pixel_def)
      qed
    qed
    then show ?thesis using True assms(1) by (simp add: displays_def Let_def t' screen_newline_def)
  qed
qed

lemma write_byte_displays:
  assumes "displays cols rows (t, s) sc" "b < 128"
  shows "\<exists>t' s'. term_write_byte b (t, s) = (Ok (), t', s') \<and> displays cols rows (t', s') (screen_put cols rows b sc) \<and>
    only_fb (term_fb t) s s' \<and> term_fb t' = term_fb t \<and> text_color t' = text_color t"
proof (cases "b = 0x0A \<or> b = 0x0D")
  case True
  obtain t' s' where n: "new_line (t, s) = (t', s')" by fastforce
  from True show ?thesis
  proof
    assume "b = 0x0A"
    then show ?thesis using new_line_displays [OF assms(1) n] n by (auto simp: term_write_byte_def screen_put_def)
  next
    assume "b = 0x0D"
    then show ?thesis using assms(1)
      by (auto simp: term_write_byte_def screen_put_def displays_def Let_def cell_pixel_def)
  qed
next
  case False
  define sc1 where "sc1 = (if col_pos sc = cols then screen_newline rows sc else sc)"
  define ts1 where "ts1 = (if fb_width (term_fb t) \<le> cursor_x t then new_line (t, s) else (t, s))"
  obtain t1 s1 where ts1: "ts1 = (t1, s1)" by fastforce
  note d = displaysD [OF assms(1)] and sm = displays_small [OF assms(1)]
  have "8 * col_pos sc < 2 ^ 64" using d(6) sm(2) by simp
  then have cx: "unat (cursor_x t) = 8 * col_pos sc"
    unfolding d(5) by (simp only: unat_of_nat len_num1 len_bit0 take_bit_nat_eq_self) simp
  have edge: "fb_width (term_fb t) \<le> cursor_x t \<longleftrightarrow> col_pos sc = cols"
    unfolding word_le_nat_alt d(2) cx using d(6) by auto
  have one: "displays cols rows (t1, s1) sc1" "only_fb (term_fb t) s s1" "term_fb t1 = term_fb t" "text_color t1 = text_color t"
  proof -
    consider "col_pos sc = cols" "new_line (t, s) = (t1, s1)" | "col_pos sc \<noteq> cols" "t1 = t" "s1 = s"
      using ts1 unfolding ts1_def edge by (cases "col_pos sc = cols") simp_all
    then have "displays cols rows (t1, s1) sc1 \<and> only_fb (term_fb t) s s1 \<and> term_fb t1 = term_fb t \<and> text_color t1 = text_color t"
    proof cases
      case 1
      from new_line_displays [OF assms(1) 1(2)] 1(1) show ?thesis by (simp only: sc1_def if_True simp_thms)
    next
      case 2
      with assms(1) show ?thesis by (simp only: sc1_def if_False simp_thms only_fb_refl)
    qed
    then show "displays cols rows (t1, s1) sc1" "only_fb (term_fb t) s s1" "term_fb t1 = term_fb t" "text_color t1 = text_color t"
      by blast+
  qed
  have lt: "col_pos sc1 < cols" using d(4,6) by (auto simp: sc1_def screen_newline_def)
  note d1 = displaysD [OF one(1)]
  obtain r s2 where dc: "draw_char (term_fb t1) (cursor_x t1) (cursor_y t1) b (text_color t1) s1 = (r, s2)" by fastforce
  have "8 * col_pos sc1 < 2 ^ 62" "8 * row_pos sc1 < 2 ^ 62" using lt d1(8) sm by linarith+
  note px = pixel_draw_char [OF d1(1) _ _ assms(2) this dc [unfolded d1(5,7)], unfolded d1(2,3)]
  have r: "r = Ok ()" using px(1) [of 0 0] d1(4,8) by simp
  define sc2 where "sc2 = sc1\<lparr>cells := (\<lambda>r c. if r = row_pos sc1 \<and> c = col_pos sc1 then b # cells sc1 r c else cells sc1 r c),
      col_pos := col_pos sc1 + 1\<rparr>"
  have "pixel s2 (term_fb t1) x y = cell_pixel (to_u32 (text_color t1)) sc2 x y" if "x < 8 * cols" "y < 8 * rows" for x y
    using px(2) [OF that] d1(9) [OF that] by (auto simp: cell_pixel_def sc2_def)
  then have "displays cols rows (t1\<lparr>cursor_x := cursor_x t1 + 8\<rparr>, s2) sc2"
    using one(1) lt by (simp add: displays_def Let_def sc2_def)
  moreover have "screen_put cols rows b sc = sc2"
    using False unfolding screen_put_def sc1_def [symmetric] sc2_def Let_def by simp
  moreover have "term_write_byte b (t, s) = (Ok (), t1\<lparr>cursor_x := cursor_x t1 + 8\<rparr>, s2)"
    using False ts1 dc r by (simp add: term_write_byte_def ts1_def)
  moreover have "only_fb (term_fb t) s s2"
    using only_fb_trans [OF one(2)] only_fb_draw_char [OF d1(1) dc] unfolding one(3) by blast
  ultimately show ?thesis using one(3,4) by auto
qed

definition blank_screen :: text_screen where
  "blank_screen = \<lparr>cells = (\<lambda>r c. []), col_pos = 0, row_pos = 0\<rparr>"

text \<open>The terminal of a cleared framebuffer shows the blank grid, the state the refinement below starts from.\<close>

lemma cleared_terminal_displays:
  assumes "fb_ok fb" "unat (fb_width fb) = 8 * cols" "unat (fb_height fb) = 8 * rows" "0 < cols"
  shows "displays cols rows (terminal_new fb, fb_clear fb BLACK s) blank_screen"
proof -
  have "8 \<le> 8 * rows" using assms(1,3) by (simp add: fb_ok_def)
  moreover have "pixel (fb_clear fb BLACK s) fb x y = 0" if "x < 8 * cols" "y < 8 * rows" for x y
    using pixel_fill_region [OF assms(1), of x y "fb_width fb" "fb_height fb" 0 0 BLACK s] that
    by (simp add: fb_clear_def assms(2,3) to_u32_def)
  ultimately show ?thesis
    using assms by (simp add: displays_def terminal_new_def blank_screen_def cell_pixel_def)
qed

text \<open>C24: The terminal shows what was written. From a screen whose pixels show a grid of characters, writing any ASCII
  text succeeds, the pixels then show the grid of the specification after the same text (line feeds, carriage
  returns, wrapping at the right edge and scrolling at the bottom included), and no memory outside the
  framebuffer has changed.\<close>

theorem terminal_refines_grid:
  assumes "displays cols rows (t, s) sc" "\<forall>b \<in> set bs. b < 128"
  shows "\<exists>t' s'. term_write_str bs (t, s) = (Ok (), t', s') \<and>
    displays cols rows (t', s') (fold (screen_put cols rows) bs sc) \<and> only_fb (term_fb t) s s' \<and>
    term_fb t' = term_fb t \<and> text_color t' = text_color t"
  using assms
proof (induction bs arbitrary: t s sc)
  case (Cons b bs)
  then obtain t1 s1 where one: "term_write_byte b (t, s) = (Ok (), t1, s1)" "displays cols rows (t1, s1) (screen_put cols rows b sc)"
    "only_fb (term_fb t) s s1" "term_fb t1 = term_fb t" "text_color t1 = text_color t"
    using write_byte_displays [of cols rows t s sc b] by auto
  from Cons.IH [OF one(2)] Cons.prems(2) obtain t2 s2 where
    "term_write_str bs (t1, s1) = (Ok (), t2, s2)" "displays cols rows (t2, s2) (fold (screen_put cols rows) bs (screen_put cols rows b sc))"
    "only_fb (term_fb t) s1 s2" "term_fb t2 = term_fb t" "text_color t2 = text_color t"
    using one(4,5) by auto
  with one only_fb_trans [OF one(3)] show ?case by auto
qed simp

definition demo_fb :: Framebuffer where
  "demo_fb = \<lparr>fb_address = 0x1000, fb_width = 16, fb_height = 16, fb_pitch = 64\<rparr>"

definition zero_machine :: machine where
  "zero_machine = \<lparr>target = X86_64, hhdm = 0, ram = (\<lambda>_. 0), pmm = \<lparr>bitmap = []\<rparr>, cr3 = 0, ttbr1 = 0, kernel_root = 0\<rparr>"

text \<open>Three lines on a screen of two: the first has scrolled away, and the letter L is where it was scrolled to.\<close>

theorem terminal_refines_grid_witness:
  "\<exists>t' s'. term_write_str [0x48, 0x0A, 0x4C, 0x0A, 0x48] (terminal_new demo_fb, zero_machine) = (Ok (), t', s') \<and>
     cursor_y t' = 8 \<and> pixel s' demo_fb 1 0 = 0xFFFFFF \<and> pixel s' demo_fb 3 0 = 0"
proof -
  have z: "pixel zero_machine demo_fb x y = 0" for x y
    by (simp add: pixel_def read_u32_def read_bytes_def zero_machine_def u32_le_def upt_rec)
  have d0: "displays 2 2 (terminal_new demo_fb, zero_machine) blank_screen"
    using z by (simp add: displays_def terminal_new_def demo_fb_def blank_screen_def cell_pixel_def fb_ok_def)
  let ?sc = "fold (screen_put 2 2) [0x48, 0x0A, 0x4C, 0x0A, 0x48] blank_screen"
  have a: "\<forall>b \<in> set [0x48, 0x0A, 0x4C, 0x0A, 0x48]. b < (128 :: u8)" by simp
  obtain t' s' where w: "term_write_str [0x48, 0x0A, 0x4C, 0x0A, 0x48] (terminal_new demo_fb, zero_machine) = (Ok (), t', s')"
    "displays 2 2 (t', s') ?sc" "term_fb t' = demo_fb" "text_color t' = WHITE"
    using terminal_refines_grid [OF d0 a] by (auto simp: terminal_new_def)
  have c: "cells ?sc 0 0 = [0x4C]" "row_pos ?sc = 1"
    by (simp_all add: screen_put_def screen_newline_def blank_screen_def Let_def)
  have f: "FONT_8X8 ! 76 ! 0 = 0x60" by code_simp
  have p: "pixel s' demo_fb x 0 = (if lit 0x4C 0 (x mod 8) then to_u32 WHITE else 0)" if "x < 8" for x
    using displaysD(9) [OF w(2), of x 0] w(3,4) c that by (simp only: cell_pixel_def) simp
  have "to_u32 WHITE = 0xFFFFFF" by code_simp
  then have "pixel s' demo_fb 1 0 = 0xFFFFFF" "pixel s' demo_fb 3 0 = 0" using p [of 1] p [of 3] f by (simp_all add: lit_def)
  moreover have "cursor_y t' = 8" using displaysD(7) [OF w(2)] c(2) by simp
  ultimately show ?thesis using w(1) by blast
qed

end
