(* ===== verification/UserMem.thy ===== *)
theory UserMem
  imports Vmm
begin

text \<open>
  The memory of a process as the process sees it: the byte behind a virtual address of the user
  half. The lemmas lift the page-table level facts of \<open>Vmm\<close> to this view, for the code that fills
  user memory (ELF loader, stack allocator) and the code that reads it (system calls).
\<close>

definition user_indices :: "usize set" where
  "user_indices = {i. 0 < i \<and> i < 256}"

definition user_addr :: "usize \<Rightarrow> bool" where
  "user_addr w \<longleftrightarrow> USER_SPACE_BASE \<le> w \<and> w < 0x800000000000"

definition user_byte :: "machine \<Rightarrow> usize \<Rightarrow> usize \<Rightarrow> u8 option" where
  "user_byte s root w = map_option (ram s) (arch_translate_addr s root w)"

abbreviation user_tree :: "machine \<Rightarrow> usize \<Rightarrow> bool" where
  "user_tree s root \<equiv> owned_tree (ops s) user_indices 4 s root"

lemma user_addr_unat: "user_addr w \<longleftrightarrow> 2 ^ 39 \<le> unat w \<and> unat w < 2 ^ 47"
  by (simp add: user_addr_def USER_SPACE_BASE_def word_le_nat_alt word_less_nat_alt push_bit_eq_mult)

lemma unat_drop_bit: "unat (drop_bit k (w :: usize)) = unat w div 2 ^ k"
proof -
  have "take_bit 64 (unat w) = unat w"
    using unsigned_less [of w, where ?'a = nat] by (simp add: take_bit_nat_eq_self)
  then show ?thesis by (simp only: unsigned_drop_bit_eq) (simp add: drop_bit_eq_div)
qed

lemma user_addr_top: "user_addr w \<Longrightarrow> top_index w \<in> user_indices"
proof -
  assume "user_addr w"
  then have w: "2 ^ 39 \<le> unat w" "unat w < 2 ^ 47" by (simp_all add: user_addr_unat)
  have "unat (top_index w) = unat w div 2 ^ 39 mod 2 ^ 9"
    unfolding top_index_def idx_mask by (simp add: unsigned_take_bit_eq unat_drop_bit) (simp add: take_bit_eq_mod)
  moreover have "unat w div 2 ^ 39 < 256" "0 < unat w div 2 ^ 39" using w by auto
  ultimately show ?thesis by (simp add: user_indices_def word_less_nat_alt)
qed

lemma user_same_page:
  assumes "user_addr v" "user_addr w"
  shows "same_page v w \<longleftrightarrow> unat v div 4096 = unat w div 4096"
proof -
  have "unat (take_bit 36 (drop_bit 12 x)) = unat x div 4096" if "user_addr x" for x
  proof -
    have "unat x div 4096 < 2 ^ 36" using that by (simp add: user_addr_unat less_mult_imp_div_less)
    then show ?thesis by (simp add: unsigned_take_bit_eq unat_drop_bit take_bit_nat_eq_self)
  qed
  then show ?thesis using assms by (simp add: same_page_def word_unat_eq_iff)
qed

lemma user_byte_leaf:
  assumes "user_tree s root" "user_addr w"
  shows "user_byte s root w =
    (if pte_present (ops s) (leaf_entry (ops s) s root w)
     then Some (ram s (pte_addr (ops s) (leaf_entry (ops s) s root w) + (w AND 0xFFF))) else None)"
  using translate_leaf [OF assms(1) user_addr_top [OF assms(2)]] by (simp add: user_byte_def)

lemma and_fff_less: "(w :: usize) AND 0xFFF < 4096"
  by (rule order_le_less_trans [OF word_and_le1]) simp

lemma unat_and_fff: "unat ((w :: usize) AND 0xFFF) = unat w mod 4096"
  unfolding and_fff by (simp add: unsigned_take_bit_eq) (simp add: take_bit_eq_mod)

lemma frame_of_page_byte: "page_aligned f \<Longrightarrow> frame_of (f + (w AND 0xFFF)) = frame_of f"
  by (rule frame_of_page_offset) (simp_all add: and_fff_less)

lemma leaf_private:
  assumes "user_tree s root" "user_addr w" "pte_present (ops s) (leaf_entry (ops s) s root w)"
  shows "frame_of (pte_addr (ops s) (leaf_entry (ops s) s root w) + (w AND 0xFFF)) \<notin> free_frames (pmm s)"
    "frame_of (pte_addr (ops s) (leaf_entry (ops s) s root w) + (w AND 0xFFF)) \<notin> tree_frames (ops s) user_indices 3 s root"
  using arch.mapped_frame_private [OF assms(1) _ upper_path_length, of w "leaf_idx w"] assms(3)
    path_valid(1) [OF user_addr_top [OF assms(2)]] path_valid(2) [of w]
  by (simp_all add: leaf_entry_def frame_of_page_byte arch.addr_aligned)

lemma user_byte_kept:
  assumes tree: "user_tree s root" "user_tree s' root" and t: "target s' = target s" and w: "user_addr w"
    and leaf: "leaf_entry (ops s) s' root w = leaf_entry (ops s) s root w"
    and ram: "\<And>a. frame_of a \<notin> free_frames (pmm s) \<Longrightarrow> frame_of a \<notin> tree_frames (ops s) user_indices 3 s root \<Longrightarrow>
      ram s' a = ram s a"
  shows "user_byte s' root w = user_byte s root w"
  using user_byte_leaf [OF tree(1) w] user_byte_leaf [OF tree(2) w] leaf t ram leaf_private [OF tree(1) w] by simp

lemma copy_bytes_frame:
  assumes "page_aligned f" "unat q + length bs \<le> 4096" "frame_of x \<noteq> frame_of f"
  shows "copy_bytes m (f + q) bs x = m x"
proof -
  have "\<not> unat (x - (f + q)) < length bs"
  proof
    assume lt: "unat (x - (f + q)) < length bs"
    define y where "y = x - (f + q)"
    have "unat (q + y) = unat q + unat y" using lt assms(2) by (intro unat_add_lt) (simp add: y_def)
    then have "q + y < 4096" using lt assms(2) by (simp add: y_def word_less_nat_alt)
    moreover have "x - f = q + y" by (simp add: y_def)
    ultimately have "x - f < 4096" by metis
    with frame_of_page_offset [OF assms(1)] assms(3) show False by blast
  qed
  then show ?thesis by (simp add: copy_bytes_def)
qed

lemma copy_bytes_page_byte:
  assumes "page_aligned f" "unat q + length bs \<le> 4096" "k < 4096"
  shows "copy_bytes m (f + q) bs (f + word_of_nat k) =
    (if unat q \<le> k \<and> k < unat q + length bs then bs ! (k - unat q) else m (f + word_of_nat k))"
proof -
  have uk: "unat (word_of_nat k :: usize) = k" using assms(3) by (simp add: unat_of_nat)
  have d: "f + word_of_nat k - (f + q) = word_of_nat k - q" by simp
  have "unat q \<le> 4096" using assms(2) by simp
  then have "unat (word_of_nat k - q) = (if unat q \<le> k then k - unat q else k + 2 ^ 64 - unat q)"
    by (simp add: unat_sub_if' uk)
  then show ?thesis using assms(2) unfolding copy_bytes_def d by auto
qed

section \<open>Filling one page\<close>

text \<open>Allocating, zeroing and mapping a frame and copying \<open>bs\<close> to offset \<open>q\<close> of it makes exactly that
  page appear in the process, with exactly that content.\<close>

lemma fill_user_page:
  assumes tree: "user_tree s root"
    and v: "user_addr v" "v AND 0xFFF = 0" "\<not> pte_present (ops s) (leaf_entry (ops s) s root v)"
    and alloc: "alloc_frame s = (Some f, s1)"
    and map: "arch_map_page root v f flags (zero_page f s1) = (Ok (), s2)"
    and bs: "unat q + length bs \<le> 4096"
    and s3: "s3 = s2\<lparr>ram := copy_bytes (ram s2) (f + q) bs\<rparr>"
  shows "user_tree s3 root" "target s3 = target s"
    "\<And>w. user_addr w \<Longrightarrow> user_byte s3 root w =
       (if same_page w v
        then Some (if unat q \<le> unat w mod 4096 \<and> unat w mod 4096 < unat q + length bs
                   then bs ! (unat w mod 4096 - unat q) else 0)
        else user_byte s root w)"
    "\<And>w. user_addr w \<Longrightarrow> leaf_entry (ops s) s3 root w =
       (if same_page w v then pte_leaf (ops s) f flags else leaf_entry (ops s) s root w)"
    "free_frames (pmm s3) \<subseteq> free_frames (pmm s)" "\<exists>m p. s3 = s\<lparr>ram := m, pmm := p\<rparr>"
    "card (free_frames (pmm s)) \<le> card (free_frames (pmm s3)) + 4"
proof -
  have d: "3 \<le> (4 :: nat)" "(4 :: nat) \<le> 4" by simp_all
  note M = map_fresh_page [OF tree d user_addr_top [OF v(1)] v(2,3) alloc map]
  note A = alloc_frame_Some [OF alloc conjunct2 [OF owned_tree_root [OF tree]]]
  have t2: "ops s2 = ops s" using M(2) by simp
  have leaf2: "leaf_entry (ops s) s2 root w = (if same_page w v then pte_leaf (ops s) f flags else leaf_entry (ops s) s root w)"
    if "user_addr w" for w using M(5) [OF user_addr_top [OF that]] by simp
  have fv: "leaf_entry (ops s) s2 root v = pte_leaf (ops s) f flags" using leaf2 [OF v(1)] by (simp add: same_page_def)
  have "frame_of (f + (v AND 0xFFF)) \<notin> tree_frames (ops s) user_indices 3 s2 root"
    using leaf_private(2) [of s2 root v, unfolded t2, OF M(1) v(1)] fv M(3) by (simp add: arch.format_laws)
  then have notab: "frame_of f \<notin> tree_frames (ops s) user_indices 3 s2 root"
    using v(2) by simp
  have kept: "ram s3 a = ram s2 a" if "frame_of a \<noteq> frame_of f" for a
    using copy_bytes_frame [OF A(1) bs that] by (simp add: s3)
  note W = arch.data_write_keeps_tree [OF M(1) d, of "ram s3"]
  have s3': "s3 = s2\<lparr>ram := ram s3\<rparr>" by (simp add: s3)
  have W: "owned_tree (ops s) user_indices 4 s3 root"
      "\<And>q j. valid_path user_indices (q @ [j]) \<Longrightarrow> length q = 3 \<Longrightarrow> leaf_at (ops s) s3 root q j = leaf_at (ops s) s2 root q j"
    using W(1,3) kept notab s3' by (metis)+
  show t3: "target s3 = target s" using M(2) by (simp add: s3)
  then show u3: "user_tree s3 root" using W(1) by simp
  have leaf3: "leaf_entry (ops s) s3 root w = leaf_entry (ops s) s2 root w" if "user_addr w" for w
    using W(2) [OF _ upper_path_length] path_valid(1) [OF user_addr_top [OF that]] path_valid(2) by (simp add: leaf_entry_def)
  then show "leaf_entry (ops s) s3 root w = (if same_page w v then pte_leaf (ops s) f flags else leaf_entry (ops s) s root w)"
    if "user_addr w" for w using leaf2 that by simp
  show "free_frames (pmm s3) \<subseteq> free_frames (pmm s)" using M(8) by (auto simp: s3)
  show "card (free_frames (pmm s)) \<le> card (free_frames (pmm s3)) + 4" using M(10) by (simp add: s3)
  obtain m p where "s2 = s\<lparr>ram := m, pmm := p\<rparr>" using M(9) by blast
  then show "\<exists>m p. s3 = s\<lparr>ram := m, pmm := p\<rparr>" by (intro exI [of _ "ram s3"] exI [of _ p]) (simp add: s3)
  show "user_byte s3 root w = (if same_page w v
        then Some (if unat q \<le> unat w mod 4096 \<and> unat w mod 4096 < unat q + length bs
                   then bs ! (unat w mod 4096 - unat q) else 0) else user_byte s root w)"
    if w: "user_addr w" for w
  proof (cases "same_page w v")
    case True
    have off: "w AND 0xFFF = word_of_nat (unat w mod 4096)" by (simp add: unat_and_fff [symmetric])
    have zero: "ram s2 (f + (w AND 0xFFF)) = 0" using M(6) frame_of_page_byte [OF A(1)] by simp
    have "user_byte s3 root w = Some (ram s3 (f + (w AND 0xFFF)))"
      using user_byte_leaf [OF u3 w] leaf3 [OF w] leaf2 [OF w] True t3 M(3) by (simp add: arch.format_laws)
    then show ?thesis
      using True zero copy_bytes_page_byte [OF A(1) bs, of "unat w mod 4096" "ram s2"] by (simp add: s3 off)
  next
    case False
    have "ram s3 a = ram s a" if a: "frame_of a \<notin> free_frames (pmm s)" "frame_of a \<notin> tree_frames (ops s) user_indices 3 s root" for a
      using kept [of a] M(7) [OF a] a(1) A(3) by metis
    then show ?thesis
      using user_byte_kept [OF tree u3 t3 w] leaf3 [OF w] leaf2 [OF w] False by simp
  qed
qed

lemma map_fresh_ok_absent:
  assumes tree: "user_tree s root" and v: "user_addr v"
    and alloc: "alloc_frame s = (Some f, s1)"
    and map: "arch_map_page root v f flags (zero_page f s1) = (Ok (), s2)"
  shows "\<not> pte_present (ops s) (leaf_entry (ops s) s root v)"
proof -
  let ?s = "zero_page f s1"
  have d: "3 \<le> (4 :: nat)" "(4 :: nat) \<le> 4" by simp_all
  note A = alloc_frame_Some [OF alloc conjunct2 [OF owned_tree_root [OF tree]]]
  note F = arch.fresh_frame_keeps_tree [OF tree d(1) alloc refl]
  have t: "target ?s = target s" by (simp add: A(4))
  have fa: "pte_addr (ops s) f = f" by (rule arch.addr_id [OF A(1,2)])
  have fresh: "4 = 3 \<or> frame_of (pte_addr (ops ?s) f) \<notin> tree_frames (ops ?s) user_indices 4 ?s root \<union> free_frames (pmm ?s)"
    using F(3) fa t by simp
  have "leaf_entry (ops s) ?s root v = leaf_entry (ops s) s root v"
    using F(2) [of "upper_path v" "leaf_idx v"] path_valid(1) [OF user_addr_top [OF v]] path_valid(2) [of v]
    by (simp add: leaf_entry_def)
  then show ?thesis
    using map_page_leaf(4) [of ?s, unfolded t, OF F(1) d user_addr_top [OF v] fresh [unfolded t] map]
    by (auto split: if_splits)
qed

end
