(* ===== verification/Elf.thy ===== *)
theory Elf
  imports UserMem
begin

text \<open>
  The ELF64 loader (\<^verbatim>\<open>src/elf.rs\<close>): header checks, the program-header loop and the mapping and
  copying of one segment. Sizes and offsets read from the file are 64-bit words and wrap as in the
  release build; an out-of-range slice is \<open>Panic\<close>. The page loop is a partial function, so that its
  termination is a theorem.
\<close>

section \<open>Reading the file\<close>

definition field :: "bytes \<Rightarrow> nat \<Rightarrow> nat \<Rightarrow> bytes" where
  "field bs a b = take (b - a) (drop a bs)"

definition EM_MACHINE :: "target_arch \<Rightarrow> u16" where
  "EM_MACHINE tgt = (case tgt of X86_64 \<Rightarrow> 62 | AArch64 \<Rightarrow> 183)"

definition ET_EXEC :: u16 where "ET_EXEC = 2"

definition ET_DYN :: u16 where "ET_DYN = 3"

definition PT_LOAD :: u32 where "PT_LOAD = 1"

text \<open>One entry of the program header table.\<close>

record program_header =
  p_type :: u32
  p_flags :: u32
  p_offset :: usize
  p_vaddr :: usize
  p_filesz :: usize
  p_memsz :: usize

definition parse_ph :: "bytes \<Rightarrow> program_header" where
  "parse_ph ph = \<lparr>p_type = u32_le (field ph 0 4), p_flags = u32_le (field ph 4 8),
     p_offset = u64_le (field ph 8 16), p_vaddr = u64_le (field ph 16 24),
     p_filesz = u64_le (field ph 32 40), p_memsz = u64_le (field ph 40 48)\<rparr>"

section \<open>Mapping and copying one segment\<close>

definition segment_flags :: "u32 \<Rightarrow> MapFlags" where
  "segment_flags flags = \<lparr>writable = (flags AND 2 \<noteq> 0), user_accessible = True,
     execute_disable = (flags AND 1 = 0), device = False\<rparr>"

partial_function (option) copy_pages ::
    "usize \<Rightarrow> usize \<Rightarrow> bytes \<Rightarrow> MapFlags \<Rightarrow> usize \<Rightarrow> usize \<Rightarrow> nat \<Rightarrow> machine
     \<Rightarrow> ((string, unit) outcome \<times> machine) option" where
  "copy_pages root vaddr data map_flags current_vaddr end_vaddr data_offset s =
     (if \<not> current_vaddr < end_vaddr then Some (Ok (), s)
      else case alloc_frame s of
        (None, s) \<Rightarrow> Some (Err ''Out of memory: failed to allocate frame for ELF segment'', s)
      | (Some phys_frame, s) \<Rightarrow>
          (case arch_map_page root current_vaddr phys_frame map_flags
                  (write_bytes (phys_to_virt s phys_frame) 0 4096 s) of
             (Err _, s) \<Rightarrow> Some (Err ''Failed to map page for ELF segment'', s)
           | (Panic, s) \<Rightarrow> Some (Panic, s)
           | (Ok _, s) \<Rightarrow>
               (let page_offset = (if current_vaddr < vaddr then vaddr - current_vaddr else 0);
                    bytes_left_in_data = length data - data_offset;
                    bytes_to_copy = min bytes_left_in_data (unat (4096 - page_offset))
                in if 0 < bytes_to_copy
                   then (case slice data data_offset (data_offset + bytes_to_copy) of
                           None \<Rightarrow> Some (Panic, s)
                         | Some bs \<Rightarrow>
                             copy_pages root vaddr data map_flags (current_vaddr + 4096) end_vaddr
                               (data_offset + bytes_to_copy)
                               (copy_nonoverlapping bs (phys_to_virt s (phys_frame + page_offset)) s))
                   else copy_pages root vaddr data map_flags (current_vaddr + 4096) end_vaddr data_offset s)))"

definition map_and_copy_segment ::
    "usize \<Rightarrow> usize \<Rightarrow> bytes \<Rightarrow> usize \<Rightarrow> u32 \<Rightarrow> machine \<Rightarrow> ((string, unit) outcome \<times> machine) option" where
  "map_and_copy_segment page_table_root vaddr data memsz flags s =
     (let start_vaddr = vaddr AND NOT 0xFFF;
          end_vaddr = (vaddr + memsz + 4096 - 1) AND NOT 0xFFF
      in copy_pages page_table_root vaddr data (segment_flags flags) start_vaddr end_vaddr 0 s)"

section \<open>Loading a file\<close>

text \<open>The checks on one \<open>PT_LOAD\<close> header, in the order of the code; the result is the segment's data.\<close>

definition check_segment :: "bytes \<Rightarrow> program_header \<Rightarrow> (string, bytes) outcome" where
  "check_segment elf_data ph =
     (if p_filesz ph > p_memsz ph then Err ''Invalid segment size: file size exceeds memory size''
      else if unat (p_offset ph + p_filesz ph) > length elf_data then Err ''Segment file offset out of bounds''
      else case checked_add (p_vaddr ph) (p_memsz ph) of
             None \<Rightarrow> Err ''Segment size overflows the address space''
           | Some end_vaddr \<Rightarrow>
               if p_vaddr ph < USER_SPACE_BASE \<or> end_vaddr < USER_SPACE_BASE
               then Err ''Segment targets the shared kernel region below USER_SPACE_BASE -- refusing to load''
               else case slice elf_data (unat (p_offset ph)) (unat (p_offset ph + p_filesz ph)) of
                      None \<Rightarrow> Panic
                    | Some segment_data \<Rightarrow> Ok segment_data)"

fun load_segments ::
    "bytes \<Rightarrow> usize \<Rightarrow> usize \<Rightarrow> usize \<Rightarrow> nat list \<Rightarrow> machine \<Rightarrow> ((string, unit) outcome \<times> machine) option" where
  "load_segments elf_data root ph_off ph_entsize [] s = Some (Ok (), s)"
| "load_segments elf_data root ph_off ph_entsize (i # is) s =
     (let ph_start = ph_off + word_of_nat i * max ph_entsize 56
      in if unat (ph_start + 56) > length elf_data then Some (Err ''Program header entry out of bounds'', s)
         else case slice elf_data (unat ph_start) (unat (ph_start + 56)) of
           None \<Rightarrow> Some (Panic, s)
         | Some raw \<Rightarrow>
             (let ph = parse_ph raw
              in if p_type ph = PT_LOAD
                 then (case check_segment elf_data ph of
                         Err e \<Rightarrow> Some (Err e, s)
                       | Panic \<Rightarrow> Some (Panic, s)
                       | Ok segment_data \<Rightarrow>
                           (case map_and_copy_segment root (p_vaddr ph) segment_data (p_memsz ph) (p_flags ph) s of
                              None \<Rightarrow> None
                            | Some (Ok _, s) \<Rightarrow> load_segments elf_data root ph_off ph_entsize is s
                            | Some (Err e, s) \<Rightarrow> Some (Err e, s)
                            | Some (Panic, s) \<Rightarrow> Some (Panic, s)))
                 else load_segments elf_data root ph_off ph_entsize is s))"

definition check_header :: "target_arch \<Rightarrow> bytes \<Rightarrow> string option" where
  "check_header tgt elf_data =
     (if length elf_data < 64 then Some ''ELF binary is too small to contain a valid header''
      else if elf_data ! 0 \<noteq> 0x7F \<or> elf_data ! 1 \<noteq> 0x45 \<or> elf_data ! 2 \<noteq> 0x4C \<or> elf_data ! 3 \<noteq> 0x46
      then Some ''Invalid ELF magic header signature''
      else if elf_data ! 4 \<noteq> 2 then Some ''Unsupported ELF class: expected 64-bit (ELFCLASS64)''
      else if elf_data ! 5 \<noteq> 1 then Some ''Unsupported ELF byte order: expected little-endian''
      else if u16_le (field elf_data 16 18) \<noteq> ET_EXEC \<and> u16_le (field elf_data 16 18) \<noteq> ET_DYN
      then Some ''Unsupported ELF file type: must be Executable or Shared Object (PIE)''
      else if u16_le (field elf_data 18 20) \<noteq> EM_MACHINE tgt
      then Some ''ELF architecture mismatch for target CPU''
      else None)"

definition load_elf_to_process ::
    "bytes \<Rightarrow> usize \<Rightarrow> machine \<Rightarrow> ((string, usize) outcome \<times> machine) option" where
  "load_elf_to_process elf_data page_table_root s =
     (case check_header (target s) elf_data of
        Some e \<Rightarrow> Some (Err e, s)
      | None \<Rightarrow>
          (let entry_point = u64_le (field elf_data 24 32);
               ph_off = u64_le (field elf_data 32 40);
               ph_entsize = ucast (u16_le (field elf_data 54 56));
               ph_num = ucast (u16_le (field elf_data 56 58)) :: usize
           in if ph_off = 0 \<or> ph_num = 0 then Some (Err ''ELF file contains no program headers'', s)
              else if length elf_data < unat (ph_off + ph_num * max ph_entsize 56)
              then Some (Err ''Truncated ELF file: program headers exceed binary size'', s)
              else case load_segments elf_data page_table_root ph_off ph_entsize [0..<unat ph_num] s of
                     None \<Rightarrow> None
                   | Some (Err e, s) \<Rightarrow> Some (Err e, s)
                   | Some (Panic, s) \<Rightarrow> Some (Panic, s)
                   | Some (Ok _, s) \<Rightarrow>
                       if entry_point < USER_SPACE_BASE
                       then Some (Err ''Entry point is below USER_SPACE_BASE -- refusing to run'', s)
                       else Some (Ok entry_point, s)))"

section \<open>Termination\<close>

lemma page_step:
  assumes "page_aligned c" "page_aligned e" "c < e"
  shows "unat (c + 4096) = unat c + 4096" "page_aligned (c + 4096)" "unat c + 4096 \<le> unat e"
proof -
  obtain j k where jk: "unat c = 4096 * j" "unat e = 4096 * k"
    using page_aligned_mult [OF assms(1)] page_aligned_mult [OF assms(2)] by metis
  have lt: "unat c < unat e" using assms(3) by (simp add: word_less_nat_alt)
  with jk have "Suc j \<le> k" by auto
  then have "4096 * Suc j \<le> 4096 * k" by (rule mult_le_mono2)
  with jk show le: "unat c + 4096 \<le> unat e" by simp
  have "unat e < 2 ^ 64" using unsigned_less [of e, where ?'a = nat] by simp
  with le show *: "unat (c + 4096) = unat c + 4096" by (subst unat_add_lt) simp_all
  show "page_aligned (c + 4096)" unfolding page_aligned_unat * using assms(1) by (simp add: page_aligned_unat)
qed

lemma copy_pages_returns:
  assumes "page_aligned c" "page_aligned e" "unat e \<le> unat c + 4096 * n"
  shows "\<exists>r. copy_pages root vaddr data fl c e off s = Some r"
  using assms
proof (induction n arbitrary: c off s)
  case 0
  then show ?case by (subst copy_pages.simps) (simp add: word_less_nat_alt)
next
  case (Suc n)
  show ?case
  proof (cases "c < e")
    case True
    note step = page_step [OF Suc.prems(1,2) True]
    have "\<exists>r. copy_pages root vaddr data fl (c + 4096) e off' s' = Some r" for off' s'
      using Suc.IH [OF step(2) Suc.prems(2)] Suc.prems(3) step(1) by simp
    with True show ?thesis
      by (subst copy_pages.simps) (auto simp: Let_def split: prod.split option.split outcome.split)
  next
    case False
    then show ?thesis by (subst copy_pages.simps) simp
  qed
qed

lemma page_base_aligned: "page_aligned (a AND NOT 0xFFF)"
  by (simp add: page_aligned_def and.assoc)

lemma map_and_copy_segment_returns: "\<exists>r s'. map_and_copy_segment root vaddr data memsz fl s = Some (r, s')"
proof -
  let ?c = "vaddr AND NOT 0xFFF" and ?e = "(vaddr + memsz + 4096 - 1) AND NOT 0xFFF"
  obtain n where n: "unat ?e \<le> unat ?c + 4096 * n" by (rule that [of "unat ?e"]) simp
  show ?thesis
    using copy_pages_returns [OF page_base_aligned page_base_aligned n, of root vaddr data "segment_flags fl" 0 s]
    by (auto simp: map_and_copy_segment_def Let_def)
qed

lemma load_segments_returns: "\<exists>r s'. load_segments elf root ph_off ents is s = Some (r, s')"
proof (induction "is" arbitrary: s)
  case (Cons i "is")
  have "\<exists>r s'. map_and_copy_segment root v d m fl s = Some (r, s')" for v d m fl s
    by (rule map_and_copy_segment_returns)
  then show ?case using Cons.IH
    by (auto simp: Let_def split: option.split outcome.split prod.split) (metis option.distinct(1))+
qed simp

section \<open>The image of a segment\<close>

text \<open>What a process must see at address \<open>w\<close> of a segment: the file data, then zeros.\<close>

definition seg_byte :: "usize \<Rightarrow> bytes \<Rightarrow> usize \<Rightarrow> u8" where
  "seg_byte vaddr data w =
     (if unat vaddr \<le> unat w \<and> unat w - unat vaddr < length data then data ! (unat w - unat vaddr) else 0)"

text \<open>Where the copy stands when the page loop reaches \<open>c\<close>.\<close>

definition copy_pos :: "usize \<Rightarrow> bytes \<Rightarrow> usize \<Rightarrow> nat \<Rightarrow> bool" where
  "copy_pos vaddr data c off \<longleftrightarrow>
     (c < vaddr \<and> unat vaddr < unat c + 4096 \<and> off = 0) \<or>
     (\<not> c < vaddr \<and> off = min (length data) (unat c - unat vaddr))"

definition page_offset :: "usize \<Rightarrow> usize \<Rightarrow> usize" where
  "page_offset vaddr c = (if c < vaddr then vaddr - c else 0)"

definition page_chunk :: "usize \<Rightarrow> bytes \<Rightarrow> usize \<Rightarrow> nat \<Rightarrow> bytes" where
  "page_chunk vaddr data c off =
     take (min (length data - off) (unat (4096 - page_offset vaddr c))) (drop off data)"

lemma copy_bytes_Nil [simp]: "copy_bytes m a [] = m"
  by (simp add: copy_bytes_def)

lemma copy_nonoverlapping_ptv [simp]:
  "copy_nonoverlapping bs (phys_to_virt s p) s = s\<lparr>ram := copy_bytes (ram s) p bs\<rparr>"
  by (simp add: copy_nonoverlapping_def)

lemma copy_pages_step:
  assumes "c < e" "alloc_frame s = (Some f, s1)" "arch_map_page root c f fl (zero_page f s1) = (Ok (), s2)"
  shows "copy_pages root vaddr data fl c e off s =
    copy_pages root vaddr data fl (c + 4096) e (off + length (page_chunk vaddr data c off))
      (s2\<lparr>ram := copy_bytes (ram s2) (f + page_offset vaddr c) (page_chunk vaddr data c off)\<rparr>)"
proof -
  define b where "b = min (length data - off) (unat (4096 - page_offset vaddr c))"
  have len: "length (page_chunk vaddr data c off) = b" by (simp add: page_chunk_def b_def)
  have chunk: "slice data off (off + b) = Some (page_chunk vaddr data c off)" if "0 < b"
    using that by (auto simp: slice_def page_chunk_def b_def)
  have "page_chunk vaddr data c off = []" if "\<not> 0 < b" using that len by simp
  then show ?thesis
    using assms chunk len
    by (subst copy_pages.simps)
      (simp add: Let_def b_def [symmetric] page_offset_def [symmetric] del: min_less_iff_conj)
qed

lemma copy_pages_ok:
  assumes "copy_pages root vaddr data fl c e off s = Some (Ok (), s')" "c < e"
  obtains f s1 s2 where "alloc_frame s = (Some f, s1)" "arch_map_page root c f fl (zero_page f s1) = (Ok (), s2)"
proof -
  obtain r s1 where a: "alloc_frame s = (r, s1)" by fastforce
  with assms obtain f where r: "r = Some f" by (subst (asm) copy_pages.simps) (cases r; simp)
  obtain r2 s2 where m: "arch_map_page root c f fl (zero_page f s1) = (r2, s2)" by fastforce
  with assms a r have "r2 = Ok ()" by (subst (asm) copy_pages.simps) (cases r2; simp)
  with a r m that show ?thesis by blast
qed

lemma chunk_fits:
  assumes "copy_pos vaddr data c off"
  shows "unat (page_offset vaddr c) + length (page_chunk vaddr data c off) \<le> 4096"
proof -
  have "unat (page_offset vaddr c) < 4096"
    using assms by (auto simp: copy_pos_def page_offset_def unat_sub_if' word_less_nat_alt)
  then have "unat (4096 - page_offset vaddr c) = 4096 - unat (page_offset vaddr c)"
    by (simp add: unat_sub_if')
  then show ?thesis using \<open>unat (page_offset vaddr c) < 4096\<close> by (simp add: page_chunk_def)
qed

lemma unat_page_offset_rest:
  assumes "copy_pos vaddr data c off"
  shows "unat (page_offset vaddr c) = unat vaddr - unat c" "unat (4096 - page_offset vaddr c) = 4096 - (unat vaddr - unat c)"
proof -
  show *: "unat (page_offset vaddr c) = unat vaddr - unat c"
    using assms by (auto simp: copy_pos_def page_offset_def unat_sub_if' word_less_nat_alt)
  have "unat vaddr - unat c < 4096" using assms by (auto simp: copy_pos_def word_less_nat_alt)
  then show "unat (4096 - page_offset vaddr c) = 4096 - (unat vaddr - unat c)"
    using * by (simp add: unat_sub_if')
qed

lemma copy_pos_next:
  assumes "copy_pos vaddr data c off" "unat (c + 4096) = unat c + 4096"
  shows "copy_pos vaddr data (c + 4096) (off + length (page_chunk vaddr data c off))"
  using assms unfolding copy_pos_def page_chunk_def
  by (auto simp: unat_page_offset_rest [OF assms(1)] word_less_nat_alt)

lemma chunk_byte:
  assumes "copy_pos vaddr data c off" "unat w = unat c + k" "k < 4096"
  shows "(if unat (page_offset vaddr c) \<le> k \<and> k < unat (page_offset vaddr c) + length (page_chunk vaddr data c off)
      then page_chunk vaddr data c off ! (k - unat (page_offset vaddr c)) else 0) = seg_byte vaddr data w"
proof (cases "c < vaddr")
  case True
  then have v: "unat c < unat vaddr" "unat vaddr < unat c + 4096" "off = 0"
    using assms(1) by (auto simp: copy_pos_def word_less_nat_alt)
  have "k - (unat vaddr - unat c) = unat w - unat vaddr" using v(1) assms(2) by arith
  moreover have "unat vaddr - unat c \<le> k \<longleftrightarrow> unat vaddr \<le> unat w" using v(1) assms(2) by arith
  moreover have "k < unat vaddr - unat c + min (length data) (4096 - (unat vaddr - unat c)) \<longleftrightarrow>
      unat w - unat vaddr < length data" if "unat vaddr \<le> unat w"
    using v(1,2) assms(2,3) that by (simp add: min_def) arith
  ultimately show ?thesis
    unfolding page_chunk_def seg_byte_def unat_page_offset_rest [OF assms(1)] v(3) using v(2) assms(3)
    by (auto simp: min_def)
next
  case False
  then have v: "unat vaddr \<le> unat c" "off = min (length data) (unat c - unat vaddr)"
    using assms(1) by (auto simp: copy_pos_def word_less_nat_alt)
  then show ?thesis
    using assms(2,3) unfolding page_chunk_def seg_byte_def unat_page_offset_rest [OF assms(1)] by auto
qed

text \<open>The state after loading: still an owned tree, one range of the address space replaced.\<close>

definition image_step :: "usize \<Rightarrow> nat set \<Rightarrow> (usize \<Rightarrow> u8) \<Rightarrow> machine \<Rightarrow> machine \<Rightarrow> bool" where
  "image_step root R content s s' \<longleftrightarrow>
     user_tree s' root \<and> target s' = target s \<and>
     (\<forall>w. user_addr w \<longrightarrow> user_byte s' root w =
        (if unat w \<in> R then Some (content w) else user_byte s root w)) \<and>
     (\<forall>w. user_addr w \<and> unat w \<in> R \<longrightarrow> user_byte s root w = None)"

lemma user_byte_None_iff:
  "user_tree s root \<Longrightarrow> user_addr w \<Longrightarrow>
     user_byte s root w = None \<longleftrightarrow> \<not> pte_present (ops s) (leaf_entry (ops s) s root w)"
  by (simp add: user_byte_leaf)

lemma div_page_iff: "(x :: nat) div 4096 = k \<longleftrightarrow> x \<in> {4096 * k..<4096 * k + 4096}"
  by (auto simp: div_nat_eqI)

lemma aligned_split: "(c :: nat) mod 4096 = 0 \<Longrightarrow> w = c + r \<Longrightarrow> r < 4096 \<Longrightarrow> w = c + w mod 4096"
  by (auto simp: mod_eq_0_iff_dvd elim!: dvdE)

lemma copy_pages_image:
  assumes "user_tree s root" "page_aligned c" "page_aligned e" "unat e = unat c + 4096 * n"
    and "2 ^ 39 \<le> unat c" "unat e \<le> 2 ^ 47" "copy_pos vaddr data c off"
    and "copy_pages root vaddr data fl c e off s = Some (Ok (), s')"
  shows "image_step root {unat c..<unat e} (seg_byte vaddr data) s s'"
  using assms
proof (induction n arbitrary: c off s)
  case 0
  then have "c = e" by (simp add: word_unat_eq_iff)
  with "0.prems"(8) have "s' = s" by (subst (asm) copy_pages.simps) simp
  with 0 show ?case by (simp add: image_step_def)
next
  case (Suc n)
  have lt: "c < e" using Suc.prems(4) by (simp add: word_less_nat_alt)
  note step = page_step [OF Suc.prems(2,3) lt]
  have uc: "user_addr c" using Suc.prems(4-6) by (simp add: user_addr_unat)
  obtain f s1 s2 where alloc: "alloc_frame s = (Some f, s1)"
    and map: "arch_map_page root c f fl (zero_page f s1) = (Ok (), s2)"
    using copy_pages_ok [OF Suc.prems(8) lt] .
  define s3 where "s3 = s2\<lparr>ram := copy_bytes (ram s2) (f + page_offset vaddr c) (page_chunk vaddr data c off)\<rparr>"
  have absent: "\<not> pte_present (ops s) (leaf_entry (ops s) s root c)"
    by (rule map_fresh_ok_absent [OF Suc.prems(1) uc alloc map])
  note P = fill_user_page [OF Suc.prems(1) uc _ absent alloc map chunk_fits [OF Suc.prems(7)] s3_def]
  have al: "c AND 0xFFF = 0" using Suc.prems(2) by (simp add: page_aligned_def)
  have run: "copy_pages root vaddr data fl (c + 4096) e (off + length (page_chunk vaddr data c off)) s3 = Some (Ok (), s')"
    using Suc.prems(8) copy_pages_step [OF lt alloc map] by (simp add: s3_def)
  have e: "unat e = unat (c + 4096) + 4096 * n" using Suc.prems(4) step(1) by simp
  have IH: "image_step root {unat (c + 4096)..<unat e} (seg_byte vaddr data) s3 s'"
    by (rule Suc.IH [OF P(1) [OF al] step(2) Suc.prems(3) e _ Suc.prems(6) copy_pos_next [OF Suc.prems(7) step(1)] run])
      (use Suc.prems(5) step(1) in simp)
  have page: "same_page w c \<longleftrightarrow> unat w \<in> {unat c..<unat c + 4096}" if "user_addr w" for w
  proof -
    obtain k where k: "unat c = 4096 * k" using page_aligned_mult [OF Suc.prems(2)] .
    have "same_page w c \<longleftrightarrow> unat w div 4096 = k" using user_same_page [OF that uc] by (simp add: k)
    also have "\<dots> \<longleftrightarrow> unat w \<in> {4096 * k..<4096 * k + 4096}" by (rule div_page_iff)
    finally show ?thesis unfolding k .
  qed
  have one: "user_byte s3 root w = (if unat w \<in> {unat c..<unat c + 4096} then Some (seg_byte vaddr data w) else user_byte s root w)"
    if w: "user_addr w" for w
  proof (cases "unat w \<in> {unat c..<unat c + 4096}")
    case True
    have "unat c mod 4096 = 0" using Suc.prems(2) by (simp add: page_aligned_unat)
    moreover have "unat w = unat c + (unat w - unat c)" "unat w - unat c < 4096" using True by auto
    ultimately have k: "unat w = unat c + unat w mod 4096" by (rule aligned_split)
    show ?thesis
      using P(3) [OF al w] page [OF w] True chunk_byte [OF Suc.prems(7) k] by simp
  next
    case False
    show ?thesis using P(3) [OF al w] unfolding page [OF w] if_not_P [OF False] .
  qed
  have none: "user_byte s root w = None" if "user_addr w" "unat w \<in> {unat c..<unat c + 4096}" for w
  proof -
    have "leaf_entry (ops s) s root w = leaf_entry (ops s) s root c"
      using page [OF that(1)] that(2) by (simp add: leaf_entry_def same_page_path)
    then show ?thesis using user_byte_None_iff [OF Suc.prems(1) that(1)] absent by simp
  qed
  have split: "{unat c..<unat e} = {unat c..<unat c + 4096} \<union> {unat (c + 4096)..<unat e}"
    using step by auto
  show ?case
    using IH P(2) [OF al] one none unfolding image_step_def split step(1) by fastforce
qed

text \<open>With four frames per page at hand (the page and at most three tables) the page loop succeeds.\<close>

lemma copy_pages_succeeds_card:
  assumes "user_tree s root" "page_aligned c" "page_aligned e" "unat e = unat c + 4096 * n"
    and "2 ^ 39 \<le> unat c" "unat e \<le> 2 ^ 47" "copy_pos vaddr data c off"
    and "\<And>w. user_addr w \<Longrightarrow> unat w \<in> {unat c..<unat e} \<Longrightarrow> user_byte s root w = None"
    and "4 * n \<le> card (free_frames (pmm s))"
  shows "\<exists>s'. copy_pages root vaddr data fl c e off s = Some (Ok (), s') \<and>
    card (free_frames (pmm s)) \<le> card (free_frames (pmm s')) + 4 * n"
  using assms
proof (induction n arbitrary: c off s)
  case 0
  then have "c = e" by (simp add: word_unat_eq_iff)
  then show ?case by (subst copy_pages.simps) simp
next
  case (Suc n)
  have lt: "c < e" using Suc.prems(4) by (simp add: word_less_nat_alt)
  note step = page_step [OF Suc.prems(2,3) lt]
  have uc: "user_addr c" using Suc.prems(4-6) by (simp add: user_addr_unat)
  have al: "c AND 0xFFF = 0" using Suc.prems(2) by (simp add: page_aligned_def)
  have absent: "\<not> pte_present (ops s) (leaf_entry (ops s) s root c)"
    using Suc.prems(8) [OF uc] Suc.prems(4) user_byte_None_iff [OF Suc.prems(1) uc] by simp
  obtain r s1 where a: "alloc_frame s = (r, s1)" by fastforce
  then obtain f where alloc: "alloc_frame s = (Some f, s1)"
    using alloc_frame_None [of s s1] Suc.prems(9) by (cases r) auto
  obtain r2 s2 where m: "arch_map_page root c f fl (zero_page f s1) = (r2, s2)" by fastforce
  have "r2 = Ok ()"
    using map_fresh_page(4) [OF Suc.prems(1) _ _ user_addr_top [OF uc] al absent alloc m] Suc.prems(9) by simp
  with m have map: "arch_map_page root c f fl (zero_page f s1) = (Ok (), s2)" by simp
  define s3 where "s3 = s2\<lparr>ram := copy_bytes (ram s2) (f + page_offset vaddr c) (page_chunk vaddr data c off)\<rparr>"
  note P = fill_user_page [OF Suc.prems(1) uc al absent alloc map chunk_fits [OF Suc.prems(7)] s3_def]
  have e: "unat e = unat (c + 4096) + 4096 * n" using Suc.prems(4) step(1) by simp
  have "user_byte s3 root w = None" if w: "user_addr w" "unat w \<in> {unat (c + 4096)..<unat e}" for w
  proof -
    have "unat c div 4096 \<noteq> unat w div 4096" using w(2) step(1) Suc.prems(2) by (auto simp: page_aligned_unat)
    then have "\<not> same_page w c" using user_same_page [OF w(1) uc] by simp
    then show ?thesis using P(3) [OF w(1)] Suc.prems(8) [OF w(1)] w(2) step(1) by simp
  qed
  then have "\<exists>s'. copy_pages root vaddr data fl (c + 4096) e (off + length (page_chunk vaddr data c off)) s3 = Some (Ok (), s') \<and>
      card (free_frames (pmm s3)) \<le> card (free_frames (pmm s')) + 4 * n"
    by (intro Suc.IH [OF P(1) step(2) Suc.prems(3) e _ Suc.prems(6) copy_pos_next [OF Suc.prems(7) step(1)]])
      (use Suc.prems(5,9) step(1) P(7) in auto)
  then show ?case using copy_pages_step [OF lt alloc map] P(7) by (auto simp: s3_def)
qed

lemmas copy_pages_succeeds = copy_pages_succeeds_card [THEN ex_forward, OF _ _ _ _ _ _ _ _ _ conjunct1]

text \<open>The page loop of a segment inside the user half starts in the right position.\<close>

lemma segment_loop:
  assumes "2 ^ 39 \<le> unat vaddr" "unat vaddr + unat memsz + 4095 < 2 ^ 47"
    and "c = vaddr AND NOT 0xFFF" "e = (vaddr + memsz + 4096 - 1) AND NOT 0xFFF"
    and "n = (unat vaddr + unat memsz + 4095) div 4096 - unat vaddr div 4096"
  shows "unat e = unat c + 4096 * n" "2 ^ 39 \<le> unat c" "unat e \<le> 2 ^ 47" "copy_pos vaddr data c 0"
    "unat c = 4096 * (unat vaddr div 4096)" "unat e = 4096 * ((unat vaddr + unat memsz + 4095) div 4096)"
proof -
  have "vaddr + memsz + 4096 - 1 = vaddr + memsz + 4095" by simp
  moreover have "unat (vaddr + memsz) = unat vaddr + unat memsz" using assms(2) by (intro unat_add_lt) simp
  then have "unat (vaddr + memsz + 4095) = unat vaddr + unat memsz + 4095"
    using assms(2) by (subst unat_add_lt) simp_all
  ultimately show e: "unat e = 4096 * ((unat vaddr + unat memsz + 4095) div 4096)" by (simp only: assms(4) page_base_unat)
  show c: "unat c = 4096 * (unat vaddr div 4096)" unfolding assms(3) by (rule page_base_unat)
  have "unat vaddr div 4096 \<le> (unat vaddr + unat memsz + 4095) div 4096" by (rule div_le_mono) simp
  then show "unat e = unat c + 4096 * n" unfolding c e assms(5) by (simp add: algebra_simps)
  have "2 ^ 27 \<le> unat vaddr div 4096" using div_le_mono [OF assms(1), of 4096] by simp
  then show "2 ^ 39 \<le> unat c" unfolding c by simp
  show "unat e \<le> 2 ^ 47" using assms(2) unfolding e by simp
  have "unat vaddr = unat c + unat vaddr mod 4096" "unat vaddr mod 4096 < 4096" unfolding c by simp_all
  then show "copy_pos vaddr data c 0" unfolding copy_pos_def word_less_nat_alt by linarith
qed

lemma segment_image:
  assumes "user_tree s root" "2 ^ 39 \<le> unat vaddr" "unat vaddr + unat memsz + 4095 < 2 ^ 47"
    and "map_and_copy_segment root vaddr data memsz fl s = Some (Ok (), s')"
  shows "image_step root {4096 * (unat vaddr div 4096)..<4096 * ((unat vaddr + unat memsz + 4095) div 4096)}
    (seg_byte vaddr data) s s'"
proof -
  note L = segment_loop [OF assms(2,3) refl refl refl]
  show ?thesis
    unfolding L(5,6) [symmetric]
    using copy_pages_image [OF assms(1) page_base_aligned page_base_aligned L(1-4)] assms(4)
    by (simp add: map_and_copy_segment_def Let_def)
qed

definition elf_ph :: "bytes \<Rightarrow> usize \<Rightarrow> usize \<Rightarrow> nat \<Rightarrow> program_header" where
  "elf_ph elf_data ph_off ph_entsize i =
     (let a = unat (ph_off + word_of_nat i * max ph_entsize 56) in parse_ph (field elf_data a (a + 56)))"

definition segment_fits :: "program_header \<Rightarrow> bool" where
  "segment_fits ph \<longleftrightarrow> (p_type ph = PT_LOAD \<longrightarrow> unat (p_vaddr ph) + unat (p_memsz ph) + 4095 < 2 ^ 47)"

definition segment_loaded :: "machine \<Rightarrow> usize \<Rightarrow> bytes \<Rightarrow> program_header \<Rightarrow> bool" where
  "segment_loaded s root elf_data ph \<longleftrightarrow> (p_type ph = PT_LOAD \<longrightarrow>
     (\<forall>k < unat (p_memsz ph). user_byte s root (p_vaddr ph + word_of_nat k) =
        Some (if k < unat (p_filesz ph) then elf_data ! (unat (p_offset ph) + k) else 0)))"

lemma check_segment_ok:
  assumes "check_segment elf ph = Ok data"
  shows "2 ^ 39 \<le> unat (p_vaddr ph)" "length data = unat (p_filesz ph)" "unat (p_filesz ph) \<le> unat (p_memsz ph)"
    "\<And>k. k < unat (p_filesz ph) \<Longrightarrow> data ! k = elf ! (unat (p_offset ph) + k)"
proof -
  let ?o = "unat (p_offset ph)" and ?e = "unat (p_offset ph + p_filesz ph)"
  have base: "\<not> p_vaddr ph < USER_SPACE_BASE" and sz: "\<not> p_filesz ph > p_memsz ph"
    and sl: "slice elf ?o ?e = Some data"
    using assms by (auto simp: check_segment_def split: if_splits option.splits)
  show "2 ^ 39 \<le> unat (p_vaddr ph)"
    using base by (simp add: USER_SPACE_BASE_def word_less_nat_alt push_bit_eq_mult)
  show "unat (p_filesz ph) \<le> unat (p_memsz ph)" using sz by (simp add: word_less_nat_alt)
  have oe: "?o \<le> ?e" "?e \<le> length elf" "data = take (?e - ?o) (drop ?o elf)" using sl by (simp_all add: slice_Some)
  have "?e = ?o + unat (p_filesz ph)"
    using oe(1) unsigned_less [of "p_filesz ph", where ?'a = nat] by (simp add: unat_plus_if' split: if_splits)
  then show "length data = unat (p_filesz ph)"
    "\<And>k. k < unat (p_filesz ph) \<Longrightarrow> data ! k = elf ! (?o + k)" using oe by auto
qed

lemma elf_ph_slice:
  assumes "slice elf (unat a) (unat (a + 56)) = Some raw" "a = ph_off + word_of_nat i * max ents 56"
  shows "elf_ph elf ph_off ents i = parse_ph raw"
proof -
  have "unat a \<le> unat (a + 56)" using assms(1) by (simp add: slice_Some)
  then have "unat (a + 56) = unat a + 56"
    using unsigned_less [of a, where ?'a = nat] by (auto simp: unat_plus_if' split: if_splits)
  then have "raw = field elf (unat a) (unat a + 56)"
    using assms(1) by (simp add: slice_Some field_def)
  then show ?thesis unfolding elf_ph_def assms(2) [symmetric] Let_def by (simp only:)
qed

lemma in_rounded_range:
  "k < m \<Longrightarrow> v + k \<in> {4096 * (v div 4096)..<4096 * ((v + m + 4095) div 4096)}" for k m v :: nat
proof -
  assume "k < m"
  have "v + m + 4095 = 4096 * ((v + m + 4095) div 4096) + (v + m + 4095) mod 4096" "(v + m + 4095) mod 4096 < 4096"
    by simp_all
  with \<open>k < m\<close> have "v + k < 4096 * ((v + m + 4095) div 4096)" by linarith
  moreover have "4096 * (v div 4096) \<le> v + k" using times_div_less_eq_dividend [of 4096 v] by (rule trans_le_add1)
  ultimately show ?thesis by simp
qed

lemma load_segments_image:
  assumes "user_tree s root" "load_segments elf root ph_off ents is s = Some (Ok (), s')"
    and "\<forall>i \<in> set is. segment_fits (elf_ph elf ph_off ents i)"
  shows "user_tree s' root \<and> target s' = target s \<and>
    (\<forall>w. user_addr w \<longrightarrow> user_byte s root w \<noteq> None \<longrightarrow> user_byte s' root w = user_byte s root w) \<and>
    (\<forall>i \<in> set is. segment_loaded s' root elf (elf_ph elf ph_off ents i))"
  using assms
proof (induction "is" arbitrary: s)
  case (Cons i "is")
  define a where "a = ph_off + word_of_nat i * max ents 56"
  obtain raw where raw: "slice elf (unat a) (unat (a + 56)) = Some raw" "\<not> unat (a + 56) > length elf"
    using Cons.prems(2) by (auto simp: Let_def a_def [symmetric] split: if_splits option.splits)
  define ph where "ph = parse_ph raw"
  have ph: "elf_ph elf ph_off ents i = ph"
    unfolding ph_def by (rule elf_ph_slice [OF raw(1) a_def])
  show ?case
  proof (cases "p_type ph = PT_LOAD")
    case False
    then have "load_segments elf root ph_off ents is s = Some (Ok (), s')"
      using Cons.prems(2) raw by (simp add: Let_def a_def [symmetric] ph_def [symmetric])
    moreover have "segment_loaded s' root elf ph" using False by (simp add: segment_loaded_def)
    ultimately show ?thesis using Cons.IH [OF Cons.prems(1)] Cons.prems(3) ph by auto
  next
    case True
    obtain data s1 where data: "check_segment elf ph = Ok data"
      and seg: "map_and_copy_segment root (p_vaddr ph) data (p_memsz ph) (p_flags ph) s = Some (Ok (), s1)"
      and rest: "load_segments elf root ph_off ents is s1 = Some (Ok (), s')"
      using Cons.prems(2) raw True
      by (auto simp: Let_def a_def [symmetric] ph_def [symmetric] split: outcome.splits option.splits)
    note D = check_segment_ok [OF data]
    have fits: "unat (p_vaddr ph) + unat (p_memsz ph) + 4095 < 2 ^ 47"
      using Cons.prems(3) ph True by (simp add: segment_fits_def)
    note I = segment_image [OF Cons.prems(1) D(1) fits seg, unfolded image_step_def]
    have IH: "user_tree s' root \<and> target s' = target s1 \<and>
        (\<forall>w. user_addr w \<longrightarrow> user_byte s1 root w \<noteq> None \<longrightarrow> user_byte s' root w = user_byte s1 root w) \<and>
        (\<forall>i \<in> set is. segment_loaded s' root elf (elf_ph elf ph_off ents i))"
      by (rule Cons.IH [OF conjunct1 [OF I] rest]) (use Cons.prems(3) in simp)
    have keep: "user_byte s' root w = user_byte s root w" if "user_addr w" "user_byte s root w \<noteq> None" for w
      using I IH that by (metis (no_types, lifting))
    have "segment_loaded s' root elf ph"
      unfolding segment_loaded_def
    proof (intro impI allI)
      fix k assume k: "k < unat (p_memsz ph)"
      let ?w = "p_vaddr ph + word_of_nat k"
      have uw: "unat ?w = unat (p_vaddr ph) + k"
        using k fits by (subst unat_add_lt) (simp_all add: unat_of_nat)
      have w: "user_addr ?w" using uw k fits D(1) by (simp add: user_addr_unat)
      have r: "unat ?w \<in> {4096 * (unat (p_vaddr ph) div 4096)..<4096 * ((unat (p_vaddr ph) + unat (p_memsz ph) + 4095) div 4096)}"
        unfolding uw using k by (rule in_rounded_range)
      have "user_byte s1 root ?w = Some (seg_byte (p_vaddr ph) data ?w)" using I w r by metis
      then have "user_byte s' root ?w = Some (seg_byte (p_vaddr ph) data ?w)" using IH w by simp
      then show "user_byte s' root ?w = Some (if k < unat (p_filesz ph) then elf ! (unat (p_offset ph) + k) else 0)"
        using D(2,4) by (simp add: seg_byte_def uw)
    qed
    then show ?thesis using IH I keep ph by auto
  qed
qed simp

text \<open>What a successful run of the program-header loop has checked.\<close>

definition segment_checked :: "bytes \<Rightarrow> program_header \<Rightarrow> bool" where
  "segment_checked elf_data ph \<longleftrightarrow> (p_type ph = PT_LOAD \<longrightarrow>
     USER_SPACE_BASE \<le> p_vaddr ph \<and> p_filesz ph \<le> p_memsz ph \<and>
     unat (p_vaddr ph) + unat (p_memsz ph) < 2 ^ 64 \<and>
     unat (p_offset ph) + unat (p_filesz ph) \<le> length elf_data)"

lemma check_segment_checked:
  assumes "check_segment elf ph = Ok data"
  shows "segment_checked elf ph"
proof -
  let ?o = "unat (p_offset ph)" and ?e = "unat (p_offset ph + p_filesz ph)"
  have base: "\<not> p_vaddr ph < USER_SPACE_BASE" and sz: "\<not> p_filesz ph > p_memsz ph"
    and sl: "slice elf ?o ?e = Some data" and add: "checked_add (p_vaddr ph) (p_memsz ph) \<noteq> None"
    using assms by (auto simp: check_segment_def split: if_splits option.splits)
  have "?o \<le> ?e" "?e \<le> length elf" using sl by (simp_all add: slice_Some)
  then have "?o + unat (p_filesz ph) \<le> length elf"
    using unsigned_less [of "p_filesz ph", where ?'a = nat] by (auto simp: unat_plus_if' split: if_splits)
  then show ?thesis
    using base sz add by (auto simp: segment_checked_def checked_add_Some not_less)
qed

lemma load_segments_checked:
  "load_segments elf root ph_off ents is s = Some (Ok (), s') \<Longrightarrow>
     \<forall>i \<in> set is. segment_checked elf (elf_ph elf ph_off ents i)"
proof (induction "is" arbitrary: s)
  case (Cons i "is")
  define a where "a = ph_off + word_of_nat i * max ents 56"
  obtain raw where raw: "slice elf (unat a) (unat (a + 56)) = Some raw" "\<not> unat (a + 56) > length elf"
    using Cons.prems by (auto simp: Let_def a_def [symmetric] split: if_splits option.splits)
  note ph = elf_ph_slice [OF raw(1) a_def]
  show ?case
  proof (cases "p_type (parse_ph raw) = PT_LOAD")
    case False
    then have "load_segments elf root ph_off ents is s = Some (Ok (), s')"
      using Cons.prems raw by (simp add: Let_def a_def [symmetric])
    then show ?thesis using Cons.IH ph False by (simp add: segment_checked_def)
  next
    case True
    obtain data s1 where "check_segment elf (parse_ph raw) = Ok data"
      "load_segments elf root ph_off ents is s1 = Some (Ok (), s')"
      using Cons.prems raw True by (auto simp: Let_def a_def [symmetric] split: outcome.splits option.splits)
    then show ?thesis using Cons.IH ph check_segment_checked by auto
  qed
qed simp

section \<open>Properties of the loader\<close>

text \<open>The program header table of a file, as the loader reads it.\<close>

definition elf_headers :: "bytes \<Rightarrow> program_header list" where
  "elf_headers elf_data =
     map (elf_ph elf_data (u64_le (field elf_data 32 40)) (ucast (u16_le (field elf_data 54 56))))
       [0..<unat (ucast (u16_le (field elf_data 56 58)) :: usize)]"

lemma load_ok_segments:
  assumes "load_elf_to_process elf root s = Some (Ok e, s')"
  shows "load_segments elf root (u64_le (field elf 32 40)) (ucast (u16_le (field elf 54 56)))
      [0..<unat (ucast (u16_le (field elf 56 58)) :: usize)] s = Some (Ok (), s')"
    "check_header (target s) elf = None" "e = u64_le (field elf 24 32)" "USER_SPACE_BASE \<le> e"
  using assms
  by (auto simp: load_elf_to_process_def Let_def not_less split: option.splits if_splits outcome.splits)

text \<open>A file with one segment: its own 120 bytes, at \<open>0x8000000000\<close>, 200 bytes long in memory.\<close>

definition demo_elf :: bytes where
  "demo_elf =
     [0x7F, 0x45, 0x4C, 0x46, 2, 1, 1, 0, 0, 0, 0, 0, 0, 0, 0, 0,
      2, 0, 62, 0, 1, 0, 0, 0, 0, 0, 0, 0, 0x80, 0, 0, 0,
      64, 0, 0, 0, 0, 0, 0, 0, 0, 0, 0, 0, 0, 0, 0, 0,
      0, 0, 0, 0, 64, 0, 56, 0, 1, 0, 0, 0, 0, 0, 0, 0,
      1, 0, 0, 0, 5, 0, 0, 0, 0, 0, 0, 0, 0, 0, 0, 0,
      0, 0, 0, 0, 0x80, 0, 0, 0, 0, 0, 0, 0, 0x80, 0, 0, 0,
      120, 0, 0, 0, 0, 0, 0, 0, 200, 0, 0, 0, 0, 0, 0, 0,
      0, 16, 0, 0, 0, 0, 0, 0]"

definition demo_ph :: program_header where
  "demo_ph = \<lparr>p_type = 1, p_flags = 5, p_offset = 0, p_vaddr = 0x8000000000, p_filesz = 120, p_memsz = 200\<rparr>"

lemma demo_elf_facts:
  "check_header X86_64 demo_elf = None" "u64_le (field demo_elf 24 32) = 0x8000000000"
  "u64_le (field demo_elf 32 40) = 64" "u16_le (field demo_elf 54 56) = 56" "u16_le (field demo_elf 56 58) = 1"
  "length demo_elf = 120"
  by (simp_all add: check_header_def demo_elf_def field_def u16_le_def u64_le_def ET_EXEC_def EM_MACHINE_def)

lemma demo_elf_ph:
  "slice demo_elf 64 120 = Some (drop 64 demo_elf)" "parse_ph (drop 64 demo_elf) = demo_ph"
  "check_segment demo_elf demo_ph = Ok demo_elf"
  by (simp_all add: slice_def demo_elf_def parse_ph_def field_def u32_le_def u64_le_def demo_ph_def
      check_segment_def checked_add_def USER_SPACE_BASE_def)

lemma demo_segment_runs:
  assumes "user_tree s root" "\<And>w. user_addr w \<Longrightarrow> user_byte s root w = None" "4 \<le> card (free_frames (pmm s))"
  shows "\<exists>s'. map_and_copy_segment root 0x8000000000 demo_elf 200 5 s = Some (Ok (), s') \<and>
    card (free_frames (pmm s)) \<le> card (free_frames (pmm s')) + 4 \<and>
    (\<forall>w. user_addr w \<and> 0x8000001000 \<le> unat w \<longrightarrow> user_byte s' root w = None)"
proof -
  have "\<exists>s'. copy_pages root 0x8000000000 demo_elf (segment_flags 5) 0x8000000000 0x8000001000 0 s = Some (Ok (), s') \<and>
      card (free_frames (pmm s)) \<le> card (free_frames (pmm s')) + 4 * 1"
    by (rule copy_pages_succeeds_card [where n = 1, OF assms(1)])
      (simp_all add: page_aligned_def copy_pos_def assms(2,3))
  then obtain s' where s': "map_and_copy_segment root 0x8000000000 demo_elf 200 5 s = Some (Ok (), s')"
    "card (free_frames (pmm s)) \<le> card (free_frames (pmm s')) + 4"
    by (auto simp: map_and_copy_segment_def)
  have "image_step root {0x8000000000..<0x8000001000} (seg_byte 0x8000000000 demo_elf) s s'"
    using segment_image [OF assms(1) _ _ s'(1)] by simp
  then show ?thesis using s' assms(2) by (auto simp: image_step_def)
qed

lemma demo_load_on:
  assumes "user_tree s root" "\<And>w. user_addr w \<Longrightarrow> user_byte s root w = None" "4 \<le> card (free_frames (pmm s))" "target s = X86_64"
  shows "\<exists>s'. load_elf_to_process demo_elf root s = Some (Ok 0x8000000000, s') \<and>
    card (free_frames (pmm s)) \<le> card (free_frames (pmm s')) + 4 \<and>
    (\<forall>w. user_addr w \<and> 0x8000001000 \<le> unat w \<longrightarrow> user_byte s' root w = None)"
proof -
  obtain s' where s': "map_and_copy_segment root 0x8000000000 demo_elf 200 5 s = Some (Ok (), s')"
    "card (free_frames (pmm s)) \<le> card (free_frames (pmm s')) + 4"
    "\<forall>w. user_addr w \<and> 0x8000001000 \<le> unat w \<longrightarrow> user_byte s' root w = None"
    using demo_segment_runs [OF assms(1-3)] by blast
  have "load_segments demo_elf root 64 56 [0..<1] s = Some (Ok (), s')"
    by (simp add: demo_elf_facts demo_elf_ph Let_def) (simp add: demo_ph_def PT_LOAD_def s')
  then have "load_elf_to_process demo_elf root s = Some (Ok 0x8000000000, s')"
    by (simp add: load_elf_to_process_def demo_elf_facts assms(4) Let_def USER_SPACE_BASE_def)
  then show ?thesis using s'(2,3) by blast
qed

lemma demo_load_ok:
  obtains s' where "load_elf_to_process demo_elf 0x14000 demo_machine = Some (Ok 0x8000000000, s')"
proof -
  have "target demo_machine = X86_64" by (simp add: demo_machine_def)
  then show thesis
    using demo_load_on [OF demo_owned] that by (auto simp: user_byte_def demo_translate demo_free_frames)
qed

lemma demo_headers: "elf_headers demo_elf = [demo_ph]"
proof -
  have "field demo_elf 64 120 = drop 64 demo_elf" by (simp add: field_def demo_elf_facts)
  then show ?thesis
    using demo_elf_ph(2) by (simp add: elf_headers_def demo_elf_facts elf_ph_def)
qed


text \<open>C2: The memory image. If the loader succeeds on an owned address space and the segments lie in the
  lower canonical half, then the process sees, at every address of every loadable segment, the
  byte of the file, and zero beyond the file part; the address space is still owned.\<close>

theorem load_elf_image:
  assumes "user_tree s root" "load_elf_to_process elf root s = Some (Ok e, s')"
    and "list_all segment_fits (elf_headers elf)"
  shows "user_tree s' root \<and> list_all (segment_loaded s' root elf) (elf_headers elf)"
proof -
  note L = load_ok_segments(1) [OF assms(2)]
  show ?thesis
    using load_segments_image [OF assms(1) L] assms(3) by (auto simp: elf_headers_def list_all_iff)
qed

theorem load_elf_image_witness:
  "\<exists>s'. load_elf_to_process demo_elf 0x14000 demo_machine = Some (Ok 0x8000000000, s') \<and>
     user_byte s' 0x14000 0x8000000001 = Some 0x45 \<and> user_byte s' 0x14000 0x8000000080 = Some 0"
proof -
  obtain s' where s': "load_elf_to_process demo_elf 0x14000 demo_machine = Some (Ok 0x8000000000, s')"
    using demo_load_ok .
  have "list_all segment_fits (elf_headers demo_elf)"
    by (simp add: demo_headers segment_fits_def demo_ph_def)
  from load_elf_image [OF demo_owned s' this]
  have k: "k < 200 \<Longrightarrow> user_byte s' 0x14000 (0x8000000000 + word_of_nat k) =
      Some (if k < 120 then demo_elf ! k else 0)" for k
    by (simp add: demo_headers segment_loaded_def PT_LOAD_def demo_ph_def)
  show ?thesis using s' k [of 1] k [of 128] by (simp add: demo_elf_def)
qed

text \<open>What an accepted file satisfies: the identification bytes and the machine are right, the entry
  point and every loadable segment start at or above \<open>USER_SPACE_BASE\<close>, no segment wraps around the
  address space or is larger in the file than in memory, and all segment data lies inside the
  file.\<close>

theorem load_elf_accepts_only_checked:
  assumes "load_elf_to_process elf root s = Some (Ok e, s')"
  shows "64 \<le> length elf \<and> take 4 elf = [0x7F, 0x45, 0x4C, 0x46] \<and>
    u16_le (field elf 18 20) = EM_MACHINE (target s) \<and> USER_SPACE_BASE \<le> e \<and>
    list_all (segment_checked elf) (elf_headers elf)"
proof -
  note L = load_ok_segments [OF assms]
  have "64 \<le> length elf" "u16_le (field elf 18 20) = EM_MACHINE (target s)"
    and nth: "elf ! 0 = 0x7F" "elf ! 1 = 0x45" "elf ! 2 = 0x4C" "elf ! 3 = 0x46"
    using L(2) by (auto simp: check_header_def split: if_splits)
  moreover have "take 4 elf = [elf ! 0, elf ! 1, elf ! 2, elf ! 3]"
    using \<open>64 \<le> length elf\<close> by (intro nth_equalityI) (auto simp: less_Suc_eq numeral_eq_Suc)
  ultimately show ?thesis
    using L(4) load_segments_checked [OF L(1)] by (simp add: elf_headers_def list_all_iff)
qed

theorem load_elf_checked_witness:
  "\<exists>e s'. load_elf_to_process demo_elf 0x14000 demo_machine = Some (Ok e, s') \<and> USER_SPACE_BASE \<le> e \<and>
     segment_checked demo_elf demo_ph"
proof -
  obtain s' where s': "load_elf_to_process demo_elf 0x14000 demo_machine = Some (Ok 0x8000000000, s')"
    using demo_load_ok .
  from load_elf_accepts_only_checked [OF s'] s' show ?thesis by (auto simp: demo_headers)
qed

text \<open>C11: A segment whose end lies in the last page of the 64-bit address space passes the overflow check
  of the loader, but its rounded end wraps to zero: nothing is mapped or copied and the loader
  reports success for it.\<close>

theorem segment_wrap_maps_nothing:
  assumes "2 ^ 64 - 4096 < unat vaddr + unat memsz" "unat vaddr + unat memsz < 2 ^ 64"
  shows "map_and_copy_segment root vaddr data memsz fl s = Some (Ok (), s)"
proof -
  have "unat (vaddr + memsz) = unat vaddr + unat memsz" using assms(2) by (intro unat_add_lt) simp
  then have "unat (vaddr + memsz + 4096 - 1) < 4096"
    using assms by (simp add: unat_plus_if' unat_sub_if' split: if_splits)
  then have "unat ((vaddr + memsz + 4096 - 1) AND NOT 0xFFF) = 0" by (simp only: page_base_unat) simp
  then have "(vaddr + memsz + 4096 - 1) AND NOT 0xFFF = 0" by (simp only: unat_eq_0)
  then show ?thesis
    unfolding map_and_copy_segment_def Let_def by (simp only:) (subst copy_pages.simps, simp)
qed

theorem segment_wrap_witness:
  "map_and_copy_segment 0x14000 0xFFFFFFFFFFFFF000 [0x90, 0x90] 0xFFF 5 demo_machine = Some (Ok (), demo_machine)"
  by (rule segment_wrap_maps_nothing) simp_all

text \<open>Loading a segment of the user half cannot fail for want of anything but memory: if its pages are
  unmapped and four frames per page are free (the page itself and at most three tables), the
  segment is mapped, and afterwards the process sees its bytes followed by zeros.\<close>

theorem segment_loads_when_memory:
  assumes "user_tree s root" "USER_SPACE_BASE \<le> vaddr" "unat vaddr + unat memsz + 4095 < 2 ^ 47"
    and "n = (unat vaddr + unat memsz + 4095) div 4096 - unat vaddr div 4096"
    and "\<And>w. user_addr w \<Longrightarrow> user_byte s root w = None" "4 * n \<le> card (free_frames (pmm s))"
    and "k < unat memsz"
  shows "\<exists>s'. map_and_copy_segment root vaddr data memsz fl s = Some (Ok (), s') \<and>
    user_byte s' root (vaddr + word_of_nat k) = Some (if k < length data then data ! k else 0)"
proof -
  have v: "2 ^ 39 \<le> unat vaddr"
    using assms(2) by (simp add: USER_SPACE_BASE_def word_le_nat_alt push_bit_eq_mult)
  note L = segment_loop [OF v assms(3) refl refl assms(4)]
  have "\<exists>s'. map_and_copy_segment root vaddr data memsz fl s = Some (Ok (), s')"
    unfolding map_and_copy_segment_def Let_def
    by (rule copy_pages_succeeds [OF assms(1) page_base_aligned page_base_aligned L(1-4) _ assms(6)]) (rule assms(5))
  then obtain s' where s': "map_and_copy_segment root vaddr data memsz fl s = Some (Ok (), s')" by blast
  let ?w = "vaddr + word_of_nat k"
  have uw: "unat ?w = unat vaddr + k" using assms(3,7) by (subst unat_add_lt) (simp_all add: unat_of_nat)
  have w: "user_addr ?w" using uw v assms(3,7) by (simp add: user_addr_unat)
  have r: "unat ?w \<in> {4096 * (unat vaddr div 4096)..<4096 * ((unat vaddr + unat memsz + 4095) div 4096)}"
    unfolding uw by (rule in_rounded_range [OF assms(7)])
  have "user_byte s' root ?w = Some (seg_byte vaddr data ?w)"
    using segment_image [OF assms(1) v assms(3) s', unfolded image_step_def] w r by metis
  with s' show ?thesis by (simp add: seg_byte_def uw)
qed

theorem segment_loads_witness:
  "\<exists>s'. map_and_copy_segment 0x14000 0x8000000FFE [1, 2, 3, 4] 8 6 demo_machine = Some (Ok (), s') \<and>
     user_byte s' 0x14000 0x8000001001 = Some 4"
proof -
  have "\<exists>s'. map_and_copy_segment 0x14000 0x8000000FFE [1, 2, 3, 4] 8 6 demo_machine = Some (Ok (), s') \<and>
      user_byte s' 0x14000 (0x8000000FFE + word_of_nat 3) = Some (if 3 < length [1, 2, 3, 4 :: u8] then [1, 2, 3, 4] ! 3 else 0)"
    by (rule segment_loads_when_memory [OF demo_owned, where n = 2])
      (simp_all add: USER_SPACE_BASE_def user_byte_def demo_translate demo_free_frames)
  then show ?thesis by simp
qed

end
