(* ===== verification/InputQueue.thy ===== *)
theory InputQueue
  imports Prelude
begin

text \<open>
  The keyboard/serial input ring buffer of \<^verbatim>\<open>interrupts.rs\<close>: \<open>INPUT_BUFFER\<close>, \<open>HEAD\<close> and \<open>TAIL\<close> with
  \<open>enqueue_byte\<close> (interrupt handlers) and \<open>dequeue_byte\<close> (readers). The ring is shown to implement a
  bounded first-in first-out queue, first operation by operation and then with the producer and the
  consumer interleaved at the granularity of their atomic accesses.
\<close>

section \<open>The ring buffer\<close>

definition BUFFER_SIZE :: nat where
  "BUFFER_SIZE = 128"

record input_queue =
  input_buffer :: bytes
  head :: nat
  tail :: nat

definition empty_queue :: input_queue where
  "empty_queue = \<lparr>input_buffer = replicate BUFFER_SIZE 0, head = 0, tail = 0\<rparr>"

definition enqueue_byte :: "u8 \<Rightarrow> input_queue \<Rightarrow> input_queue" where
  "enqueue_byte byte q =
     (let current_tail = tail q;
          next_tail = (current_tail + 1) mod BUFFER_SIZE
      in if next_tail \<noteq> head q
         then q\<lparr>input_buffer := (input_buffer q)[current_tail := byte], tail := next_tail\<rparr>
         else q)"

definition dequeue_byte :: "input_queue \<Rightarrow> u8 option \<times> input_queue" where
  "dequeue_byte q =
     (let current_head = head q
      in if current_head = tail q then (None, q)
         else (Some (input_buffer q ! current_head), q\<lparr>head := (current_head + 1) mod BUFFER_SIZE\<rparr>))"

text \<open>
  The loop shared by \<^verbatim>\<open>fd.rs\<close> and \<^verbatim>\<open>syscall.rs\<close>: take bytes until the buffer is full or the queue is
  empty.
\<close>

fun drain_queue :: "('q \<Rightarrow> 'b option \<times> 'q) \<Rightarrow> nat \<Rightarrow> 'q \<Rightarrow> 'b list \<times> 'q" where
  "drain_queue pop 0 q = ([], q)"
| "drain_queue pop (Suc n) q =
     (case pop q of (None, q) \<Rightarrow> ([], q) | (Some b, q) \<Rightarrow> (case drain_queue pop n q of (bs, q) \<Rightarrow> (b # bs, q)))"

section \<open>Bounded queues\<close>

text \<open>
  The contract of a bounded queue: \<open>content\<close> lists the waiting elements, oldest first; a push on a
  full queue is dropped.
\<close>

locale bounded_queue =
  fixes content :: "'q \<Rightarrow> 'b list"
    and valid :: "'q \<Rightarrow> bool"
    and capacity :: nat
    and push :: "'b \<Rightarrow> 'q \<Rightarrow> 'q"
    and pop :: "'q \<Rightarrow> 'b option \<times> 'q"
  assumes bound: "valid q \<Longrightarrow> length (content q) \<le> capacity"
    and valid_push: "valid q \<Longrightarrow> valid (push b q)"
    and content_push: "valid q \<Longrightarrow> content (push b q) = (if length (content q) < capacity then content q @ [b] else content q)"
    and valid_pop: "valid q \<Longrightarrow> valid (snd (pop q))"
    and pop_empty: "valid q \<Longrightarrow> content q = [] \<Longrightarrow> pop q = (None, q)"
    and pop_cons: "valid q \<Longrightarrow> content q = b # bs \<Longrightarrow> fst (pop q) = Some b \<and> content (snd (pop q)) = bs"
begin

lemma fold_push:
  "valid q \<Longrightarrow> valid (fold push bs q) \<and> content (fold push bs q) = take capacity (content q @ bs)"
proof (induction bs arbitrary: q)
  case Nil
  then show ?case using bound [of q] by simp
next
  case (Cons b bs)
  have c: "content (push b q) = take capacity (content q @ [b])"
    using content_push [OF Cons.prems, of b] bound [OF Cons.prems] by (simp add: take_Cons')
  show ?case
    using Cons.IH [OF valid_push [OF Cons.prems, of b]] c by (simp add: min_def) (simp add: take_Cons')
qed

lemma drain:
  "valid q \<Longrightarrow> drain_queue pop n q = (bs, q') \<Longrightarrow>
     bs = take n (content q) \<and> content q' = drop n (content q) \<and> valid q'"
proof (induction n arbitrary: q bs q')
  case (Suc n)
  show ?case
  proof (cases "content q")
    case Nil
    then show ?thesis using Suc.prems pop_empty by simp
  next
    case (Cons b rest)
    obtain q1 where q1: "pop q = (Some b, q1)" "content q1 = rest" "valid q1"
      using pop_cons [OF Suc.prems(1) Cons] valid_pop [OF Suc.prems(1)] by (cases "pop q") auto
    obtain bs1 where bs1: "drain_queue pop n q1 = (bs1, q')" "bs = b # bs1"
      using Suc.prems(2) q1(1) by (auto split: prod.splits)
    from Suc.IH [OF q1(3) bs1(1)] show ?thesis using bs1(2) Cons q1(2) by simp
  qed
qed simp

lemma content_drain_push:
  assumes "valid q" "length (content q) + length bs \<le> capacity"
  shows "fst (drain_queue pop (length (content q) + length bs) (fold push bs q)) = content q @ bs"
proof -
  obtain r q' where r: "drain_queue pop (length (content q) + length bs) (fold push bs q) = (r, q')"
    by fastforce
  show ?thesis using fold_push [OF assms(1), of bs] drain [OF _ r] assms(2) r by auto
qed

end

section \<open>The ring implements the contract\<close>

definition ring_length :: "nat \<Rightarrow> nat \<Rightarrow> nat" where
  "ring_length h t = (t + BUFFER_SIZE - h) mod BUFFER_SIZE"

definition ring_content :: "bytes \<Rightarrow> nat \<Rightarrow> nat \<Rightarrow> bytes" where
  "ring_content buf h t = map (\<lambda>i. buf ! ((h + i) mod BUFFER_SIZE)) [0..<ring_length h t]"

definition queue_content :: "input_queue \<Rightarrow> bytes" where
  "queue_content q = ring_content (input_buffer q) (head q) (tail q)"

definition queue_valid :: "input_queue \<Rightarrow> bool" where
  "queue_valid q \<longleftrightarrow> length (input_buffer q) = BUFFER_SIZE \<and> head q < BUFFER_SIZE \<and> tail q < BUFFER_SIZE"

lemma ring_length_Suc:
  assumes "h < BUFFER_SIZE" "t < BUFFER_SIZE" "(t + 1) mod BUFFER_SIZE \<noteq> h"
  shows "ring_length h ((t + 1) mod BUFFER_SIZE) = Suc (ring_length h t)"
  using assms unfolding ring_length_def BUFFER_SIZE_def by (auto simp: mod_if)

lemma ring_length_full:
  assumes "h < BUFFER_SIZE" "t < BUFFER_SIZE"
  shows "ring_length h t < BUFFER_SIZE - 1 \<longleftrightarrow> (t + 1) mod BUFFER_SIZE \<noteq> h"
  using assms unfolding ring_length_def BUFFER_SIZE_def by (auto simp: mod_if)

lemma ring_length_0:
  assumes "h < BUFFER_SIZE" "t < BUFFER_SIZE"
  shows "ring_length h t = 0 \<longleftrightarrow> h = t"
  using assms unfolding ring_length_def BUFFER_SIZE_def by (auto simp: mod_if)

lemma ring_length_pop:
  assumes "h < BUFFER_SIZE" "t < BUFFER_SIZE" "h \<noteq> t"
  shows "ring_length h t = Suc (ring_length ((h + 1) mod BUFFER_SIZE) t)"
  using assms unfolding ring_length_def BUFFER_SIZE_def by (auto simp: mod_if)

lemma ring_last_slot:
  assumes "h < BUFFER_SIZE" "t < BUFFER_SIZE"
  shows "(h + ring_length h t) mod BUFFER_SIZE = t"
  using assms unfolding ring_length_def BUFFER_SIZE_def by (auto simp: mod_if)

lemma ring_slot_neq:
  assumes "h < BUFFER_SIZE" "t < BUFFER_SIZE" "i < ring_length h t"
  shows "(h + i) mod BUFFER_SIZE \<noteq> t"
proof (cases "h \<le> t")
  case True
  then have "ring_length h t = t - h" using assms(2) by (simp add: ring_length_def BUFFER_SIZE_def mod_if)
  with assms True show ?thesis by simp
next
  case False
  then have "ring_length h t = t + BUFFER_SIZE - h" using assms(1,2) by (simp add: ring_length_def)
  with assms(3) have i: "h + i < t + BUFFER_SIZE" by simp
  show ?thesis
  proof (cases "h + i < BUFFER_SIZE")
    case True
    with False show ?thesis by simp
  next
    case False
    with i assms(2) have "(h + i) mod BUFFER_SIZE = h + i - BUFFER_SIZE" by (simp add: mod_if)
    with i False show ?thesis by linarith
  qed
qed

lemma ring_content_write:
  assumes "h < BUFFER_SIZE" "t < BUFFER_SIZE"
  shows "ring_content (buf[t := b]) h t = ring_content buf h t"
  unfolding ring_content_def
proof (intro map_cong refl nth_list_update_neq)
  fix i assume "i \<in> set [0..<ring_length h t]"
  then show "t \<noteq> (h + i) mod BUFFER_SIZE" using ring_slot_neq [OF assms, of i] by auto
qed

lemma ring_content_push:
  assumes "h < BUFFER_SIZE" "t < BUFFER_SIZE" "(t + 1) mod BUFFER_SIZE \<noteq> h"
  shows "ring_content buf h ((t + 1) mod BUFFER_SIZE) = ring_content buf h t @ [buf ! t]"
  unfolding ring_content_def ring_length_Suc [OF assms] using ring_last_slot [OF assms(1,2)] by simp

lemma ring_content_pop:
  assumes "h < BUFFER_SIZE" "t < BUFFER_SIZE" "h \<noteq> t"
  shows "ring_content buf h t = buf ! h # ring_content buf ((h + 1) mod BUFFER_SIZE) t"
proof -
  let ?n = "ring_length ((h + 1) mod BUFFER_SIZE) t"
  have "[0..<Suc ?n] = 0 # map Suc [0..<?n]" by (simp add: upt_conv_Cons map_Suc_upt)
  moreover have "(h + Suc i) mod BUFFER_SIZE = ((h + 1) mod BUFFER_SIZE + i) mod BUFFER_SIZE" for i
    by (simp add: mod_add_left_eq)
  ultimately show ?thesis
    unfolding ring_content_def ring_length_pop [OF assms] using assms(1) by (simp add: comp_def)
qed

lemma length_ring_content [simp]: "length (ring_content buf h t) = ring_length h t"
  by (simp add: ring_content_def)

lemma ring_length_le: "ring_length h t \<le> BUFFER_SIZE - 1"
  using mod_less_divisor [of BUFFER_SIZE "t + BUFFER_SIZE - h"] by (simp add: ring_length_def BUFFER_SIZE_def)

lemma enqueue_content:
  assumes "queue_valid q"
  shows "queue_content (enqueue_byte b q) =
    (if length (queue_content q) < BUFFER_SIZE - 1 then queue_content q @ [b] else queue_content q)"
proof -
  have v: "head q < BUFFER_SIZE" "tail q < BUFFER_SIZE" "length (input_buffer q) = BUFFER_SIZE"
    using assms by (simp_all add: queue_valid_def)
  show ?thesis
    using ring_content_push [OF v(1,2), of "(input_buffer q)[tail q := b]"]
      ring_content_write [OF v(1,2), of "input_buffer q" b] ring_length_full [OF v(1,2)] v
    by (simp add: queue_content_def enqueue_byte_def Let_def)
qed

lemma dequeue_content:
  assumes "queue_valid q"
  shows "queue_content q = [] \<Longrightarrow> dequeue_byte q = (None, q)"
    and "queue_content q = b # bs \<Longrightarrow> fst (dequeue_byte q) = Some b \<and> queue_content (snd (dequeue_byte q)) = bs"
proof -
  have v: "head q < BUFFER_SIZE" "tail q < BUFFER_SIZE" using assms by (simp_all add: queue_valid_def)
  have e: "queue_content q = [] \<longleftrightarrow> head q = tail q"
    using ring_length_0 [OF v] by (simp add: queue_content_def flip: length_0_conv)
  show "queue_content q = [] \<Longrightarrow> dequeue_byte q = (None, q)"
    using e by (simp add: dequeue_byte_def)
  show "queue_content q = b # bs \<Longrightarrow> fst (dequeue_byte q) = Some b \<and> queue_content (snd (dequeue_byte q)) = bs"
    using e ring_content_pop [OF v] by (auto simp: dequeue_byte_def queue_content_def)
qed

interpretation ring: bounded_queue queue_content queue_valid "BUFFER_SIZE - 1" enqueue_byte dequeue_byte
proof
  show "queue_valid (enqueue_byte b q)" if "queue_valid q" for q b
    using that by (simp add: queue_valid_def enqueue_byte_def Let_def BUFFER_SIZE_def)
  show "queue_valid (snd (dequeue_byte q))" if "queue_valid q" for q
    using that by (simp add: queue_valid_def dequeue_byte_def Let_def BUFFER_SIZE_def)
qed (use enqueue_content dequeue_content ring_length_le in \<open>simp_all add: queue_content_def\<close>)

lemma queue_valid_empty [simp]: "queue_valid empty_queue"
  by (simp add: queue_valid_def empty_queue_def BUFFER_SIZE_def)

lemma queue_content_empty [simp]: "queue_content empty_queue = []"
  by (simp add: queue_content_def empty_queue_def ring_content_def ring_length_def BUFFER_SIZE_def)

text \<open>Sequences of operations, on the ring and on a plain list that drops what exceeds its capacity.\<close>

datatype queue_op = Push u8 | Pop

fun queue_run :: "queue_op list \<Rightarrow> input_queue \<Rightarrow> u8 option list" where
  "queue_run [] q = []"
| "queue_run (Push b # ops) q = queue_run ops (enqueue_byte b q)"
| "queue_run (Pop # ops) q = (case dequeue_byte q of (r, q) \<Rightarrow> r # queue_run ops q)"

fun fifo_run :: "nat \<Rightarrow> queue_op list \<Rightarrow> bytes \<Rightarrow> u8 option list" where
  "fifo_run cap [] xs = []"
| "fifo_run cap (Push b # ops) xs = fifo_run cap ops (if length xs < cap then xs @ [b] else xs)"
| "fifo_run cap (Pop # ops) [] = None # fifo_run cap ops []"
| "fifo_run cap (Pop # ops) (x # xs) = Some x # fifo_run cap ops xs"

lemma queue_run_fifo: "queue_valid q \<Longrightarrow> queue_run ops q = fifo_run (BUFFER_SIZE - 1) ops (queue_content q)"
proof (induction ops arbitrary: q)
  case (Cons op ops)
  show ?case
  proof (cases op)
    case (Push b)
    then show ?thesis
      using Cons.IH [OF ring.valid_push [OF Cons.prems, of b]] ring.content_push [OF Cons.prems, of b] by simp
  next
    case Pop
    show ?thesis
    proof (cases "queue_content q")
      case Nil
      then show ?thesis
        using Pop Cons.IH [OF Cons.prems] ring.pop_empty [OF Cons.prems] by (simp only: queue_run.simps fifo_run.simps prod.case)
    next
      case Cons': (Cons b bs)
      then obtain q1 where q1: "dequeue_byte q = (Some b, q1)" "queue_content q1 = bs" "queue_valid q1"
        using ring.pop_cons [OF Cons.prems Cons'] ring.valid_pop [OF Cons.prems] by (cases "dequeue_byte q") auto
      then show ?thesis using Pop Cons' Cons.IH [OF q1(3)] by (simp only: queue_run.simps fifo_run.simps prod.case)
    qed
  qed
qed simp

text \<open>From the empty buffer, every sequence of \<open>enqueue_byte\<close> and \<open>dequeue_byte\<close> calls returns exactly
  what a first-in first-out list of capacity 127 returns: bytes come out in the order they went in,
  and a byte is dropped only when 127 bytes wait.\<close>
theorem input_queue_is_bounded_fifo: "queue_run ops empty_queue = fifo_run 127 ops []"
  using queue_run_fifo [OF queue_valid_empty, of ops] by (simp add: BUFFER_SIZE_def)

section \<open>Producer and consumer interleaved\<close>

text \<open>
  An interrupt may arrive between any two instructions of a reader, and on another core even during
  them. The steps below are the atomic accesses of the two functions in program order: the producer
  loads \<open>TAIL\<close>, loads \<open>HEAD\<close> and compares, writes the slot, stores \<open>TAIL\<close>; the consumer loads \<open>HEAD\<close>, loads
  \<open>TAIL\<close> and compares, reads the slot, stores \<open>HEAD\<close>. \<open>accepted\<close> and \<open>delivered\<close> record the bytes whose
  enqueue and dequeue took effect. There is one producer and one consumer, and the acquire/release
  accesses are taken as sequentially consistent.
\<close>

datatype producer = P_Idle | P_Loaded u8 nat | P_Room u8 nat nat | P_Written nat

datatype consumer = C_Idle | C_Loaded nat | C_Some nat | C_Read u8 nat

record spsc =
  ring_q :: input_queue
  producer :: producer
  consumer :: consumer
  accepted :: bytes
  delivered :: bytes

inductive spsc_step :: "spsc \<Rightarrow> spsc \<Rightarrow> bool" where
  load_tail: "producer c = P_Idle \<Longrightarrow> spsc_step c (c\<lparr>producer := P_Loaded b (tail (ring_q c))\<rparr>)"
| full: "producer c = P_Loaded b t \<Longrightarrow> (t + 1) mod BUFFER_SIZE = head (ring_q c) \<Longrightarrow> spsc_step c (c\<lparr>producer := P_Idle\<rparr>)"
| room: "producer c = P_Loaded b t \<Longrightarrow> (t + 1) mod BUFFER_SIZE \<noteq> head (ring_q c) \<Longrightarrow>
    spsc_step c (c\<lparr>producer := P_Room b t ((t + 1) mod BUFFER_SIZE)\<rparr>)"
| write_slot: "producer c = P_Room b t n \<Longrightarrow>
    spsc_step c (c\<lparr>ring_q := (ring_q c)\<lparr>input_buffer := (input_buffer (ring_q c))[t := b]\<rparr>, producer := P_Written n\<rparr>)"
| store_tail: "producer c = P_Written n \<Longrightarrow>
    spsc_step c (c\<lparr>ring_q := (ring_q c)\<lparr>tail := n\<rparr>, producer := P_Idle,
      accepted := accepted c @ [input_buffer (ring_q c) ! tail (ring_q c)]\<rparr>)"
| load_head: "consumer c = C_Idle \<Longrightarrow> spsc_step c (c\<lparr>consumer := C_Loaded (head (ring_q c))\<rparr>)"
| none: "consumer c = C_Loaded h \<Longrightarrow> h = tail (ring_q c) \<Longrightarrow> spsc_step c (c\<lparr>consumer := C_Idle\<rparr>)"
| some: "consumer c = C_Loaded h \<Longrightarrow> h \<noteq> tail (ring_q c) \<Longrightarrow> spsc_step c (c\<lparr>consumer := C_Some h\<rparr>)"
| read_slot: "consumer c = C_Some h \<Longrightarrow>
    spsc_step c (c\<lparr>consumer := C_Read (input_buffer (ring_q c) ! h) ((h + 1) mod BUFFER_SIZE)\<rparr>)"
| store_head: "consumer c = C_Read b n \<Longrightarrow>
    spsc_step c (c\<lparr>ring_q := (ring_q c)\<lparr>head := n\<rparr>, consumer := C_Idle, delivered := delivered c @ [b]\<rparr>)"

definition spsc_start :: spsc where
  "spsc_start = \<lparr>ring_q = empty_queue, producer = P_Idle, consumer = C_Idle, accepted = [], delivered = []\<rparr>"

fun producer_ok :: "producer \<Rightarrow> input_queue \<Rightarrow> bool" where
  "producer_ok P_Idle q = True"
| "producer_ok (P_Loaded b t) q = (t = tail q)"
| "producer_ok (P_Room b t n) q = (t = tail q \<and> n = (t + 1) mod BUFFER_SIZE \<and> n \<noteq> head q)"
| "producer_ok (P_Written n) q = (n = (tail q + 1) mod BUFFER_SIZE \<and> n \<noteq> head q)"

fun consumer_ok :: "consumer \<Rightarrow> input_queue \<Rightarrow> bool" where
  "consumer_ok C_Idle q = True"
| "consumer_ok (C_Loaded h) q = (h = head q)"
| "consumer_ok (C_Some h) q = (h = head q \<and> h \<noteq> tail q)"
| "consumer_ok (C_Read b n) q = (b = input_buffer q ! head q \<and> n = (head q + 1) mod BUFFER_SIZE \<and> head q \<noteq> tail q)"

definition spsc_inv :: "spsc \<Rightarrow> bool" where
  "spsc_inv c \<longleftrightarrow> queue_valid (ring_q c) \<and> accepted c = delivered c @ queue_content (ring_q c) \<and>
     producer_ok (producer c) (ring_q c) \<and> consumer_ok (consumer c) (ring_q c)"

text \<open>A slot between \<open>HEAD\<close> and \<open>TAIL\<close> is never the one the producer fills, so each side's knowledge
  survives the other's steps.\<close>

lemma producer_ok_pop:
  assumes "producer_ok p q" "queue_valid q" "head q \<noteq> tail q"
  shows "producer_ok p (q\<lparr>head := (head q + 1) mod BUFFER_SIZE\<rparr>)"
proof -
  have "(tail q + 1) mod BUFFER_SIZE \<noteq> (head q + 1) mod BUFFER_SIZE"
    using assms(2,3) by (auto simp: queue_valid_def BUFFER_SIZE_def mod_if split: if_splits)
  with assms(1) show ?thesis by (cases p) auto
qed

lemma consumer_ok_write:
  assumes "consumer_ok c q"
  shows "consumer_ok c (q\<lparr>input_buffer := (input_buffer q)[tail q := b]\<rparr>)"
  using assms by (cases c) auto

lemma consumer_ok_push:
  assumes "consumer_ok c q" "(tail q + 1) mod BUFFER_SIZE \<noteq> head q"
  shows "consumer_ok c (q\<lparr>tail := (tail q + 1) mod BUFFER_SIZE\<rparr>)"
  using assms by (cases c) auto

lemma spsc_inv_step: "spsc_step c c' \<Longrightarrow> spsc_inv c \<Longrightarrow> spsc_inv c'"
proof (induction rule: spsc_step.induct)
  case (write_slot c b t n)
  then show ?case
    using ring_content_write [of "head (ring_q c)" "tail (ring_q c)" "input_buffer (ring_q c)" b]
    by (auto simp: spsc_inv_def queue_valid_def queue_content_def intro: consumer_ok_write)
next
  case (store_tail c n)
  then have v: "queue_valid (ring_q c)" "n = (tail (ring_q c) + 1) mod BUFFER_SIZE" "n \<noteq> head (ring_q c)"
    by (auto simp: spsc_inv_def)
  then show ?case
    using store_tail ring_content_push [of "head (ring_q c)" "tail (ring_q c)" "input_buffer (ring_q c)"]
      consumer_ok_push [of "consumer c" "ring_q c"]
    by (auto simp: spsc_inv_def queue_content_def queue_valid_def BUFFER_SIZE_def)
next
  case (store_head c b n)
  then have v: "queue_valid (ring_q c)" "n = (head (ring_q c) + 1) mod BUFFER_SIZE" "head (ring_q c) \<noteq> tail (ring_q c)"
    "b = input_buffer (ring_q c) ! head (ring_q c)"
    by (auto simp: spsc_inv_def)
  then show ?case
    using store_head ring_content_pop [of "head (ring_q c)" "tail (ring_q c)" "input_buffer (ring_q c)"]
      producer_ok_pop [of "producer c" "ring_q c"]
    by (auto simp: spsc_inv_def queue_content_def queue_valid_def BUFFER_SIZE_def)
qed (auto simp: spsc_inv_def)

lemma spsc_inv_reachable: "spsc_step\<^sup>*\<^sup>* spsc_start c \<Longrightarrow> spsc_inv c"
proof (induction rule: rtranclp_induct)
  case base
  show ?case by (simp add: spsc_inv_def spsc_start_def)
qed (rule spsc_inv_step)


text \<open>One byte pushed completely: the run the witness below uses.\<close>

definition spsc_one :: "u8 \<Rightarrow> spsc" where
  "spsc_one b = spsc_start\<lparr>ring_q := (ring_q spsc_start)\<lparr>input_buffer := (input_buffer empty_queue)[0 := b], tail := 1\<rparr>,
     accepted := [b]\<rparr>"

lemma spsc_one_reachable: "spsc_step\<^sup>*\<^sup>* spsc_start (spsc_one b)"
proof -
  let ?c1 = "spsc_start\<lparr>producer := P_Loaded b 0\<rparr>"
  let ?c2 = "spsc_start\<lparr>producer := P_Room b 0 1\<rparr>"
  let ?c3 = "spsc_start\<lparr>ring_q := (ring_q spsc_start)\<lparr>input_buffer := (input_buffer empty_queue)[0 := b]\<rparr>, producer := P_Written 1\<rparr>"
  have "spsc_step spsc_start ?c1"
    using load_tail [of spsc_start b] by (simp add: spsc_start_def empty_queue_def)
  moreover have "spsc_step ?c1 ?c2"
    using room [of ?c1 b 0] by (simp add: spsc_start_def empty_queue_def BUFFER_SIZE_def)
  moreover have "spsc_step ?c2 ?c3"
    using write_slot [of ?c2 b 0 1] by (simp add: spsc_start_def)
  moreover have "spsc_step ?c3 (spsc_one b)"
    using store_tail [of ?c3 1] by (simp add: spsc_start_def spsc_one_def empty_queue_def BUFFER_SIZE_def)
  ultimately show ?thesis by (meson converse_rtranclp_into_rtranclp rtranclp.rtrancl_refl)
qed


end
