(* ===== verification/Uart.thy ===== *)
theory Uart
  imports Device PhysMem
begin

text \<open>
  The serial driver of \<^verbatim>\<open>uart.rs\<close>: the PL011 back end of the Raspberry Pi and the 16550 back end of the
  PC, as sequences of register accesses on a device parameter. Port and register addresses are both
  device addresses here.
\<close>

section \<open>Registers\<close>

definition POLL_ATTEMPTS :: nat where
  "POLL_ATTEMPTS = 1000000"

datatype UartError = Timeout | LineError

definition COM1 :: usize where
  "COM1 = 0x3F8"

definition GPIO_BASE :: usize where
  "GPIO_BASE = 0x3F000000 + 0x200000"

definition UART0_BASE :: usize where
  "UART0_BASE = 0x3F000000 + 0x201000"

abbreviation "GPFSEL1 \<equiv> GPIO_BASE + 0x04"
abbreviation "GPPUD \<equiv> GPIO_BASE + 0x94"
abbreviation "GPPUDCLK0 \<equiv> GPIO_BASE + 0x98"
abbreviation "UART0_RSRECR \<equiv> UART0_BASE + 0x04"
abbreviation "UART0_FR \<equiv> UART0_BASE + 0x18"
abbreviation "UART0_IBRD \<equiv> UART0_BASE + 0x24"
abbreviation "UART0_FBRD \<equiv> UART0_BASE + 0x28"
abbreviation "UART0_LCRH \<equiv> UART0_BASE + 0x2C"
abbreviation "UART0_CR \<equiv> UART0_BASE + 0x30"
abbreviation "UART0_IMSC \<equiv> UART0_BASE + 0x38"
abbreviation "UART0_ICR \<equiv> UART0_BASE + 0x44"

section \<open>The PL011 back end\<close>

definition a64_uart_init :: "device \<Rightarrow> history \<Rightarrow> history" where
  "a64_uart_init dev h =
     (let h = dev_write UART0_CR 0 h;
          (v, h) = dev_read dev GPFSEL1 h;
          sel = ucast v :: u32;
          sel = sel AND NOT (push_bit 12 0b111 OR push_bit 15 0b111);
          sel = sel OR (push_bit 12 0b100 OR push_bit 15 0b100)
      in dev_writes
           [(GPFSEL1, ucast sel), (GPPUD, 0), (GPPUDCLK0, push_bit 14 1 OR push_bit 15 1), (GPPUDCLK0, 0),
            (UART0_ICR, 0x7FF), (UART0_IBRD, 1), (UART0_FBRD, 40),
            (UART0_LCRH, push_bit 4 1 OR push_bit 5 1 OR push_bit 6 1),
            (UART0_CR, 1 OR push_bit 8 1 OR push_bit 9 1)] h)"

definition a64_enable_interrupts :: "device \<Rightarrow> history \<Rightarrow> history" where
  "a64_enable_interrupts dev h =
     (let h = dev_write UART0_ICR 0x7FF h;
          (current, h) = dev_read dev UART0_IMSC h
      in dev_write UART0_IMSC (ucast (ucast current OR push_bit 4 1 OR push_bit 6 1 :: u32)) h)"

definition a64_write_byte :: "device \<Rightarrow> u8 \<Rightarrow> history \<Rightarrow> history option" where
  "a64_write_byte dev byte h =
     (case poll_while dev UART0_FR (\<lambda>v. v AND push_bit 5 1 \<noteq> 0) h of
        None \<Rightarrow> None
      | Some h \<Rightarrow> Some (dev_write UART0_BASE (ucast byte) h))"

definition a64_try_read_byte :: "device \<Rightarrow> history \<Rightarrow> (UartError, u8) outcome \<times> history" where
  "a64_try_read_byte dev h =
     (case poll_bounded POLL_ATTEMPTS dev UART0_FR (\<lambda>v. v AND push_bit 4 1 \<noteq> 0) h of
        (None, h) \<Rightarrow> (Err Timeout, h)
      | (Some _, h) \<Rightarrow>
          (let (byte, h) = dev_read dev UART0_BASE h;
               (status, h) = dev_read dev UART0_RSRECR h
           in if status AND 0b1111 \<noteq> 0 then (Err LineError, dev_write UART0_RSRECR 0 h)
              else (Ok (ucast byte), h)))"

section \<open>The 16550 back end\<close>

definition x86_uart_init :: "history \<Rightarrow> history" where
  "x86_uart_init h =
     dev_writes [(COM1 + 1, 0x00), (COM1 + 3, 0x80), (COM1 + 0, 0x03), (COM1 + 1, 0x00), (COM1 + 3, 0x03),
       (COM1 + 2, 0xC7), (COM1 + 4, 0x0B)] h"

definition x86_enable_interrupts :: "device \<Rightarrow> history \<Rightarrow> history" where
  "x86_enable_interrupts dev h =
     (case dev_read dev (COM1 + 1) h of (current, h) \<Rightarrow> dev_write (COM1 + 1) (ucast (ucast current OR 1 :: u8)) h)"

definition x86_write_byte :: "device \<Rightarrow> u8 \<Rightarrow> history \<Rightarrow> history option" where
  "x86_write_byte dev byte h =
     (case poll_while dev (COM1 + 5) (\<lambda>v. v AND push_bit 5 1 = 0) h of
        None \<Rightarrow> None
      | Some h \<Rightarrow> Some (dev_write COM1 (ucast byte) h))"

definition x86_try_read_byte :: "device \<Rightarrow> history \<Rightarrow> (UartError, u8) outcome \<times> history" where
  "x86_try_read_byte dev h =
     (case poll_bounded POLL_ATTEMPTS dev (COM1 + 5) (\<lambda>v. v AND 1 = 0) h of
        (None, h) \<Rightarrow> (Err Timeout, h)
      | (Some status, h) \<Rightarrow>
          (case dev_read dev COM1 h of (byte, h) \<Rightarrow>
             if status AND 0b11110 \<noteq> 0 then (Err LineError, h) else (Ok (ucast byte), h)))"

section \<open>The common interface\<close>

definition uart_write_byte :: "target_arch \<Rightarrow> device \<Rightarrow> u8 \<Rightarrow> history \<Rightarrow> history option" where
  "uart_write_byte tgt = (case tgt of X86_64 \<Rightarrow> x86_write_byte | AArch64 \<Rightarrow> a64_write_byte)"

definition uart_try_read_byte :: "target_arch \<Rightarrow> device \<Rightarrow> history \<Rightarrow> (UartError, u8) outcome \<times> history" where
  "uart_try_read_byte tgt = (case tgt of X86_64 \<Rightarrow> x86_try_read_byte | AArch64 \<Rightarrow> a64_try_read_byte)"

partial_function (option) uart_read_byte :: "target_arch \<Rightarrow> device \<Rightarrow> history \<Rightarrow> (u8 \<times> history) option" where
  "uart_read_byte tgt dev h =
     (case uart_try_read_byte tgt dev h of (Ok byte, h) \<Rightarrow> Some (byte, h) | (_, h) \<Rightarrow> uart_read_byte tgt dev h)"

fun uart_write_str :: "target_arch \<Rightarrow> device \<Rightarrow> bytes \<Rightarrow> history \<Rightarrow> history option" where
  "uart_write_str tgt dev [] h = Some h"
| "uart_write_str tgt dev (byte # rest) h =
     (case (if byte = 0x0A then uart_write_byte tgt dev 0x0D h else Some h) of
        None \<Rightarrow> None
      | Some h \<Rightarrow> (case uart_write_byte tgt dev byte h of None \<Rightarrow> None | Some h \<Rightarrow> uart_write_str tgt dev rest h))"

text \<open>What the serial line carries for a string: every newline preceded by a carriage return.\<close>

definition uart_bytes :: "bytes \<Rightarrow> bytes" where
  "uart_bytes s = concat (map (\<lambda>b. if b = 0x0A then [0x0D, b] else [b]) s)"

lemma uart_bytes_simps [simp]:
  "uart_bytes [] = []"
  "uart_bytes (b # s) = (if b = 0x0A then [0x0D, b] else [b]) @ uart_bytes s"
  by (simp_all add: uart_bytes_def)

section \<open>Output\<close>

definition data_register :: "target_arch \<Rightarrow> usize" where
  "data_register tgt = (case tgt of X86_64 \<Rightarrow> COM1 | AArch64 \<Rightarrow> UART0_BASE)"

definition transmit_busy :: "target_arch \<Rightarrow> device \<Rightarrow> history \<Rightarrow> bool" where
  "transmit_busy tgt dev h =
     (case tgt of X86_64 \<Rightarrow> dev h (COM1 + 5) AND push_bit 5 1 = 0 | AArch64 \<Rightarrow> dev h UART0_FR AND push_bit 5 1 \<noteq> 0)"

definition status_register :: "target_arch \<Rightarrow> usize" where
  "status_register tgt = (case tgt of X86_64 \<Rightarrow> COM1 + 5 | AArch64 \<Rightarrow> UART0_FR)"

text \<open>The transmitter drains: whatever was done before, reading the status often enough finds room.\<close>

definition transmitter_drains :: "target_arch \<Rightarrow> device \<Rightarrow> bool" where
  "transmitter_drains tgt dev \<longleftrightarrow> (\<forall>h. \<exists>n. \<not> transmit_busy tgt dev (after_polls dev (status_register tgt) n h))"

lemma uart_write_byte_drains:
  assumes "transmitter_drains tgt dev"
  obtains h' where "uart_write_byte tgt dev b h = Some h'"
    "written (data_register tgt) h' = written (data_register tgt) h @ [ucast b]"
proof -
  obtain n where n: "\<not> transmit_busy tgt dev (after_polls dev (status_register tgt) n h)"
    using assms by (auto simp: transmitter_drains_def)
  show ?thesis
  proof (cases tgt)
    case X86_64
    with n poll_while_ready [of "\<lambda>v. v AND push_bit 5 1 = 0" dev "COM1 + 5" n h] obtain m where
      "poll_while dev (COM1 + 5) (\<lambda>v. v AND push_bit 5 1 = 0) h = Some (after_polls dev (COM1 + 5) (Suc m) h)"
      by (auto simp: transmit_busy_def status_register_def)
    then show ?thesis
      using that X86_64 by (simp add: uart_write_byte_def x86_write_byte_def data_register_def dev_write_def)
  next
    case AArch64
    with n poll_while_ready [of "\<lambda>v. v AND push_bit 5 1 \<noteq> 0" dev UART0_FR n h] obtain m where
      "poll_while dev UART0_FR (\<lambda>v. v AND push_bit 5 1 \<noteq> 0) h = Some (after_polls dev UART0_FR (Suc m) h)"
      by (auto simp: transmit_busy_def status_register_def)
    then show ?thesis
      using that AArch64 by (simp add: uart_write_byte_def a64_write_byte_def data_register_def dev_write_def)
  qed
qed

text \<open>On a transmitter that eventually drains, printing a string returns, and the bytes that reach the
  data register are exactly the string's bytes in order, with a carriage return before every newline.\<close>
theorem uart_write_str_transmits:
  assumes "transmitter_drains tgt dev"
  shows "\<exists>h'. uart_write_str tgt dev s h = Some h' \<and>
    written (data_register tgt) h' = written (data_register tgt) h @ map ucast (uart_bytes s)"
proof (induction s arbitrary: h)
  case (Cons b s)
  obtain hc where hc: "uart_write_byte tgt dev 0x0D h = Some hc"
    "written (data_register tgt) hc = written (data_register tgt) h @ [ucast (0x0D :: u8)]"
    by (rule uart_write_byte_drains [OF assms])
  obtain h1 where h1: "(if b = 0x0A then uart_write_byte tgt dev 0x0D h else Some h) = Some h1"
    "written (data_register tgt) h1 = written (data_register tgt) h @ (if b = 0x0A then [0x0D] else [])"
    using hc by (cases "b = 0x0A") auto
  obtain h2 where h2: "uart_write_byte tgt dev b h1 = Some h2"
    "written (data_register tgt) h2 = written (data_register tgt) h1 @ [ucast b]"
    by (rule uart_write_byte_drains [OF assms])
  show ?case using Cons.IH [of h2] h1 h2 by auto
qed simp

text \<open>A transmitter that is always ready.\<close>

theorem uart_write_str_witness:
  "transmitter_drains X86_64 (\<lambda>h r. 0x20) \<and>
   (\<exists>h'. uart_write_str X86_64 (\<lambda>h r. 0x20) [0x68, 0x69, 0x0A] [] = Some h' \<and>
      written (data_register X86_64) h' = [0x68, 0x69, 0x0D, 0x0A])"
proof -
  have "transmitter_drains X86_64 (\<lambda>h r. 0x20)"
    by (simp add: transmitter_drains_def transmit_busy_def)
  then show ?thesis using uart_write_str_transmits [of X86_64 "\<lambda>h r. 0x20" "[0x68, 0x69, 0x0A]" "[]"] by simp
qed

end
