(* ===== verification/Fd.thy ===== *)
theory Fd
  imports InputQueue Uart
begin

text \<open>
  The file-descriptor layer of \<^verbatim>\<open>fd.rs\<close>: the serial console as a file descriptor and the descriptor
  table of a process. The table holds descriptor objects of any type \<open>'f\<close> (a boxed trait object in the
  source); a new table holds three consoles.
\<close>

section \<open>The console descriptor\<close>

datatype FdError = WouldBlock | BadRequest | IoError | NoSpace

datatype console_fd = UartFd

text \<open>The bytes read, for a buffer of \<open>len\<close> bytes; the rest of the buffer keeps its content.\<close>

definition uart_fd_read :: "nat \<Rightarrow> input_queue \<Rightarrow> (FdError, bytes) outcome \<times> input_queue" where
  "uart_fd_read len q =
     (if len = 0 then (Ok [], q)
      else case drain_queue dequeue_byte len q of
             ([], q) \<Rightarrow> (Err WouldBlock, q)
           | (b # bs, q) \<Rightarrow> (Ok (b # bs), q))"

text \<open>\<open>write_char (b as char)\<close>: the UTF-8 encoding of the code point \<open>b\<close>, through \<open>write_str\<close>.\<close>

definition utf8_of_byte :: "u8 \<Rightarrow> bytes" where
  "utf8_of_byte b = (if b < 0x80 then [b] else [0xC0 OR drop_bit 6 b, 0x80 OR (b AND 0x3F)])"

fun uart_fd_write :: "target_arch \<Rightarrow> device \<Rightarrow> bytes \<Rightarrow> history \<Rightarrow> history option" where
  "uart_fd_write tgt dev [] h = Some h"
| "uart_fd_write tgt dev (b # buf) h =
     (case uart_write_str tgt dev (utf8_of_byte b) h of None \<Rightarrow> None | Some h \<Rightarrow> uart_fd_write tgt dev buf h)"

section \<open>The descriptor table\<close>

definition MAX_PROCESS_FDS :: nat where
  "MAX_PROCESS_FDS = 64"

type_synonym 'f fd_table = "'f option list"

definition fd_table_new :: "console_fd fd_table" where
  "fd_table_new = [Some UartFd, Some UartFd, Some UartFd]"

definition fd_allocate :: "'f \<Rightarrow> 'f fd_table \<Rightarrow> (FdError, nat) outcome \<times> 'f fd_table" where
  "fd_allocate fd fds =
     (case find (\<lambda>i. fds ! i = None) [0..<length fds] of
        Some i \<Rightarrow> (Ok i, fds[i := Some fd])
      | None \<Rightarrow> if length fds < MAX_PROCESS_FDS then (Ok (length fds), fds @ [Some fd]) else (Err NoSpace, fds))"

definition fd_get :: "nat \<Rightarrow> 'f fd_table \<Rightarrow> (FdError, 'f) outcome" where
  "fd_get fd fds = (if fd < length fds then (case fds ! fd of Some f \<Rightarrow> Ok f | None \<Rightarrow> Err BadRequest) else Err BadRequest)"

definition fd_close :: "nat \<Rightarrow> 'f fd_table \<Rightarrow> (FdError, unit) outcome \<times> 'f fd_table" where
  "fd_close fd fds =
     (if fd < length fds \<and> fds ! fd \<noteq> None then (Ok (), fds[fd := None]) else (Err BadRequest, fds))"

section \<open>Lookup after allocation\<close>

text \<open>The table as a partial map from descriptors to objects.\<close>

definition fd_map :: "'f fd_table \<Rightarrow> nat \<Rightarrow> 'f option" where
  "fd_map fds i = (if i < length fds then fds ! i else None)"

lemma fd_get_map: "fd_get i fds = (case fd_map fds i of Some f \<Rightarrow> Ok f | None \<Rightarrow> Err BadRequest)"
  by (simp add: fd_get_def fd_map_def)

lemma fd_map_close: "fd_map (snd (fd_close i fds)) = (fd_map fds)(i := None)"
  by (auto simp: fd_map_def fd_close_def fun_eq_iff)

lemma fd_map_update: "i < length fds \<Longrightarrow> fd_map (fds[i := Some f]) = (fd_map fds)(i := Some f)"
  by (auto simp: fd_map_def fun_eq_iff)

lemma fd_map_append: "fd_map (fds @ [Some f]) = (fd_map fds)(length fds := Some f)"
  by (auto simp: fd_map_def fun_eq_iff nth_append)

lemma fd_find:
  "find (\<lambda>i. fds ! i = None) [0..<length fds] =
     (if \<exists>i < length fds. fds ! i = None then Some (LEAST i. fd_map fds i = None) else None)"
proof (cases "\<exists>i < length fds. fds ! i = None")
  case True
  define i where "i = (LEAST i. fd_map fds i = None)"
  from True obtain k where k: "k < length fds" "fds ! k = None" by blast
  then have "fd_map fds k = None" by (simp add: fd_map_def)
  then have i: "fd_map fds i = None" "i \<le> k" unfolding i_def by (auto intro: LeastI Least_le)
  with k have "i < length fds" "fds ! i = None" by (auto simp: fd_map_def)
  moreover have "fds ! j \<noteq> None" if "j < i" for j
    using not_less_Least [of j "\<lambda>i. fd_map fds i = None"] that \<open>i < length fds\<close> by (auto simp: i_def fd_map_def)
  ultimately show ?thesis using True by (auto simp: find_upt_Some i_def [symmetric])
next
  case False
  then show ?thesis by (auto simp: find_None_iff)
qed

text \<open>A table of at most 64 slots implements the POSIX contract: \<open>allocate\<close> takes the lowest free
  descriptor, changes no other and stays below 64, and fails with \<open>NoSpace\<close> exactly when all 64 are in use;
  \<open>close\<close> frees exactly the given descriptor and rejects one that is not open.\<close>
theorem fd_table_contract:
  assumes "length fds \<le> MAX_PROCESS_FDS"
  shows "(case fd_allocate f fds of
       (Ok i, fds') \<Rightarrow> i = (LEAST i. fd_map fds i = None) \<and> i < 64 \<and> fd_map fds' = (fd_map fds)(i := Some f)
     | (e, fds') \<Rightarrow> e = Err NoSpace \<and> fds' = fds \<and> (\<forall>i < 64. fd_map fds i \<noteq> None)) \<and>
    length (snd (fd_allocate f fds)) \<le> MAX_PROCESS_FDS \<and>
    fd_close j fds = (if fd_map fds j = None then (Err BadRequest, fds) else (Ok (), fds[j := None])) \<and>
    fd_map (snd (fd_close j fds)) = (fd_map fds)(j := None)"
proof -
  have "case fd_allocate f fds of
       (Ok i, fds') \<Rightarrow> i = (LEAST i. fd_map fds i = None) \<and> i < 64 \<and> fd_map fds' = (fd_map fds)(i := Some f)
     | (e, fds') \<Rightarrow> e = Err NoSpace \<and> fds' = fds \<and> (\<forall>i < 64. fd_map fds i \<noteq> None)"
  proof (cases "\<exists>i < length fds. fds ! i = None")
    case True
    let ?i = "LEAST i. fd_map fds i = None"
    from True obtain k where k: "k < length fds" "fd_map fds k = None" by (auto simp: fd_map_def)
    then have "?i < length fds" by (meson Least_le le_less_trans)
    then show ?thesis
      using fd_find [of fds] True assms by (simp add: fd_allocate_def fd_map_update MAX_PROCESS_FDS_def)
  next
    case False
    have "(LEAST i. fd_map fds i = None) = length fds"
      using False by (intro Least_equality) (auto simp: fd_map_def intro: leI split: if_splits)
    then show ?thesis
      using fd_find [of fds] False assms
      by (cases "length fds < 64") (auto simp: fd_allocate_def fd_map_append MAX_PROCESS_FDS_def, auto simp: fd_map_def)
  qed
  moreover have "length (snd (fd_allocate f fds)) \<le> MAX_PROCESS_FDS"
    using assms by (auto simp: fd_allocate_def split: option.split)
  moreover have "fd_close j fds = (if fd_map fds j = None then (Err BadRequest, fds) else (Ok (), fds[j := None]))"
    by (auto simp: fd_close_def fd_map_def)
  ultimately show ?thesis using fd_map_close [of j fds] by (intro conjI)
qed

theorem fd_table_contract_witness:
  "length fd_table_new \<le> MAX_PROCESS_FDS \<and> fd_allocate UartFd (snd (fd_close 1 fd_table_new)) = (Ok 1, fd_table_new) \<and>
   fd_map (snd (fd_close 1 fd_table_new)) = (fd_map fd_table_new)(1 := None)"
proof (intro conjI)
  show l: "length fd_table_new \<le> MAX_PROCESS_FDS" by (simp add: fd_table_new_def MAX_PROCESS_FDS_def)
  show "fd_allocate UartFd (snd (fd_close 1 fd_table_new)) = (Ok 1, fd_table_new)"
    by (simp add: fd_table_new_def fd_close_def fd_allocate_def upt_rec)
  show "fd_map (snd (fd_close 1 fd_table_new)) = (fd_map fd_table_new)(1 := None)"
    using fd_table_contract [OF l, of UartFd 1] by blast
qed

end
