(* ===== verification/Task.thy ===== *)
theory Task
  imports Elf Fd
begin

text \<open>
  Tasks and the scheduler of \<^verbatim>\<open>task.rs\<close>: the four task slots, spawning kernel threads and processes, the
  round-robin \<open>run_schedule\<close> that the timer and the yield trap call, mailboxes and exit. The kernel state
  extends the machine by the task table, the input queue and the console output. A yield is a trap:
  it calls \<open>run_schedule\<close> with the stack pointer of the frame the trap stub pushed.
\<close>

section \<open>State\<close>

definition STACK_SIZE :: usize where
  "STACK_SIZE = 8192"

definition MAX_TASKS :: nat where
  "MAX_TASKS = 4"

datatype ExecutionMode = IsolatedProcess | SharedThread

datatype TaskState = Ready | Running | Blocked | Terminated

record Message =
  sender_id :: nat
  data :: bytes

record x86_context =
  r15 :: usize   r14 :: usize   r13 :: usize   r12 :: usize
  r11 :: usize   r10 :: usize   r9 :: usize    r8 :: usize
  rbp :: usize   rdi :: usize   rsi :: usize   rdx :: usize
  rcx :: usize   rbx :: usize   rax :: usize
  rip :: usize   cs :: usize    rflags :: usize  rsp :: usize   ss :: usize

record a64_context =
  regs :: "usize list"
  spsr :: usize
  elr :: usize
  sp_el0 :: usize

datatype TaskContext = X86_Context x86_context | A64_Context a64_context

definition size_of_context :: "target_arch \<Rightarrow> usize" where
  "size_of_context tgt = (case tgt of X86_64 \<Rightarrow> 20 * 8 | AArch64 \<Rightarrow> 34 * 8)"

record task =
  task_id :: nat
  fd_table :: "console_fd fd_table option"
  parent_id :: nat
  saved_sp :: usize
  memory_root :: usize
  owns_memory_root :: bool
  is_ring3 :: bool
  task_state :: TaskState
  mailbox :: "Message option"

text \<open>
  The kernel. \<open>frames\<close> is the content of the kernel stacks at the addresses where a context was saved, and
  \<open>stack_addr\<close> and \<open>kernel_stack_addr\<close> are where the linker put each slot's two stacks.
\<close>

record kernel =
  mach :: machine
  input :: input_queue
  console :: bytes
  tasks :: "task list"
  current_task :: nat
  task_initialized :: bool
  frames :: "usize \<Rightarrow> TaskContext option"
  rsp0 :: usize
  stack_addr :: "nat \<Rightarrow> usize"
  kernel_stack_addr :: "nat \<Rightarrow> usize"

definition task_empty :: task where
  "task_empty = \<lparr>task_id = 0, fd_table = None, parent_id = 0, saved_sp = 0, memory_root = 0,
     owns_memory_root = False, is_ring3 = False, task_state = Terminated, mailbox = None\<rparr>"

definition update_task :: "nat \<Rightarrow> (task \<Rightarrow> task) \<Rightarrow> kernel \<Rightarrow> kernel" where
  "update_task i f k = k\<lparr>tasks := (tasks k)[i := f (tasks k ! i)]\<rparr>"

section \<open>Creating tasks\<close>

definition KERNEL_CODE_SELECTOR :: usize where "KERNEL_CODE_SELECTOR = 0x08"
definition KERNEL_DATA_SELECTOR :: usize where "KERNEL_DATA_SELECTOR = 0x10"
definition USER_CODE_SELECTOR :: usize where "USER_CODE_SELECTOR = 0x18 OR 3"
definition USER_DATA_SELECTOR :: usize where "USER_DATA_SELECTOR = 0x20 OR 3"

text \<open>The first frame of a task, which the scheduler's ordinary resume path restores.\<close>

definition initial_context :: "target_arch \<Rightarrow> bool \<Rightarrow> usize \<Rightarrow> usize \<Rightarrow> usize \<Rightarrow> TaskContext" where
  "initial_context tgt is_user ent aligned_top user_stack_top =
     (case tgt of
        X86_64 \<Rightarrow> X86_Context
          \<lparr>r15 = 0, r14 = 0, r13 = 0, r12 = 0, r11 = 0, r10 = 0, r9 = 0, r8 = 0,
           rbp = 0, rdi = 0, rsi = 0, rdx = 0, rcx = 0, rbx = 0, rax = 0,
           rip = ent,
           cs = if is_user then USER_CODE_SELECTOR OR 3 else 0x08,
           rflags = 0x202,
           rsp = if is_user then user_stack_top - 8 else aligned_top - 8,
           ss = if is_user then USER_DATA_SELECTOR OR 3 else 0x10\<rparr>
      | AArch64 \<Rightarrow> A64_Context
          \<lparr>regs = replicate 31 0,
           spsr = if is_user then 0 else 5,
           elr = ent,
           sp_el0 = if is_user then user_stack_top else 0\<rparr>)"

definition task_init :: "nat \<Rightarrow> usize \<Rightarrow> ExecutionMode \<Rightarrow> usize \<Rightarrow> bool \<Rightarrow> usize \<Rightarrow> nat \<Rightarrow> kernel \<Rightarrow> kernel" where
  "task_init i ent mode root owns user_stack_top new_id k =
     (let is_user = (mode = IsolatedProcess \<and> user_stack_top \<noteq> 0);
          stack_top = stack_addr k i + STACK_SIZE;
          aligned_top = stack_top AND NOT 0xF;
          frame_ptr = aligned_top - size_of_context (target (mach k))
      in (update_task i (\<lambda>t. t\<lparr>task_id := new_id, parent_id := new_id, task_state := Ready,
              fd_table := Some fd_table_new, memory_root := root, owns_memory_root := owns,
              is_ring3 := is_user, saved_sp := frame_ptr\<rparr>) k)
         \<lparr>frames := (frames k)(frame_ptr \<mapsto> initial_context (target (mach k)) is_user ent aligned_top user_stack_top)\<rparr>)"

definition kernel_stack_top :: "nat \<Rightarrow> kernel \<Rightarrow> usize" where
  "kernel_stack_top i k = (kernel_stack_addr k i + STACK_SIZE) AND NOT 0xF"

definition current_memory_root :: "kernel \<Rightarrow> usize" where
  "current_memory_root k = cr3 (mach k)"

definition allocate_isolated_page_table :: "usize \<Rightarrow> machine \<Rightarrow> (usize \<times> bool) \<times> machine" where
  "allocate_isolated_page_table parent_root s =
     (case create_process_page_table s of
        (Some root, s) \<Rightarrow> ((root, True), s)
      | (None, s) \<Rightarrow> ((parent_root, False), s))"

text \<open>The slot search shared by \<open>spawn\<close> and \<open>spawn_isolated_at\<close>.\<close>

definition install_task :: "usize \<Rightarrow> ExecutionMode \<Rightarrow> usize \<Rightarrow> bool \<Rightarrow> usize \<Rightarrow> kernel \<Rightarrow> bool \<times> kernel" where
  "install_task ent mode root owns user_stack_top k =
     (case find (\<lambda>i. task_state (tasks k ! i) = Terminated) [0..<MAX_TASKS] of
        None \<Rightarrow> (False, k)
      | Some i \<Rightarrow>
          (let k = task_init i ent mode root owns user_stack_top i k
           in (True, if task_initialized k then k
                     else (update_task 0 (\<lambda>t. t\<lparr>task_state := Running\<rparr>) k)\<lparr>task_initialized := True\<rparr>)))"

definition spawn :: "usize \<Rightarrow> ExecutionMode \<Rightarrow> usize \<Rightarrow> kernel \<Rightarrow> bool \<times> kernel" where
  "spawn entry_point mode user_stack_top k =
     (let caller_root = current_memory_root k;
          ((root, owns), s) = (case mode of
             SharedThread \<Rightarrow> ((caller_root, False), mach k)
           | IsolatedProcess \<Rightarrow> allocate_isolated_page_table caller_root (mach k))
      in install_task entry_point mode root owns user_stack_top (k\<lparr>mach := s\<rparr>))"

definition spawn_at :: "usize \<Rightarrow> ExecutionMode \<Rightarrow> usize \<Rightarrow> kernel \<Rightarrow> bool \<times> kernel" where
  "spawn_at entry_addr mode user_stack_top k = spawn entry_addr mode user_stack_top k"

definition spawn_isolated_at :: "usize \<Rightarrow> usize \<Rightarrow> bool \<Rightarrow> usize \<Rightarrow> kernel \<Rightarrow> bool \<times> kernel" where
  "spawn_isolated_at entry_addr root owns user_stack_top k =
     install_task entry_addr IsolatedProcess root owns user_stack_top k"

section \<open>Processes from ELF images\<close>

definition USER_STACK_TOP :: usize where
  "USER_STACK_TOP = USER_SPACE_BASE + 0x10000000"

definition USER_STACK_PAGES :: nat where
  "USER_STACK_PAGES = 4"

definition stack_flags :: MapFlags where
  "stack_flags = \<lparr>writable = True, user_accessible = True, execute_disable = True, device = False\<rparr>"

fun map_stack_pages :: "usize \<Rightarrow> usize list \<Rightarrow> machine \<Rightarrow> bool \<times> machine" where
  "map_stack_pages root [] s = (True, s)"
| "map_stack_pages root (vaddr # vs) s =
     (case alloc_frame s of
        (None, s) \<Rightarrow> (False, s)
      | (Some phys, s) \<Rightarrow>
          (case arch_map_page root vaddr phys stack_flags (write_bytes (phys_to_virt s phys) 0 4096 s) of
             (Ok _, s) \<Rightarrow> map_stack_pages root vs s
           | (_, s) \<Rightarrow> (False, s)))"

definition allocate_user_stack :: "usize \<Rightarrow> machine \<Rightarrow> usize option \<times> machine" where
  "allocate_user_stack page_table_root s =
     (let stack_bottom = USER_STACK_TOP - word_of_nat USER_STACK_PAGES * 4096
      in case map_stack_pages page_table_root (map (\<lambda>i. stack_bottom + word_of_nat i * 4096) [0..<USER_STACK_PAGES]) s of
           (True, s) \<Rightarrow> (Some USER_STACK_TOP, s)
         | (False, s) \<Rightarrow> (None, s))"

text \<open>\<open>Panic\<close> is a panic of the loader (an out-of-range slice). The loader returns on every input, so the
  branch for a loader that does not return is never taken.\<close>

definition spawn_from_elf :: "bytes \<Rightarrow> kernel \<Rightarrow> (unit, bool) outcome \<times> kernel" where
  "spawn_from_elf elf_bytes k =
     (let parent_root = current_memory_root k;
          ((root, owns), s) = allocate_isolated_page_table parent_root (mach k)
      in case load_elf_to_process elf_bytes root s of
           None \<Rightarrow> (Panic, k\<lparr>mach := s\<rparr>)
         | Some (Panic, s) \<Rightarrow> (Panic, k\<lparr>mach := s\<rparr>)
         | Some (Err _, s) \<Rightarrow> (Ok False, k\<lparr>mach := s\<rparr>)
         | Some (Ok entry_point, s) \<Rightarrow>
             (case allocate_user_stack root s of
                (None, s) \<Rightarrow> (Ok False, k\<lparr>mach := s\<rparr>)
              | (Some user_stack_top, s) \<Rightarrow>
                  (case spawn_isolated_at entry_point root owns user_stack_top (k\<lparr>mach := s\<rparr>) of
                     (b, k) \<Rightarrow> (Ok b, k))))"

section \<open>Scheduling\<close>

definition switch_address_space :: "nat \<Rightarrow> nat \<Rightarrow> kernel \<Rightarrow> kernel" where
  "switch_address_space current_idx next_idx k =
     (let next_root = memory_root (tasks k ! next_idx)
      in if next_root \<noteq> memory_root (tasks k ! current_idx) \<and> next_root \<noteq> 0
         then k\<lparr>mach := (mach k)\<lparr>cr3 := next_root\<rparr>\<rparr> else k)"

definition reclaim_terminated :: "nat \<Rightarrow> kernel \<Rightarrow> kernel" where
  "reclaim_terminated current_idx k =
     (let t = tasks k ! current_idx
      in if task_state t = Terminated \<and> owns_memory_root t
         then (update_task current_idx (\<lambda>t. t\<lparr>owns_memory_root := False, memory_root := 0\<rparr>) k)
                \<lparr>mach := free_process_page_table (memory_root t) (mach k)\<rparr>
         else k)"

definition switch_to :: "nat \<Rightarrow> nat \<Rightarrow> kernel \<Rightarrow> usize \<times> kernel" where
  "switch_to current_idx next_idx k =
     (let k = (update_task next_idx (\<lambda>t. t\<lparr>task_state := Running\<rparr>) k)\<lparr>current_task := next_idx\<rparr>;
          k = switch_address_space current_idx next_idx k;
          k = reclaim_terminated current_idx k;
          k = (case target (mach k) of X86_64 \<Rightarrow> k\<lparr>rsp0 := kernel_stack_top next_idx k\<rparr> | AArch64 \<Rightarrow> k)
      in (saved_sp (tasks k ! next_idx), k))"

definition save_current :: "usize \<Rightarrow> kernel \<Rightarrow> kernel" where
  "save_current current_sp k =
     (if current_sp \<noteq> 0 \<and> task_state (tasks k ! current_task k) = Running
      then update_task (current_task k) (\<lambda>t. t\<lparr>saved_sp := current_sp, task_state := Ready\<rparr>) k else k)"

text \<open>The slots in the order the search visits them, and the first that is ready.\<close>

definition slot_order :: "nat \<Rightarrow> nat list" where
  "slot_order current_idx = map (\<lambda>j. (current_idx + j + 1) mod MAX_TASKS) [0..<MAX_TASKS]"

definition next_ready :: "kernel \<Rightarrow> nat option" where
  "next_ready k = find (\<lambda>i. task_state (tasks k ! i) = Ready) (slot_order (current_task k))"

definition run_schedule :: "usize \<Rightarrow> kernel \<Rightarrow> usize \<times> kernel" where
  "run_schedule current_sp k =
     (if \<not> task_initialized k then (current_sp, k)
      else let current_idx = current_task k;
          k = save_current current_sp k
      in case next_ready k of
           Some next_idx \<Rightarrow> switch_to current_idx next_idx k
         | None \<Rightarrow>
             (current_sp, if task_state (tasks k ! current_idx) = Ready
                          then update_task current_idx (\<lambda>t. t\<lparr>task_state := Running\<rparr>) k else k))"

text \<open>The trap of \<open>yield_now\<close>, taken with the frame at \<open>trap_sp\<close>.\<close>

definition yield_now :: "usize \<Rightarrow> kernel \<Rightarrow> kernel" where
  "yield_now trap_sp k = snd (run_schedule trap_sp k)"

definition exit_task :: "usize \<Rightarrow> kernel \<Rightarrow> kernel" where
  "exit_task trap_sp k = yield_now trap_sp (update_task (current_task k) (\<lambda>t. t\<lparr>task_state := Terminated\<rparr>) k)"

section \<open>Messages and queries\<close>

definition current_task_id :: "kernel \<Rightarrow> nat" where
  "current_task_id k = current_task k"

definition current_task_access_info :: "kernel \<Rightarrow> usize \<times> bool" where
  "current_task_access_info k =
     (memory_root (tasks k ! current_task k), is_ring3 (tasks k ! current_task k))"

definition send_message :: "nat \<Rightarrow> bytes \<Rightarrow> kernel \<Rightarrow> (string, unit) outcome \<times> kernel" where
  "send_message dest_id message_data k =
     (case find (\<lambda>i. task_id (tasks k ! i) = dest_id \<and> task_state (tasks k ! i) \<noteq> Terminated) [0..<length (tasks k)] of
        None \<Rightarrow> (Err ''Destination task not found'', k)
      | Some i \<Rightarrow>
          if mailbox (tasks k ! i) \<noteq> None then (Err ''Destination mailbox is full'', k)
          else (Ok (), update_task i (\<lambda>t. t\<lparr>mailbox := Some \<lparr>sender_id = current_task_id k, data = message_data\<rparr>,
                 task_state := if task_state t = Blocked then Ready else task_state t\<rparr>) k))"

definition receive_message :: "usize \<Rightarrow> kernel \<Rightarrow> Message option \<times> kernel" where
  "receive_message trap_sp k =
     (case find (\<lambda>i. task_id (tasks k ! i) = current_task_id k) [0..<length (tasks k)] of
        None \<Rightarrow> (None, k)
      | Some i \<Rightarrow>
          (case mailbox (tasks k ! i) of
             Some msg \<Rightarrow> (Some msg, update_task i (\<lambda>t. t\<lparr>mailbox := None\<rparr>) k)
           | None \<Rightarrow> (None, yield_now trap_sp (update_task i (\<lambda>t. t\<lparr>task_state := Blocked\<rparr>) k))))"

record task_info =
  info_id :: nat
  info_parent :: nat
  info_state :: TaskState
  info_root :: usize

definition get_task_list :: "kernel \<Rightarrow> task_info list" where
  "get_task_list k =
     map (\<lambda>t. \<lparr>info_id = task_id t, info_parent = parent_id t, info_state = task_state t, info_root = memory_root t\<rparr>)
       (filter (\<lambda>t. task_state t \<noteq> Terminated) (tasks k))"

section \<open>What a switch changes\<close>

lemma update_task_simps [simp]:
  "current_task (update_task i f k) = current_task k" "task_initialized (update_task i f k) = task_initialized k"
  "mach (update_task i f k) = mach k" "frames (update_task i f k) = frames k" "length (tasks (update_task i f k)) = length (tasks k)"
  "i < length (tasks k) \<Longrightarrow> tasks (update_task i f k) ! j = (if j = i then f (tasks k ! i) else tasks k ! j)"
  by (simp_all add: update_task_def nth_list_update)

lemma switch_address_space_simps [simp]:
  "tasks (switch_address_space c n k) = tasks k" "current_task (switch_address_space c n k) = current_task k"
  "task_initialized (switch_address_space c n k) = task_initialized k" "frames (switch_address_space c n k) = frames k"
  "target (mach (switch_address_space c n k)) = target (mach k)"
  by (simp_all add: switch_address_space_def Let_def)

lemma free_target [simp]: "target (free_process_page_table r s) = target s"
  using free_process_page_table_frees [of s r] by (auto simp: frees_def)

lemma reclaim_simps [simp]:
  "current_task (reclaim_terminated c k) = current_task k" "task_initialized (reclaim_terminated c k) = task_initialized k"
  "frames (reclaim_terminated c k) = frames k"
  "length (tasks (reclaim_terminated c k)) = length (tasks k)" "target (mach (reclaim_terminated c k)) = target (mach k)"
  by (simp_all add: reclaim_terminated_def Let_def)

lemma reclaim_task:
  "c < length (tasks k) \<Longrightarrow> tasks (reclaim_terminated c k) ! j =
     (if j = c \<and> task_state (tasks k ! c) = Terminated \<and> owns_memory_root (tasks k ! c)
      then (tasks k ! c)\<lparr>owns_memory_root := False, memory_root := 0\<rparr> else tasks k ! j)"
  by (simp add: reclaim_terminated_def Let_def)

text \<open>The part of a task that scheduling another one leaves alone.\<close>

definition same_but_root :: "task \<Rightarrow> task \<Rightarrow> bool" where
  "same_but_root t t' \<longleftrightarrow> t' = t\<lparr>owns_memory_root := owns_memory_root t', memory_root := memory_root t'\<rparr>"

lemma same_but_root_simps:
  assumes "same_but_root t t'"
  shows "task_state t' = task_state t" "saved_sp t' = saved_sp t" "task_id t' = task_id t" "mailbox t' = mailbox t"
    "is_ring3 t' = is_ring3 t" "fd_table t' = fd_table t"
proof -
  have "f t' = f (t\<lparr>owns_memory_root := owns_memory_root t', memory_root := memory_root t'\<rparr>)" for f :: "task \<Rightarrow> 'a"
    using arg_cong [OF assms [unfolded same_but_root_def], of f] .
  from this [of task_state] this [of saved_sp] this [of task_id] this [of mailbox] this [of is_ring3] this [of fd_table]
  show "task_state t' = task_state t" "saved_sp t' = saved_sp t" "task_id t' = task_id t" "mailbox t' = mailbox t"
    "is_ring3 t' = is_ring3 t" "fd_table t' = fd_table t" by simp_all
qed

lemma switch_to_result:
  assumes "n < length (tasks k)" "c < length (tasks k)" "switch_to c n k = (r, k')"
  shows "r = saved_sp (tasks k ! n)" "current_task k' = n" "task_initialized k' = task_initialized k"
    "length (tasks k') = length (tasks k)" "frames k' = frames k"
    "same_but_root (if j = n then (tasks k ! n)\<lparr>task_state := Running\<rparr> else tasks k ! j) (tasks k' ! j)"
proof -
  let ?k1 = "(update_task n (\<lambda>t. t\<lparr>task_state := Running\<rparr>) k)\<lparr>current_task := n\<rparr>"
  let ?k2 = "reclaim_terminated c (switch_address_space c n ?k1)"
  have k': "tasks k' = tasks ?k2" "r = saved_sp (tasks ?k2 ! n)" "current_task k' = n"
    "task_initialized k' = task_initialized k" "frames k' = frames k"
    using assms(3) by (auto simp: switch_to_def Let_def split: target_arch.splits)
  have t: "same_but_root (tasks ?k1 ! j) (tasks ?k2 ! j)" for j
    using reclaim_task [of c "switch_address_space c n ?k1" j] assms(1,2) by (auto simp: same_but_root_def)
  show "r = saved_sp (tasks k ! n)" using t [of n] k'(2) assms(1) by (simp add: same_but_root_simps)
  show "same_but_root (if j = n then (tasks k ! n)\<lparr>task_state := Running\<rparr> else tasks k ! j) (tasks k' ! j)"
    using t [of j] k'(1) assms(1) by auto
qed (use assms in \<open>auto simp: switch_to_def Let_def split: target_arch.splits\<close>)

section \<open>Runs of the kernel\<close>

text \<open>
  The steps that change the task table, in any order and with any arguments, and any computation
  that does not. Exit and messaging are calls of a task, so they happen once tasks exist; trap
  stubs never push a frame at address 0.
\<close>

inductive kernel_step :: "kernel \<Rightarrow> kernel \<Rightarrow> bool" where
  tick: "sp \<noteq> 0 \<Longrightarrow> kernel_step k (snd (run_schedule sp k))"
| exit_call: "task_initialized k \<Longrightarrow> sp \<noteq> 0 \<Longrightarrow> kernel_step k (exit_task sp k)"
| spawn_call: "kernel_step k (snd (spawn ent mode ustop k))"
| spawn_elf_call: "kernel_step k (snd (spawn_from_elf elf k))"
| send_call: "task_initialized k \<Longrightarrow> kernel_step k (snd (send_message dest msg k))"
| receive_call: "task_initialized k \<Longrightarrow> sp \<noteq> 0 \<Longrightarrow> kernel_step k (snd (receive_message sp k))"
| compute: "kernel_step k (k\<lparr>mach := s, input := q, console := c, frames := fr\<rparr>)"

definition boot_kernel :: "machine \<Rightarrow> (nat \<Rightarrow> usize) \<Rightarrow> (nat \<Rightarrow> usize) \<Rightarrow> kernel" where
  "boot_kernel s stacks kernel_stacks =
     \<lparr>mach = s, input = empty_queue, console = [], tasks = replicate MAX_TASKS task_empty, current_task = 0,
      task_initialized = False, frames = Map.empty, rsp0 = 0, stack_addr = stacks, kernel_stack_addr = kernel_stacks\<rparr>"

definition sched_ok :: "kernel \<Rightarrow> bool" where
  "sched_ok k \<longleftrightarrow> length (tasks k) = MAX_TASKS \<and> current_task k < MAX_TASKS \<and>
     (\<forall>i < MAX_TASKS. task_state (tasks k ! i) = Running \<longrightarrow> i = current_task k) \<and>
     (\<forall>i < MAX_TASKS. task_id (tasks k ! i) = i \<or> task_id (tasks k ! i) = 0 \<and> task_state (tasks k ! i) = Terminated) \<and>
     (\<not> task_initialized k \<longrightarrow> current_task k = 0 \<and> (\<forall>i < MAX_TASKS. task_state (tasks k ! i) = Terminated)) \<and>
     (task_initialized k \<longrightarrow> task_id (tasks k ! current_task k) = current_task k)"

lemma sched_okD:
  assumes "sched_ok k"
  shows "length (tasks k) = MAX_TASKS" "current_task k < MAX_TASKS"
    "i < MAX_TASKS \<Longrightarrow> task_state (tasks k ! i) = Running \<Longrightarrow> i = current_task k"
    "i < MAX_TASKS \<Longrightarrow> task_id (tasks k ! i) = i \<or> task_id (tasks k ! i) = 0 \<and> task_state (tasks k ! i) = Terminated"
    "\<not> task_initialized k \<Longrightarrow> current_task k = 0"
    "\<not> task_initialized k \<Longrightarrow> i < MAX_TASKS \<Longrightarrow> task_state (tasks k ! i) = Terminated"
    "task_initialized k \<Longrightarrow> task_id (tasks k ! current_task k) = current_task k"
  using assms unfolding sched_ok_def by auto

lemma slot_order_set: "c < MAX_TASKS \<Longrightarrow> set (slot_order c) = {0..<MAX_TASKS}"
proof -
  assume "c < MAX_TASKS"
  then consider "c = 0" | "c = 1" | "c = 2" | "c = 3" by (fastforce simp: MAX_TASKS_def)
  then show ?thesis by cases (auto simp: slot_order_def MAX_TASKS_def upt_rec)
qed

lemma next_ready_Some: "current_task k < MAX_TASKS \<Longrightarrow> next_ready k = Some n \<Longrightarrow> n < MAX_TASKS \<and> task_state (tasks k ! n) = Ready"
  using slot_order_set [of "current_task k"] by (auto simp: next_ready_def find_Some_iff)

lemma next_ready_None: "current_task k < MAX_TASKS \<Longrightarrow> next_ready k = None \<Longrightarrow> i < MAX_TASKS \<Longrightarrow> task_state (tasks k ! i) \<noteq> Ready"
  using slot_order_set [of "current_task k"] by (auto simp: next_ready_def find_None_iff)

lemma save_current_simps [simp]:
  "current_task (save_current sp k) = current_task k" "task_initialized (save_current sp k) = task_initialized k"
  "length (tasks (save_current sp k)) = length (tasks k)" "frames (save_current sp k) = frames k" "mach (save_current sp k) = mach k"
  by (simp_all add: save_current_def)

lemma save_current_task:
  "current_task k < length (tasks k) \<Longrightarrow> sp \<noteq> 0 \<Longrightarrow> tasks (save_current sp k) ! i =
     (if i = current_task k \<and> task_state (tasks k ! i) = Running
      then (tasks k ! i)\<lparr>saved_sp := sp, task_state := Ready\<rparr> else tasks k ! i)"
  by (auto simp: save_current_def)

lemma schedule_cases:
  assumes "sched_ok k" "task_initialized k" "sp \<noteq> 0" "run_schedule sp k = (r, k')"
  obtains (switch) n where "next_ready (save_current sp k) = Some n" "n < MAX_TASKS"
      "task_state (tasks (save_current sp k) ! n) = Ready" "switch_to (current_task k) n (save_current sp k) = (r, k')"
  | (idle) "r = sp" "k' = k" "task_state (tasks k ! current_task k) \<noteq> Running"
      "\<And>i. i < MAX_TASKS \<Longrightarrow> task_state (tasks k ! i) \<noteq> Ready"
proof (cases "next_ready (save_current sp k)")
  case (Some n)
  then show ?thesis
    using switch next_ready_Some [of "save_current sp k" n] sched_okD(2) [OF assms(1)] assms(2,4)
    by (simp add: run_schedule_def)
next
  case None
  note nr = next_ready_None [OF _ None, simplified, OF sched_okD(2) [OF assms(1)]]
  have st: "task_state (tasks (save_current sp k) ! i) \<noteq> Ready" if "i < MAX_TASKS" for i using nr that by simp
  have "task_state (tasks k ! current_task k) \<noteq> Running"
    using st [OF sched_okD(2) [OF assms(1)]] save_current_task [of k sp "current_task k"] sched_okD(1,2) [OF assms(1)] assms(3)
    by (auto split: if_splits)
  then have "save_current sp k = k" by (simp add: save_current_def)
  with st None idle assms(2,4) sched_okD(2) [OF assms(1)] \<open>task_state (tasks k ! current_task k) \<noteq> Running\<close>
  show ?thesis by (simp add: run_schedule_def)
qed

lemma sched_ok_schedule:
  assumes "sched_ok k" "task_initialized k" "sp \<noteq> 0"
  shows "sched_ok (snd (run_schedule sp k))"
proof -
  obtain r k' where run: "run_schedule sp k = (r, k')" by fastforce
  note ok = sched_okD [OF assms(1)]
  from assms run show ?thesis
  proof (cases rule: schedule_cases)
    case (switch n)
    let ?k0 = "save_current sp k"
    have len: "n < length (tasks ?k0)" "current_task k < length (tasks ?k0)" using switch(2) ok(1,2) by simp_all
    note sw = switch_to_result [OF len switch(4)]
    have t: "tasks ?k0 ! i = (if i = current_task k \<and> task_state (tasks k ! i) = Running
        then (tasks k ! i)\<lparr>saved_sp := sp, task_state := Ready\<rparr> else tasks k ! i)" for i
      using save_current_task [OF _ assms(3)] ok(1,2) by simp
    have st: "task_state (tasks k' ! j) = (if j = n then Running else task_state (tasks ?k0 ! j))" for j
      using same_but_root_simps(1) [OF sw(6) [of j]] by simp
    have id: "task_id (tasks k' ! j) = task_id (tasks k ! j)" for j
      using same_but_root_simps(3) [OF sw(6) [of j]] by (simp add: t)
    have "task_state (tasks ?k0 ! j) \<noteq> Running" if "j < MAX_TASKS" for j
      using ok(3) [OF that] by (auto simp: t)
    then have run1: "task_state (tasks k' ! j) = Running \<Longrightarrow> j < MAX_TASKS \<Longrightarrow> j = n" for j
      by (simp add: st split: if_splits)
    have nt: "task_state (tasks k ! n) \<noteq> Terminated" using switch(3) by (auto simp: t split: if_splits)
    have tm: "task_state (tasks k' ! j) = Terminated" if "task_state (tasks k ! j) = Terminated" for j
      using that nt by (auto simp: st t)
    have "task_id (tasks k' ! j) = j \<or> task_id (tasks k' ! j) = 0 \<and> task_state (tasks k' ! j) = Terminated" if "j < MAX_TASKS" for j
      using ok(4) [OF that] tm by (auto simp: id)
    moreover have "task_id (tasks k' ! n) = n" using ok(4) [OF switch(2)] nt by (auto simp: id)
    moreover have "length (tasks k') = MAX_TASKS" using sw(4) ok(1) by simp
    ultimately show ?thesis
      using run1 sw(2,3) switch(2) assms(2) unfolding sched_ok_def run by simp
  next
    case idle
    then show ?thesis using assms(1) run by simp
  qed
qed

lemma sched_ok_cong:
  "tasks k' = tasks k \<Longrightarrow> current_task k' = current_task k \<Longrightarrow> task_initialized k' = task_initialized k \<Longrightarrow>
     sched_ok k' \<longleftrightarrow> sched_ok k"
  by (simp add: sched_ok_def)

lemma sched_ok_update:
  assumes "sched_ok k" "task_initialized k" "i < MAX_TASKS" "task_id (f (tasks k ! i)) = i"
    "task_state (f (tasks k ! i)) = Running \<Longrightarrow> i = current_task k"
  shows "sched_ok (update_task i f k)"
  using assms sched_okD [OF assms(1)] unfolding sched_ok_def by (auto split: if_splits)

lemma sched_ok_install: "sched_ok k \<Longrightarrow> sched_ok (snd (install_task ent mode root owns ustop k))"
proof -
  assume ok: "sched_ok k"
  show ?thesis
  proof (cases "find (\<lambda>i. task_state (tasks k ! i) = Terminated) [0..<MAX_TASKS]")
    case None
    with ok show ?thesis by (simp add: install_task_def)
  next
    case (Some i)
    then have i: "i < MAX_TASKS" "task_state (tasks k ! i) = Terminated" "\<And>j. j < i \<Longrightarrow> task_state (tasks k ! j) \<noteq> Terminated"
      by (simp_all add: find_upt_Some)
    let ?k = "task_init i ent mode root owns ustop i k"
    have t: "length (tasks ?k) = MAX_TASKS" "current_task ?k = current_task k" "task_initialized ?k = task_initialized k"
      "\<And>j. task_state (tasks ?k ! j) = (if j = i then Ready else task_state (tasks k ! j))"
      "\<And>j. task_id (tasks ?k ! j) = (if j = i then i else task_id (tasks k ! j))"
      using sched_okD(1) [OF ok] i(1) by (simp_all add: task_init_def Let_def)
    show ?thesis
    proof (cases "task_initialized k")
      case True
      then have "snd (install_task ent mode root owns ustop k) = ?k" using Some t(3) by (simp add: install_task_def Let_def)
      then show ?thesis using True sched_okD(2,3,4,7) [OF ok] t unfolding sched_ok_def by auto
    next
      case False
      then have "i = 0" using i(3) [of 0] sched_okD(6) [OF ok False, of 0] i(1) by fastforce
      with False show ?thesis
        using Some ok t i(1) sched_okD(1,6) [OF ok] unfolding sched_ok_def
        by (simp add: install_task_def Let_def nth_list_update update_task_def)
    qed
  qed
qed

lemma sched_ok_mach [simp]: "sched_ok (k\<lparr>mach := s\<rparr>) \<longleftrightarrow> sched_ok k"
  by (rule sched_ok_cong) simp_all

lemma sched_ok_step: "kernel_step k k' \<Longrightarrow> sched_ok k \<Longrightarrow> sched_ok k'"
proof (induction rule: kernel_step.induct)
  case (tick sp k)
  then show ?case
  proof (cases "task_initialized k")
    case True
    with tick show ?thesis by (simp add: sched_ok_schedule)
  next
    case False
    with tick show ?thesis by (simp add: run_schedule_def)
  qed
next
  case (exit_call k sp)
  have "sched_ok (update_task (current_task k) (\<lambda>t. t\<lparr>task_state := Terminated\<rparr>) k)"
    using exit_call sched_okD(2,7) [OF exit_call.prems] by (intro sched_ok_update) auto
  then show ?case using exit_call by (simp add: exit_task_def yield_now_def sched_ok_schedule)
next
  case (spawn_call k ent mode ustop)
  then show ?case by (simp add: spawn_def sched_ok_install Let_def split: prod.split)
next
  case (spawn_elf_call k elf)
  then show ?case
    by (simp add: spawn_from_elf_def spawn_isolated_at_def Let_def split: prod.split option.split outcome.split)
      (metis sched_ok_install sched_ok_mach snd_conv)
next
  case (send_call k dest msg)
  show ?case
  proof (cases "find (\<lambda>i. task_id (tasks k ! i) = dest \<and> task_state (tasks k ! i) \<noteq> Terminated) [0..<length (tasks k)]")
    case None
    with send_call show ?thesis by (simp add: send_message_def)
  next
    case (Some i)
    then have "i < MAX_TASKS" "task_state (tasks k ! i) \<noteq> Terminated"
      using sched_okD(1) [OF send_call.prems] by (simp_all add: find_upt_Some)
    then show ?thesis
      using Some send_call sched_okD(3,4) [OF send_call.prems, of i]
      by (auto simp: send_message_def intro!: sched_ok_update split: if_splits)
  qed
next
  case (receive_call k sp)
  show ?case
  proof (cases "find (\<lambda>i. task_id (tasks k ! i) = current_task_id k) [0..<length (tasks k)]")
    case None
    with receive_call show ?thesis by (simp add: receive_message_def)
  next
    case (Some i)
    then have i: "i < MAX_TASKS" "task_id (tasks k ! i) = current_task k" "i \<le> current_task k"
      using sched_okD(1,2,7) [OF receive_call.prems] receive_call.hyps
      by (auto simp: find_upt_Some current_task_id_def intro: leI)
    then have "task_id (tasks k ! i) = i" using sched_okD(4) [OF receive_call.prems, of i] by auto
    then show ?thesis
      using Some receive_call i(1) sched_okD(3) [OF receive_call.prems, of i]
      by (auto simp: receive_message_def yield_now_def intro!: sched_ok_update sched_ok_schedule split: option.split)
  qed
next
  case (compute k s q c fr)
  then show ?case by (subst sched_ok_cong [of _ k]) simp_all
qed

lemma sched_ok_boot: "sched_ok (boot_kernel s st ks)"
  by (simp add: sched_ok_def boot_kernel_def task_empty_def MAX_TASKS_def nth_Cons')

lemma sched_ok_reachable: "kernel_step\<^sup>*\<^sup>* (boot_kernel s st ks) k \<Longrightarrow> sched_ok k"
  by (induction rule: rtranclp_induct) (auto intro: sched_ok_boot sched_ok_step)

text \<open>C29: In every run from boot at most one task is running, and it is the one \<open>CURRENT_TASK\<close> names; the index
  stays inside the table, and once tasks exist the current slot carries its own index as task id.\<close>
theorem one_running_task:
  assumes "kernel_step\<^sup>*\<^sup>* (boot_kernel s st ks) k"
  shows "length (tasks k) = 4 \<and> current_task k < 4 \<and>
    (\<forall>i < 4. task_state (tasks k ! i) = Running \<longrightarrow> i = current_task k) \<and>
    (task_initialized k \<longrightarrow> task_id (tasks k ! current_task k) = current_task k)"
  using sched_okD(1,2,3,7) [OF sched_ok_reachable [OF assms]] by (simp add: MAX_TASKS_def)

definition demo_boot :: kernel where
  "demo_boot = boot_kernel demo_machine (\<lambda>i. 0x500000 + word_of_nat i * 0x2000) (\<lambda>i. 0x600000 + word_of_nat i * 0x2000)"

theorem one_running_task_witness:
  "\<exists>k. kernel_step\<^sup>*\<^sup>* demo_boot k \<and> task_state (tasks k ! 0) = Running \<and> current_task k = 0"
proof -
  let ?k = "snd (spawn 0x1000 SharedThread 0 demo_boot)"
  have r: "kernel_step\<^sup>*\<^sup>* demo_boot ?k" by (rule r_into_rtranclp) (rule spawn_call)
  have run: "task_state (tasks ?k ! 0) = Running"
    by (simp add: spawn_def install_task_def demo_boot_def boot_kernel_def MAX_TASKS_def task_empty_def task_init_def
      update_task_def Let_def upt_rec)
  then have "0 = current_task ?k" using one_running_task [OF r [unfolded demo_boot_def]] by (simp add: demo_boot_def)
  with r run show ?thesis by force
qed

section \<open>Round robin\<close>

fun ticks :: "usize list \<Rightarrow> kernel \<Rightarrow> kernel" where
  "ticks [] k = k"
| "ticks (sp # sps) k = ticks sps (snd (run_schedule sp k))"

definition slots_ahead :: "nat \<Rightarrow> nat \<Rightarrow> nat" where
  "slots_ahead c i = (i + MAX_TASKS - c - 1) mod MAX_TASKS"

lemma slot_order_ahead:
  assumes "c < MAX_TASKS" "i < MAX_TASKS"
  shows "slots_ahead c i < length (slot_order c)" "slot_order c ! slots_ahead c i = i"
  using assms by (auto simp: slots_ahead_def slot_order_def MAX_TASKS_def mod_if)

lemma slots_ahead_table:
  "list_all (\<lambda>c. list_all (\<lambda>i. list_all (\<lambda>j. j < slots_ahead c i \<longrightarrow>
     slots_ahead (slot_order c ! j) i < slots_ahead c i \<and> slot_order c ! j \<noteq> i) [0..<4]) [0..<4]) [0..<4]"
  by code_simp

lemma slots_ahead_less:
  assumes "c < MAX_TASKS" "j < slots_ahead c i" "i < MAX_TASKS"
  shows "slots_ahead (slot_order c ! j) i < slots_ahead c i" "slot_order c ! j \<noteq> i"
proof -
  have "j < MAX_TASKS" using assms(2) by (simp add: slots_ahead_def MAX_TASKS_def)
  then have "c \<in> set [0..<4]" "i \<in> set [0..<4]" "j \<in> set [0..<4]" using assms by (simp_all add: MAX_TASKS_def)
  then show "slots_ahead (slot_order c ! j) i < slots_ahead c i" "slot_order c ! j \<noteq> i"
    using slots_ahead_table assms(2) unfolding list_all_iff by blast+
qed

lemma tick_advances:
  assumes ok: "sched_ok k" "task_initialized k" "sp \<noteq> 0" and i: "i < MAX_TASKS" "task_state (tasks k ! i) = Ready"
  shows "current_task (snd (run_schedule sp k)) = i \<or>
    slots_ahead (current_task (snd (run_schedule sp k))) i < slots_ahead (current_task k) i \<and>
    task_state (tasks (snd (run_schedule sp k)) ! i) = Ready"
proof -
  obtain r k' where run: "run_schedule sp k = (r, k')" by fastforce
  let ?c = "current_task k" and ?k0 = "save_current sp k"
  note c = sched_okD(1,2) [OF ok(1)]
  from ok run show ?thesis
  proof (cases rule: schedule_cases)
    case (switch n)
    note sw = switch_to_result [OF _ _ switch(4), simplified, unfolded c(1), OF switch(2) c(2)]
    have t: "task_state (tasks ?k0 ! i) = Ready"
      using save_current_task [of k sp i] c i(2) ok(3) by auto
    from switch(1) obtain j where j: "j < length (slot_order ?c)" "n = slot_order ?c ! j"
      "\<And>l. l < j \<Longrightarrow> task_state (tasks ?k0 ! (slot_order ?c ! l)) \<noteq> Ready"
      by (auto simp: next_ready_def find_Some_iff)
    note ah = slot_order_ahead [OF c(2) i(1)]
    have "j \<le> slots_ahead ?c i" using j(3) [of "slots_ahead ?c i"] ah(2) t by (auto intro: leI)
    then consider "j = slots_ahead ?c i" | "j < slots_ahead ?c i" by linarith
    then show ?thesis
    proof cases
      case 1
      then show ?thesis using j(2) ah(2) sw(2) run by simp
    next
      case 2
      note l = slots_ahead_less [OF c(2) 2 i(1)]
      have "task_state (tasks k' ! i) = Ready"
        using same_but_root_simps(1) [OF sw(6) [of i]] l(2) j(2) t by simp
      then show ?thesis using l(1) j(2) sw(2) run by simp
    qed
  next
    case idle
    then show ?thesis using i by blast
  qed
qed

lemma round_robin:
  assumes "sched_ok k" "task_initialized k" "0 \<notin> set sps" "i < MAX_TASKS" "task_state (tasks k ! i) = Ready"
    "slots_ahead (current_task k) i < length sps"
  shows "\<exists>n. 0 < n \<and> n \<le> length sps \<and> current_task (ticks (take n sps) k) = i"
  using assms
proof (induction sps arbitrary: k)
  case (Cons sp sps)
  let ?k = "snd (run_schedule sp k)"
  have ok: "sched_ok ?k" using Cons.prems by (auto intro: sched_ok_schedule)
  have init: "task_initialized ?k"
    using switch_to_result(3) Cons.prems(2)
    by (auto simp: run_schedule_def Let_def switch_to_def split: option.split target_arch.split)
  from tick_advances [OF Cons.prems(1,2) _ Cons.prems(4,5), of sp] Cons.prems(3)
  consider "current_task ?k = i" | "slots_ahead (current_task ?k) i < slots_ahead (current_task k) i" "task_state (tasks ?k ! i) = Ready"
    by auto
  then show ?case
  proof cases
    case 1
    then show ?thesis by (intro exI [of _ 1]) simp
  next
    case 2
    then obtain n where "0 < n" "n \<le> length sps" "current_task (ticks (take n sps) ?k) = i"
      using Cons.IH [OF ok init] Cons.prems(3,4,6) by auto
    then show ?thesis by (intro exI [of _ "Suc n"]) simp
  qed
qed simp

text \<open>C30: The scheduler starves nobody: from any reachable state, a ready task is scheduled within four ticks,
  whatever the other tasks' states and frames are.\<close>
theorem ready_task_runs_within_four_ticks:
  assumes "kernel_step\<^sup>*\<^sup>* (boot_kernel s st ks) k" "task_initialized k"
    and "i < 4" "task_state (tasks k ! i) = Ready" "length sps = 4" "0 \<notin> set sps"
  shows "\<exists>n \<le> 4. 0 < n \<and> current_task (ticks (take n sps) k) = i"
proof -
  have "slots_ahead (current_task k) i < length sps" using assms(5) by (simp add: slots_ahead_def MAX_TASKS_def)
  then show ?thesis
    using round_robin [OF sched_ok_reachable [OF assms(1)] assms(2,6)] assms(3-5) by (auto simp: MAX_TASKS_def)
qed

text \<open>Two kernel threads spawned at boot.\<close>

definition demo_two :: kernel where
  "demo_two = snd (spawn 0x2000 SharedThread 0 (snd (spawn 0x1000 SharedThread 0 demo_boot)))"

lemmas spawn_eval = spawn_def install_task_def demo_boot_def boot_kernel_def MAX_TASKS_def task_empty_def task_init_def
  update_task_def Let_def upt_rec

lemma demo_two_simps:
  "length (tasks demo_two) = 4" "task_initialized demo_two" "current_task demo_two = 0"
  "task_state (tasks demo_two ! 0) = Running" "task_state (tasks demo_two ! 1) = Ready"
  "mailbox (tasks demo_two ! 0) = None" "task_id (tasks demo_two ! 0) = 0"
  "saved_sp (tasks demo_two ! 0) = 0x501F60" "saved_sp (tasks demo_two ! 1) = 0x503F60"
  by (simp_all add: demo_two_def spawn_eval) (simp_all add: size_of_context_def STACK_SIZE_def demo_machine_def)

lemma demo_two_reachable: "kernel_step\<^sup>*\<^sup>* demo_boot demo_two"
  unfolding demo_two_def by (meson rtranclp.rtrancl_into_rtrancl rtranclp.rtrancl_refl spawn_call)

theorem ready_task_runs_witness:
  "kernel_step\<^sup>*\<^sup>* demo_boot demo_two \<and> task_state (tasks demo_two ! 1) = Ready \<and>
   (\<exists>n \<le> 4. 0 < n \<and> current_task (ticks (take n [1, 2, 3, 4]) demo_two) = 1)"
  using ready_task_runs_within_four_ticks [OF demo_two_reachable [unfolded demo_boot_def], of 1 "[1, 2, 3, 4]"]
    demo_two_reachable demo_two_simps by simp

section \<open>Contexts across a switch\<close>

lemma schedule_running:
  assumes "sched_ok k" "task_initialized k" "sp \<noteq> 0" "task_state (tasks k ! current_task k) = Running"
    "run_schedule sp k = (r, k')"
  shows "task_state (tasks k' ! current_task k') = Running \<and> r = saved_sp (tasks k' ! current_task k') \<and>
    (\<forall>i < MAX_TASKS. saved_sp (tasks k' ! i) = (if i = current_task k then sp else saved_sp (tasks k ! i))) \<and> frames k' = frames k"
  using assms(1-3,5)
proof (cases rule: schedule_cases)
  case (switch n)
  note c = sched_okD(1,2) [OF assms(1)]
  note sw = switch_to_result [OF _ _ switch(4), simplified, unfolded c(1), OF switch(2) c(2)]
  note t = same_but_root_simps(1,2) [OF sw(6)]
  have sv: "saved_sp (tasks (save_current sp k) ! i) = (if i = current_task k then sp else saved_sp (tasks k ! i))" for i
    using save_current_task [of k sp i] c assms(3,4) by auto
  have "saved_sp (tasks k' ! i) = (if i = current_task k then sp else saved_sp (tasks k ! i))" for i
    using t(2) [of i] sv by (auto split: if_splits)
  then show ?thesis using sw(1,2,5) t(1) [of n] sv [of n] by simp
qed (use assms(4) in simp)

text \<open>A timer tick that interrupts a running task stores its stack pointer in its slot, changes no other
  task's stored stack pointer and no stored frame, and resumes the task that is current afterwards
  at the stack pointer that was stored for it.\<close>
theorem preemption_preserves_contexts:
  assumes "kernel_step\<^sup>*\<^sup>* (boot_kernel s st ks) k" "task_initialized k" "sp \<noteq> 0"
    and "task_state (tasks k ! current_task k) = Running" "run_schedule sp k = (r, k')"
  shows "task_state (tasks k' ! current_task k') = Running \<and> r = saved_sp (tasks k' ! current_task k') \<and>
    (\<forall>i < 4. saved_sp (tasks k' ! i) = (if i = current_task k then sp else saved_sp (tasks k ! i))) \<and> frames k' = frames k"
  using schedule_running [OF sched_ok_reachable [OF assms(1)] assms(2-5)] by (auto simp: MAX_TASKS_def)

theorem preemption_preserves_contexts_witness:
  "\<exists>r k'. run_schedule 0x7000 demo_two = (r, k') \<and> saved_sp (tasks k' ! 0) = 0x7000 \<and> saved_sp (tasks k' ! 1) = 0x503F60"
proof -
  obtain r k' where run: "run_schedule 0x7000 demo_two = (r, k')" by fastforce
  from preemption_preserves_contexts [OF demo_two_reachable [unfolded demo_boot_def] _ _ _ run]
  show ?thesis using run demo_two_simps by auto
qed

text \<open>C38: \<open>receive_message\<close> on an empty mailbox marks its task blocked before it yields, and the scheduler stores
  a stack pointer only for a task still marked running. The stack pointer of the yield is lost: the slot
  keeps the one from an earlier preemption, or the frame the task was created with, and that is where
  the task resumes once a message wakes it.\<close>
theorem receive_loses_stack_pointer:
  assumes "kernel_step\<^sup>*\<^sup>* (boot_kernel s st ks) k" "task_initialized k" "trap_sp \<noteq> 0"
    and "mailbox (tasks k ! current_task k) = None" "task_state (tasks k ! current_task k) = Running"
    and "receive_message trap_sp k = (m, k')"
  shows "m = None \<and> task_state (tasks k' ! current_task k) = Blocked \<and>
    saved_sp (tasks k' ! current_task k) = saved_sp (tasks k ! current_task k)"
proof -
  note ok = sched_ok_reachable [OF assms(1)]
  let ?c = "current_task k" and ?k = "update_task (current_task k) (\<lambda>t. t\<lparr>task_state := Blocked\<rparr>) k"
  have c: "?c < length (tasks k)" "length (tasks k) = MAX_TASKS" "?c < MAX_TASKS" using sched_okD(1,2) [OF ok] by simp_all
  have "task_id (tasks k ! j) \<noteq> ?c" if "j < ?c" for j
    using sched_okD(4) [OF ok, of j] sched_okD(7) [OF ok assms(2)] that c by auto
  then have "find (\<lambda>i. task_id (tasks k ! i) = current_task_id k) [0..<length (tasks k)] = Some ?c"
    using sched_okD(7) [OF ok assms(2)] c(1) by (auto simp: find_upt_Some current_task_id_def)
  then have r: "m = None" "k' = snd (run_schedule trap_sp ?k)"
    using assms(4,6) by (simp_all add: receive_message_def yield_now_def)
  have ok': "sched_ok ?k" using sched_okD(7) [OF ok assms(2)] ok assms(2) c(3) by (intro sched_ok_update) auto
  obtain x k2 where run: "run_schedule trap_sp ?k = (x, k2)" by fastforce
  have init: "task_initialized ?k" using assms(2) by simp
  have sv: "save_current trap_sp ?k = ?k" using c(1) by (simp add: save_current_def)
  from ok' init assms(3) run
  have "task_state (tasks k2 ! ?c) = Blocked \<and> saved_sp (tasks k2 ! ?c) = saved_sp (tasks k ! ?c)"
  proof (cases rule: schedule_cases)
    case (switch n)
    note switch = switch [unfolded sv]
    note sw = switch_to_result(6) [OF _ _ switch(4), simplified, unfolded c(2), OF switch(2) c(3), of ?c]
    have "n \<noteq> ?c" using switch(3) c(1) by auto
    then show ?thesis using same_but_root_simps(1,2) [OF sw] c(1) by auto
  next
    case idle
    then show ?thesis using c(1) by simp
  qed
  then show ?thesis using r run by simp
qed

theorem receive_loses_stack_pointer_witness:
  "\<exists>k'. receive_message 0x7000 demo_two = (None, k') \<and> task_state (tasks k' ! 0) = Blocked \<and> saved_sp (tasks k' ! 0) = 0x501F60"
proof -
  obtain m k' where run: "receive_message 0x7000 demo_two = (m, k')" by fastforce
  from receive_loses_stack_pointer [OF demo_two_reachable [unfolded demo_boot_def] _ _ _ _ run]
  show ?thesis using run demo_two_simps by auto
qed

end
