(* ===== verification/Process.thy ===== *)
theory Process
  imports Task
begin

text \<open>
  Processes: \<^verbatim>\<open>process.rs\<close>, and the composition of address-space creation, ELF loading, stack allocation and
  task creation in \<open>task::spawn_from_elf\<close>.
\<close>

datatype ProcessState = Alive | Exited

definition spawn_and_run_elf :: "bytes \<Rightarrow> kernel \<Rightarrow> (string, unit) outcome \<times> kernel" where
  "spawn_and_run_elf elf_binary k =
     (case spawn_from_elf elf_binary k of
        (Ok True, k) \<Rightarrow> (Ok (), k)
      | (Ok False, k) \<Rightarrow> (Err ''spawn_from_elf failed (bad ELF, allocation failure, or no free task slot)'', k)
      | (_, k) \<Rightarrow> (Panic, k))"

section \<open>The user stack\<close>

lemma zero_page_write [simp]: "write_bytes (phys_to_virt s f) 0 4096 s = zero_page f s"
  by (simp add: write_bytes_def zero_page_def)

lemma user_absent: "user_tree s root \<Longrightarrow> user_addr w \<Longrightarrow> \<not> pte_present (ops s) (leaf_entry (ops s) s root w) \<Longrightarrow> user_byte s root w = None"
  by (simp add: user_byte_leaf)

lemma leaf_same_page: "same_page v w \<Longrightarrow> leaf_entry P s root v = leaf_entry P s root w"
  by (simp add: leaf_entry_def same_page_path)

text \<open>Mapping a list of stack pages makes exactly those pages appear, zeroed and with the stack's flags.\<close>

lemma map_stack_pages_image:
  assumes "user_tree s root" "map_stack_pages root vs s = (True, s')"
    and "\<forall>v \<in> set vs. user_addr v \<and> v AND 0xFFF = 0"
  shows "user_tree s' root \<and> target s' = target s \<and>
    (\<forall>w. user_addr w \<longrightarrow> (if \<exists>v \<in> set vs. same_page w v
       then user_byte s root w = None \<and> user_byte s' root w = Some 0 \<and>
         (\<exists>f. leaf_entry (ops s) s' root w = pte_leaf (ops s) f stack_flags)
       else user_byte s' root w = user_byte s root w \<and> leaf_entry (ops s) s' root w = leaf_entry (ops s) s root w))"
  using assms
proof (induction vs arbitrary: s)
  case (Cons v vs)
  obtain f s1 where alloc: "alloc_frame s = (Some f, s1)"
    using Cons.prems(2) by (auto split: prod.splits option.splits)
  obtain s2 where map: "arch_map_page root v f stack_flags (zero_page f s1) = (Ok (), s2)"
    and rest: "map_stack_pages root vs s2 = (True, s')"
    using Cons.prems(2) alloc by (auto split: prod.splits outcome.splits)
  have v: "user_addr v" "v AND 0xFFF = 0" using Cons.prems(3) by auto
  note absent = map_fresh_ok_absent [OF Cons.prems(1) v(1) alloc map]
  have c: "unat (0 :: usize) + length ([] :: bytes) \<le> 4096" "s2 = s2\<lparr>ram := copy_bytes (ram s2) (f + 0) []\<rparr>" by simp_all
  note F = fill_user_page [OF Cons.prems(1) v absent alloc map c]
  have IH: "user_tree s' root \<and> target s' = target s2 \<and>
    (\<forall>w. user_addr w \<longrightarrow> (if \<exists>v \<in> set vs. same_page w v
       then user_byte s2 root w = None \<and> user_byte s' root w = Some 0 \<and>
         (\<exists>f. leaf_entry (ops s2) s' root w = pte_leaf (ops s2) f stack_flags)
       else user_byte s' root w = user_byte s2 root w \<and> leaf_entry (ops s2) s' root w = leaf_entry (ops s2) s2 root w))"
    by (rule Cons.IH [OF F(1) rest]) (use Cons.prems(3) in auto)
  have none: "user_byte s root w = None" if "user_addr w" "same_page w v" for w
    using user_absent [OF Cons.prems(1) that(1)] absent leaf_same_page [OF that(2)] by simp
  show ?case
  proof (intro conjI allI impI)
    show "user_tree s' root" by (rule conjunct1 [OF IH])
    show "target s' = target s" using conjunct1 [OF conjunct2 [OF IH]] F(2) by simp
    fix w assume w: "user_addr w"
    have I: "if \<exists>v \<in> set vs. same_page w v
       then user_byte s2 root w = None \<and> user_byte s' root w = Some 0 \<and>
         (\<exists>f. leaf_entry (ops s) s' root w = pte_leaf (ops s) f stack_flags)
       else user_byte s' root w = user_byte s2 root w \<and> leaf_entry (ops s) s' root w = leaf_entry (ops s) s2 root w"
      using conjunct2 [OF conjunct2 [OF IH], THEN spec, THEN mp, OF w] unfolding F(2) .
    show "if \<exists>v \<in> set (v # vs). same_page w v
       then user_byte s root w = None \<and> user_byte s' root w = Some 0 \<and>
         (\<exists>f. leaf_entry (ops s) s' root w = pte_leaf (ops s) f stack_flags)
       else user_byte s' root w = user_byte s root w \<and> leaf_entry (ops s) s' root w = leaf_entry (ops s) s root w"
      using I F(3) [OF w] F(4) [OF w] none [OF w] by (cases "same_page w v") (auto split: if_splits)
  qed
qed simp

section \<open>A fresh address space\<close>

text \<open>The table a new root is copied from.\<close>

definition template_root :: "machine \<Rightarrow> usize" where
  "template_root s = (case target s of X86_64 \<Rightarrow> cr3 s AND NOT 0xFFF | AArch64 \<Rightarrow> kernel_root s)"

text \<open>The template is a page the pool does not hold, and it maps nothing in the user half: the situation in which
  the kernel, or a process without children of its own mapping, spawns.\<close>

definition template_ok :: "machine \<Rightarrow> bool" where
  "template_ok s \<longleftrightarrow> pool_ok s \<and> page_aligned (template_root s) \<and> frame_of (template_root s) \<notin> free_frames (pmm s) \<and>
     (\<forall>i \<in> user_indices. \<not> pte_present (ops s) (entry s (template_root s) i))"

lemma entry_copy_page:
  assumes "j < 512" "length bs = 4096" "\<And>i. i < 4096 \<Longrightarrow> bs ! i = ram s (t + word_of_nat i)"
  shows "entry (s'\<lparr>ram := copy_bytes m f bs\<rparr>) f j = entry s t j"
proof -
  have j: "unat j < 512" using assms(1) by (simp add: word_less_nat_alt)
  have "copy_bytes m f bs (f + 8 * j + word_of_nat k) = ram s (t + 8 * j + word_of_nat k)" if "k < 8" for k
  proof -
    have "unat (8 * j) = 8 * unat j" using j by (simp add: unat_word_ariths)
    then have u: "unat (8 * j + word_of_nat k) = 8 * unat j + k"
      using j that by (subst unat_add_lt) (simp_all add: unat_of_nat)
    have "f + 8 * j + word_of_nat k - f = 8 * j + word_of_nat k" by simp
    moreover have "word_of_nat (8 * unat j + k) = 8 * j + word_of_nat k" by simp
    ultimately show ?thesis
      using u j that assms(2) assms(3) [of "8 * unat j + k"] by (simp add: copy_bytes_def add.assoc)
  qed
  then show ?thesis unfolding entry_def read64_def by (intro arg_cong [of _ _ u64_le] map_cong refl) simp
qed

lemma create_root_entries:
  assumes ok: "template_ok s" and run: "create_process_page_table s = (Some f, s')"
  shows "page_aligned f \<and> frame_of f \<in> free_frames (pmm s) \<and> target s' = target s \<and>
    pmm s' = reserve_frame (frame_of f) (pmm s) \<and>
    (\<forall>j < 512. entry s' f j = (if target s = AArch64 \<and> kernel_root s = 0 then 0 else entry s (template_root s) j))"
proof (cases "target s")
  case X86_64
  then show ?thesis
    using create_x86_root [of s f s'] ok run by (simp add: template_ok_def template_root_def)
next
  case AArch64
  obtain r s1 where alloc': "alloc_frame s = (r, s1)" by fastforce
  have alloc: "alloc_frame s = (Some f, s1)" and tgt: "target s1 = AArch64"
    using run AArch64 alloc' alloc_frame_static [OF alloc']
    by (auto simp: create_process_page_table_def Let_def split: option.splits)
  note A = alloc_frame_Some [OF alloc conjunct1 [OF ok [unfolded template_ok_def]]]
  let ?z = "zero_page f s1"
  have s': "s' = (if kernel_root s \<noteq> 0 then copy_nonoverlapping (read_bytes ?z (kernel_root s) 4096) f ?z else ?z)"
    using run alloc tgt by (auto simp: create_process_page_table_def Let_def A(4) zero_page_def split: if_splits)
  have t: "target s' = target s" "pmm s' = reserve_frame (frame_of f) (pmm s)"
    by (simp_all add: s' A(4) copy_nonoverlapping_def)
  have "entry s' f j = (if kernel_root s = 0 then 0 else entry s (template_root s) j)" if j: "j < 512" for j
  proof (cases "kernel_root s = 0")
    case True
    then show ?thesis using entry_zero_page [OF A(1) A(1) j] by (simp add: s')
  next
    case False
    have tr: "template_root s = kernel_root s" using AArch64 by (simp add: template_root_def)
    have ne: "kernel_root s \<noteq> f" and al: "page_aligned (kernel_root s)"
      using ok A(3) by (auto simp: template_ok_def tr)
    have "entry s' f j = entry ?z (kernel_root s) j"
      unfolding s' using False tgt
      by (simp add: copy_nonoverlapping_def virt_to_ram_def)
        (rule entry_copy_page [OF j], simp_all add: read_bytes_def virt_to_ram_def tgt)
    then show ?thesis using False entry_zero_page [OF A(1) al j, of s1] ne tr by (simp add: A(4) entry_def)
  qed
  with A t AArch64 show ?thesis by simp
qed

lemma fresh_root_owned:
  assumes "template_ok s" "create_process_page_table s = (Some f, s')"
  shows "user_tree s' f" "target s' = target s" "\<And>w. user_addr w \<Longrightarrow> user_byte s' f w = None"
proof -
  note C = create_root_entries [OF assms]
  have absent: "\<not> pte_present (ops s') (entry s' f i)" if "i \<in> user_indices" for i
  proof -
    have "i < 512" using that by (auto simp: user_indices_def intro: less_trans)
    then have "entry s' f i = (if target s = AArch64 \<and> kernel_root s = 0 then 0 else entry s (template_root s) i)"
      using C by blast
    then show ?thesis using C assms(1) that by (simp add: template_ok_def arch.absent_zero)
  qed
  show tree: "user_tree s' f"
  proof (rule owned_tree_empty)
    show "page_aligned f" "pool_ok s'" "frame_of f \<notin> free_frames (pmm s')"
      using C assms(1) by (simp_all add: template_ok_def pool_ok_def)
  qed (rule absent)
  show "target s' = target s" using C by simp
  show "user_byte s' f w = None" if w: "user_addr w" for w
  proof -
    have "child (ops s') s' f (top_index w) = None" using absent [OF user_addr_top [OF w]] by (simp add: child_def Let_def)
    then have "leaf_entry (ops s') s' f w = 0" by (simp add: leaf_entry_def leaf_at_def upper_path_def top_index_def)
    then show ?thesis using user_absent [OF tree w] by (simp add: arch.absent_zero)
  qed
qed

section \<open>The spawned process\<close>

definition stack_bottom :: usize where
  "stack_bottom = USER_STACK_TOP - 0x4000"

lemma stack_numbers: "unat USER_STACK_TOP = 2 ^ 39 + 0x10000000" "unat stack_bottom = 2 ^ 39 + 0x10000000 - 0x4000"
  by (simp_all add: stack_bottom_def USER_STACK_TOP_def USER_SPACE_BASE_def push_bit_eq_mult)

definition stack_pages :: "usize list" where
  "stack_pages = map (\<lambda>i. stack_bottom + word_of_nat i * 4096) [0..<4]"

lemma stack_page_unat: "i < 4 \<Longrightarrow> unat (stack_bottom + word_of_nat i * 4096) = 2 ^ 39 + 0x10000000 - 0x4000 + i * 4096"
  using stack_numbers(2) by (subst unat_add_lt) (simp_all add: unat_word_ariths unat_of_nat)

lemma stack_pages_user: "\<forall>v \<in> set stack_pages. user_addr v \<and> v AND 0xFFF = 0"
proof
  fix v assume "v \<in> set stack_pages"
  then obtain i where i: "i < 4" "v = stack_bottom + word_of_nat i * 4096" by (auto simp: stack_pages_def)
  note u = stack_page_unat [OF i(1), folded i(2)]
  have "unat v mod 4096 = 0" unfolding u by simp
  then have "unat (v AND 0xFFF) = 0" by (simp add: unat_and_fff)
  then show "user_addr v \<and> v AND 0xFFF = 0" using u i(1) by (simp add: user_addr_unat unat_eq_0)
qed

lemma stack_pages_cover:
  assumes "unat stack_bottom \<le> unat w" "unat w < unat USER_STACK_TOP"
  shows "user_addr w" "\<exists>v \<in> set stack_pages. same_page w v"
proof -
  show w: "user_addr w" using assms by (simp add: user_addr_unat stack_numbers)
  define i where "i = (unat w - unat stack_bottom) div 4096"
  have i: "i < 4" using assms by (simp add: i_def stack_numbers less_mult_imp_div_less)
  have "unat stack_bottom + i * 4096 \<le> unat w" "unat w < unat stack_bottom + i * 4096 + 4096"
    using assms(1) div_times_less_eq_dividend [of "unat w - unat stack_bottom" 4096]
      dividend_less_div_times [of 4096 "unat w - unat stack_bottom"] by (simp_all add: i_def)
  then have "unat w div 4096 = unat stack_bottom div 4096 + i"
    by (intro div_nat_eqI) (simp_all add: stack_numbers)
  moreover have "unat (stack_bottom + word_of_nat i * 4096) div 4096 = unat stack_bottom div 4096 + i"
    unfolding stack_page_unat [OF i] stack_numbers by simp
  ultimately have "unat w div 4096 = unat (stack_bottom + word_of_nat i * 4096) div 4096" by simp
  moreover have "stack_bottom + word_of_nat i * 4096 \<in> set stack_pages" using i by (auto simp: stack_pages_def)
  ultimately show "\<exists>v \<in> set stack_pages. same_page w v"
    using user_same_page [OF w] stack_pages_user by blast
qed

lemma allocate_user_stack_image:
  assumes "user_tree s root" "allocate_user_stack root s = (Some top_addr, s')"
  shows "user_tree s' root" "target s' = target s" "top_addr = USER_STACK_TOP"
    "\<And>w. user_addr w \<Longrightarrow> user_byte s root w \<noteq> None \<Longrightarrow> user_byte s' root w = user_byte s root w"
    "\<And>w. unat stack_bottom \<le> unat w \<Longrightarrow> unat w < unat USER_STACK_TOP \<Longrightarrow>
       user_byte s' root w = Some 0 \<and> page_is_user_accessible s' root w True"
proof -
  have m: "map_stack_pages root stack_pages s = (True, s')" and top: "top_addr = USER_STACK_TOP"
    using assms(2) by (auto simp: allocate_user_stack_def stack_pages_def stack_bottom_def USER_STACK_PAGES_def Let_def
      split: prod.splits bool.splits)
  note I = map_stack_pages_image [OF assms(1) m stack_pages_user]
  show "user_tree s' root" by (rule conjunct1 [OF I])
  show t: "target s' = target s" by (rule conjunct1 [OF conjunct2 [OF I]])
  note J = conjunct2 [OF conjunct2 [OF I], THEN spec, THEN mp]
  show "user_byte s' root w = user_byte s root w" if "user_addr w" "user_byte s root w \<noteq> None" for w
    using J [OF that(1)] that(2) by (auto split: if_splits)
  show "user_byte s' root w = Some 0 \<and> page_is_user_accessible s' root w True"
    if "unat stack_bottom \<le> unat w" "unat w < unat USER_STACK_TOP" for w
    using J [OF stack_pages_cover(1) [OF that]] stack_pages_cover(2) [OF that] t
    by (auto simp: page_is_user_accessible_leaf arch.format_laws stack_flags_def)
  show "top_addr = USER_STACK_TOP" by (rule top)
qed

lemma segment_loaded_kept:
  assumes "segment_loaded s root elf ph" "segment_checked elf ph" "segment_fits ph"
    and "\<And>w. user_addr w \<Longrightarrow> user_byte s root w \<noteq> None \<Longrightarrow> user_byte s' root w = user_byte s root w"
  shows "segment_loaded s' root elf ph"
  unfolding segment_loaded_def
proof (intro impI allI)
  fix k assume load: "p_type ph = PT_LOAD" and k: "k < unat (p_memsz ph)"
  have v: "2 ^ 39 \<le> unat (p_vaddr ph)" "unat (p_vaddr ph) + unat (p_memsz ph) + 4095 < 2 ^ 47"
    using assms(2,3) load by (simp_all add: segment_checked_def segment_fits_def USER_SPACE_BASE_def word_le_nat_alt push_bit_eq_mult)
  then have "unat (p_vaddr ph + word_of_nat k) = unat (p_vaddr ph) + k"
    using k by (subst unat_add_lt) (simp_all add: unat_of_nat)
  then have "user_addr (p_vaddr ph + word_of_nat k)" using v k by (simp add: user_addr_unat)
  then show "user_byte s' root (p_vaddr ph + word_of_nat k) =
      Some (if k < unat (p_filesz ph) then elf ! (unat (p_offset ph) + k) else 0)"
    using assms(1,4) load k unfolding segment_loaded_def by force
qed

lemma load_elf_loaded:
  assumes "user_tree s root" "load_elf_to_process elf root s = Some (Ok e, s')" "list_all segment_fits (elf_headers elf)"
  shows "user_tree s' root" "list_all (segment_loaded s' root elf) (elf_headers elf)"
    "list_all (segment_checked elf) (elf_headers elf)" "e = u64_le (field elf 24 32)"
proof -
  note L = load_ok_segments [OF assms(2)]
  show "user_tree s' root" "list_all (segment_loaded s' root elf) (elf_headers elf)"
    "list_all (segment_checked elf) (elf_headers elf)" "e = u64_le (field elf 24 32)"
    using load_segments_image [OF assms(1) L(1)] load_segments_checked [OF L(1)] L(3) assms(3)
    by (auto simp: elf_headers_def list_all_iff)
qed

definition process_started :: "kernel \<Rightarrow> nat \<Rightarrow> bytes \<Rightarrow> usize \<Rightarrow> bool" where
  "process_started k i elf aligned_top \<longleftrightarrow>
     (let t = tasks k ! i; s = mach k; root = memory_root t
      in is_ring3 t \<and> owns_memory_root t \<and> task_id t = i \<and>
         frames k (saved_sp t) = Some (initial_context (target s) True (u64_le (field elf 24 32)) aligned_top USER_STACK_TOP) \<and>
         user_tree s root \<and> list_all (segment_loaded s root elf) (elf_headers elf) \<and>
         (\<forall>w. unat stack_bottom \<le> unat w \<and> unat w < unat USER_STACK_TOP \<longrightarrow>
            user_byte s root w = Some 0 \<and> page_is_user_accessible s root w True))"

lemma install_task_True:
  assumes "install_task ent mode root owns ust k = (True, k')" "length (tasks k) = MAX_TASKS"
  obtains i where "i < MAX_TASKS" "task_state (tasks k ! i) = Terminated" "mach k' = mach k"
    "memory_root (tasks k' ! i) = root" "owns_memory_root (tasks k' ! i) = owns" "task_id (tasks k' ! i) = i"
    "is_ring3 (tasks k' ! i) \<longleftrightarrow> mode = IsolatedProcess \<and> ust \<noteq> 0"
    "frames k' (saved_sp (tasks k' ! i)) = Some (initial_context (target (mach k)) (mode = IsolatedProcess \<and> ust \<noteq> 0) ent
       ((stack_addr k i + STACK_SIZE) AND NOT 0xF) ust)"
proof -
  obtain i where f: "find (\<lambda>i. task_state (tasks k ! i) = Terminated) [0..<MAX_TASKS] = Some i"
    using assms(1) by (cases "find (\<lambda>i. task_state (tasks k ! i) = Terminated) [0..<MAX_TASKS]") (auto simp: install_task_def)
  then have i: "i < MAX_TASKS" "task_state (tasks k ! i) = Terminated" by (simp_all add: find_upt_Some)
  let ?k = "task_init i ent mode root owns ust i k"
  have k': "k' = (if task_initialized k then ?k else (update_task 0 (\<lambda>t. t\<lparr>task_state := Running\<rparr>) ?k)\<lparr>task_initialized := True\<rparr>)"
    using assms(1) f by (auto simp: install_task_def Let_def task_init_def split: if_splits)
  have len: "i < length (tasks k)" "0 < length (tasks k)" using i(1) assms(2) by auto
  show thesis
    by (rule that [of i]) (use i k' len in \<open>simp_all add: task_init_def Let_def update_task_def nth_list_update\<close>)
qed

lemma allocate_root_Some:
  assumes "template_ok s" "free_frames (pmm s) \<noteq> {}"
  obtains f s' where "create_process_page_table s = (Some f, s')" "allocate_isolated_page_table parent s = ((f, True), s')"
proof -
  obtain r s1 where a: "alloc_frame s = (r, s1)" by fastforce
  have "r \<noteq> None" using alloc_frame_None [of s s1] a assms(2) by auto
  then obtain f where "alloc_frame s = (Some f, s1)" using a by auto
  then obtain s' where "create_process_page_table s = (Some f, s')"
    by (cases "target s1") (simp_all add: create_process_page_table_def Let_def)
  then show thesis using that by (simp add: allocate_isolated_page_table_def)
qed

lemma spawned_process_started:
  assumes "template_ok (mach k)" "free_frames (pmm (mach k)) \<noteq> {}" "length (tasks k) = 4"
    and "list_all segment_fits (elf_headers elf)" "spawn_from_elf elf k = (Ok True, k')"
  shows "\<exists>i < 4. task_state (tasks k ! i) = Terminated \<and>
    process_started k' i elf ((stack_addr k i + STACK_SIZE) AND NOT 0xF)"
proof -
  obtain f s0 where c: "create_process_page_table (mach k) = (Some f, s0)"
    "allocate_isolated_page_table (current_memory_root k) (mach k) = ((f, True), s0)"
    by (rule allocate_root_Some [OF assms(1,2)])
  note F = fresh_root_owned [OF assms(1) c(1)]
  obtain e s1 where l: "load_elf_to_process elf f s0 = Some (Ok e, s1)"
    using assms(5) c(2) by (auto simp: spawn_from_elf_def Let_def split: option.splits outcome.splits prod.splits)
  obtain ust s2 where a: "allocate_user_stack f s1 = (Some ust, s2)"
    using assms(5) c(2) l by (auto simp: spawn_from_elf_def Let_def split: option.splits prod.splits)
  have inst: "install_task e IsolatedProcess f True ust (k\<lparr>mach := s2\<rparr>) = (True, k')"
    using assms(5) c(2) l a by (auto simp: spawn_from_elf_def spawn_isolated_at_def Let_def split: prod.splits)
  note L = load_elf_loaded [OF F(1) l assms(4)]
  note S = allocate_user_stack_image [OF L(1) a]
  have loaded: "list_all (segment_loaded s2 f elf) (elf_headers elf)"
    using L(2,3) assms(4) segment_loaded_kept [OF _ _ _ S(4)] by (simp add: list_all_iff)
  have nz: "USER_STACK_TOP \<noteq> 0" by (simp add: USER_STACK_TOP_def USER_SPACE_BASE_def)
  have len: "length (tasks (k\<lparr>mach := s2\<rparr>)) = MAX_TASKS" using assms(3) by (simp add: MAX_TASKS_def)
  from inst len show ?thesis
  proof (rule install_task_True)
    fix i assume i: "i < MAX_TASKS" "task_state (tasks (k\<lparr>mach := s2\<rparr>) ! i) = Terminated" "mach k' = mach (k\<lparr>mach := s2\<rparr>)"
      "memory_root (tasks k' ! i) = f" "owns_memory_root (tasks k' ! i) = True" "task_id (tasks k' ! i) = i"
      "is_ring3 (tasks k' ! i) \<longleftrightarrow> IsolatedProcess = IsolatedProcess \<and> ust \<noteq> 0"
      "frames k' (saved_sp (tasks k' ! i)) = Some (initial_context (target (mach (k\<lparr>mach := s2\<rparr>)))
         (IsolatedProcess = IsolatedProcess \<and> ust \<noteq> 0) e ((stack_addr (k\<lparr>mach := s2\<rparr>) i + STACK_SIZE) AND NOT 0xF) ust)"
    have "process_started k' i elf ((stack_addr k i + STACK_SIZE) AND NOT 0xF)"
      unfolding process_started_def Let_def
      using i S(1,3,5) L(4) loaded nz by simp
    then show ?thesis using i(1,2) by (auto simp: MAX_TASKS_def)
  qed
qed


text \<open>With four frames per page at hand the stack can be mapped.\<close>

lemma map_stack_pages_succeeds:
  assumes "user_tree s root" "\<forall>v \<in> set vs. user_addr v \<and> v AND 0xFFF = 0 \<and> user_byte s root v = None"
    and "distinct (map (\<lambda>v. unat v div 4096) vs)" "4 * length vs \<le> card (free_frames (pmm s))"
  shows "\<exists>s'. map_stack_pages root vs s = (True, s')"
  using assms
proof (induction vs arbitrary: s)
  case (Cons v vs)
  have v: "user_addr v" "v AND 0xFFF = 0" "user_byte s root v = None" using Cons.prems(2) by auto
  have absent: "\<not> pte_present (ops s) (leaf_entry (ops s) s root v)" using user_byte_None_iff [OF Cons.prems(1) v(1)] v(3) by simp
  obtain r s1 where a: "alloc_frame s = (r, s1)" by fastforce
  then obtain f where alloc: "alloc_frame s = (Some f, s1)"
    using alloc_frame_None [of s s1] Cons.prems(4) by (cases r) auto
  obtain r2 s2 where m: "arch_map_page root v f stack_flags (zero_page f s1) = (r2, s2)" by fastforce
  have "r2 = Ok ()"
    using map_fresh_page(4) [OF Cons.prems(1) _ _ user_addr_top [OF v(1)] v(2) absent alloc m] Cons.prems(4) by simp
  with m have map: "arch_map_page root v f stack_flags (zero_page f s1) = (Ok (), s2)" by simp
  have c: "unat (0 :: usize) + length ([] :: bytes) \<le> 4096" "s2 = s2\<lparr>ram := copy_bytes (ram s2) (f + 0) []\<rparr>" by simp_all
  note F = fill_user_page [OF Cons.prems(1) v(1,2) absent alloc map c]
  have "user_byte s2 root w = None" if "w \<in> set vs" for w
  proof -
    have w: "user_addr w" "user_byte s root w = None" using Cons.prems(2) that by auto
    have "unat v div 4096 \<notin> (\<lambda>v. unat v div 4096) ` set vs" using Cons.prems(3) by simp
    then have "\<not> same_page w v" using user_same_page [OF w(1) v(1)] imageI [OF that, of "\<lambda>v. unat v div 4096"] by metis
    then show ?thesis using F(3) [OF w(1)] w(2) by simp
  qed
  then have "\<exists>s'. map_stack_pages root vs s2 = (True, s')"
    by (intro Cons.IH [OF F(1)]) (use Cons.prems(2,3,4) F(7) in auto)
  then show ?case using alloc map by simp
qed simp

lemma allocate_user_stack_succeeds:
  assumes "user_tree s root" "\<And>v. v \<in> set stack_pages \<Longrightarrow> user_byte s root v = None" "16 \<le> card (free_frames (pmm s))"
  shows "\<exists>s'. allocate_user_stack root s = (Some USER_STACK_TOP, s')"
proof -
  have "map (\<lambda>v. unat v div 4096) stack_pages = map (\<lambda>i. unat stack_bottom div 4096 + i) [0..<4]"
    by (simp add: stack_pages_def stack_page_unat stack_numbers)
  then have "distinct (map (\<lambda>v. unat v div 4096) stack_pages)" by (simp add: distinct_map inj_on_def)
  then have "\<exists>s'. map_stack_pages root stack_pages s = (True, s')"
    using map_stack_pages_succeeds [OF assms(1), of stack_pages] assms(2,3) stack_pages_user by (simp add: stack_pages_def)
  then show ?thesis
    by (auto simp: allocate_user_stack_def stack_pages_def stack_bottom_def USER_STACK_PAGES_def Let_def)
qed

text \<open>The demonstration machine with a second word of free frames, just booted.\<close>

definition roomy_machine :: machine where
  "roomy_machine = demo_machine\<lparr>pmm := \<lparr>bitmap = [0xFFFFFFFFFFFFFFFF, 0]\<rparr>\<rparr>"

definition roomy_kernel :: kernel where
  "roomy_kernel = boot_kernel roomy_machine (\<lambda>i. 0x500000 + word_of_nat i * 0x2000) (\<lambda>i. 0x600000 + word_of_nat i * 0x2000)"

lemma roomy_free: "free_frames (pmm roomy_machine) = {64..<128}"
proof (rule set_eqI)
  fix i :: nat
  have ones: "bit (0xFFFFFFFFFFFFFFFF :: u64) j \<longleftrightarrow> j < 64" for j
    using bit_mask_iff [of 64 j, where ?'a = "64 word"] by (simp add: mask_numeral)
  have f: "i \<in> free_frames (pmm roomy_machine) \<longleftrightarrow> i < 128 \<and> \<not> bit ([0xFFFFFFFFFFFFFFFF, 0 :: u64] ! (i div 64)) (i mod 64)"
    by (simp only: free_frames_def frame_free_def tracked_frames_def roomy_machine_def
        machine.simps bitmap_allocator.simps mem_Collect_eq) simp
  show "i \<in> free_frames (pmm roomy_machine) \<longleftrightarrow> i \<in> {64..<128}"
  proof (cases "i < 64")
    case True
    then show ?thesis using ones [of i] unfolding f by simp
  next
    case False
    then have "i < 128 \<Longrightarrow> i div 64 = 1" by (intro div_nat_eqI) simp_all
    then show ?thesis using False unfolding f by auto
  qed
qed

lemma roomy_template: "template_ok roomy_machine"
  unfolding template_ok_def roomy_free
  by (simp add: template_root_def roomy_machine_def pool_ok_def tracked_frames_def page_aligned_def frame_of_def
      arch.absent_zero entry_def demo_machine_def read64_def u64_le_def upt_rec)

lemma demo_fits: "list_all segment_fits (elf_headers demo_elf)"
  by (simp add: demo_headers segment_fits_def demo_ph_def)

lemma roomy_spawns: "\<exists>k'. spawn_from_elf demo_elf roomy_kernel = (Ok True, k')"
proof -
  have mk: "mach roomy_kernel = roomy_machine" by (simp add: roomy_kernel_def boot_kernel_def)
  have ne: "free_frames (pmm roomy_machine) \<noteq> {}" by (simp add: roomy_free)
  obtain f s0 where c: "create_process_page_table roomy_machine = (Some f, s0)"
    "allocate_isolated_page_table (current_memory_root roomy_kernel) roomy_machine = ((f, True), s0)"
    by (rule allocate_root_Some [OF roomy_template ne])
  note F = fresh_root_owned [OF roomy_template c(1)]
  have "pmm s0 = reserve_frame (frame_of f) (pmm roomy_machine)" "frame_of f \<in> {64..<128}"
    using create_root_entries [OF roomy_template c(1)] by (simp_all add: roomy_free)
  then have card0: "card (free_frames (pmm s0)) = 63" by (simp add: roomy_free)
  have t0: "target s0 = X86_64" using F(2) by (simp add: roomy_machine_def demo_machine_def)
  obtain s1 where l: "load_elf_to_process demo_elf f s0 = Some (Ok 0x8000000000, s1)" "59 \<le> card (free_frames (pmm s1))"
    "\<forall>w. user_addr w \<and> 0x8000001000 \<le> unat w \<longrightarrow> user_byte s1 f w = None"
    using demo_load_on [OF F(1,3) _ t0] card0 by auto
  note L = load_elf_loaded [OF F(1) l(1) demo_fits]
  have "user_byte s1 f v = None" if v: "v \<in> set stack_pages" for v
  proof -
    obtain i where "i < 4" "v = stack_bottom + word_of_nat i * 4096" using v by (auto simp: stack_pages_def)
    then have "0x8000001000 \<le> unat v" using stack_page_unat [of i] by simp
    then show ?thesis using l(3) stack_pages_user v by blast
  qed
  then obtain s2 where a: "allocate_user_stack f s1 = (Some USER_STACK_TOP, s2)"
    using allocate_user_stack_succeeds [OF L(1)] l(2) by auto
  show ?thesis
    using c(2) l(1) a
    by (simp add: spawn_from_elf_def mk spawn_isolated_at_def install_task_def Let_def)
      (simp add: roomy_kernel_def boot_kernel_def MAX_TASKS_def task_empty_def upt_rec Let_def)
qed


section \<open>The end of a process\<close>

lemma tree_frames_cr3: "tree_frames P U d (s\<lparr>cr3 := r\<rparr>) root = tree_frames P U d s root"
proof -
  have "table_at P (s\<lparr>cr3 := r\<rparr>) t p = table_at P s t p" for t p
    by (induction p arbitrary: t) (simp_all add: child_def entry_def split: option.split)
  then show ?thesis by (simp add: tree_frames_def)
qed

lemma switch_to_machine:
  assumes "c < length (tasks k)" "n < length (tasks k)" "n \<noteq> c" "switch_to c n k = (r, k')"
    and "memory_root (tasks k ! n) \<noteq> memory_root (tasks k ! c)" "memory_root (tasks k ! n) \<noteq> 0"
    and "task_state (tasks k ! c) = Terminated" "owns_memory_root (tasks k ! c)"
  shows "mach k' = free_process_page_table (memory_root (tasks k ! c)) ((mach k)\<lparr>cr3 := memory_root (tasks k ! n)\<rparr>)"
    "tasks k' ! c = (tasks k ! c)\<lparr>owns_memory_root := False, memory_root := 0\<rparr>"
    "memory_root (tasks k' ! n) = memory_root (tasks k ! n)"
  using assms
  by (auto simp: switch_to_def switch_address_space_def reclaim_terminated_def Let_def split: target_arch.splits)


text \<open>A thread, then a process, then a tick that switches to the process.\<close>

definition demo_process :: kernel where
  "demo_process = snd (spawn 0x2000 IsolatedProcess 0 (snd (spawn 0x1000 SharedThread 0 roomy_kernel)))"

lemma demo_process_simps:
  "length (tasks demo_process) = 4" "task_initialized demo_process" "current_task demo_process = 0"
  "task_state (tasks demo_process ! 0) = Running" "task_state (tasks demo_process ! 1) = Ready"
  "task_state (tasks demo_process ! 2) = Terminated" "task_state (tasks demo_process ! 3) = Terminated"
  "owns_memory_root (tasks demo_process ! 1)" "memory_root (tasks demo_process ! 0) = 0x14000"
  "memory_root (tasks demo_process ! 1) \<noteq> 0x14000" "memory_root (tasks demo_process ! 1) \<noteq> 0"
proof -
  have ne: "free_frames (pmm roomy_machine) \<noteq> {}" by (simp add: roomy_free)
  obtain f s0 where c: "create_process_page_table roomy_machine = (Some f, s0)"
    "allocate_isolated_page_table 0x14000 roomy_machine = ((f, True), s0)"
    by (rule allocate_root_Some [OF roomy_template ne])
  have "frame_of f \<in> {64..<128}" using create_root_entries [OF roomy_template c(1)] by (simp add: roomy_free)
  then have f: "f \<noteq> 0x14000" "f \<noteq> 0" by (auto simp: frame_of_def)
  have cr3: "cr3 roomy_machine = 0x14000" by (simp add: roomy_machine_def demo_machine_def)
  note ev = demo_process_def spawn_def install_task_def roomy_kernel_def boot_kernel_def MAX_TASKS_def task_empty_def
    task_init_def update_task_def Let_def upt_rec current_memory_root_def cr3 c(2)
  show "length (tasks demo_process) = 4" "task_initialized demo_process" "current_task demo_process = 0"
    "task_state (tasks demo_process ! 0) = Running" "task_state (tasks demo_process ! 1) = Ready"
    "task_state (tasks demo_process ! 2) = Terminated" "task_state (tasks demo_process ! 3) = Terminated"
    "owns_memory_root (tasks demo_process ! 1)" "memory_root (tasks demo_process ! 0) = 0x14000"
    "memory_root (tasks demo_process ! 1) \<noteq> 0x14000" "memory_root (tasks demo_process ! 1) \<noteq> 0"
    using f by (simp_all add: ev)
qed

definition demo_switched :: kernel where
  "demo_switched = snd (run_schedule 0x7000 demo_process)"

lemma demo_switched_reachable: "kernel_step\<^sup>*\<^sup>* roomy_kernel demo_switched"
proof -
  have "kernel_step\<^sup>*\<^sup>* roomy_kernel demo_process"
    unfolding demo_process_def by (meson rtranclp.rtrancl_into_rtrancl rtranclp.rtrancl_refl spawn_call)
  moreover have "kernel_step demo_process demo_switched" unfolding demo_switched_def by (rule tick) simp
  ultimately show ?thesis by (rule rtranclp.rtrancl_into_rtrancl)
qed

lemma switch_to_no_reclaim:
  assumes "n < length (tasks k)" "n \<noteq> c" "task_state (tasks k ! c) \<noteq> Terminated"
  shows "tasks (snd (switch_to c n k)) = (tasks k)[n := (tasks k ! n)\<lparr>task_state := Running\<rparr>]"
  using assms by (simp add: switch_to_def reclaim_terminated_def Let_def split: target_arch.split) (simp add: update_task_def)

lemma demo_switched_eq:
  "demo_switched = snd (switch_to 0 1 (save_current 0x7000 demo_process))"
proof -
  have "next_ready (save_current 0x7000 demo_process) = Some 1"
    using demo_process_simps by (simp add: next_ready_def slot_order_def MAX_TASKS_def save_current_task upt_rec)
  then show ?thesis using demo_process_simps(2,3) by (simp add: demo_switched_def run_schedule_def)
qed

lemma demo_switched_simps:
  "task_initialized demo_switched" "current_task demo_switched = 1" "owns_memory_root (tasks demo_switched ! 1)"
  "task_state (tasks demo_switched ! 0) = Ready" "task_state (tasks demo_switched ! 2) = Terminated"
  "task_state (tasks demo_switched ! 3) = Terminated" "memory_root (tasks demo_switched ! 0) = 0x14000"
  "memory_root (tasks demo_switched ! 1) \<noteq> 0x14000"
proof -
  let ?k = "save_current 0x7000 demo_process"
  have len: "1 < length (tasks ?k)" "0 < length (tasks ?k)" using demo_process_simps(1) by simp_all
  have t: "tasks ?k ! i = (if i = 0 then (tasks demo_process ! 0)\<lparr>saved_sp := 0x7000, task_state := Ready\<rparr> else tasks demo_process ! i)" for i
    using demo_process_simps by (simp add: save_current_task)
  have ts: "tasks demo_switched = (tasks ?k)[1 := (tasks ?k ! 1)\<lparr>task_state := Running\<rparr>]"
    unfolding demo_switched_eq by (rule switch_to_no_reclaim) (use len t in simp_all)
  obtain r where "switch_to 0 1 ?k = (r, demo_switched)" unfolding demo_switched_eq by (metis prod.collapse)
  from switch_to_result(2,3) [OF len this] show "task_initialized demo_switched" "current_task demo_switched = 1"
    using demo_process_simps(2) by simp_all
  show "owns_memory_root (tasks demo_switched ! 1)"
    "task_state (tasks demo_switched ! 0) = Ready" "task_state (tasks demo_switched ! 2) = Terminated"
    "task_state (tasks demo_switched ! 3) = Terminated" "memory_root (tasks demo_switched ! 0) = 0x14000"
    "memory_root (tasks demo_switched ! 1) \<noteq> 0x14000"
    using len demo_process_simps by (simp_all add: ts t nth_list_update)
qed


end
