(* ===== verification/Syscall.thy ===== *)
theory Syscall
  imports Process Text
begin

text \<open>
  The system-call layer: \<^verbatim>\<open>syscall.rs\<close> with the \<open>uname\<close> data of \<^verbatim>\<open>version.rs\<close>. The kernel dereferences a
  caller's pointer directly, so a load or store goes through the active translation tables; an
  address that is not canonical or not mapped faults.
\<close>

section \<open>Loads and stores through the active address space\<close>

definition canonical :: "target_arch \<Rightarrow> usize \<Rightarrow> bool" where
  "canonical tgt v =
     (case tgt of X86_64 \<Rightarrow> v < 0x800000000000 \<or> 0xFFFF800000000000 \<le> v
                | AArch64 \<Rightarrow> v < 0x1000000000000 \<or> 0xFFFF000000000000 \<le> v)"

definition virt_translate :: "machine \<Rightarrow> usize \<Rightarrow> usize option" where
  "virt_translate s v = (if canonical (target s) v then arch_translate_addr s (active_root s v) v else None)"

definition virt_load :: "machine \<Rightarrow> usize \<Rightarrow> u8 option" where
  "virt_load s v = map_option (ram s) (virt_translate s v)"

definition virt_store :: "usize \<Rightarrow> u8 \<Rightarrow> machine \<Rightarrow> machine option" where
  "virt_store v b s = map_option (\<lambda>p. s\<lparr>ram := (ram s)(p := b)\<rparr>) (virt_translate s v)"

fun virt_read :: "machine \<Rightarrow> usize \<Rightarrow> nat \<Rightarrow> bytes option" where
  "virt_read s v 0 = Some []"
| "virt_read s v (Suc n) =
     (case virt_load s v of None \<Rightarrow> None
      | Some b \<Rightarrow> (case virt_read s (v + 1) n of None \<Rightarrow> None | Some bs \<Rightarrow> Some (b # bs)))"

fun virt_write :: "usize \<Rightarrow> bytes \<Rightarrow> machine \<Rightarrow> machine option" where
  "virt_write v [] s = Some s"
| "virt_write v (b # bs) s = (case virt_store v b s of None \<Rightarrow> None | Some s \<Rightarrow> virt_write (v + 1) bs s)"

section \<open>Text\<close>

definition uart_print :: "bytes \<Rightarrow> kernel \<Rightarrow> kernel" where
  "uart_print s k = k\<lparr>console := console k @ uart_bytes s\<rparr>"

section \<open>Identity of the system\<close>

definition OS_NAME :: string where "OS_NAME = ''mitosOS''"
definition OS_VERSION :: string where "OS_VERSION = ''0.1.0''"
definition OS_NODENAME :: string where "OS_NODENAME = ''mitos''"

definition OS_ARCH :: "target_arch \<Rightarrow> string" where
  "OS_ARCH tgt = (case tgt of AArch64 \<Rightarrow> ''aarch64'' | X86_64 \<Rightarrow> ''x86_64'')"

record UtsName =
  sysname :: bytes
  nodename :: bytes
  release :: bytes
  version :: bytes
  uts_machine :: bytes
  domainname :: bytes

definition uts_new :: UtsName where
  "uts_new = \<lparr>sysname = replicate 65 0, nodename = replicate 65 0, release = replicate 65 0,
     version = replicate 65 0, uts_machine = replicate 65 0, domainname = replicate 65 0\<rparr>"

definition copy_str :: "bytes \<Rightarrow> string \<Rightarrow> bytes" where
  "copy_str dst src =
     (let bs = ascii src; len = min (length bs) (length dst - 1)
      in take len bs @ [0] @ drop (len + 1) dst)"

definition uts_populate :: "target_arch \<Rightarrow> UtsName \<Rightarrow> UtsName" where
  "uts_populate tgt u =
     u\<lparr>sysname := copy_str (sysname u) OS_NAME,
       nodename := copy_str (nodename u) OS_NODENAME,
       release := copy_str (release u) OS_VERSION,
       version := copy_str (version u) OS_VERSION,
       uts_machine := copy_str (uts_machine u) (OS_ARCH tgt),
       domainname := copy_str (domainname u) ''(none)''\<rparr>"

text \<open>The \<open>repr(C)\<close> layout: six arrays of 65 bytes without padding.\<close>

definition uts_bytes :: "UtsName \<Rightarrow> bytes" where
  "uts_bytes u = sysname u @ nodename u @ release u @ version u @ uts_machine u @ domainname u"

definition uts_of_bytes :: "bytes \<Rightarrow> UtsName" where
  "uts_of_bytes bs =
     \<lparr>sysname = take 65 bs, nodename = take 65 (drop 65 bs), release = take 65 (drop 130 bs),
      version = take 65 (drop 195 bs), uts_machine = take 65 (drop 260 bs), domainname = take 65 (drop 325 bs)\<rparr>"

section \<open>The calls\<close>

text \<open>\<open>Faulted\<close>: the call is abandoned because the kernel took a page fault or a general-protection fault on the caller's pointer.\<close>

datatype syscall_result = Returned usize | Faulted | Exits

definition USIZE_MAX :: usize where
  "USIZE_MAX = 0xFFFFFFFFFFFFFFFF"

definition validate_user_ptr :: "kernel \<Rightarrow> usize \<Rightarrow> usize \<Rightarrow> bool \<Rightarrow> bool" where
  "validate_user_ptr k ptr len need_write =
     (let (root, ring3) = current_task_access_info k
      in if \<not> ring3 then True
         else validate_user_range (mach k) root ptr len need_write = Some True)"

definition sys_write :: "usize \<Rightarrow> usize \<Rightarrow> usize \<Rightarrow> kernel \<Rightarrow> syscall_result \<times> kernel" where
  "sys_write fd ptr len k =
     (if (fd \<noteq> 1 \<and> fd \<noteq> 2) \<or> ptr = 0 \<or> len = 0 then (Returned USIZE_MAX, k)
      else if \<not> validate_user_ptr k ptr len False then (Returned USIZE_MAX, k)
      else case virt_read (mach k) ptr (unat len) of
             None \<Rightarrow> (Faulted, k)
           | Some text \<Rightarrow>
               if utf8_valid text then (Returned len, uart_print text k) else (Returned USIZE_MAX, k))"

definition sys_read :: "usize \<Rightarrow> usize \<Rightarrow> usize \<Rightarrow> kernel \<Rightarrow> syscall_result \<times> kernel" where
  "sys_read fd ptr len k =
     (if fd \<noteq> 0 \<or> ptr = 0 \<or> len = 0 then (Returned USIZE_MAX, k)
      else if \<not> validate_user_ptr k ptr len True then (Returned USIZE_MAX, k)
      else case drain_queue dequeue_byte (unat len) (input k) of
             (bs, q) \<Rightarrow>
               (case virt_write ptr bs (mach k) of
                  None \<Rightarrow> (Faulted, k)
                | Some s \<Rightarrow> (Returned (word_of_nat (length bs)), k\<lparr>mach := s, input := q\<rparr>)))"

definition sys_uname :: "usize \<Rightarrow> kernel \<Rightarrow> syscall_result \<times> kernel" where
  "sys_uname ptr k =
     (if ptr = 0 then (Returned USIZE_MAX, k)
      else if \<not> validate_user_ptr k ptr 390 True then (Returned USIZE_MAX, k)
      else case virt_read (mach k) ptr 390 of
             None \<Rightarrow> (Faulted, k)
           | Some old \<Rightarrow>
               (case virt_write ptr (uts_bytes (uts_populate (target (mach k)) (uts_of_bytes old))) (mach k) of
                  None \<Rightarrow> (Faulted, k)
                | Some s \<Rightarrow> (Returned 0, k\<lparr>mach := s\<rparr>)))"

text \<open>The page loop of \<open>munmap\<close>: \<open>n\<close> pages from \<open>addr\<close> on. The end of a validated range does not wrap, so the loop
  from \<open>ptr\<close> to \<open>ptr + len\<close> in steps of a page runs \<open>len / 4096\<close> times.\<close>

fun munmap_pages :: "usize \<Rightarrow> usize \<Rightarrow> nat \<Rightarrow> machine \<Rightarrow> machine" where
  "munmap_pages root addr 0 s = s"
| "munmap_pages root addr (Suc n) s =
     (let s' = (case arch_translate_addr s root addr of
                  Some phys \<Rightarrow>
                    (case arch_unmap_page root addr s of
                       (Ok _, s) \<Rightarrow> release_frame phys s
                     | (_, s) \<Rightarrow> s)
                | None \<Rightarrow> s)
      in munmap_pages root (addr + 0x1000) n s')"

definition sys_munmap :: "usize \<Rightarrow> usize \<Rightarrow> kernel \<Rightarrow> syscall_result \<times> kernel" where
  "sys_munmap ptr len k =
     (if ptr AND 0xFFF \<noteq> 0 \<or> len = 0 \<or> len AND 0xFFF \<noteq> 0 then (Returned USIZE_MAX, k)
      else let (root, ring3) = current_task_access_info k
      in if \<not> ring3 \<or> validate_user_range (mach k) root ptr len False \<noteq> Some True then (Returned USIZE_MAX, k)
         else (Returned 0, k\<lparr>mach := munmap_pages root ptr (unat len div 4096) (mach k)\<rparr>))"

definition sys_exit :: "usize \<Rightarrow> usize \<Rightarrow> kernel \<Rightarrow> syscall_result \<times> kernel" where
  "sys_exit exit_code trap_sp k = (Exits, exit_task trap_sp k)"

definition sys_unknown :: "usize \<Rightarrow> kernel \<Rightarrow> syscall_result \<times> kernel" where
  "sys_unknown sys_num k =
     (Returned USIZE_MAX, uart_print (ascii (''mitosOS: Unknown syscall number: '' @ show_nat (unat sys_num) @ [char_of (10 :: nat)])) k)"

definition syscall_handler :: "usize \<Rightarrow> usize \<Rightarrow> usize \<Rightarrow> usize \<Rightarrow> usize \<Rightarrow> kernel \<Rightarrow> syscall_result \<times> kernel" where
  "syscall_handler trap_sp sys_num arg1 arg2 arg3 k =
     (if sys_num = 1 then sys_write arg1 arg2 arg3 k
      else if sys_num = 0 then sys_read arg1 arg2 arg3 k
      else if sys_num = 11 then sys_munmap arg1 arg2 k
      else if sys_num = 60 then sys_exit arg1 trap_sp k
      else if sys_num = 63 then sys_uname arg1 k
      else sys_unknown sys_num k)"

section \<open>Writing user memory\<close>

text \<open>The physical address behind a mapped user address, and that different addresses have different ones.\<close>

lemma user_translate:
  assumes "user_tree s root" "user_addr w"
  shows "arch_translate_addr s root w =
    (if pte_present (ops s) (leaf_entry (ops s) s root w)
     then Some (pte_addr (ops s) (leaf_entry (ops s) s root w) + (w AND 0xFFF)) else None)"
  by (rule translate_leaf [OF assms(1) user_addr_top [OF assms(2)]])

lemma leaf_frames_distinct:
  assumes tree: "user_tree s root" and w: "user_addr v" "user_addr w"
    and p: "pte_present (ops s) (leaf_entry (ops s) s root v)" "pte_present (ops s) (leaf_entry (ops s) s root w)"
    and eq: "frame_of (pte_addr (ops s) (leaf_entry (ops s) s root v)) = frame_of (pte_addr (ops s) (leaf_entry (ops s) s root w))"
  shows "same_page v w"
proof -
  have at: "table_at (ops s) s root (upper_path x @ [leaf_idx x]) = Some (pte_addr (ops s) (leaf_entry (ops s) s root x))"
    and vp: "valid_path user_indices (upper_path x @ [leaf_idx x])" if "user_addr x" "pte_present (ops s) (leaf_entry (ops s) s root x)" for x
    using that(2) path_valid(1) [OF user_addr_top [OF that(1)]] path_valid(2) [of x]
    by (simp_all add: arch.table_at_leaf leaf_entry_def valid_path_def)
  have "pte_addr (ops s) (leaf_entry (ops s) s root v) = pte_addr (ops s) (leaf_entry (ops s) s root w)"
    using eq by (simp add: frame_of_inj arch.addr_aligned)
  then have "upper_path v @ [leaf_idx v] = upper_path w @ [leaf_idx w]"
    using owned_tree_inj [OF tree vp [OF w(1) p(1)] vp [OF w(2) p(2)]] at [OF w(1) p(1)] at [OF w(2) p(2)] by simp
  then show ?thesis by (simp add: same_page_path)
qed

lemma user_translate_inj:
  assumes tree: "user_tree s root" and w: "user_addr v" "user_addr w"
    and "arch_translate_addr s root v = Some p" "arch_translate_addr s root w = Some p"
  shows "v = w"
proof -
  have p: "pte_present (ops s) (leaf_entry (ops s) s root v)" "p = pte_addr (ops s) (leaf_entry (ops s) s root v) + (v AND 0xFFF)"
    "pte_present (ops s) (leaf_entry (ops s) s root w)" "p = pte_addr (ops s) (leaf_entry (ops s) s root w) + (w AND 0xFFF)"
    using user_translate [OF tree w(1)] user_translate [OF tree w(2)] assms(4,5) by (auto split: if_splits)
  have "frame_of (pte_addr (ops s) (leaf_entry (ops s) s root v)) = frame_of (pte_addr (ops s) (leaf_entry (ops s) s root w))"
    using frame_of_page_byte [OF arch.addr_aligned, of "target s" "leaf_entry (ops s) s root v" v]
      frame_of_page_byte [OF arch.addr_aligned, of "target s" "leaf_entry (ops s) s root w" w] p(2,4) by simp
  from leaf_frames_distinct [OF tree w p(1,3) this] have sp: "same_page v w" .
  then have "leaf_entry (ops s) s root v = leaf_entry (ops s) s root w" by (rule leaf_same_page)
  with p(2,4) have "v AND 0xFFF = w AND 0xFFF" by simp
  then have "unat v mod 4096 = unat w mod 4096" by (metis unat_and_fff)
  moreover have "unat v div 4096 = unat w div 4096" using sp user_same_page [OF w] by simp
  ultimately have "unat v = unat w" by (metis div_mult_mod_eq)
  then show ?thesis by (simp add: word_unat_eq_iff)
qed

lemma store_user_byte:
  fixes b :: u8
  assumes tree: "user_tree s root" and w: "user_addr w" "arch_translate_addr s root w = Some p"
  defines "s' \<equiv> s\<lparr>ram := (ram s)(p := b)\<rparr>"
  shows "user_tree s' root"
    "user_addr v \<Longrightarrow> arch_translate_addr s' root v = arch_translate_addr s root v"
    "user_addr v \<Longrightarrow> user_byte s' root v = (if v = w then Some b else user_byte s root v)"
    "page_is_user_accessible s' root v nw = page_is_user_accessible s root v nw \<or> \<not> user_addr v"
proof -
  have d: "3 \<le> (4 :: nat)" "(4 :: nat) \<le> 4" by simp_all
  have pr: "pte_present (ops s) (leaf_entry (ops s) s root w)" "p = pte_addr (ops s) (leaf_entry (ops s) s root w) + (w AND 0xFFF)"
    using user_translate [OF tree w(1)] w(2) by (auto split: if_splits)
  have same: "ram s' a = ram s a" if "frame_of a \<in> tree_frames (ops s) user_indices 3 s root" for a
    using leaf_private(2) [OF tree w(1) pr(1)] pr(2) that by (auto simp: s'_def)
  have s': "s\<lparr>ram := ram s'\<rparr> = s'" by (simp add: s'_def)
  have t: "target s' = target s" by (simp add: s'_def)
  have "owned_tree (ops s) user_indices 4 (s\<lparr>ram := ram s'\<rparr>) root"
    by (rule arch.data_write_keeps_tree(1) [OF tree d]) (rule same)
  then show tree': "user_tree s' root" by (simp add: s' t)
  have leaf: "leaf_entry (ops s) s' root v = leaf_entry (ops s) s root v" if v: "user_addr v" for v
  proof -
    have "valid_path user_indices (upper_path v @ [leaf_idx v])"
      using path_valid(1) [OF user_addr_top [OF v]] path_valid(2) [of v] by (simp add: valid_path_def)
    then have "leaf_at (ops s) (s\<lparr>ram := ram s'\<rparr>) root (upper_path v) (leaf_idx v) = leaf_at (ops s) s root (upper_path v) (leaf_idx v)"
      by (intro arch.data_write_keeps_tree(3) [OF tree d]) (simp_all add: same)
    then show ?thesis by (simp add: leaf_entry_def s')
  qed
  show tr: "arch_translate_addr s' root v = arch_translate_addr s root v" if "user_addr v" for v
    using user_translate [OF tree' that] user_translate [OF tree that] leaf [OF that] by (simp add: t)
  show "user_byte s' root v = (if v = w then Some b else user_byte s root v)" if v: "user_addr v"
    using tr [OF v] user_translate_inj [OF tree v w(1) _ w(2)] w(2)
    by (cases "arch_translate_addr s root v") (auto simp: user_byte_def s'_def)
  show "page_is_user_accessible s' root v nw = page_is_user_accessible s root v nw \<or> \<not> user_addr v"
    using leaf by (auto simp: page_is_user_accessible_leaf t)
qed

text \<open>The address space a ring-3 caller runs in.\<close>

definition runs_in :: "machine \<Rightarrow> usize \<Rightarrow> bool" where
  "runs_in s root \<longleftrightarrow> user_tree s root \<and> (\<forall>v. user_addr v \<longrightarrow> active_root s v = root)"

lemma active_root_ram [simp]: "active_root (s\<lparr>ram := m\<rparr>) v = active_root s v"
  by (simp add: active_root_def split: target_arch.split)

lemma user_canonical: "user_addr v \<Longrightarrow> canonical tgt v"
  by (cases tgt) (auto simp: user_addr_def canonical_def intro: order.strict_trans)

lemma runs_in_translate: "runs_in s root \<Longrightarrow> user_addr v \<Longrightarrow> virt_translate s v = arch_translate_addr s root v"
  by (simp add: runs_in_def virt_translate_def user_canonical)

lemma runs_in_store:
  assumes "runs_in s root" "user_addr w" "user_byte s root w \<noteq> None"
  obtains s' where "virt_store w b s = Some s'" "runs_in s' root"
    "\<And>v. user_addr v \<Longrightarrow> user_byte s' root v = (if v = w then Some b else user_byte s root v)"
    "\<And>v nw. user_addr v \<Longrightarrow> page_is_user_accessible s' root v nw = page_is_user_accessible s root v nw"
    "\<exists>m. s' = s\<lparr>ram := m\<rparr>"
proof -
  obtain p where p: "arch_translate_addr s root w = Some p" using assms(3) by (auto simp: user_byte_def)
  have tree: "user_tree s root" using assms(1) by (simp add: runs_in_def)
  note S = store_user_byte [OF tree assms(2) p, where b = b]
  show thesis
  proof (rule that)
    show "virt_store w b s = Some (s\<lparr>ram := (ram s)(p := b)\<rparr>)"
      using runs_in_translate [OF assms(1,2)] p by (simp add: virt_store_def)
    show "runs_in (s\<lparr>ram := (ram s)(p := b)\<rparr>) root"
      using assms(1) S(1) by (simp add: runs_in_def)
  qed (use S(3,4) in auto)
qed

lemma unat_Suc_word: "unat v + n < 2 ^ 64 \<Longrightarrow> 0 < n \<Longrightarrow> unat (v + 1 :: usize) = unat v + 1"
  by (subst unat_add_lt) simp_all

text \<open>Writing a mapped range: it succeeds and changes exactly those bytes.\<close>

lemma virt_write_user:
  assumes "runs_in s root" "2 ^ 39 \<le> unat v" "unat v + length bs \<le> 2 ^ 47"
    and "\<And>w. unat v \<le> unat w \<Longrightarrow> unat w < unat v + length bs \<Longrightarrow> user_byte s root w \<noteq> None"
  shows "\<exists>s'. virt_write v bs s = Some s' \<and> runs_in s' root \<and> (\<exists>m. s' = s\<lparr>ram := m\<rparr>) \<and>
    (\<forall>w. user_addr w \<longrightarrow> user_byte s' root w =
       (if unat v \<le> unat w \<and> unat w < unat v + length bs then Some (bs ! (unat w - unat v)) else user_byte s root w))"
  using assms
proof (induction bs arbitrary: v s)
  case Nil
  then show ?case by (auto intro: exI [of _ "ram s"])
next
  case (Cons b bs)
  have v: "user_addr v" using Cons.prems(2,3) by (simp add: user_addr_unat)
  have "user_byte s root v \<noteq> None" using Cons.prems(4) [of v] by simp
  then obtain s1 where s1: "virt_store v b s = Some s1" "runs_in s1 root" "\<exists>m. s1 = s\<lparr>ram := m\<rparr>"
    "\<And>w. user_addr w \<Longrightarrow> user_byte s1 root w = (if w = v then Some b else user_byte s root w)"
    using runs_in_store [OF Cons.prems(1) v, of b] by metis
  have u: "unat (v + 1) = unat v + 1" using Cons.prems(3) by (intro unat_Suc_word [of _ 1]) simp_all
  have "user_byte s1 root w \<noteq> None" if w: "unat (v + 1) \<le> unat w" "unat w < unat (v + 1) + length bs" for w
  proof -
    have "user_addr w" using w Cons.prems(2,3) by (simp add: user_addr_unat u)
    then show ?thesis using s1(4) Cons.prems(4) [of w] w u by simp
  qed
  then obtain s' where s': "virt_write (v + 1) bs s1 = Some s'" "runs_in s' root" "\<exists>m. s' = s1\<lparr>ram := m\<rparr>"
    "\<And>w. user_addr w \<Longrightarrow> user_byte s' root w =
       (if unat (v + 1) \<le> unat w \<and> unat w < unat (v + 1) + length bs then Some (bs ! (unat w - unat (v + 1))) else user_byte s1 root w)"
    using Cons.IH [OF s1(2), of "v + 1"] Cons.prems(2,3) u by auto
  have "user_byte s' root w = (if unat v \<le> unat w \<and> unat w < unat v + length (b # bs)
      then Some ((b # bs) ! (unat w - unat v)) else user_byte s root w)" if w: "user_addr w" for w
  proof (cases "unat w = unat v")
    case True
    then have "w = v" by (simp add: word_unat_eq_iff)
    then show ?thesis using s'(4) [OF w] s1(4) [OF w] u by simp
  next
    case False
    then have "w \<noteq> v" by auto
    then show ?thesis using s'(4) [OF w] s1(4) [OF w] u False by (auto simp: nth_Cons')
  qed
  moreover have "\<exists>m. s' = s\<lparr>ram := m\<rparr>" using s1(3) s'(3) by auto
  ultimately show ?case using s1(1) s'(1,2) by auto
qed

section \<open>Unmapping a page and releasing its frame\<close>

lemma unmap_page_entry:
  assumes "arch_unmap_page root virt s = (Ok (), s')"
  obtains t where "table_at (ops s) s root (upper_path virt) = Some t" "s' = set_entry t (leaf_idx virt) 0 s"
    "pte_present (ops s) (leaf_entry (ops s) s root virt)"
  using assms that
  by (auto simp: arch_walk walk_unmap_def leaf_entry_def leaf_at_def split: if_splits option.splits)

lemma table_at_pmm [simp]: "table_at P (s\<lparr>pmm := p\<rparr>) t q = table_at P s t q"
  by (induction q arbitrary: t) (simp_all add: child_def entry_def split: option.split)

lemma owned_tree_release:
  assumes "owned_tree P U d s root" "tracked_frames p = tracked_frames (pmm s)" "free_frames p \<subseteq> insert x (free_frames (pmm s))"
    and "\<And>q t. valid_path U q \<Longrightarrow> length q \<le> d \<Longrightarrow> table_at P s root q = Some t \<Longrightarrow> frame_of t \<noteq> x"
  shows "owned_tree P U d (s\<lparr>pmm := p\<rparr>) root"
proof -
  have e: "entry (s\<lparr>pmm := p\<rparr>) t i = entry s t i" for t i by (simp add: entry_def)
  have "frame_of t \<notin> free_frames p" if "valid_path U q" "length q \<le> d" "table_at P s root q = Some t" for q t
    using assms(3) assms(4) [OF that] owned_tree_not_free [OF assms(1) that] by blast
  then show ?thesis
    using assms(1,2) unfolding owned_tree_def pool_ok_def by (simp add: e del: valid_path_snoc) blast
qed

lemma munmap_one_page:
  assumes tree: "user_tree s root" and v: "user_addr v"
    and unmap: "arch_unmap_page root v s = (Ok (), s1)" and f: "f = pte_addr (ops s) (leaf_entry (ops s) s root v)"
  defines "s2 \<equiv> release_frame f s1"
  shows "user_tree s2 root" "target s2 = target s"
    "\<And>w. user_addr w \<Longrightarrow> leaf_entry (ops s) s2 root w = (if same_page w v then 0 else leaf_entry (ops s) s root w)"
    "\<And>w. user_addr w \<Longrightarrow> user_byte s2 root w = (if same_page w v then None else user_byte s root w)"
    "free_frames (pmm s2) = free_frames (pmm s) \<union> ({frame_of f} \<inter> {0<..<tracked_frames (pmm s)})"
    "tracked_frames (pmm s2) = tracked_frames (pmm s)"
proof -
  have d: "3 \<le> (4 :: nat)" "(4 :: nat) \<le> 4" by simp_all
  note M = unmap_page_leaf [OF tree d user_addr_top [OF v] unmap]
  obtain t where t: "table_at (ops s) s root (upper_path v) = Some t" "s1 = set_entry t (leaf_idx v) 0 s"
    and pres: "pte_present (ops s) (leaf_entry (ops s) s root v)"
    using unmap_page_entry [OF unmap] .
  obtain p where p: "s2 = s1\<lparr>pmm := p\<rparr>" "tracked_frames p = tracked_frames (pmm s)"
    "free_frames p = free_frames (pmm s) \<union> ({frame_of f} \<inter> {0<..<tracked_frames (pmm s)})"
    using frees_release [of f s1] M(3) by (auto simp: frees_def s2_def)
  have valid: "valid_path user_indices (upper_path v @ [leaf_idx v])"
    using path_valid(1) [OF user_addr_top [OF v]] path_valid(2) [of v] by (simp add: valid_path_def)
  have vf: "table_at (ops s) s root (upper_path v @ [leaf_idx v]) = Some f"
    using pres by (simp add: arch.table_at_leaf leaf_entry_def f)
  note al = arch.table_at_aligned [OF _ conjunct1 [OF owned_tree_root [OF tree]]]
  have E: "entry s1 u j = (if u = t \<and> j = leaf_idx v then 0 else entry s u j)" if "page_aligned u" "j < 512" for u j
    using entry_set_entry [OF al [OF t(1)] that(1) path_valid(2) that(2), of v 0 s] t(2) by auto
  have at: "table_at (ops s) s1 root q = (if q = upper_path v @ [leaf_idx v] then None else table_at (ops s) s root q)"
    if "valid_path user_indices q" "length q \<le> 4" for q
  proof (rule arch.table_at_update [OF tree d(1) t(1) valid _ _ _ _ that])
    show "child (ops s) s1 t (leaf_idx v) = None"
      using E [OF al [OF t(1)] path_valid(2)] by (simp add: child_def arch.absent_zero)
    show "entry s1 u j = entry s u j"
      if "table_at (ops s) s root q = Some u" "valid_path user_indices (q @ [j])" "length q \<le> 3" "\<not> (u = t \<and> j = leaf_idx v)" for q u j
      using E [OF al [OF that(1)]] that(2,4) by (auto simp: valid_path_def)
  qed simp_all
  have nf: "frame_of u \<noteq> frame_of f" if q: "valid_path user_indices q" "length q \<le> 4" "table_at (ops s) s1 root q = Some u" for q u
  proof
    assume "frame_of u = frame_of f"
    have su: "table_at (ops s) s root q = Some u" "q \<noteq> upper_path v @ [leaf_idx v]" using at [OF q(1,2)] q(3) by (auto split: if_splits)
    have "u = f" using \<open>frame_of u = frame_of f\<close> al [OF su(1)] al [OF vf] by (simp add: frame_of_inj)
    then show False using owned_tree_inj [OF tree q(1) valid q(2) _ su(1)] vf su(2) by simp
  qed
  have "owned_tree (ops s) user_indices 4 (s1\<lparr>pmm := p\<rparr>) root"
    by (rule owned_tree_release [OF M(1), of p "frame_of f"]) (use p(2,3) M(3) nf in auto)
  then show tree2: "user_tree s2 root" using p(1) M(2) by simp
  show t2: "target s2 = target s" using p(1) M(2) by simp
  have "leaf_entry (ops s) s2 root w = leaf_entry (ops s) s1 root w" for w
    by (simp add: p(1) leaf_entry_def leaf_at_def entry_def split: option.split)
  then show leaf: "leaf_entry (ops s) s2 root w = (if same_page w v then 0 else leaf_entry (ops s) s root w)" if "user_addr w" for w
    using M(4) [OF user_addr_top [OF that]] by simp
  show "free_frames (pmm s2) = free_frames (pmm s) \<union> ({frame_of f} \<inter> {0<..<tracked_frames (pmm s)})"
    "tracked_frames (pmm s2) = tracked_frames (pmm s)" using p by simp_all
  show "user_byte s2 root w = (if same_page w v then None else user_byte s root w)" if w: "user_addr w" for w
  proof (cases "same_page w v")
    case True
    then show ?thesis using user_absent [OF tree2 w] leaf [OF w] t2 by (simp add: arch.absent_zero)
  next
    case False
    have tf: "frame_of t \<in> tree_frames (ops s) user_indices 3 s root"
      using tree_frames_I [OF _ _ t(1)] path_valid(1) [OF user_addr_top [OF v]] by simp
    have "ram s2 a = ram s a" if "frame_of a \<notin> tree_frames (ops s) user_indices 3 s root" for a
    proof -
      have "frame_of a \<noteq> frame_of t" using that tf by metis
      then show ?thesis using ram_set_entry [OF al [OF t(1)] path_valid(2)] by (simp add: p(1) t(2))
    qed
    then show ?thesis using user_byte_kept [OF tree tree2 t2 w] leaf [OF w] False by simp
  qed
qed

section \<open>Reading input into user memory\<close>

definition user_caller :: "kernel \<Rightarrow> usize \<Rightarrow> bool" where
  "user_caller k root \<longleftrightarrow> current_task_access_info k = (root, True) \<and> runs_in (mach k) root"

lemma accessible_mapped:
  assumes "user_tree s root" "user_addr w" "page_is_user_accessible s root w nw"
  shows "user_byte s root w \<noteq> None"
  using assms user_byte_leaf [OF assms(1,2)] by (simp add: page_is_user_accessible_leaf)

lemma validate_user_ptr_ring3:
  assumes "user_caller k root" "len \<noteq> 0" "unat ptr + unat len \<le> 2 ^ 47"
  shows "validate_user_ptr k ptr len nw \<longleftrightarrow>
    USER_SPACE_BASE \<le> ptr \<and> range_bytes ptr len \<subseteq> accessible_bytes (mach k) root nw"
  using assms by (simp add: user_caller_def validate_user_ptr_def validate_range_spec)

lemma validated_mapped:
  assumes "user_caller k root" "len \<noteq> 0" "unat ptr + unat len \<le> 2 ^ 47" "validate_user_ptr k ptr len nw"
  shows "2 ^ 39 \<le> unat ptr"
    "\<And>w. unat ptr \<le> unat w \<Longrightarrow> unat w < unat ptr + unat len \<Longrightarrow> user_byte (mach k) root w \<noteq> None"
proof -
  note V = validate_user_ptr_ring3 [OF assms(1-3), THEN iffD1, OF assms(4)]
  show p: "2 ^ 39 \<le> unat ptr" using V by (simp add: USER_SPACE_BASE_def word_le_nat_alt push_bit_eq_mult)
  show "user_byte (mach k) root w \<noteq> None" if "unat ptr \<le> unat w" "unat w < unat ptr + unat len" for w
  proof -
    have "user_addr w" using that p assms(3) by (simp add: user_addr_unat)
    moreover have "page_is_user_accessible (mach k) root w nw"
      using V that by (auto simp: range_bytes_def accessible_bytes_def)
    ultimately show ?thesis using assms(1) accessible_mapped by (auto simp: user_caller_def runs_in_def)
  qed
qed

text \<open>C16: \<open>read\<close> on behalf of a ring-3 task, with a buffer below the end of the lower canonical half: if some byte of the
  buffer is not user-accessible and writable, nothing changes and the call fails; otherwise it never
  faults, moves the oldest waiting input bytes, as many as fit, to the front of the buffer, and leaves
  every other byte of the process unchanged.\<close>
theorem sys_read_delivers_input:
  assumes "user_caller k root" "queue_valid (input k)" "len \<noteq> 0" "unat ptr + unat len \<le> 2 ^ 47"
  shows "case sys_read 0 ptr len k of (r, k') \<Rightarrow>
    if USER_SPACE_BASE \<le> ptr \<and> range_bytes ptr len \<subseteq> accessible_bytes (mach k) root True
    then let n = min (unat len) (length (queue_content (input k)))
      in r = Returned (word_of_nat n) \<and> queue_content (input k') = drop n (queue_content (input k)) \<and>
         (\<forall>w. user_addr w \<longrightarrow> user_byte (mach k') root w =
            (if unat ptr \<le> unat w \<and> unat w < unat ptr + n then Some (queue_content (input k) ! (unat w - unat ptr))
             else user_byte (mach k) root w))
    else r = Returned USIZE_MAX \<and> k' = k"
proof (cases "validate_user_ptr k ptr len True")
  case False
  note V = validate_user_ptr_ring3 [OF assms(1,3,4), of True]
  have "sys_read 0 ptr len k = (Returned USIZE_MAX, k)" using False by (simp add: sys_read_def)
  then show ?thesis using False V by auto
next
  case True
  note V = validate_user_ptr_ring3 [OF assms(1,3,4), of True] and M = validated_mapped [OF assms(1,3,4) True]
  have nz: "ptr \<noteq> 0" using M(1) by auto
  let ?c = "queue_content (input k)" and ?n = "min (unat len) (length (queue_content (input k)))"
  obtain bs q where d: "drain_queue dequeue_byte (unat len) (input k) = (bs, q)" by fastforce
  have D: "bs = take (unat len) ?c" "queue_content q = drop (unat len) ?c" using ring.drain [OF assms(2) d] by simp_all
  have l: "length bs = ?n" by (simp add: D min.commute)
  have ri: "runs_in (mach k) root" using assms(1) by (simp add: user_caller_def)
  have fit: "unat ptr + length bs \<le> 2 ^ 47" using assms(4) l by linarith
  have mapped: "user_byte (mach k) root w \<noteq> None" if "unat ptr \<le> unat w" "unat w < unat ptr + length bs" for w
    using M(2) that l by auto
  obtain s' where s': "virt_write ptr bs (mach k) = Some s'"
    "\<And>w. user_addr w \<Longrightarrow> user_byte s' root w = (if unat ptr \<le> unat w \<and> unat w < unat ptr + length bs
       then Some (bs ! (unat w - unat ptr)) else user_byte (mach k) root w)"
    using virt_write_user [OF ri M(1) fit mapped] by blast
  have run: "sys_read 0 ptr len k = (Returned (word_of_nat ?n), k\<lparr>mach := s', input := q\<rparr>)"
    using True assms(3) nz d s'(1) l by (simp add: sys_read_def)
  have "queue_content q = drop ?n ?c" by (simp add: D min_def)
  moreover have "user_byte s' root w = (if unat ptr \<le> unat w \<and> unat w < unat ptr + ?n then Some (?c ! (unat w - unat ptr))
      else user_byte (mach k) root w)" if "user_addr w" for w
    using s'(2) [OF that] unfolding l by (auto simp: D)
  ultimately show ?thesis using V True run by (simp add: Let_def)
qed

section \<open>Unmapping a range\<close>

text \<open>The frames behind the mapped addresses of \<open>[lo, hi)\<close>.\<close>

definition range_frames :: "machine \<Rightarrow> usize \<Rightarrow> nat \<Rightarrow> nat \<Rightarrow> nat set" where
  "range_frames s root lo hi = {frame_of p | p w. lo \<le> unat w \<and> unat w < hi \<and> arch_translate_addr s root w = Some p}"

definition range_unmapped :: "usize \<Rightarrow> nat \<Rightarrow> nat \<Rightarrow> machine \<Rightarrow> machine \<Rightarrow> bool" where
  "range_unmapped root lo hi s s' \<longleftrightarrow> user_tree s' root \<and> target s' = target s \<and>
     tracked_frames (pmm s') = tracked_frames (pmm s) \<and>
     free_frames (pmm s') = free_frames (pmm s) \<union> (range_frames s root lo hi \<inter> {0<..<tracked_frames (pmm s)}) \<and>
     (\<forall>w. user_addr w \<longrightarrow>
        (arch_translate_addr s' root w = (if lo \<le> unat w \<and> unat w < hi then None else arch_translate_addr s root w)) \<and>
        (user_byte s' root w = (if lo \<le> unat w \<and> unat w < hi then None else user_byte s root w)))"

lemma range_unmapped_refl: "user_tree s root \<Longrightarrow> range_unmapped root a a s s"
  by (auto simp: range_unmapped_def range_frames_def)

lemma range_unmapped_trans:
  assumes st: "range_unmapped root a b s s'" "range_unmapped root b c s' s''" and le: "2 ^ 39 \<le> a" "a \<le> b" "b \<le> c" "c \<le> 2 ^ 47"
  shows "range_unmapped root a c s s''"
proof -
  have same: "arch_translate_addr s' root w = arch_translate_addr s root w" if "b \<le> unat w" "unat w < c" for w
    using st(1) that le by (simp add: range_unmapped_def user_addr_unat)
  have "range_frames s' root b c = range_frames s root b c"
    unfolding range_frames_def using same by (intro Collect_cong) (metis (no_types))
  moreover have "range_frames s root a c = range_frames s root a b \<union> range_frames s root b c"
  proof -
    have "a \<le> x \<and> x < c \<longleftrightarrow> (a \<le> x \<and> x < b) \<or> (b \<le> x \<and> x < c)" for x using le by linarith
    then show ?thesis unfolding range_frames_def by blast
  qed
  ultimately have fr: "range_frames s root a c = range_frames s root a b \<union> range_frames s' root b c" by simp
  have "arch_translate_addr s'' root w = (if a \<le> unat w \<and> unat w < c then None else arch_translate_addr s root w)"
    "user_byte s'' root w = (if a \<le> unat w \<and> unat w < c then None else user_byte s root w)" if "user_addr w" for w
    using st that le by (auto simp: range_unmapped_def)
  moreover have "user_tree s'' root" using st(2) unfolding range_unmapped_def by blast
  moreover have "target s'' = target s" "tracked_frames (pmm s'') = tracked_frames (pmm s)"
    "free_frames (pmm s'') = free_frames (pmm s) \<union> (range_frames s root a c \<inter> {0<..<tracked_frames (pmm s)})"
    using st by (simp_all add: range_unmapped_def fr Un_assoc Int_Un_distrib2)
  ultimately show ?thesis unfolding range_unmapped_def by blast
qed

lemma translate_frame:
  assumes "user_tree s root" "user_addr w" "pte_present (ops s) (leaf_entry (ops s) s root w)"
  shows "\<exists>p. arch_translate_addr s root w = Some p \<and> frame_of p = frame_of (pte_addr (ops s) (leaf_entry (ops s) s root w))"
  using user_translate [OF assms(1,2)] assms(3) frame_of_page_byte [OF arch.addr_aligned] by simp

lemma munmap_step:
  assumes tree: "user_tree s root" and a: "user_addr a" "page_aligned a" and mapped: "user_byte s root a \<noteq> None"
  shows "range_unmapped root (unat a) (unat a + 4096) s (munmap_pages root a 1 s)"
proof -
  have al: "a AND 0xFFF = 0" using a(2) by (simp add: page_aligned_def)
  define f where "f = pte_addr (ops s) (leaf_entry (ops s) s root a)"
  have pres: "pte_present (ops s) (leaf_entry (ops s) s root a)"
    using mapped user_byte_leaf [OF tree a(1)] by (auto split: if_splits)
  then have tr: "arch_translate_addr s root a = Some f" using user_translate [OF tree a(1)] al by (simp add: f_def)
  obtain r s1 where u: "arch_unmap_page root a s = (r, s1)" by fastforce
  have r: "r = Ok ()" using unmap_page_leaf(5) [OF tree _ _ user_addr_top [OF a(1)] u] al pres by simp
  define s2 where "s2 = release_frame f s1"
  have run: "munmap_pages root a 1 s = s2" using tr u r by (simp add: s2_def)
  note M = munmap_one_page [OF tree a(1) u [unfolded r] f_def, folded s2_def]
  have page: "same_page w a \<longleftrightarrow> unat a \<le> unat w \<and> unat w < unat a + 4096" if "user_addr w" for w
  proof -
    obtain k where k: "unat a = 4096 * k" using page_aligned_mult [OF a(2)] .
    show ?thesis using user_same_page [OF that a(1)] div_page_iff [of "unat w" k] by (simp add: k)
  qed
  have T: "arch_translate_addr s2 root w = (if same_page w a then None else arch_translate_addr s root w)" if "user_addr w" for w
    using user_translate [OF M(1) that] user_translate [OF tree that] M(2) M(3) [OF that] by (simp add: arch.absent_zero)
  have "range_frames s root (unat a) (unat a + 4096) = {frame_of f}"
  proof -
    have in_page: "user_addr w \<and> same_page w a" if "unat a \<le> unat w" "unat w < unat a + 4096" for w
    proof -
      obtain k where k: "unat a = 4096 * k" using page_aligned_mult [OF a(2)] .
      have "4096 * k < 4096 * 2 ^ 35" using a(1) k by (simp add: user_addr_unat)
      then have "unat w < 2 ^ 47" using that k by simp
      then show ?thesis using page that a(1) by (simp add: user_addr_unat)
    qed
    have "frame_of p = frame_of f" if "unat a \<le> unat w" "unat w < unat a + 4096" "arch_translate_addr s root w = Some p" for w p
      using in_page [OF that(1,2)] translate_frame [OF tree, of w] leaf_same_page [of w a] pres that(3) by (auto simp: f_def)
    then show ?thesis using tr unfolding range_frames_def by force
  qed
  then show ?thesis using M page T unfolding run range_unmapped_def by simp
qed

lemma munmap_pages_split: "munmap_pages root a (Suc n) s = munmap_pages root (a + 0x1000) n (munmap_pages root a 1 s)"
  by simp

lemma munmap_pages_effect:
  assumes "user_tree s root" "2 ^ 39 \<le> unat a" "unat a + n * 4096 \<le> 2 ^ 47" "page_aligned a"
    and "\<And>w. unat a \<le> unat w \<Longrightarrow> unat w < unat a + n * 4096 \<Longrightarrow> user_byte s root w \<noteq> None"
  shows "range_unmapped root (unat a) (unat a + n * 4096) s (munmap_pages root a n s)"
  using assms
proof (induction n arbitrary: a s)
  case 0
  then show ?case using range_unmapped_refl by simp
next
  case (Suc n)
  have ua: "user_addr a" using Suc.prems(2,3) by (simp add: user_addr_unat)
  have nx: "unat (a + 0x1000) = unat a + 4096" using Suc.prems(3) by (simp add: unat_plus_if')
  define s1 where "s1 = munmap_pages root a 1 s"
  have one: "range_unmapped root (unat a) (unat a + 4096) s s1"
    using munmap_step [OF Suc.prems(1) ua Suc.prems(4)] Suc.prems(5) [of a] by (simp add: s1_def)
  have tree: "user_tree s1 root" using one unfolding range_unmapped_def by blast
  have al: "page_aligned (a + 0x1000)" using Suc.prems(4) by (simp add: nx page_aligned_unat)
  have "user_byte s1 root w \<noteq> None" if "unat (a + 0x1000) \<le> unat w" "unat w < unat (a + 0x1000) + n * 4096" for w
    using one that Suc.prems(2,3) Suc.prems(5) [of w] by (simp add: nx range_unmapped_def user_addr_unat)
  then have "range_unmapped root (unat (a + 0x1000)) (unat (a + 0x1000) + n * 4096) s1 (munmap_pages root (a + 0x1000) n s1)"
    using Suc.prems(2,3) by (intro Suc.IH [OF tree _ _ al]) (simp_all add: nx)
  then have "range_unmapped root (unat a) (unat a + 4096 + n * 4096) s (munmap_pages root (a + 0x1000) n s1)"
    using Suc.prems(2,3) unfolding nx by (intro range_unmapped_trans [OF one]) simp_all
  then show ?case unfolding munmap_pages_split s1_def by (simp add: add.assoc del: munmap_pages.simps)
qed

text \<open>C17: \<open>munmap\<close> by a ring-3 task. A misaligned or empty range, or one with a byte the task cannot access, is
  refused and nothing changes. Otherwise every page of the range is unmapped, the frames behind it go
  back to the pool (frame 0 and frames outside the bitmap excepted) and nothing else does, and every
  other page of the process keeps its translation and its contents.\<close>
theorem sys_munmap_releases_range:
  assumes "user_caller k root" "unat ptr + unat len \<le> 2 ^ 47"
  shows "case sys_munmap ptr len k of (r, k') \<Rightarrow>
    if ptr AND 0xFFF = 0 \<and> len \<noteq> 0 \<and> len AND 0xFFF = 0 \<and> USER_SPACE_BASE \<le> ptr \<and>
       range_bytes ptr len \<subseteq> accessible_bytes (mach k) root False
    then r = Returned 0 \<and> range_unmapped root (unat ptr) (unat ptr + unat len) (mach k) (mach k')
    else r = Returned USIZE_MAX \<and> k' = k"
proof (cases "ptr AND 0xFFF = 0 \<and> len \<noteq> 0 \<and> len AND 0xFFF = 0")
  case False
  then have "sys_munmap ptr len k = (Returned USIZE_MAX, k)" by (auto simp: sys_munmap_def)
  then show ?thesis using False by auto
next
  case True
  have info: "current_task_access_info k = (root, True)" and ri: "user_tree (mach k) root"
    using assms(1) by (simp_all add: user_caller_def runs_in_def)
  have V: "validate_user_ptr k ptr len False \<longleftrightarrow> validate_user_range (mach k) root ptr len False = Some True"
    by (simp add: validate_user_ptr_def info)
  note W = validate_user_ptr_ring3 [OF assms(1) _ assms(2), of False]
  show ?thesis
  proof (cases "validate_user_range (mach k) root ptr len False = Some True")
    case False
    then have "sys_munmap ptr len k = (Returned USIZE_MAX, k)" using info by (simp add: sys_munmap_def)
    then show ?thesis using False V W True by auto
  next
    case ok: True
    note M = validated_mapped [OF assms(1) _ assms(2) V [THEN iffD2, OF ok]]
    have al: "page_aligned ptr" "page_aligned len" using True by (simp_all add: page_aligned_def)
    obtain n where n: "unat len = 4096 * n" using page_aligned_mult [OF al(2)] .
    have run: "sys_munmap ptr len k = (Returned 0, k\<lparr>mach := munmap_pages root ptr n (mach k)\<rparr>)"
      using True info ok n by (simp add: sys_munmap_def)
    have "range_unmapped root (unat ptr) (unat ptr + n * 4096) (mach k) (munmap_pages root ptr n (mach k))"
      using munmap_pages_effect [OF ri _ _ al(1)] M assms(2) n True by (simp add: mult.commute)
    then show ?thesis using run W V ok True n by (simp add: mult.commute)
  qed
qed

section \<open>A pointer outside the canonical halves\<close>

lemma leaf_entry_alias: "take_bit 48 v = take_bit 48 w \<Longrightarrow> leaf_entry P s root v = leaf_entry P s root w"
proof -
  assume eq: "take_bit 48 v = take_bit 48 w"
  have b: "bit v n \<longleftrightarrow> bit w n" if "n < 48" for n
    using arg_cong [OF eq, where f = "\<lambda>x. bit x n"] that by (simp add: bit_take_bit_iff)
  have "take_bit 36 (drop_bit 12 v) = take_bit 36 (drop_bit 12 w)"
    by (rule bit_word_eqI) (use b in \<open>auto simp: bit_take_bit_iff bit_drop_bit_eq\<close>)
  then show ?thesis by (intro leaf_same_page) (simp add: same_page_def)
qed

text \<open>The range check walks the page table with the low 48 bits of the pointer only. On x86-64 a ring-3 task that
  has a writable byte at \<open>w\<close> can pass \<open>w\<close> with bit 48 set: the check accepts the pointer,
  and the store through it faults in the kernel.\<close>
theorem noncanonical_pointer_faults:
  assumes "user_caller k root" "target (mach k) = X86_64" "user_addr w" "page_is_user_accessible (mach k) root w True"
    and "queue_valid (input k)" "queue_content (input k) \<noteq> []"
  shows "validate_user_ptr k (w + 0x1000000000000) 1 True \<and> fst (sys_read 0 (w + 0x1000000000000) 1 k) = Faulted"
proof -
  let ?v = "w + 0x1000000000000"
  have u: "unat ?v = unat w + 2 ^ 48" using assms(3) by (subst unat_add_lt) (simp_all add: user_addr_unat)
  have "take_bit 48 (unat w + 2 ^ 48) = take_bit 48 (unat w)" by (simp only: take_bit_eq_mod mod_add_self2)
  then have "unat (take_bit 48 ?v) = unat (take_bit 48 w)" by (simp only: unsigned_take_bit_eq u)
  then have "take_bit 48 ?v = take_bit 48 w" by (simp only: word_unat_eq_iff)
  then have "leaf_entry (ops (mach k)) (mach k) root ?v = leaf_entry (ops (mach k)) (mach k) root w" by (rule leaf_entry_alias)
  then have acc: "page_is_user_accessible (mach k) root ?v True"
    using assms(4) unfolding page_is_user_accessible_leaf by simp
  have base: "USER_SPACE_BASE \<le> ?v" "unat ?v + 1 < 2 ^ 64"
    using assms(3) u by (simp_all add: USER_SPACE_BASE_def word_le_nat_alt user_addr_unat push_bit_eq_mult)
  have "range_bytes ?v 1 = {?v}" by (auto simp: range_bytes_def word_unat_eq_iff)
  then have V: "validate_user_ptr k ?v 1 True"
    using assms(1) acc base u
    by (simp add: user_caller_def validate_user_ptr_def validate_range_spec accessible_bytes_def)
  have "\<not> canonical X86_64 ?v"
    using assms(3) by (simp add: canonical_def word_less_nat_alt word_le_nat_alt u user_addr_unat)
  then have st: "virt_store ?v b (mach k) = None" for b by (simp add: virt_store_def virt_translate_def assms(2))
  obtain bs q where d: "drain_queue dequeue_byte (unat (1 :: usize)) (input k) = (bs, q)" by fastforce
  have "length bs = 1" using ring.drain [OF assms(5) d] assms(6) by (cases "queue_content (input k)") simp_all
  then obtain b where b: "bs = [b]" by (auto simp: length_Suc_conv)
  have "?v \<noteq> 0" using u by (auto simp: word_unat_eq_iff)
  then have "sys_read 0 ?v 1 k = (Faulted, k)" using V d st by (simp add: sys_read_def b)
  then show ?thesis using V by simp
qed

section \<open>A caller with a mapped stack\<close>

text \<open>The demonstration machine with the four stack pages of a process mapped, one ring-3 task running in it
  and the bytes \<open>hi!\<close> waiting in the input queue.\<close>

definition demo_caller :: kernel where
  "demo_caller =
     (let s = (snd (allocate_user_stack 0x14000 roomy_machine))\<lparr>cr3 := 0x14000\<rparr>;
          k = boot_kernel s (\<lambda>i. 0x500000) (\<lambda>i. 0x600000)
      in k\<lparr>tasks := (tasks k)[0 := task_empty\<lparr>memory_root := 0x14000, is_ring3 := True\<rparr>],
           input := enqueue_byte 33 (enqueue_byte 105 (enqueue_byte 104 empty_queue))\<rparr>)"

lemma cr3_irrelevant [simp]:
  "entry (s\<lparr>cr3 := r\<rparr>) t i = entry s t i" "table_at P (s\<lparr>cr3 := r\<rparr>) t q = table_at P s t q"
  "owned_tree P U d (s\<lparr>cr3 := r\<rparr>) root \<longleftrightarrow> owned_tree P U d s root"
  "leaf_entry P (s\<lparr>cr3 := r\<rparr>) root w = leaf_entry P s root w"
  "user_byte (s\<lparr>cr3 := r\<rparr>) root w = user_byte s root w"
  "page_is_user_accessible (s\<lparr>cr3 := r\<rparr>) root w nw \<longleftrightarrow> page_is_user_accessible s root w nw"
proof -
  show e: "entry (s\<lparr>cr3 := r\<rparr>) t i = entry s t i" for t i by (simp add: entry_def)
  show t: "table_at P (s\<lparr>cr3 := r\<rparr>) t q = table_at P s t q" for P t q
    by (induction q arbitrary: t) (simp_all add: child_def e split: option.split)
  show "owned_tree P U d (s\<lparr>cr3 := r\<rparr>) root \<longleftrightarrow> owned_tree P U d s root"
    unfolding owned_tree_def t e by (simp add: pool_ok_def)
  show l: "leaf_entry P (s\<lparr>cr3 := r\<rparr>) root w = leaf_entry P s root w" for P
    by (simp add: leaf_entry_def leaf_at_def t e split: option.split)
  show "user_byte (s\<lparr>cr3 := r\<rparr>) root w = user_byte s root w"
    by (simp add: user_byte_def arch_walk walk_translate_def e Let_def)
  show "page_is_user_accessible (s\<lparr>cr3 := r\<rparr>) root w nw \<longleftrightarrow> page_is_user_accessible s root w nw"
    by (simp add: page_is_user_accessible_leaf l)
qed

lemma demo_caller_stack:
  "user_tree (mach demo_caller) 0x14000" "target (mach demo_caller) = X86_64" "cr3 (mach demo_caller) = 0x14000"
  "unat stack_bottom \<le> unat w \<Longrightarrow> unat w < unat USER_STACK_TOP \<Longrightarrow>
     user_byte (mach demo_caller) 0x14000 w = Some 0 \<and> page_is_user_accessible (mach demo_caller) 0x14000 w True"
proof -
  have tree: "user_tree roomy_machine 0x14000"
    by (rule owned_tree_empty)
      (simp_all add: roomy_free page_aligned_def frame_of_def, simp_all add: roomy_machine_def pool_ok_def tracked_frames_def
        arch.absent_zero entry_def demo_machine_def read64_def u64_le_def upt_rec)
  have "entry roomy_machine t i = 0" for t i
    by (simp add: roomy_machine_def entry_def demo_machine_def read64_def u64_le_def upt_rec)
  then have none: "user_byte roomy_machine 0x14000 v = None" for v
    by (simp add: user_byte_def arch_walk walk_translate_def arch.absent_zero)
  obtain s where s: "allocate_user_stack 0x14000 roomy_machine = (Some USER_STACK_TOP, s)"
    using allocate_user_stack_succeeds [OF tree none] by (auto simp: roomy_free)
  note I = allocate_user_stack_image [OF tree s]
  have m: "mach demo_caller = s\<lparr>cr3 := 0x14000\<rparr>" by (simp add: demo_caller_def s boot_kernel_def Let_def)
  show "user_tree (mach demo_caller) 0x14000" using I(1) by (simp add: m)
  show "target (mach demo_caller) = X86_64" using I(2) by (simp add: m roomy_machine_def demo_machine_def)
  show "user_byte (mach demo_caller) 0x14000 w = Some 0 \<and> page_is_user_accessible (mach demo_caller) 0x14000 w True"
    if "unat stack_bottom \<le> unat w" "unat w < unat USER_STACK_TOP"
    using I(5) [OF that] by (simp add: m)
  show "cr3 (mach demo_caller) = 0x14000" by (simp add: m)
qed

lemma demo_caller_runs: "user_caller demo_caller 0x14000"
proof -
  have "current_task_access_info demo_caller = (0x14000, True)"
    by (simp add: current_task_access_info_def demo_caller_def boot_kernel_def Let_def MAX_TASKS_def)
  then show ?thesis using demo_caller_stack(1-3) by (simp add: user_caller_def runs_in_def active_root_def)
qed

lemma demo_caller_input: "queue_valid (input demo_caller)" "queue_content (input demo_caller) = [104, 105, 33]"
proof -
  have q: "input demo_caller = enqueue_byte 33 (enqueue_byte 105 (enqueue_byte 104 empty_queue))"
    by (simp add: demo_caller_def Let_def)
  note c = ring.valid_push ring.content_push queue_content_empty BUFFER_SIZE_def
  show "queue_valid (input demo_caller)" unfolding q by (simp add: c)
  show "queue_content (input demo_caller) = [104, 105, 33]" unfolding q by (simp add: c)
qed

lemma demo_caller_range:
  assumes "unat len \<le> 0x4000"
  shows "USER_SPACE_BASE \<le> stack_bottom" "range_bytes stack_bottom len \<subseteq> accessible_bytes (mach demo_caller) 0x14000 True"
    "unat stack_bottom + unat len \<le> 2 ^ 47"
proof -
  show "USER_SPACE_BASE \<le> stack_bottom"
    using stack_numbers(2) by (simp add: USER_SPACE_BASE_def word_le_nat_alt push_bit_eq_mult)
  show "range_bytes stack_bottom len \<subseteq> accessible_bytes (mach demo_caller) 0x14000 True"
    using demo_caller_stack(4) assms by (auto simp: range_bytes_def accessible_bytes_def stack_numbers)
  show "unat stack_bottom + unat len \<le> 2 ^ 47" using assms by (simp add: stack_numbers)
qed

lemma accessible_weaken: "accessible_bytes s root True \<subseteq> accessible_bytes s root False"
  by (auto simp: accessible_bytes_def page_is_user_accessible_leaf)

theorem sys_read_witness:
  "case sys_read 0 stack_bottom 2 demo_caller of (r, k') \<Rightarrow>
     r = Returned 2 \<and> queue_content (input k') = [33] \<and>
     user_byte (mach k') 0x14000 stack_bottom = Some 104 \<and> user_byte (mach k') 0x14000 (stack_bottom + 2) = Some 0"
proof -
  note R = demo_caller_range [of 2, simplified]
  have u: "unat (stack_bottom + 2) = unat stack_bottom + 2" by (subst unat_add_lt) (simp_all add: stack_numbers)
  have a: "user_addr stack_bottom" "user_addr (stack_bottom + 2)" by (simp_all add: user_addr_unat u stack_numbers)
  have z: "user_byte (mach demo_caller) 0x14000 (stack_bottom + 2) = Some 0"
    using demo_caller_stack(4) [of "stack_bottom + 2"] by (simp add: u stack_numbers)
  show ?thesis
    using sys_read_delivers_input [OF demo_caller_runs demo_caller_input(1), of 2 stack_bottom] R a z
    by (auto simp: demo_caller_input(2) Let_def u split: prod.splits)
qed

theorem sys_munmap_witness:
  "case sys_munmap stack_bottom 0x2000 demo_caller of (r, k') \<Rightarrow>
     r = Returned 0 \<and> user_byte (mach k') 0x14000 stack_bottom = None \<and>
     user_byte (mach k') 0x14000 (stack_bottom + 0x2000) = Some 0"
proof -
  note R = demo_caller_range [of "0x2000", simplified]
  have u: "unat (stack_bottom + 0x2000) = unat stack_bottom + 0x2000" by (subst unat_add_lt) (simp_all add: stack_numbers)
  have a: "user_addr stack_bottom" "user_addr (stack_bottom + 0x2000)" by (simp_all add: user_addr_unat u stack_numbers)
  have z: "user_byte (mach demo_caller) 0x14000 (stack_bottom + 0x2000) = Some 0"
    using demo_caller_stack(4) [of "stack_bottom + 0x2000"] by (simp add: u stack_numbers)
  have al: "stack_bottom AND 0xFFF = 0" by (simp add: stack_bottom_def USER_STACK_TOP_def USER_SPACE_BASE_def)
  have acc: "range_bytes stack_bottom 0x2000 \<subseteq> accessible_bytes (mach demo_caller) 0x14000 False"
    using R(2) accessible_weaken by blast
  obtain r k' where run: "sys_munmap stack_bottom 0x2000 demo_caller = (r, k')" by fastforce
  have "r = Returned 0 \<and> range_unmapped 0x14000 (unat stack_bottom) (unat stack_bottom + 0x2000) (mach demo_caller) (mach k')"
    using sys_munmap_releases_range [OF demo_caller_runs, of stack_bottom "0x2000"] R(1,3) al acc by (simp add: run)
  then show ?thesis using a z u by (simp add: run range_unmapped_def)
qed

theorem noncanonical_pointer_witness:
  "fst (sys_read 0 (stack_bottom + 0x1000000000000) 1 demo_caller) = Faulted"
proof -
  have "user_addr stack_bottom" by (simp add: user_addr_unat stack_numbers)
  then show ?thesis
    using noncanonical_pointer_faults [OF demo_caller_runs demo_caller_stack(2) _ _ demo_caller_input(1), of stack_bottom]
      demo_caller_stack(4) [of stack_bottom] by (simp add: demo_caller_input(2) stack_numbers)
qed

end
