(* ===== verification/Tar.thy ===== *)
theory Tar
  imports Text
begin

text \<open>
  The tar ramdisk (\<^verbatim>\<open>ramdisk.rs\<close>): header fields, the iterator over the members of an archive and the
  search by name. An archive is the byte slice it occupies; offsets are 64-bit.
\<close>

section \<open>Headers\<close>

record UstarHeader =
  h_name :: bytes
  h_mode :: bytes
  h_uid :: bytes
  h_gid :: bytes
  h_size :: bytes
  h_mtime :: bytes
  h_checksum :: bytes
  h_typeflag :: u8
  h_linkname :: bytes
  h_magic :: bytes
  h_version :: bytes
  h_uname :: bytes
  h_gname :: bytes
  h_devmajor :: bytes
  h_devminor :: bytes
  h_prefix :: bytes
  h_pad :: bytes

text \<open>The cast of 512 bytes to a header.\<close>

definition ustar_header :: "bytes \<Rightarrow> UstarHeader" where
  "ustar_header b =
     \<lparr>h_name = take 100 b, h_mode = take 8 (drop 100 b), h_uid = take 8 (drop 108 b), h_gid = take 8 (drop 116 b),
      h_size = take 12 (drop 124 b), h_mtime = take 12 (drop 136 b), h_checksum = take 8 (drop 148 b),
      h_typeflag = b ! 156, h_linkname = take 100 (drop 157 b), h_magic = take 6 (drop 257 b),
      h_version = take 2 (drop 263 b), h_uname = take 32 (drop 265 b), h_gname = take 32 (drop 297 b),
      h_devmajor = take 8 (drop 329 b), h_devminor = take 8 (drop 337 b), h_prefix = take 155 (drop 345 b),
      h_pad = take 12 (drop 500 b)\<rparr>"

fun parse_octal :: "usize \<Rightarrow> bytes \<Rightarrow> usize" where
  "parse_octal size_acc [] = size_acc"
| "parse_octal size_acc (b # bs) =
     (if b = 0 \<or> b = 32 then size_acc
      else if 48 \<le> b \<and> b \<le> 55 then parse_octal (push_bit 3 size_acc OR ucast (b - 48)) bs
      else parse_octal size_acc bs)"

definition file_size :: "UstarHeader \<Rightarrow> usize" where
  "file_size h = parse_octal 0 (h_size h)"

definition filename :: "UstarHeader \<Rightarrow> bytes" where
  "filename h =
     (let s = takeWhile (\<lambda>b. b \<noteq> 0) (h_name h)
      in if utf8_valid s then s else ascii ''<invalid utf8>'')"

definition header_is_valid :: "UstarHeader \<Rightarrow> bool" where
  "header_is_valid h \<longleftrightarrow> h_magic h = ascii ''ustar'' @ [0] \<or> h_magic h = ascii ''ustar ''"

section \<open>Members\<close>

record FileEntry =
  fe_name :: bytes
  fe_size :: usize
  fe_data :: bytes
  fe_typeflag :: u8

definition is_file :: "FileEntry \<Rightarrow> bool" where
  "is_file e \<longleftrightarrow> fe_typeflag e = 0 \<or> fe_typeflag e = 48"

definition is_dir :: "FileEntry \<Rightarrow> bool" where
  "is_dir e \<longleftrightarrow> fe_typeflag e = 53"

definition as_text :: "FileEntry \<Rightarrow> bytes option" where
  "as_text e = (if utf8_valid (fe_data e) then Some (fe_data e) else None)"

definition tar_new :: "bytes \<Rightarrow> bytes option" where
  "tar_new data = (if length data < 512 \<or> \<not> header_is_valid (ustar_header data) then None else Some data)"

text \<open>One step of the iterator: the member at an offset and the offset of the next one.\<close>

definition tar_next :: "bytes \<Rightarrow> usize \<Rightarrow> FileEntry option \<times> usize" where
  "tar_next data offset =
     (if \<not> unat (offset + 512) \<le> length data then (None, offset)
      else let header = ustar_header (take 512 (drop (unat offset) data))
      in if h_name header ! 0 = 0 then (None, offset)
         else if \<not> header_is_valid header then (None, offset)
         else let sz = file_size header;
                  data_start = offset + 512;
                  padded_size = (sz + 511) AND NOT 511;
                  offset' = data_start + padded_size;
                  payload = (if unat (data_start + sz) \<le> length data
                             then take (unat sz) (drop (unat data_start) data) else [])
         in (Some \<lparr>fe_name = filename header, fe_size = sz, fe_data = payload, fe_typeflag = h_typeflag header\<rparr>, offset'))"

partial_function (option) find_member :: "bytes \<Rightarrow> bytes \<Rightarrow> usize \<Rightarrow> FileEntry option option" where
  "find_member data target_name offset =
     (case tar_next data offset of
        (None, _) \<Rightarrow> Some None
      | (Some e, offset') \<Rightarrow> if fe_name e = target_name then Some (Some e) else find_member data target_name offset')"

definition tar_find :: "bytes \<Rightarrow> bytes \<Rightarrow> FileEntry option option" where
  "tar_find data target_name = find_member data target_name 0"

section \<open>Octal numbers\<close>

lemma or_octal:
  fixes acc d :: usize
  assumes "unat d < 8" "unat acc < 2 ^ 61"
  shows "push_bit 3 acc OR d = acc * 8 + d" "unat (push_bit 3 acc OR d) = unat acc * 8 + unat d"
proof -
  have d: "d = take_bit 3 d" using assms(1)
    by (simp add: word_unat_eq_iff unsigned_take_bit_eq take_bit_nat_eq_self)
  have "\<not> bit (push_bit 3 acc) i \<or> \<not> bit d i" for i
    by (subst d) (auto simp: bit_push_bit_iff bit_take_bit_iff)
  then have "push_bit 3 acc + d = push_bit 3 acc OR d"
    by (intro disjunctive_add) (auto simp: bit_eq_iff bit_and_iff)
  then show o: "push_bit 3 acc OR d = acc * 8 + d" by (simp add: push_bit_eq_mult)
  show "unat (push_bit 3 acc OR d) = unat acc * 8 + unat d"
    unfolding o using assms by (simp add: unat_word_ariths)
qed

lemma octal_digit:
  fixes acc :: usize
  assumes "48 \<le> b" "b \<le> (55 :: u8)" "unat acc < 8 ^ k" "k \<le> 20"
  shows "unat (push_bit 3 acc OR ucast (b - 48)) = unat acc * 8 + (unat b - 48)"
    "unat (push_bit 3 acc OR ucast (b - 48)) < 8 ^ Suc k"
proof -
  have b: "unat b - 48 < 8" "unat (ucast (b - 48) :: usize) = unat b - 48"
    using assms(1,2) by (simp_all add: word_le_nat_alt unat_sub unsigned_ucast_eq take_bit_nat_eq_self)
  have "(8 :: nat) ^ k \<le> 8 ^ 20" using assms(4) by (intro power_increasing) simp_all
  then have "unat acc < 2 ^ 61" using assms(3) by simp
  then show eq: "unat (push_bit 3 acc OR ucast (b - 48)) = unat acc * 8 + (unat b - 48)"
    using or_octal(2) [of "ucast (b - 48)" acc] b by simp
  have "unat acc + 1 \<le> 8 ^ k" using assms(3) by simp
  then have "8 * (unat acc + 1) \<le> 8 * 8 ^ k" by (rule mult_le_mono2)
  then show "unat (push_bit 3 acc OR ucast (b - 48)) < 8 ^ Suc k" unfolding eq using b(1) by simp
qed

lemma parse_octal_bound: "unat acc < 8 ^ k \<Longrightarrow> k + length bs \<le> 20 \<Longrightarrow> unat (parse_octal acc bs) < 8 ^ (k + length bs)"
proof (induction bs arbitrary: acc k)
  case (Cons b bs)
  have mono: "x < 8 ^ (k + length bs) \<Longrightarrow> x < 8 ^ (k + length (b # bs))" for x :: nat
    by (erule less_le_trans) simp
  show ?case
  proof (cases "b = 0 \<or> b = 32")
    case True
    have "unat acc < 8 ^ (k + length (b # bs))" using Cons.prems(1) by (rule less_le_trans) (intro power_increasing, simp_all)
    with True show ?thesis by auto
  next
    case digit: False
    show ?thesis
    proof (cases "48 \<le> b \<and> b \<le> 55")
      case True
      have "unat (push_bit 3 acc OR ucast (b - 48)) < 8 ^ Suc k"
        by (rule octal_digit(2)) (use Cons.prems True in auto)
      then show ?thesis using Cons.IH [of _ "Suc k"] digit True Cons.prems(2) by auto
    next
      case False
      then show ?thesis using Cons.IH [OF Cons.prems(1)] mono digit Cons.prems(2) by auto
    qed
  qed
qed simp

lemma file_size_bound: "unat (file_size (ustar_header b)) < 2 ^ 36"
proof -
  have "unat (parse_octal 0 (take 12 (drop 124 b))) < 8 ^ (0 + length (take 12 (drop 124 b)))"
    by (rule parse_octal_bound) simp_all
  also have "\<dots> \<le> 8 ^ 12" by (intro power_increasing) simp_all
  finally show ?thesis by (simp add: file_size_def ustar_header_def)
qed

section \<open>The iterator\<close>

lemma padded_size:
  assumes "unat sz < 2 ^ 36"
  shows "unat ((sz + 511) AND NOT 511 :: usize) = (unat sz + 511) div 512 * 512"
proof -
  have u: "unat (sz + 511) = unat sz + 511" using assms by (subst unat_add_lt) simp_all
  have "(sz + 511) AND NOT 511 = (sz + 511) AND NOT (mask 9)" by (simp add: mask_numeral)
  also have "\<dots> = push_bit 9 (drop_bit 9 (sz + 511))" by (rule bit_word_eqI) (auto simp: bit_simps)
  finally show ?thesis
    using assms by (simp add: unsigned_push_bit_eq unsigned_drop_bit_eq u push_bit_eq_mult drop_bit_eq_div
        take_bit_nat_eq_self_iff unat_word_ariths)
qed

text \<open>Every step that yields a member advances, so the search returns on every archive that fits in memory.\<close>

lemma tar_next_advances:
  assumes "tar_next data offset = (Some e, offset')" "length data < 2 ^ 63" "unat offset < 2 ^ 63 + 2 ^ 37"
  shows "unat offset < unat offset'" "unat offset' < 2 ^ 63 + 2 ^ 37"
proof -
  have o: "unat (offset + 512) = unat offset + 512" using assms(3) by (subst unat_add_lt) simp_all
  have c: "unat (offset + 512) \<le> length data" using assms(1) by (auto simp: tar_next_def split: if_splits)
  define sz where "sz = file_size (ustar_header (take 512 (drop (unat offset) data)))"
  define pd where "pd = (sz + 511) AND NOT 511"
  have sz: "unat sz < 2 ^ 36" unfolding sz_def by (rule file_size_bound)
  have pd: "unat pd \<le> unat sz + 511" unfolding pd_def padded_size [OF sz] by simp
  have "offset' = offset + 512 + pd"
    using assms(1) by (auto simp: tar_next_def Let_def sz_def pd_def split: if_splits)
  moreover have "unat (offset + 512 + pd) = unat (offset + 512) + unat pd"
    by (rule unat_add_lt) (use pd sz c assms(2) in simp)
  ultimately show "unat offset < unat offset'" "unat offset' < 2 ^ 63 + 2 ^ 37"
    using pd sz c o assms(2) by simp_all
qed

lemma find_member_returns:
  assumes "length data < 2 ^ 63"
  shows "unat offset < 2 ^ 63 + 2 ^ 37 \<Longrightarrow> \<exists>r. find_member data target offset = Some r"
proof (induction "2 ^ 64 - unat offset" arbitrary: offset rule: less_induct)
  case less
  obtain m offset' where n: "tar_next data offset = (m, offset')" by fastforce
  show ?case
  proof (cases m)
    case None
    then show ?thesis by (subst find_member.simps) (simp add: n)
  next
    case (Some e)
    note A = tar_next_advances [OF n [unfolded Some] assms less.prems]
    have "\<exists>r. find_member data target offset' = Some r"
      using less.hyps [OF _ A(2)] A(1) unsigned_less [of offset', where ?'a = nat] by simp
    then show ?thesis using Some n by (subst find_member.simps) simp
  qed
qed

section \<open>Archives\<close>

text \<open>An archive as an archiver writes it: per member a header block, the contents and zeros up to the next
  block boundary; two zero blocks at the end.\<close>

fun octal :: "nat \<Rightarrow> nat \<Rightarrow> bytes" where
  "octal 0 n = []"
| "octal (Suc k) n = octal k (n div 8) @ [word_of_nat (48 + n mod 8)]"

record member =
  m_name :: bytes
  m_type :: u8
  m_data :: bytes

definition ustar_block :: "member \<Rightarrow> bytes" where
  "ustar_block m =
     (m_name m @ replicate (100 - length (m_name m)) 0) @ replicate 24 0 @ (octal 11 (length (m_data m)) @ [0]) @
     replicate 20 0 @ [m_type m] @ replicate 100 0 @ (ascii ''ustar'' @ [0]) @ replicate 249 0"

definition padding :: "nat \<Rightarrow> nat" where
  "padding n = (n + 511) div 512 * 512 - n"

definition archive_member :: "member \<Rightarrow> bytes" where
  "archive_member m = ustar_block m @ m_data m @ replicate (padding (length (m_data m))) 0"

definition archive :: "member list \<Rightarrow> bytes" where
  "archive ms = concat (map archive_member ms) @ replicate 1024 0"

definition member_ok :: "member \<Rightarrow> bool" where
  "member_ok m \<longleftrightarrow> m_name m \<noteq> [] \<and> length (m_name m) \<le> 100 \<and> 0 \<notin> set (m_name m) \<and> utf8_valid (m_name m) \<and>
     length (m_data m) < 8 ^ 11"

definition member_entry :: "member \<Rightarrow> FileEntry" where
  "member_entry m = \<lparr>fe_name = m_name m, fe_size = word_of_nat (length (m_data m)), fe_data = m_data m, fe_typeflag = m_type m\<rparr>"

lemma length_octal [simp]: "length (octal k n) = k"
  by (induction k arbitrary: n) simp_all

lemma parse_octal_octal:
  "n < 8 ^ k \<Longrightarrow> unat acc < 8 ^ j \<Longrightarrow> j + k \<le> 20 \<Longrightarrow>
     parse_octal acc (octal k n @ rest) = parse_octal (word_of_nat (unat acc * 8 ^ k + n)) rest"
proof (induction k arbitrary: n rest)
  case (Suc k)
  let ?m = "unat acc * 8 ^ k + n div 8" and ?d = "word_of_nat (48 + n mod 8) :: u8"
  have "48 + n mod 8 < 256" by simp
  then have d: "unat ?d = 48 + n mod 8" by (simp add: unat_of_nat take_bit_nat_eq_self del: of_nat_add)
  then have dig: "48 \<le> ?d" "?d \<le> 55" "\<not> (?d = 0 \<or> ?d = 32)"
    by (auto simp: word_le_nat_alt word_unat_eq_iff)
  have nd: "n div 8 < 8 ^ k" using Suc.prems(1) by (simp add: less_mult_imp_div_less mult.commute)
  have "unat acc * 8 ^ k + n div 8 < (unat acc + 1) * 8 ^ k" using nd by simp
  also have "\<dots> \<le> 8 ^ j * 8 ^ k" using Suc.prems(2) by (intro mult_le_mono1) simp
  finally have m: "?m < 8 ^ (j + k)" by (simp add: power_add)
  also have "(8 :: nat) ^ (j + k) \<le> 8 ^ 20" using Suc.prems(3) by (intro power_increasing) simp_all
  finally have um: "unat (word_of_nat ?m :: usize) = ?m"
    by (simp add: unat_of_nat take_bit_nat_eq_self del: of_nat_add of_nat_mult)
  have "unat (push_bit 3 (word_of_nat ?m) OR ucast (?d - 48) :: usize) = ?m * 8 + n mod 8"
    using octal_digit(1) [OF dig(1,2), of "word_of_nat ?m" "j + k"] m um d Suc.prems(3) by simp
  also have "\<dots> = unat acc * 8 ^ Suc k + n" by (simp add: algebra_simps)
  finally have "push_bit 3 (word_of_nat ?m) OR ucast (?d - 48) = (word_of_nat (unat acc * 8 ^ Suc k + n) :: usize)"
    by (metis of_nat_unat ucast_id)
  moreover have "parse_octal acc (octal (Suc k) n @ rest) = parse_octal (word_of_nat ?m) (?d # rest)"
    using Suc.IH [OF nd Suc.prems(2)] Suc.prems(3) by simp
  ultimately show ?case using dig by simp
qed simp

lemma length_ustar_block [simp]: "member_ok m \<Longrightarrow> length (ustar_block m) = 512"
  by (simp add: ustar_block_def member_ok_def ascii_def)

lemma ustar_block_fields:
  assumes "member_ok m"
  shows "h_name (ustar_header (ustar_block m)) = m_name m @ replicate (100 - length (m_name m)) 0"
    "h_size (ustar_header (ustar_block m)) = octal 11 (length (m_data m)) @ [0]"
    "h_typeflag (ustar_header (ustar_block m)) = m_type m"
    "h_magic (ustar_header (ustar_block m)) = ascii ''ustar'' @ [0]"
proof -
  have l: "length (m_name m) \<le> 100" using assms by (simp add: member_ok_def)
  show "h_name (ustar_header (ustar_block m)) = m_name m @ replicate (100 - length (m_name m)) 0"
    "h_size (ustar_header (ustar_block m)) = octal 11 (length (m_data m)) @ [0]"
    "h_typeflag (ustar_header (ustar_block m)) = m_type m"
    "h_magic (ustar_header (ustar_block m)) = ascii ''ustar'' @ [0]"
    using l by (auto simp: ustar_header_def ustar_block_def ascii_def nth_append simp del: octal.simps)
qed

lemma ustar_block_header:
  assumes "member_ok m"
  shows "filename (ustar_header (ustar_block m)) = m_name m" "header_is_valid (ustar_header (ustar_block m))"
    "file_size (ustar_header (ustar_block m)) = word_of_nat (length (m_data m))" "h_name (ustar_header (ustar_block m)) ! 0 \<noteq> 0"
proof -
  note F = ustar_block_fields [OF assms]
  have n: "m_name m \<noteq> []" "0 \<notin> set (m_name m)" "utf8_valid (m_name m)" "length (m_data m) < 8 ^ 11"
    using assms by (simp_all add: member_ok_def)
  have "takeWhile (\<lambda>b. b \<noteq> 0) (m_name m @ replicate (100 - length (m_name m)) 0) = m_name m"
    using n(2) by (subst takeWhile_append2) (auto simp: takeWhile_replicate)
  then show "filename (ustar_header (ustar_block m)) = m_name m" using n(3) by (simp add: filename_def F Let_def)
  show "header_is_valid (ustar_header (ustar_block m))" by (simp add: header_is_valid_def F)
  show "file_size (ustar_header (ustar_block m)) = word_of_nat (length (m_data m))"
    unfolding file_size_def F using parse_octal_octal [OF n(4), of 0 0 "[0]"] by simp
  show "h_name (ustar_header (ustar_block m)) ! 0 \<noteq> 0"
    unfolding F using n(1,2) by (cases "m_name m") auto
qed

lemma tar_next_member:
  assumes m: "member_ok m" and data: "data = pre @ archive_member m @ post" "length data < 2 ^ 63" and off: "unat offset = length pre"
  shows "\<exists>offset'. tar_next data offset = (Some (member_entry m), offset') \<and> unat offset' = length pre + length (archive_member m)"
proof -
  note H = ustar_block_header [OF m]
  define n where "n = length (m_data m)"
  have n: "n < 8 ^ 11" using m by (simp add: n_def member_ok_def)
  have pad: "n + padding n = (n + 511) div 512 * 512"
  proof -
    have "n < (n + 511) div 512 * 512 + 512 - 511" by (simp add: dividend_less_div_times algebra_simps)
    then show ?thesis unfolding padding_def by linarith
  qed
  have len: "length (archive_member m) = 512 + (n + 511) div 512 * 512"
    using m pad by (simp add: archive_member_def n_def)
  have tot: "length pre + 512 + n + padding n \<le> length data" using data(1) m by (simp add: archive_member_def n_def)
  have blk: "take 512 (drop (unat offset) data) = ustar_block m"
    using m by (simp add: data(1) off archive_member_def)
  have o: "unat (offset + 512) = length pre + 512"
    using tot data(2) off by (subst unat_add_lt) simp_all
  have sz: "unat (word_of_nat n :: usize) = n" using n by (simp add: unat_of_nat take_bit_nat_eq_self)
  have os: "unat (offset + 512 + word_of_nat n) = length pre + 512 + n"
    using tot data(2) o sz by (subst unat_add_lt) simp_all
  have pl: "take n (drop (length pre + 512) data) = m_data m"
    using m by (simp add: data(1) archive_member_def n_def)
  have "unat (offset + 512 + ((word_of_nat n + 511) AND NOT 511)) = length pre + length (archive_member m)"
    using tot data(2) o sz n padded_size [of "word_of_nat n"] pad by (subst unat_add_lt) (simp_all add: len)
  moreover have "tar_next data offset = (Some (member_entry m), offset + 512 + ((word_of_nat n + 511) AND NOT 511))"
    using tot H ustar_block_fields(3) [OF m] pl
    by (simp add: tar_next_def blk o os sz member_entry_def n_def [symmetric] Let_def)
  ultimately show ?thesis by blast
qed

lemma find_member_archive:
  assumes "\<forall>m \<in> set ms. member_ok m" "length (pre @ archive ms) < 2 ^ 63" "unat offset = length pre"
  shows "find_member (pre @ archive ms) target offset = Some (map_option member_entry (find (\<lambda>m. m_name m = target) ms))"
  using assms
proof (induction ms arbitrary: pre offset)
  case Nil
  have "unat (offset + 512) = length pre + 512"
    using Nil.prems(2,3) by (subst unat_add_lt) (simp_all add: archive_def)
  moreover have "take 512 (drop (length pre) (pre @ archive [])) = replicate 512 0" by (simp add: archive_def)
  ultimately have "tar_next (pre @ archive []) offset = (None, offset)"
    using Nil.prems(3) by (simp add: tar_next_def ustar_header_def)
  then show ?case by (subst find_member.simps) simp
next
  case (Cons m ms)
  have split: "pre @ archive (m # ms) = pre @ archive_member m @ archive ms" by (simp add: archive_def)
  obtain offset' where n: "tar_next (pre @ archive (m # ms)) offset = (Some (member_entry m), offset')"
    "unat offset' = length (pre @ archive_member m)"
    using tar_next_member [of m "pre @ archive (m # ms)" pre "archive ms" offset] Cons.prems split by auto
  show ?case
  proof (cases "m_name m = target")
    case True
    then show ?thesis by (subst find_member.simps) (simp add: n(1) member_entry_def)
  next
    case False
    have "find_member ((pre @ archive_member m) @ archive ms) target offset' = Some (map_option member_entry (find (\<lambda>m. m_name m = target) ms))"
      using Cons.IH [of "pre @ archive_member m" offset'] Cons.prems(1,2) n(2) split by simp
    then show ?thesis using False by (subst find_member.simps) (simp add: n(1) [unfolded split] member_entry_def split)
  qed
qed

section \<open>Properties\<close>

lemma tar_new_archive:
  assumes "ms \<noteq> []" "\<forall>m \<in> set ms. member_ok m"
  shows "tar_new (archive ms) = Some (archive ms)"
proof -
  obtain m ms' where ms: "ms = m # ms'" using assms(1) by (cases ms) auto
  have m: "member_ok m" using assms(2) ms by simp
  have a: "archive ms = ustar_block m @ (m_data m @ replicate (padding (length (m_data m))) 0 @ archive ms')"
    by (simp add: archive_def archive_member_def ms)
  have "h_magic (ustar_header (archive ms)) = h_magic (ustar_header (ustar_block m))"
    using m unfolding a by (simp add: ustar_header_def)
  then show ?thesis
    using ustar_block_header(2) [OF m] m by (simp add: tar_new_def header_is_valid_def a)
qed

text \<open>C28: Reading back an archive: on an archive that holds well-formed members (a name of 1 to 100 bytes without a
  zero byte, contents below 8 GiB), the search by name returns, and gives the first member of that name
  with its exact contents and type, or nothing if no member has it; a non-empty archive is accepted.\<close>
theorem tar_find_reads_archive:
  assumes "\<forall>m \<in> set ms. member_ok m" "length (archive ms) < 2 ^ 63"
  shows "tar_find (archive ms) target = Some (map_option member_entry (find (\<lambda>m. m_name m = target) ms)) \<and>
    (ms \<noteq> [] \<longrightarrow> tar_new (archive ms) = Some (archive ms))"
proof
  show "tar_find (archive ms) target = Some (map_option member_entry (find (\<lambda>m. m_name m = target) ms))"
    using find_member_archive [of ms "[]" 0 target] assms by (simp add: tar_find_def)
  show "ms \<noteq> [] \<longrightarrow> tar_new (archive ms) = Some (archive ms)"
    using tar_new_archive assms(1) by blast
qed

definition demo_members :: "member list" where
  "demo_members = [\<lparr>m_name = ascii ''bin'', m_type = 53, m_data = []\<rparr>, \<lparr>m_name = ascii ''motd'', m_type = 48, m_data = ascii ''hello''\<rparr>]"

theorem tar_find_reads_archive_witness:
  "tar_find (archive demo_members) (ascii ''motd'') =
     Some (Some \<lparr>fe_name = ascii ''motd'', fe_size = 5, fe_data = ascii ''hello'', fe_typeflag = 48\<rparr>) \<and>
   tar_find (archive demo_members) (ascii ''etc'') = Some None"
proof -
  have ok: "\<forall>m \<in> set demo_members. member_ok m"
    by (simp add: demo_members_def member_ok_def ascii_def of_char_of)
  have len: "length (archive demo_members) < 2 ^ 63"
    by (simp add: archive_def archive_member_def demo_members_def ustar_block_def padding_def ascii_def)
  show ?thesis
    using tar_find_reads_archive [OF ok len, of "ascii ''motd''"] tar_find_reads_archive [OF ok len, of "ascii ''etc''"]
    by (simp add: demo_members_def member_entry_def ascii_def)
qed

end
