(* ===== verification/Block.thy ===== *)
theory Block
  imports Text
begin

text \<open>
  Block devices (\<^verbatim>\<open>block.rs\<close>). A \<open>Box<dyn BlockDevice>\<close> is a device state together with the operations
  of its type, the record \<open>block_ops\<close>; the RAM disk and the partition adapter are two such records. The
  locale states what a file system relies on: a read returns the sector's bytes of the device's
  content and leaves the content alone, a write changes that sector only.
\<close>

definition SECTOR_SIZE :: nat where
  "SECTOR_SIZE = 512"

record 'd block_ops =
  read_sector :: "usize \<Rightarrow> 'd \<Rightarrow> (string, bytes) outcome \<times> 'd"
  write_sector :: "usize \<Rightarrow> bytes \<Rightarrow> 'd \<Rightarrow> (string, unit) outcome \<times> 'd"
  sector_size :: "'d \<Rightarrow> nat"

section \<open>The RAM disk\<close>

text \<open>The offset of a sector wraps at 64 bits; a range that wraps is an out-of-range slice.\<close>

definition ram_new :: "nat \<Rightarrow> bytes" where
  "ram_new size_in_sectors = replicate (size_in_sectors * SECTOR_SIZE) 0"

definition ram_read_sector :: "usize \<Rightarrow> bytes \<Rightarrow> (string, bytes) outcome \<times> bytes" where
  "ram_read_sector sector_id data =
     (let start = sector_id * word_of_nat SECTOR_SIZE;
          fin = start + word_of_nat SECTOR_SIZE
      in if unat fin > length data then (Err ''Block read out of bounds'', data)
         else case slice data (unat start) (unat fin) of
                None \<Rightarrow> (Panic, data)
              | Some s \<Rightarrow> (Ok s, data))"

definition ram_write_sector :: "usize \<Rightarrow> bytes \<Rightarrow> bytes \<Rightarrow> (string, unit) outcome \<times> bytes" where
  "ram_write_sector sector_id buf data =
     (let start = sector_id * word_of_nat SECTOR_SIZE;
          fin = start + word_of_nat SECTOR_SIZE
      in if unat fin > length data then (Err ''Block write out of bounds'', data)
         else case slice data (unat start) (unat fin) of
                None \<Rightarrow> (Panic, data)
              | Some s \<Rightarrow> (Ok (), take (unat start) data @ buf @ drop (unat fin) data))"

definition ram_ops :: "bytes block_ops" where
  "ram_ops = \<lparr>read_sector = ram_read_sector, write_sector = ram_write_sector, sector_size = (\<lambda>_. SECTOR_SIZE)\<rparr>"

section \<open>The partition adapter\<close>

definition partition_ops :: "'d block_ops \<Rightarrow> usize \<Rightarrow> 'd block_ops" where
  "partition_ops inner lba_offset =
     \<lparr>read_sector = (\<lambda>sector_id. read_sector inner (sector_id + lba_offset)),
      write_sector = (\<lambda>sector_id. write_sector inner (sector_id + lba_offset)),
      sector_size = sector_size inner\<rparr>"

section \<open>What a file system relies on\<close>

definition sector_bytes :: "bytes \<Rightarrow> nat \<Rightarrow> bytes" where
  "sector_bytes content n = take 512 (drop (n * 512) content)"

definition put_sector :: "bytes \<Rightarrow> nat \<Rightarrow> bytes \<Rightarrow> bytes" where
  "put_sector content n buf = take (n * 512) content @ buf @ drop (n * 512 + 512) content"

text \<open>The number of whole sectors of a content.\<close>

definition sectors :: "bytes \<Rightarrow> nat" where
  "sectors content = length content div 512"

lemma length_sector_bytes: "n < sectors content \<Longrightarrow> length (sector_bytes content n) = 512"
proof -
  assume "n < sectors content"
  then have "Suc n * 512 \<le> length content" unfolding sectors_def by (metis Suc_leI div_times_less_eq_dividend mult_le_mono1 order.trans)
  then show ?thesis by (simp add: sector_bytes_def)
qed

lemma sector_in_range: "n < sectors content \<longleftrightarrow> n * 512 + 512 \<le> length content"
  by (auto simp: sectors_def)

lemma sector_put_same: "n < sectors content \<Longrightarrow> length buf = 512 \<Longrightarrow> sector_bytes (put_sector content n buf) n = buf"
  by (simp add: sector_bytes_def put_sector_def sector_in_range)

lemma sector_put_other:
  assumes "m \<noteq> n" "n < sectors content" "m < sectors content" "length buf = 512"
  shows "sector_bytes (put_sector content n buf) m = sector_bytes content m"
proof (cases "m < n")
  case True
  then have "m * 512 + 512 \<le> n * 512" by simp
  moreover from this have "512 \<le> length (drop (m * 512) (take (n * 512) content))" using assms(2) by (simp add: sector_in_range)
  ultimately show ?thesis
    unfolding sector_bytes_def put_sector_def drop_append take_append by (simp add: drop_take sector_in_range)
next
  case False
  then obtain k where m: "m = Suc n + k" using assms(1) by (metis less_imp_Suc_add linorder_neqE_nat add_Suc)
  then show ?thesis using assms(2,4) by (simp add: sector_bytes_def put_sector_def sector_in_range algebra_simps)
qed

lemma put_sector_restore:
  assumes "n < sectors content" "length buf = 512"
  shows "put_sector (put_sector content n buf) n (sector_bytes content n) = content"
proof -
  have "n * 512 + 512 \<le> length content" using assms(1) by (simp add: sector_in_range)
  then have "put_sector (put_sector content n buf) n (sector_bytes content n) =
      take (n * 512) content @ take 512 (drop (n * 512) content) @ drop 512 (drop (n * 512) content)"
    using assms(2) by (simp add: put_sector_def sector_bytes_def add.commute)
  also have "\<dots> = content" by (simp only: append_take_drop_id)
  finally show ?thesis .
qed

lemma length_put_sector: "n < sectors content \<Longrightarrow> length buf = 512 \<Longrightarrow> length (put_sector content n buf) = length content"
  by (simp add: put_sector_def sector_in_range)

lemma sectors_put [simp]: "n < sectors content \<Longrightarrow> length buf = 512 \<Longrightarrow> sectors (put_sector content n buf) = sectors content"
  by (simp add: sectors_def [of "put_sector _ _ _"] length_put_sector) (simp add: sectors_def)

lemma sectors_drop [simp]: "sectors (drop (k * 512) content) = sectors content - k"
  by (simp add: sectors_def)

lemma sector_bytes_drop: "sector_bytes (drop (k * 512) content) n = sector_bytes content (n + k)"
  by (simp add: sector_bytes_def add_mult_distrib add.commute)

lemma put_sector_drop:
  "n + k < sectors content \<Longrightarrow> drop (k * 512) (put_sector content (n + k) buf) = put_sector (drop (k * 512) content) n buf"
  by (simp add: put_sector_def sector_in_range drop_take algebra_simps)

text \<open>A content put together from sectors.\<close>

lemma drop_concat_sectors: "list_all (\<lambda>s. length s = 512) ss \<Longrightarrow> n \<le> length ss \<Longrightarrow> drop (n * 512) (concat ss) = concat (drop n ss)"
proof (induction n arbitrary: ss)
  case (Suc n)
  then show ?case by (cases ss) (simp_all add: drop_append)
qed simp

lemma sector_bytes_concat:
  assumes "list_all (\<lambda>s. length s = 512) ss" "n < length ss"
  shows "sector_bytes (concat ss) n = ss ! n"
proof -
  have "drop (n * 512) (concat ss) = ss ! n @ concat (drop (Suc n) ss)"
    using assms drop_concat_sectors [of ss n] by (simp add: Cons_nth_drop_Suc [symmetric])
  then show ?thesis using assms by (simp add: sector_bytes_def list_all_length)
qed

lemma sectors_concat: "list_all (\<lambda>s. length s = 512) ss \<Longrightarrow> sectors (concat ss) = length ss"
  by (induction ss) (simp_all add: sectors_def)

locale block_device =
  fixes ops :: "'d block_ops"
    and content :: "'d \<Rightarrow> bytes"
    and valid :: "'d \<Rightarrow> bool"
  assumes bound: "valid d \<Longrightarrow> sectors (content d) < 2 ^ 64"
    and read_law: "valid d \<Longrightarrow> unat n < sectors (content d) \<Longrightarrow>
      \<exists>d'. read_sector ops n d = (Ok (sector_bytes (content d) (unat n)), d') \<and> valid d' \<and> content d' = content d"
    and write_law: "valid d \<Longrightarrow> unat n < sectors (content d) \<Longrightarrow> length buf = 512 \<Longrightarrow>
      \<exists>d'. write_sector ops n buf d = (Ok (), d') \<and> valid d' \<and> content d' = put_sector (content d) (unat n) buf"
begin

lemma read_after_write:
  assumes "valid d" "unat n < sectors (content d)" "unat m < sectors (content d)" "length buf = 512"
  shows "fst (read_sector ops m (snd (write_sector ops n buf d))) = Ok (if m = n then buf else sector_bytes (content d) (unat m))"
proof -
  obtain d1 where w: "write_sector ops n buf d = (Ok (), d1)" "valid d1" "content d1 = put_sector (content d) (unat n) buf"
    using write_law [OF assms(1,2,4)] by blast
  have "unat m < sectors (content d1)" using w(3) assms by simp
  then obtain d2 where "read_sector ops m d1 = (Ok (sector_bytes (content d1) (unat m)), d2)" using read_law [OF w(2)] by blast
  then show ?thesis using w assms sector_put_same sector_put_other [of "unat m" "unat n"]
    by (auto simp: word_unat_eq_iff [of m n])
qed

text \<open>The partition adapter of a device that keeps the contract keeps it too, on the content behind its first sector.\<close>

lemma partition_contract:
  "block_device (partition_ops ops off) (\<lambda>d. drop (unat off * 512) (content d)) valid"
proof
  show "sectors (drop (unat off * 512) (content d)) < 2 ^ 64" if "valid d" for d
    using bound [OF that] by simp
  have at: "unat (n + off) = unat n + unat off" "unat (n + off) < sectors (content d)"
    if "valid d" "unat n < sectors (drop (unat off * 512) (content d))" for d n
  proof -
    have "unat n + unat off < sectors (content d)" using that(2) by simp
    moreover from this bound [OF that(1)] have "unat n + unat off < 2 ^ 64" by simp
    ultimately show "unat (n + off) = unat n + unat off" "unat (n + off) < sectors (content d)"
      by (simp_all add: unat_add_lt)
  qed
  show "\<exists>d'. read_sector (partition_ops ops off) n d = (Ok (sector_bytes (drop (unat off * 512) (content d)) (unat n)), d') \<and>
      valid d' \<and> drop (unat off * 512) (content d') = drop (unat off * 512) (content d)"
    if "valid d" "unat n < sectors (drop (unat off * 512) (content d))" for d n
    using read_law [OF that(1) at(2) [OF that]] at(1) [OF that] by (auto simp: partition_ops_def sector_bytes_drop)
  show "\<exists>d'. write_sector (partition_ops ops off) n buf d = (Ok (), d') \<and> valid d' \<and>
      drop (unat off * 512) (content d') = put_sector (drop (unat off * 512) (content d)) (unat n) buf"
    if "valid d" "unat n < sectors (drop (unat off * 512) (content d))" "length buf = 512" for d n buf
    using write_law [OF that(1) at(2) [OF that(1,2)] that(3)] at [OF that(1,2)]
    by (auto simp: partition_ops_def put_sector_drop)
qed

end

section \<open>The two devices keep the contract\<close>

text \<open>A disk whose sectors all have representable offsets.\<close>

lemma ram_offset:
  fixes n :: usize
  assumes "unat n < sectors data" "length data < 2 ^ 64"
  shows "unat (n * word_of_nat SECTOR_SIZE) = unat n * 512" "unat (n * word_of_nat SECTOR_SIZE + word_of_nat SECTOR_SIZE) = unat n * 512 + 512"
proof -
  have "unat n * 512 + 512 < 2 ^ 64" using assms by (simp add: sector_in_range)
  then show "unat (n * word_of_nat SECTOR_SIZE) = unat n * 512"
    "unat (n * word_of_nat SECTOR_SIZE + word_of_nat SECTOR_SIZE) = unat n * 512 + 512"
    by (simp_all add: SECTOR_SIZE_def unat_word_ariths)
qed

lemma ram_read_sector_in_range:
  assumes "unat n < sectors data" "length data < 2 ^ 64"
  shows "ram_read_sector n data = (Ok (sector_bytes data (unat n)), data)"
  using assms ram_offset [OF assms]
  by (simp add: ram_read_sector_def Let_def slice_def sector_bytes_def sector_in_range)

lemma ram_write_sector_in_range:
  assumes "unat n < sectors data" "length data < 2 ^ 64"
  shows "ram_write_sector n buf data = (Ok (), put_sector data (unat n) buf)"
  using assms ram_offset [OF assms]
  by (simp add: ram_write_sector_def Let_def slice_def put_sector_def sector_in_range)

interpretation ram: block_device ram_ops "\<lambda>d. d" "\<lambda>d. length d < 2 ^ 64"
proof
  show "sectors d < 2 ^ 64" if "length d < 2 ^ 64" for d
    using that by (simp add: sectors_def)
  show "\<exists>d'. read_sector ram_ops n d = (Ok (sector_bytes d (unat n)), d') \<and> length d' < 2 ^ 64 \<and> d' = d"
    if "length d < 2 ^ 64" "unat n < sectors d" for d n
    using that by (simp add: ram_ops_def ram_read_sector_in_range)
  show "\<exists>d'. write_sector ram_ops n buf d = (Ok (), d') \<and> length d' < 2 ^ 64 \<and> d' = put_sector d (unat n) buf"
    if "length d < 2 ^ 64" "unat n < sectors d" "length buf = 512" for d n buf
    using that by (simp add: ram_ops_def ram_write_sector_in_range length_put_sector)
qed

interpretation ram_partition: block_device "partition_ops ram_ops off" "\<lambda>d. drop (unat off * 512) d" "\<lambda>d. length d < 2 ^ 64" for off
  by (rule ram.partition_contract)

end
