(* ===== verification/Fat32.thy ===== *)
theory Fat32
  imports Block
begin

text \<open>
  The FAT32 driver (\<^verbatim>\<open>fs/fat32.rs\<close>): mounting, cluster chains, directory lookup and file reading, over
  any block device. Two loops follow links read from the disk and may run for ever; they are
  \<open>partial_function\<close>s, so that not returning is the value \<open>None\<close>.
\<close>

section \<open>On-disk structures\<close>

definition ATTR_READ_ONLY :: u8 where "ATTR_READ_ONLY = 0x01"
definition ATTR_HIDDEN :: u8 where "ATTR_HIDDEN = 0x02"
definition ATTR_SYSTEM :: u8 where "ATTR_SYSTEM = 0x04"
definition ATTR_VOLUME_ID :: u8 where "ATTR_VOLUME_ID = 0x08"
definition ATTR_DIRECTORY :: u8 where "ATTR_DIRECTORY = 0x10"

definition ATTR_LONG_NAME :: u8 where
  "ATTR_LONG_NAME = ATTR_READ_ONLY OR ATTR_HIDDEN OR ATTR_SYSTEM OR ATTR_VOLUME_ID"

record Fat32Geometry =
  bytes_per_sector :: u16
  sectors_per_cluster :: u8
  reserved_sector_count :: u16
  num_fats :: u8
  sectors_per_fat :: u32
  root_cluster :: u32
  first_fat_sector :: usize
  first_data_sector :: usize

record FatDirectoryEntry =
  de_name :: bytes
  de_attr :: u8
  de_reserved :: u8
  de_creation_time_tenth :: u8
  de_creation_time :: u16
  de_creation_date :: u16
  de_last_access_date :: u16
  de_first_cluster_high :: u16
  de_write_time :: u16
  de_write_date :: u16
  de_first_cluster_low :: u16
  de_file_size :: u32

text \<open>The packed layout of the 32 bytes of an entry.\<close>

definition parse_dir_entry :: "bytes \<Rightarrow> FatDirectoryEntry" where
  "parse_dir_entry b =
     \<lparr>de_name = take 11 b, de_attr = b ! 11, de_reserved = b ! 12, de_creation_time_tenth = b ! 13,
      de_creation_time = u16_le (take 2 (drop 14 b)), de_creation_date = u16_le (take 2 (drop 16 b)),
      de_last_access_date = u16_le (take 2 (drop 18 b)), de_first_cluster_high = u16_le (take 2 (drop 20 b)),
      de_write_time = u16_le (take 2 (drop 22 b)), de_write_date = u16_le (take 2 (drop 24 b)),
      de_first_cluster_low = u16_le (take 2 (drop 26 b)), de_file_size = u32_le (take 4 (drop 28 b))\<rparr>"

definition starting_cluster :: "FatDirectoryEntry \<Rightarrow> u32" where
  "starting_cluster e = push_bit 16 (ucast (de_first_cluster_high e)) OR ucast (de_first_cluster_low e)"

definition is_free :: "FatDirectoryEntry \<Rightarrow> bool" where
  "is_free e \<longleftrightarrow> de_name e ! 0 = 0x00 \<or> de_name e ! 0 = 0xE5"

definition is_end :: "FatDirectoryEntry \<Rightarrow> bool" where
  "is_end e \<longleftrightarrow> de_name e ! 0 = 0x00"

definition is_lfn :: "FatDirectoryEntry \<Rightarrow> bool" where
  "is_lfn e \<longleftrightarrow> de_attr e AND ATTR_LONG_NAME = ATTR_LONG_NAME"

text \<open>The name and the extension up to the first blank, joined by a dot, in lower case.\<close>

definition get_name :: "(bytes \<Rightarrow> bytes) \<Rightarrow> FatDirectoryEntry \<Rightarrow> bytes" where
  "get_name unicode e =
     (let name_part = takeWhile (\<lambda>b. b \<noteq> 32) (take 8 (de_name e));
          ext_part = takeWhile (\<lambda>b. b \<noteq> 32) (take 3 (drop 8 (de_name e)))
      in to_lowercase unicode (name_part @ (if ext_part \<noteq> [] then 46 # ext_part else [])))"

section \<open>Mounting\<close>

definition fat_mount :: "'d block_ops \<Rightarrow> 'd \<Rightarrow> (string, Fat32Geometry) outcome \<times> 'd" where
  "fat_mount ops d =
     try_then (read_sector ops 0 d) (\<lambda>sector_buf d.
       if sector_buf ! 510 \<noteq> 0x55 \<or> sector_buf ! 511 \<noteq> 0xAA
       then (Err ''Invalid boot sector signature: missing 0x55AA'', d)
       else let bps = u16_le (take 2 (drop 11 sector_buf))
       in if unat bps \<noteq> SECTOR_SIZE
          then (Err ''Unsupported sector size: FAT32 sector size must match system sector size'', d)
          else let spc = sector_buf ! 13;
                   reserved = u16_le (take 2 (drop 14 sector_buf));
                   fats = sector_buf ! 16;
                   spf = u32_le (take 4 (drop 36 sector_buf));
                   root = u32_le (take 4 (drop 44 sector_buf))
          in if spf = 0 then (Err ''Invalid FAT32 volume: sectors_per_fat cannot be zero'', d)
             else let first_fat = ucast reserved;
                      first_data = first_fat + ucast fats * ucast spf
             in (Ok \<lparr>bytes_per_sector = bps, sectors_per_cluster = spc, reserved_sector_count = reserved,
                      num_fats = fats, sectors_per_fat = spf, root_cluster = root,
                      first_fat_sector = first_fat, first_data_sector = first_data\<rparr>, d))"

definition volume_info :: "Fat32Geometry \<Rightarrow> u16 \<times> u8 \<times> u16 \<times> u32" where
  "volume_info g = (bytes_per_sector g, num_fats g, reserved_sector_count g, sectors_per_fat g)"

section \<open>Clusters\<close>

definition cluster_to_sector :: "Fat32Geometry \<Rightarrow> u32 \<Rightarrow> usize" where
  "cluster_to_sector g cluster = first_data_sector g + (ucast cluster - 2) * ucast (sectors_per_cluster g)"

text \<open>The byte offset of a table entry is computed in 32 bits.\<close>

definition next_cluster :: "'d block_ops \<Rightarrow> Fat32Geometry \<Rightarrow> u32 \<Rightarrow> 'd \<Rightarrow> (string, u32) outcome \<times> 'd" where
  "next_cluster ops g cluster d =
     (let fat_offset = cluster * 4;
          fat_sector = first_fat_sector g + word_of_nat (unat fat_offset div SECTOR_SIZE);
          ent_offset = unat fat_offset mod SECTOR_SIZE
      in try_then (read_sector ops fat_sector d) (\<lambda>sector_buf d.
           case slice sector_buf ent_offset (ent_offset + 4) of
             None \<Rightarrow> (Panic, d)
           | Some b \<Rightarrow> (Ok (u32_le b AND 0x0FFFFFFF), d)))"

definition cluster_size :: "Fat32Geometry \<Rightarrow> nat" where
  "cluster_size g = unat (sectors_per_cluster g) * SECTOR_SIZE"

fun read_sectors_into :: "'d block_ops \<Rightarrow> usize \<Rightarrow> nat list \<Rightarrow> bytes \<Rightarrow> 'd \<Rightarrow> (string, bytes) outcome \<times> 'd" where
  "read_sectors_into ops start_sector [] buf d = (Ok buf, d)"
| "read_sectors_into ops start_sector (i # is) buf d =
     try_then (read_sector ops (start_sector + word_of_nat i) d) (\<lambda>sector_buf d.
       let offset = i * SECTOR_SIZE
       in read_sectors_into ops start_sector is (take offset buf @ sector_buf @ drop (offset + SECTOR_SIZE) buf) d)"

definition read_cluster :: "'d block_ops \<Rightarrow> Fat32Geometry \<Rightarrow> u32 \<Rightarrow> bytes \<Rightarrow> 'd \<Rightarrow> (string, bytes) outcome \<times> 'd" where
  "read_cluster ops g cluster buf d =
     (if length buf < cluster_size g then (Err ''Provided buffer is too small for cluster data'', d)
      else read_sectors_into ops (cluster_to_sector g cluster) [0..<unat (sectors_per_cluster g)] buf d)"

section \<open>Files\<close>

partial_function (option) read_file_loop ::
  "'d block_ops \<Rightarrow> Fat32Geometry \<Rightarrow> u32 \<Rightarrow> nat \<Rightarrow> bytes \<Rightarrow> bytes \<Rightarrow> 'd \<Rightarrow> ((string, bytes) outcome \<times> 'd) option" where
  "read_file_loop ops g current_cluster bytes_remaining cluster_buf acc d =
     (if \<not> (current_cluster < 0x0FFFFFF8 \<and> 2 \<le> current_cluster) then Some (Ok acc, d)
      else case read_cluster ops g current_cluster cluster_buf d of
             (Err e, d) \<Rightarrow> Some (Err e, d)
           | (Panic, d) \<Rightarrow> Some (Panic, d)
           | (Ok buf, d) \<Rightarrow>
               let acc = acc @ take (min bytes_remaining (cluster_size g)) buf
               in if bytes_remaining \<le> cluster_size g then Some (Ok acc, d)
                  else case next_cluster ops g current_cluster d of
                         (Err e, d) \<Rightarrow> Some (Err e, d)
                       | (Panic, d) \<Rightarrow> Some (Panic, d)
                       | (Ok next, d) \<Rightarrow> read_file_loop ops g next (bytes_remaining - cluster_size g) buf acc d)"

definition read_file_content :: "'d block_ops \<Rightarrow> Fat32Geometry \<Rightarrow> u32 \<Rightarrow> u32 \<Rightarrow> 'd \<Rightarrow> ((string, bytes) outcome \<times> 'd) option" where
  "read_file_content ops g start_cluster file_size d =
     read_file_loop ops g start_cluster (unat file_size) (replicate (cluster_size g) 0) [] d"

section \<open>Directories\<close>

fun scan_entries :: "(bytes \<Rightarrow> bytes) \<Rightarrow> bytes \<Rightarrow> FatDirectoryEntry list \<Rightarrow> FatDirectoryEntry option" where
  "scan_entries unicode target [] = None"
| "scan_entries unicode target (e # es) =
     (if is_end e then None
      else if is_free e \<or> is_lfn e then scan_entries unicode target es
      else if get_name unicode e = target then Some e
      else scan_entries unicode target es)"

definition cluster_entries :: "Fat32Geometry \<Rightarrow> bytes \<Rightarrow> FatDirectoryEntry list" where
  "cluster_entries g buf = map (\<lambda>i. parse_dir_entry (take 32 (drop (i * 32) buf))) [0..<cluster_size g div 32]"

partial_function (option) find_loop ::
  "(bytes \<Rightarrow> bytes) \<Rightarrow> 'd block_ops \<Rightarrow> Fat32Geometry \<Rightarrow> bytes \<Rightarrow> u32 \<Rightarrow> bytes \<Rightarrow> 'd \<Rightarrow>
     ((string, FatDirectoryEntry) outcome \<times> 'd) option" where
  "find_loop unicode ops g target_lower current_cluster cluster_buf d =
     (if \<not> (current_cluster < 0x0FFFFFF8 \<and> 2 \<le> current_cluster) then Some (Err ''File or directory not found'', d)
      else case read_cluster ops g current_cluster cluster_buf d of
             (Err e, d) \<Rightarrow> Some (Err e, d)
           | (Panic, d) \<Rightarrow> Some (Panic, d)
           | (Ok buf, d) \<Rightarrow>
               (case scan_entries unicode target_lower (cluster_entries g buf) of
                  Some e \<Rightarrow> Some (Ok e, d)
                | None \<Rightarrow>
                    (case next_cluster ops g current_cluster d of
                       (Err e, d) \<Rightarrow> Some (Err e, d)
                     | (Panic, d) \<Rightarrow> Some (Panic, d)
                     | (Ok next, d) \<Rightarrow> find_loop unicode ops g target_lower next buf d)))"

definition find_in_directory ::
  "(bytes \<Rightarrow> bytes) \<Rightarrow> 'd block_ops \<Rightarrow> Fat32Geometry \<Rightarrow> u32 \<Rightarrow> bytes \<Rightarrow> 'd \<Rightarrow>
     ((string, FatDirectoryEntry) outcome \<times> 'd) option" where
  "find_in_directory unicode ops g dir_cluster target_name d =
     find_loop unicode ops g (to_lowercase unicode target_name) dir_cluster (replicate (cluster_size g) 0) d"

fun resolve_parts ::
  "(bytes \<Rightarrow> bytes) \<Rightarrow> 'd block_ops \<Rightarrow> Fat32Geometry \<Rightarrow> u32 \<Rightarrow> bytes list \<Rightarrow> 'd \<Rightarrow>
     ((string, FatDirectoryEntry) outcome \<times> 'd) option" where
  "resolve_parts unicode ops g current_cluster [] d = Some (Err ''Path resolution failed'', d)"
| "resolve_parts unicode ops g current_cluster (part # parts) d =
     (case find_in_directory unicode ops g current_cluster part d of
        None \<Rightarrow> None
      | Some (Err e, d) \<Rightarrow> Some (Err e, d)
      | Some (Panic, d) \<Rightarrow> Some (Panic, d)
      | Some (Ok entry, d) \<Rightarrow>
          if parts = [] then Some (Ok entry, d)
          else if de_attr entry AND ATTR_DIRECTORY = 0 then Some (Err ''Parent path component is not a directory'', d)
          else resolve_parts unicode ops g (starting_cluster entry) parts d)"

definition resolve_path ::
  "(bytes \<Rightarrow> bytes) \<Rightarrow> 'd block_ops \<Rightarrow> Fat32Geometry \<Rightarrow> bytes \<Rightarrow> 'd \<Rightarrow>
     ((string, FatDirectoryEntry) outcome \<times> 'd) option" where
  "resolve_path unicode ops g path d =
     (let trimmed_path = trim_start_matches 47 path
      in if trimmed_path = [] then Some (Err ''Root has no directory entry of its own'', d)
         else resolve_parts unicode ops g (root_cluster g) (split_at_byte 47 trimmed_path) d)"

definition read_file_by_path ::
  "(bytes \<Rightarrow> bytes) \<Rightarrow> 'd block_ops \<Rightarrow> Fat32Geometry \<Rightarrow> bytes \<Rightarrow> 'd \<Rightarrow> ((string, bytes) outcome \<times> 'd) option" where
  "read_file_by_path unicode ops g path d =
     (case resolve_path unicode ops g path d of
        None \<Rightarrow> None
      | Some (Err e, d) \<Rightarrow> Some (Err e, d)
      | Some (Panic, d) \<Rightarrow> Some (Panic, d)
      | Some (Ok entry, d) \<Rightarrow>
          if de_attr entry AND ATTR_DIRECTORY \<noteq> 0 then Some (Err ''Target path is a directory, not a file'', d)
          else read_file_content ops g (starting_cluster entry) (de_file_size entry) d)"

section \<open>The volume as data\<close>

text \<open>
  What a content means: the successor of a cluster in the allocation table, the bytes of a cluster, and
  a chain of clusters. \<open>cluster_ok\<close> says that the table entry and the data sectors of a cluster are on
  the device.
\<close>

definition fat_entry :: "Fat32Geometry \<Rightarrow> bytes \<Rightarrow> u32 \<Rightarrow> u32" where
  "fat_entry g cont c =
     u32_le (take 4 (drop (unat (c * 4) mod 512)
       (sector_bytes cont (unat (first_fat_sector g + word_of_nat (unat (c * 4) div 512)))))) AND 0x0FFFFFFF"

definition cluster_bytes :: "Fat32Geometry \<Rightarrow> bytes \<Rightarrow> u32 \<Rightarrow> bytes" where
  "cluster_bytes g cont c = take (cluster_size g) (drop (unat (cluster_to_sector g c) * 512) cont)"

definition data_cluster :: "u32 \<Rightarrow> bool" where
  "data_cluster c \<longleftrightarrow> c < 0x0FFFFFF8 \<and> 2 \<le> c"

definition cluster_ok :: "Fat32Geometry \<Rightarrow> bytes \<Rightarrow> u32 \<Rightarrow> bool" where
  "cluster_ok g cont c \<longleftrightarrow> data_cluster c \<and>
     unat (first_fat_sector g + word_of_nat (unat (c * 4) div 512)) < sectors cont \<and>
     unat (cluster_to_sector g c) + unat (sectors_per_cluster g) \<le> sectors cont"

fun chain :: "Fat32Geometry \<Rightarrow> bytes \<Rightarrow> u32 list \<Rightarrow> bool" where
  "chain g cont [] \<longleftrightarrow> True"
| "chain g cont [c] \<longleftrightarrow> cluster_ok g cont c"
| "chain g cont (c # c' # cs) \<longleftrightarrow> cluster_ok g cont c \<and> fat_entry g cont c = c' \<and> chain g cont (c' # cs)"

lemma chain_hd: "chain g cont (c # cs) \<Longrightarrow> cluster_ok g cont c"
  by (cases cs) simp_all

lemma length_cluster_bytes: "cluster_ok g cont c \<Longrightarrow> length (cluster_bytes g cont c) = cluster_size g"
proof -
  assume ok: "cluster_ok g cont c"
  have "sectors cont * 512 \<le> length cont" by (simp add: sectors_def)
  moreover have "(unat (cluster_to_sector g c) + unat (sectors_per_cluster g)) * 512 \<le> sectors cont * 512"
    using ok by (intro mult_le_mono1) (simp add: cluster_ok_def)
  ultimately show ?thesis by (simp add: cluster_bytes_def cluster_size_def SECTOR_SIZE_def add_mult_distrib)
qed

lemma fat_offset_fits: "unat ((c :: u32) * 4) mod 512 + 4 \<le> 512"
proof -
  have "unat (c * 4) = (4 * unat c) mod (4 * 2 ^ 30)" by (simp add: unat_word_ariths mult.commute)
  also have "\<dots> = 4 * (unat c mod 2 ^ 30)" by (rule mod_mult_mult1)
  finally have "unat (c * 4) mod (4 * 128) = 4 * (unat c mod 2 ^ 30 mod 128)" by (simp only: mod_mult_mult1)
  moreover have "unat c mod 2 ^ 30 mod 128 < 128" by simp
  ultimately show ?thesis by simp
qed

context block_device
begin

lemma next_cluster_entry:
  assumes "valid d" "cluster_ok g (content d) c"
  shows "\<exists>d'. next_cluster ops g c d = (Ok (fat_entry g (content d) c), d') \<and> valid d' \<and> content d' = content d"
proof -
  let ?n = "first_fat_sector g + word_of_nat (unat (c * 4) div 512)" and ?o = "unat (c * 4) mod 512"
  have n: "unat ?n < sectors (content d)" using assms(2) by (simp add: cluster_ok_def)
  obtain d' where r: "read_sector ops ?n d = (Ok (sector_bytes (content d) (unat ?n)), d')" "valid d'" "content d' = content d"
    using read_law [OF assms(1) n] by blast
  have "?o + 4 \<le> 512" by (rule fat_offset_fits)
  then have "slice (sector_bytes (content d) (unat ?n)) ?o (?o + 4) = Some (take 4 (drop ?o (sector_bytes (content d) (unat ?n))))"
    using length_sector_bytes [OF n] by (simp add: slice_def)
  then show ?thesis using r by (simp add: next_cluster_def SECTOR_SIZE_def fat_entry_def Let_def)
qed

lemma read_sectors_into_spec:
  assumes "valid d" "unat st + (k + n) \<le> sectors (content d)" "(k + n) * 512 \<le> length buf"
  shows "\<exists>d'. read_sectors_into ops st [k..<k + n] buf d =
      (Ok (take (k * 512) buf @ take (n * 512) (drop ((unat st + k) * 512) (content d)) @ drop ((k + n) * 512) buf), d')
      \<and> valid d' \<and> content d' = content d"
  using assms
proof (induction n arbitrary: k buf d)
  case 0
  then show ?case by simp
next
  case (Suc n)
  have "unat st + k < sectors (content d)" using Suc.prems(2) by simp
  then have "unat (st + word_of_nat k) = unat st + k" using bound [OF Suc.prems(1)]
    by (subst unat_add_lt) (simp_all add: unat_of_nat)
  moreover from this have lt: "unat (st + word_of_nat k) < sectors (content d)" using Suc.prems(2) by simp
  ultimately obtain d1 where r: "read_sector ops (st + word_of_nat k) d = (Ok (sector_bytes (content d) (unat st + k)), d1)"
    "valid d1" "content d1 = content d" using read_law [OF Suc.prems(1) lt] by auto
  have len: "length (sector_bytes (content d) (unat st + k)) = 512"
    using Suc.prems(2) by (simp add: length_sector_bytes)
  define buf1 where "buf1 = take (k * 512) buf @ sector_bytes (content d) (unat st + k) @ drop (k * 512 + 512) buf"
  have l1: "length buf1 = length buf" using Suc.prems(3) len by (simp add: buf1_def)
  have "unat st + (Suc k + n) \<le> sectors (content d1)" "(Suc k + n) * 512 \<le> length buf1"
    using Suc.prems(2,3) by (simp_all add: l1 r(3))
  from Suc.IH [OF r(2) this] obtain d2 where
    i: "read_sectors_into ops st [Suc k..<Suc k + n] buf1 d1 =
      (Ok (take (Suc k * 512) buf1 @ take (n * 512) (drop ((unat st + Suc k) * 512) (content d)) @ drop ((Suc k + n) * 512) buf1), d2)"
    "valid d2" "content d2 = content d" unfolding r(3) by blast
  have head: "take (Suc k * 512) buf1 = take (k * 512) buf @ sector_bytes (content d) (unat st + k)"
    using Suc.prems(3) len by (simp add: buf1_def)
  have tail: "drop ((Suc k + n) * 512) buf1 = drop ((k + Suc n) * 512) buf"
    using Suc.prems(3) len by (simp add: buf1_def algebra_simps)
  have "take (Suc n * 512) (drop ((unat st + k) * 512) (content d)) =
      sector_bytes (content d) (unat st + k) @ take (n * 512) (drop ((unat st + Suc k) * 512) (content d))"
    by (simp add: sector_bytes_def take_add [of 512 "n * 512"] algebra_simps)
  then have run: "read_sectors_into ops st [k..<k + Suc n] buf d =
      (Ok (take (k * 512) buf @ take (Suc n * 512) (drop ((unat st + k) * 512) (content d)) @ drop ((k + Suc n) * 512) buf), d2)"
    using r(1) i(1) head tail by (simp add: upt_conv_Cons SECTOR_SIZE_def Let_def buf1_def del: upt_Suc)
  show ?case using run i(2,3) by blast
qed

lemma read_cluster_bytes:
  assumes "valid d" "cluster_ok g (content d) c" "length buf = cluster_size g"
  shows "\<exists>d'. read_cluster ops g c buf d = (Ok (cluster_bytes g (content d) c), d') \<and> valid d' \<and> content d' = content d"
proof -
  let ?n = "unat (sectors_per_cluster g)" and ?st = "cluster_to_sector g c"
  have "unat ?st + (0 + ?n) \<le> sectors (content d)" "(0 + ?n) * 512 \<le> length buf" "drop (?n * 512) buf = []"
    using assms(2,3) by (simp_all add: cluster_ok_def cluster_size_def SECTOR_SIZE_def)
  from read_sectors_into_spec [OF assms(1) this(1,2)] this(3) show ?thesis
    using assms(3) by (simp add: read_cluster_def cluster_bytes_def cluster_size_def SECTOR_SIZE_def)
qed

lemma read_file_chain:
  assumes "valid d" "chain g (content d) (c # cs)" "length buf = cluster_size g"
    and "n \<le> length (c # cs) * cluster_size g" "length cs * cluster_size g < n \<or> cs = []"
  shows "\<exists>d'. read_file_loop ops g c n buf acc d = Some (Ok (acc @ take n (concat (map (cluster_bytes g (content d)) (c # cs)))), d')
    \<and> valid d' \<and> content d' = content d"
  using assms
proof (induction cs arbitrary: c n buf acc d)
  case Nil
  have dc: "c < 0x0FFFFFF8 \<and> 2 \<le> c" using Nil.prems(2) by (simp add: cluster_ok_def data_cluster_def)
  have ok: "cluster_ok g (content d) c" using Nil.prems(2) by simp
  obtain d1 where r: "read_cluster ops g c buf d = (Ok (cluster_bytes g (content d) c), d1)" "valid d1" "content d1 = content d"
    using read_cluster_bytes [OF Nil.prems(1) ok Nil.prems(3)] by blast
  have n: "n \<le> cluster_size g" using Nil.prems(4) by simp
  have "read_file_loop ops g c n buf acc d = Some (Ok (acc @ take n (cluster_bytes g (content d) c)), d1)"
    by (subst read_file_loop.simps) (simp add: dc r(1) n min_absorb1 Let_def)
  then show ?case using r by simp
next
  case (Cons c' cs)
  have ok: "cluster_ok g (content d) c" and c': "fat_entry g (content d) c = c'" and ch: "chain g (content d) (c' # cs)"
    using Cons.prems(2) by simp_all
  have dc: "c < 0x0FFFFFF8 \<and> 2 \<le> c" using ok by (simp add: cluster_ok_def data_cluster_def)
  have gt: "cluster_size g < n" using Cons.prems(5) by (cases "length cs") auto
  obtain d1 where r: "read_cluster ops g c buf d = (Ok (cluster_bytes g (content d) c), d1)" "valid d1" "content d1 = content d"
    using read_cluster_bytes [OF Cons.prems(1) ok Cons.prems(3)] by blast
  obtain d2 where x: "next_cluster ops g c d1 = (Ok c', d2)" "valid d2" "content d2 = content d"
    using next_cluster_entry [OF r(2), of g c] ok c' r(3) by auto
  note l = length_cluster_bytes [OF ok]
  have le: "n - cluster_size g \<le> length (c' # cs) * cluster_size g" "length cs * cluster_size g < n - cluster_size g \<or> cs = []"
    using Cons.prems(4,5) by auto
  let ?acc = "acc @ cluster_bytes g (content d) c" and ?buf = "cluster_bytes g (content d) c"
  obtain d3 where i: "read_file_loop ops g c' (n - cluster_size g) ?buf ?acc d2 =
      Some (Ok (?acc @ take (n - cluster_size g) (concat (map (cluster_bytes g (content d)) (c' # cs)))), d3)"
    "valid d3" "content d3 = content d"
    using Cons.IH [OF x(2) _ l le, of ?acc] ch unfolding x(3) by blast
  have "read_file_loop ops g c n buf acc d = read_file_loop ops g c' (n - cluster_size g) ?buf ?acc d2"
    by (subst read_file_loop.simps) (simp add: dc r(1) x(1) l min_absorb2 less_imp_le [OF gt] not_le [THEN iffD2, OF gt] Let_def)
  then show ?case using i gt l by simp
qed

lemma read_file_content_chain:
  assumes "valid d" "chain g (content d) (c # cs)"
    and "unat sz \<le> length (c # cs) * cluster_size g" "length cs * cluster_size g < unat sz \<or> cs = []"
  shows "\<exists>d'. read_file_content ops g c sz d = Some (Ok (take (unat sz) (concat (map (cluster_bytes g (content d)) (c # cs)))), d')
    \<and> valid d' \<and> content d' = content d"
  using read_file_chain [OF assms(1,2) _ assms(3,4), of "replicate (cluster_size g) 0" "[]"]
  by (simp add: read_file_content_def)

end

text \<open>Looking a name up in the clusters of a directory, and the relation between a path and its entry.\<close>

fun lookup_clusters :: "(bytes \<Rightarrow> bytes) \<Rightarrow> Fat32Geometry \<Rightarrow> bytes \<Rightarrow> bytes \<Rightarrow> u32 list \<Rightarrow> FatDirectoryEntry option" where
  "lookup_clusters unicode g cont target [] = None"
| "lookup_clusters unicode g cont target (c # cs) =
     (case scan_entries unicode target (cluster_entries g (cluster_bytes g cont c)) of
        Some e \<Rightarrow> Some e
      | None \<Rightarrow> lookup_clusters unicode g cont target cs)"

context block_device
begin

lemma find_loop_chain:
  assumes "valid d" "chain g (content d) (c # cs)" "length buf = cluster_size g"
    and "\<not> data_cluster (fat_entry g (content d) (last (c # cs)))"
  shows "\<exists>d'. find_loop unicode ops g target c buf d =
      Some (case lookup_clusters unicode g (content d) target (c # cs) of
              Some e \<Rightarrow> Ok e | None \<Rightarrow> Err ''File or directory not found'', d')
    \<and> valid d' \<and> content d' = content d"
  using assms
proof (induction cs arbitrary: c buf d)
  case Nil
  have ok: "cluster_ok g (content d) c" using Nil.prems(2) by simp
  have dc: "c < 0x0FFFFFF8 \<and> 2 \<le> c" using ok by (simp add: cluster_ok_def data_cluster_def)
  obtain d1 where r: "read_cluster ops g c buf d = (Ok (cluster_bytes g (content d) c), d1)" "valid d1" "content d1 = content d"
    using read_cluster_bytes [OF Nil.prems(1) ok Nil.prems(3)] by blast
  obtain d2 where x: "next_cluster ops g c d1 = (Ok (fat_entry g (content d) c), d2)" "valid d2" "content d2 = content d"
    using next_cluster_entry [OF r(2), of g c] ok r(3) by auto
  have stop: "find_loop unicode ops g target (fat_entry g (content d) c) b d2 = Some (Err ''File or directory not found'', d2)" for b
    using Nil.prems(4) by (subst find_loop.simps) (auto simp: data_cluster_def)
  have "find_loop unicode ops g target c buf d =
      (case scan_entries unicode target (cluster_entries g (cluster_bytes g (content d) c)) of
         Some e \<Rightarrow> Some (Ok e, d1) | None \<Rightarrow> Some (Err ''File or directory not found'', d2))"
    by (subst find_loop.simps) (simp add: dc r(1) x(1) stop split: option.split)
  then show ?case using r x by (auto split: option.splits)
next
  case (Cons c' cs)
  have ok: "cluster_ok g (content d) c" and c': "fat_entry g (content d) c = c'" and ch: "chain g (content d) (c' # cs)"
    using Cons.prems(2) by simp_all
  have dc: "c < 0x0FFFFFF8 \<and> 2 \<le> c" using ok by (simp add: cluster_ok_def data_cluster_def)
  obtain d1 where r: "read_cluster ops g c buf d = (Ok (cluster_bytes g (content d) c), d1)" "valid d1" "content d1 = content d"
    using read_cluster_bytes [OF Cons.prems(1) ok Cons.prems(3)] by blast
  obtain d2 where x: "next_cluster ops g c d1 = (Ok c', d2)" "valid d2" "content d2 = content d"
    using next_cluster_entry [OF r(2), of g c] ok c' r(3) by auto
  note l = length_cluster_bytes [OF ok]
  obtain d3 where i: "find_loop unicode ops g target c' (cluster_bytes g (content d) c) d2 =
      Some (case lookup_clusters unicode g (content d) target (c' # cs) of Some e \<Rightarrow> Ok e | None \<Rightarrow> Err ''File or directory not found'', d3)"
    "valid d3" "content d3 = content d"
    using Cons.IH [of d2 c' "cluster_bytes g (content d) c"] x(2,3) ch l Cons.prems(4) by auto
  have "find_loop unicode ops g target c buf d =
      (case scan_entries unicode target (cluster_entries g (cluster_bytes g (content d) c)) of
         Some e \<Rightarrow> Some (Ok e, d1) | None \<Rightarrow> find_loop unicode ops g target c' (cluster_bytes g (content d) c) d2)"
    by (subst find_loop.simps) (simp add: dc r(1) x(1) split: option.split)
  then show ?case using r i by (auto split: option.splits)
qed

text \<open>On links that never leave a set of clusters without a match the search does not return.\<close>

lemma find_loop_no_result:
  "find_loop unicode ops' g target c buf d = Some r \<Longrightarrow> ops' = ops \<Longrightarrow> valid d \<Longrightarrow> c \<in> S \<Longrightarrow> length buf = cluster_size g \<Longrightarrow>
   \<forall>x \<in> S. cluster_ok g (content d) x \<and> fat_entry g (content d) x \<in> S \<and>
     scan_entries unicode target (cluster_entries g (cluster_bytes g (content d) x)) = None \<Longrightarrow> False"
proof (induction rule: find_loop.raw_induct [rotated, consumes 1, case_names step])
  case (step search unicode ops' g target c buf d r)
  then have ok: "cluster_ok g (content d) c"
    and nm: "scan_entries unicode target (cluster_entries g (cluster_bytes g (content d) c)) = None"
    and nx: "fat_entry g (content d) c \<in> S" by blast+
  have dc: "c < 0x0FFFFFF8 \<and> 2 \<le> c" using ok by (simp add: cluster_ok_def data_cluster_def)
  obtain d1 where r: "read_cluster ops g c buf d = (Ok (cluster_bytes g (content d) c), d1)" "valid d1" "content d1 = content d"
    using read_cluster_bytes [OF step.prems(2) ok step.prems(4)] by blast
  obtain d2 where x: "next_cluster ops g c d1 = (Ok (fat_entry g (content d) c), d2)" "valid d2" "content d2 = content d"
    using next_cluster_entry [OF r(2), of g c] ok r(3) by auto
  have "search unicode ops' g target (fat_entry g (content d) c) (cluster_bytes g (content d) c) d2 = Some r"
    using step.hyps step.prems(1) dc r(1) x(1) nm by simp
  from step.IH [OF this step.prems(1) x(2) nx length_cluster_bytes [OF ok]] step.prems(5) show False by (simp add: x(3))
qed

lemma find_loop_diverges:
  assumes "valid d" "c \<in> S" "length buf = cluster_size g"
    and "\<forall>x \<in> S. cluster_ok g (content d) x \<and> fat_entry g (content d) x \<in> S \<and>
      scan_entries unicode target (cluster_entries g (cluster_bytes g (content d) x)) = None"
  shows "find_loop unicode ops g target c buf d = None"
  using find_loop_no_result [OF _ refl assms] by (cases "find_loop unicode ops g target c buf d") auto

end

section \<open>Paths\<close>

text \<open>A directory that starts at cluster \<open>c\<close> holds the entry \<open>e\<close> under a name, and a path leads to an entry.\<close>

definition dir_holds :: "(bytes \<Rightarrow> bytes) \<Rightarrow> Fat32Geometry \<Rightarrow> bytes \<Rightarrow> u32 \<Rightarrow> bytes \<Rightarrow> FatDirectoryEntry \<Rightarrow> bool" where
  "dir_holds unicode g cont c part e \<longleftrightarrow>
     (\<exists>cs. chain g cont (c # cs) \<and> \<not> data_cluster (fat_entry g cont (last (c # cs))) \<and>
        lookup_clusters unicode g cont (to_lowercase unicode part) (c # cs) = Some e)"

inductive path_leads :: "(bytes \<Rightarrow> bytes) \<Rightarrow> Fat32Geometry \<Rightarrow> bytes \<Rightarrow> u32 \<Rightarrow> bytes list \<Rightarrow> FatDirectoryEntry \<Rightarrow> bool"
  for unicode g cont where
  last_part: "dir_holds unicode g cont c part e \<Longrightarrow> path_leads unicode g cont c [part] e"
| parent: "dir_holds unicode g cont c part e' \<Longrightarrow> de_attr e' AND ATTR_DIRECTORY \<noteq> 0 \<Longrightarrow>
    path_leads unicode g cont (starting_cluster e') (p # ps) e \<Longrightarrow> path_leads unicode g cont c (part # p # ps) e"

inductive_simps path_leads_Nil: "path_leads unicode g cont c [] e"

text \<open>The bytes of a file: the first \<open>sz\<close> bytes along its chain.\<close>

definition file_bytes :: "Fat32Geometry \<Rightarrow> bytes \<Rightarrow> u32 list \<Rightarrow> u32 \<Rightarrow> bytes" where
  "file_bytes g cont cs sz = take (unat sz) (concat (map (cluster_bytes g cont) cs))"

definition file_chain :: "Fat32Geometry \<Rightarrow> bytes \<Rightarrow> FatDirectoryEntry \<Rightarrow> u32 list \<Rightarrow> bool" where
  "file_chain g cont e cs \<longleftrightarrow> cs \<noteq> [] \<and> hd cs = starting_cluster e \<and> chain g cont cs \<and>
     unat (de_file_size e) \<le> length cs * cluster_size g \<and>
     ((length cs - 1) * cluster_size g < unat (de_file_size e) \<or> length cs = 1)"

context block_device
begin

lemma find_in_directory_holds:
  assumes "valid d" "dir_holds unicode g (content d) c part e"
  shows "\<exists>d'. find_in_directory unicode ops g c part d = Some (Ok e, d') \<and> valid d' \<and> content d' = content d"
proof -
  obtain cs where cs: "chain g (content d) (c # cs)" "\<not> data_cluster (fat_entry g (content d) (last (c # cs)))"
    "lookup_clusters unicode g (content d) (to_lowercase unicode part) (c # cs) = Some e"
    using assms(2) by (auto simp: dir_holds_def)
  show ?thesis
    using find_loop_chain [OF assms(1) cs(1) _ cs(2), of "replicate (cluster_size g) 0" unicode "to_lowercase unicode part"] cs(3)
    by (simp add: find_in_directory_def)
qed

lemma resolve_parts_leads:
  "path_leads unicode g cont c parts e \<Longrightarrow> valid d \<Longrightarrow> content d = cont \<Longrightarrow>
     \<exists>d'. resolve_parts unicode ops g c parts d = Some (Ok e, d') \<and> valid d' \<and> content d' = cont"
proof (induction arbitrary: d rule: path_leads.induct)
  case (last_part c part e)
  then show ?case using find_in_directory_holds [of d unicode g c part e] by auto
next
  case (parent c part e' p ps e)
  obtain d1 where "find_in_directory unicode ops g c part d = Some (Ok e', d1)" "valid d1" "content d1 = cont"
    using find_in_directory_holds [of d unicode g c part e'] parent by auto
  then show ?case using parent.IH [of d1] parent.hyps(2) by auto
qed

lemma read_file_by_path_leads:
  assumes "valid d" "trim_start_matches 47 path \<noteq> []"
    and "path_leads unicode g (content d) (root_cluster g) (split_at_byte 47 (trim_start_matches 47 path)) e"
    and "de_attr e AND ATTR_DIRECTORY = 0" "file_chain g (content d) e cs"
  shows "\<exists>d'. read_file_by_path unicode ops g path d = Some (Ok (file_bytes g (content d) cs (de_file_size e)), d')
    \<and> valid d' \<and> content d' = content d"
proof -
  obtain d1 where r: "resolve_path unicode ops g path d = Some (Ok e, d1)" "valid d1" "content d1 = content d"
    using resolve_parts_leads [OF assms(3,1) refl] assms(2) by (auto simp: resolve_path_def)
  obtain c cs' where cs: "cs = c # cs'" using assms(5) by (cases cs) (auto simp: file_chain_def)
  have "chain g (content d1) (c # cs')" "c = starting_cluster e" "unat (de_file_size e) \<le> length (c # cs') * cluster_size g"
    "length cs' * cluster_size g < unat (de_file_size e) \<or> cs' = []"
    using assms(5) by (auto simp: file_chain_def cs r(3))
  from read_file_content_chain [OF r(2) this(1,3,4)] this(2) show ?thesis
    using r assms(4) by (auto simp: read_file_by_path_def file_bytes_def cs)
qed

text \<open>Mounting reads the geometry from the boot sector.\<close>

lemma fat_mount_reads:
  assumes "valid d" "0 < sectors (content d)"
  shows "\<exists>d'. fst (fat_mount ops d) = fst (fat_mount ram_ops (sector_bytes (content d) 0)) \<and> snd (fat_mount ops d) = d'
    \<and> valid d' \<and> content d' = content d"
proof -
  obtain d' where r: "read_sector ops 0 d = (Ok (sector_bytes (content d) 0), d')" "valid d'" "content d' = content d"
    using read_law [OF assms(1), of 0] assms(2) by auto
  have l: "length (sector_bytes (content d) 0) = 512" using assms(2) by (rule length_sector_bytes)
  then have "read_sector ram_ops 0 (sector_bytes (content d) 0) = (Ok (sector_bytes (content d) 0), sector_bytes (content d) 0)"
    using ram_read_sector_in_range [of 0 "sector_bytes (content d) 0"]
    by (simp add: ram_ops_def sectors_def sector_bytes_def)
  then show ?thesis using r by (simp add: fat_mount_def Let_def)
qed

end

end
