(* ===== verification/Mbr.thy ===== *)
theory Mbr
  imports Block
begin

text \<open>
  The partition table reader (\<^verbatim>\<open>fs/mbr.rs\<close>): the first used entry of the table in sector 0.
\<close>

definition PARTITION_TABLE_OFFSET :: nat where
  "PARTITION_TABLE_OFFSET = 446"

definition PARTITION_ENTRY_SIZE :: nat where
  "PARTITION_ENTRY_SIZE = 16"

definition PARTITION_ENTRY_COUNT :: nat where
  "PARTITION_ENTRY_COUNT = 4"

definition TYPE_EMPTY :: u8 where
  "TYPE_EMPTY = 0"

fun scan_partitions :: "bytes \<Rightarrow> nat list \<Rightarrow> u32 option" where
  "scan_partitions sector0 [] = None"
| "scan_partitions sector0 (i # is) =
     (let entry = take PARTITION_ENTRY_SIZE (drop (PARTITION_TABLE_OFFSET + i * PARTITION_ENTRY_SIZE) sector0);
          lba_start = u32_le (take 4 (drop 8 entry))
      in if entry ! 4 = TYPE_EMPTY then scan_partitions sector0 is
         else if lba_start = 0 then scan_partitions sector0 is
         else Some lba_start)"

definition find_first_partition_lba :: "'d block_ops \<Rightarrow> 'd \<Rightarrow> (string, u32 option) outcome \<times> 'd" where
  "find_first_partition_lba ops d =
     try_then (read_sector ops 0 d) (\<lambda>sector0 d.
       if sector0 ! 510 \<noteq> 0x55 \<or> sector0 ! 511 \<noteq> 0xAA then (Ok None, d)
       else (Ok (scan_partitions sector0 [0..<PARTITION_ENTRY_COUNT]), d))"

text \<open>The four entries of a table, and the first of them that is in use.\<close>

definition table_entry :: "bytes \<Rightarrow> nat \<Rightarrow> u8 \<times> u32" where
  "table_entry sector0 i = (sector0 ! (450 + 16 * i), u32_le (take 4 (drop (454 + 16 * i) sector0)))"

definition entry_used :: "u8 \<times> u32 \<Rightarrow> bool" where
  "entry_used e \<longleftrightarrow> fst e \<noteq> 0 \<and> snd e \<noteq> 0"

lemma scan_partitions_find:
  assumes "length sector0 = 512" "\<forall>i \<in> set is. i < 4"
  shows "scan_partitions sector0 is = map_option snd (find entry_used (map (table_entry sector0) is))"
  using assms(2)
proof (induction "is")
  case (Cons i "is")
  have "take 16 (drop (446 + i * 16) sector0) ! 4 = sector0 ! (450 + 16 * i)"
    using assms(1) Cons.prems by (simp add: add.commute mult.commute)
  moreover have "take 4 (drop 8 (take 16 (drop (446 + i * 16) sector0))) = take 4 (drop (454 + 16 * i) sector0)"
    by (simp add: drop_take add.commute mult.commute)
  ultimately show ?case
    using Cons by (simp add: PARTITION_ENTRY_SIZE_def PARTITION_TABLE_OFFSET_def TYPE_EMPTY_def entry_used_def table_entry_def Let_def)
qed simp

context block_device
begin

lemma find_first_partition:
  assumes "valid d" "0 < sectors (content d)"
  defines "s0 \<equiv> sector_bytes (content d) 0"
  shows "\<exists>d'. find_first_partition_lba ops d =
      (Ok (if s0 ! 510 = 0x55 \<and> s0 ! 511 = 0xAA then map_option snd (find entry_used (map (table_entry s0) [0..<4])) else None), d')
      \<and> valid d' \<and> content d' = content d"
proof -
  obtain d' where d': "read_sector ops 0 d = (Ok s0, d')" "valid d'" "content d' = content d"
    using read_law [OF assms(1), of 0] assms(2) by (auto simp: s0_def)
  have "length s0 = 512" using assms(2) by (simp add: s0_def length_sector_bytes)
  note S = scan_partitions_find [OF this, of "[0..<4]"]
  show ?thesis using d' S by (auto simp: find_first_partition_lba_def PARTITION_ENTRY_COUNT_def)
qed

end

end
