(* ===== verification/Vfs.thy ===== *)
theory Vfs
  imports Tar Fat32 Mbr
begin

text \<open>
  The virtual file system (\<^verbatim>\<open>fs/mod.rs\<close>, \<^verbatim>\<open>fs/vfs.rs\<close>) with its two adapters (\<^verbatim>\<open>fs/tar_adapter.rs\<close>,
  \<^verbatim>\<open>fs/fat32_adapter.rs\<close>), and the disk probe of the boot sequence (\<^verbatim>\<open>main.rs\<close>). A node of a FAT32 volume
  keeps a shared reference to it: the index of its mount point, so that reads through the node and
  lookups see one device state.
\<close>

section \<open>Nodes\<close>

datatype NodeType = NodeFile | NodeDirectory

record Metadata =
  md_name :: bytes
  md_size :: usize
  md_node_type :: NodeType

datatype FileNode = TarDirectoryNode | TarFileNode FileEntry | Fat32DirectoryNode | Fat32FileNode nat FatDirectoryEntry

datatype 'd file_system = TarFsAdapter bytes | Fat32Adapter "'d block_ops" Fat32Geometry 'd

type_synonym 'd mounts = "(bytes \<times> 'd file_system) list"

definition tar_metadata :: "FileEntry \<Rightarrow> Metadata" where
  "tar_metadata e = \<lparr>md_name = fe_name e, md_size = fe_size e, md_node_type = (if is_dir e then NodeDirectory else NodeFile)\<rparr>"

definition fat_metadata :: "(bytes \<Rightarrow> bytes) \<Rightarrow> FatDirectoryEntry \<Rightarrow> Metadata" where
  "fat_metadata unicode e = \<lparr>md_name = get_name unicode e, md_size = ucast (de_file_size e), md_node_type = NodeFile\<rparr>"

fun node_metadata :: "(bytes \<Rightarrow> bytes) \<Rightarrow> FileNode \<Rightarrow> Metadata" where
  "node_metadata unicode (TarFileNode e) = tar_metadata e"
| "node_metadata unicode (Fat32FileNode i e) = fat_metadata unicode e"
| "node_metadata unicode _ = \<lparr>md_name = [47], md_size = 0, md_node_type = NodeDirectory\<rparr>"

section \<open>Lookup\<close>

definition tar_lookup :: "bytes \<Rightarrow> bytes \<Rightarrow> FileNode option option" where
  "tar_lookup data path =
     (let clean_path = trim_start_matches 47 path
      in if clean_path = [] then Some (Some TarDirectoryNode)
         else map_option (map_option TarFileNode) (tar_find data clean_path))"

definition fat_lookup ::
  "(bytes \<Rightarrow> bytes) \<Rightarrow> nat \<Rightarrow> 'd block_ops \<Rightarrow> Fat32Geometry \<Rightarrow> 'd \<Rightarrow> bytes \<Rightarrow> ((unit, FileNode option) outcome \<times> 'd) option" where
  "fat_lookup unicode i ops g d path =
     (let clean_path = trim_start_matches 47 path
      in if clean_path = [] then Some (Ok (Some Fat32DirectoryNode), d)
         else case resolve_path unicode ops g clean_path d of
                None \<Rightarrow> None
              | Some (Err e, d) \<Rightarrow> Some (Ok None, d)
              | Some (Panic, d) \<Rightarrow> Some (Panic, d)
              | Some (Ok entry, d) \<Rightarrow>
                  Some (Ok (Some (if de_attr entry AND ATTR_DIRECTORY \<noteq> 0 then Fat32DirectoryNode else Fat32FileNode i entry)), d))"

definition vfs_mount :: "bytes \<Rightarrow> 'd file_system \<Rightarrow> 'd mounts \<Rightarrow> 'd mounts" where
  "vfs_mount path fs ms = ms @ [(path, fs)]"

definition fs_lookup ::
  "(bytes \<Rightarrow> bytes) \<Rightarrow> nat \<Rightarrow> 'd file_system \<Rightarrow> bytes \<Rightarrow> ((unit, FileNode option) outcome \<times> 'd file_system) option" where
  "fs_lookup unicode i fs path =
     (case fs of
        TarFsAdapter data \<Rightarrow> map_option (\<lambda>n. (Ok n, fs)) (tar_lookup data path)
      | Fat32Adapter ops g d \<Rightarrow> map_option (\<lambda>(n, d). (n, Fat32Adapter ops g d)) (fat_lookup unicode i ops g d path))"

text \<open>The loop over the mount points from index \<open>i\<close> on.\<close>

function open_from ::
  "(bytes \<Rightarrow> bytes) \<Rightarrow> bytes \<Rightarrow> nat \<Rightarrow> 'd mounts \<Rightarrow> ((unit, FileNode option) outcome \<times> 'd mounts) option" where
  "open_from unicode path i ms =
     (if length ms \<le> i then Some (Ok None, ms)
      else let (mp, fs) = ms ! i
      in if starts_with path mp
         then let relative_path = drop (length mp) path;
                  lookup_path = (if relative_path = [] then [47] else relative_path)
              in map_option (\<lambda>(n, fs). (n, ms[i := (mp, fs)])) (fs_lookup unicode i fs lookup_path)
         else open_from unicode path (Suc i) ms)"
  by pat_completeness auto
termination
  by (relation "measure (\<lambda>(u, p, i, ms). length ms - i)") auto

declare open_from.simps [simp del]

definition vfs_open :: "(bytes \<Rightarrow> bytes) \<Rightarrow> bytes \<Rightarrow> 'd mounts \<Rightarrow> ((unit, FileNode option) outcome \<times> 'd mounts) option" where
  "vfs_open unicode path ms = open_from unicode path 0 ms"

section \<open>Reading\<close>

text \<open>A read returns the number of bytes and the buffer; the copy goes to its front. The index in a FAT32 node is
  that of a FAT32 mount, so the last case of \<open>node_read\<close> does not arise.\<close>

definition tar_read :: "FileEntry \<Rightarrow> usize \<Rightarrow> bytes \<Rightarrow> (string, nat \<times> bytes) outcome" where
  "tar_read e offset buf =
     (if is_dir e then Err ''Cannot read directory as a file''
      else let data = fe_data e
      in if length data \<le> unat offset then Ok (0, buf)
         else let copy_len = min (length buf) (length data - unat offset)
         in Ok (copy_len, take copy_len (drop (unat offset) data) @ drop copy_len buf))"

text \<open>The length of what was read can be smaller than the size of the entry; the difference wraps.\<close>

definition fat_read ::
  "'d block_ops \<Rightarrow> Fat32Geometry \<Rightarrow> FatDirectoryEntry \<Rightarrow> usize \<Rightarrow> bytes \<Rightarrow> 'd \<Rightarrow> ((string, nat \<times> bytes) outcome \<times> 'd) option" where
  "fat_read ops g entry offset buf d =
     (if unat (de_file_size entry) \<le> unat offset then Some (Ok (0, buf), d)
      else case read_file_content ops g (starting_cluster entry) (de_file_size entry) d of
             None \<Rightarrow> None
           | Some (Err e, d) \<Rightarrow> Some (Err e, d)
           | Some (Panic, d) \<Rightarrow> Some (Panic, d)
           | Some (Ok cont, d) \<Rightarrow>
               let copy_len = min (length buf) (unat (word_of_nat (length cont) - offset))
               in (case slice cont (unat offset) (unat offset + copy_len) of
                     None \<Rightarrow> Some (Panic, d)
                   | Some s \<Rightarrow> Some (Ok (copy_len, s @ drop copy_len buf), d)))"

fun node_read :: "FileNode \<Rightarrow> usize \<Rightarrow> bytes \<Rightarrow> 'd mounts \<Rightarrow> ((string, nat \<times> bytes) outcome \<times> 'd mounts) option" where
  "node_read TarDirectoryNode offset buf ms = Some (Err ''Cannot read root directory as a file'', ms)"
| "node_read (TarFileNode e) offset buf ms = Some (tar_read e offset buf, ms)"
| "node_read Fat32DirectoryNode offset buf ms = Some (Err ''Cannot read a directory as a file'', ms)"
| "node_read (Fat32FileNode i e) offset buf ms =
     (case ms ! i of
        (mp, Fat32Adapter ops g d) \<Rightarrow>
          map_option (\<lambda>(r, d). (r, ms[i := (mp, Fat32Adapter ops g d)])) (fat_read ops g e offset buf d)
      | _ \<Rightarrow> Some (Panic, ms))"

section \<open>The disk probe at boot\<close>

text \<open>A partition table selects the partition to mount; without one, or when the probe fails, the whole
  device is mounted.\<close>

definition mount_disk :: "'d block_ops \<Rightarrow> 'd \<Rightarrow> (string, 'd block_ops \<times> Fat32Geometry) outcome \<times> 'd" where
  "mount_disk ops d =
     (case find_first_partition_lba ops d of
        (Ok (Some lba), d) \<Rightarrow>
          (let pops = partition_ops ops (ucast lba)
           in try_then (fat_mount pops d) (\<lambda>g d. (Ok (pops, g), d)))
      | (Ok None, d) \<Rightarrow> try_then (fat_mount ops d) (\<lambda>g d. (Ok (ops, g), d))
      | (Err e, d) \<Rightarrow> try_then (fat_mount ops d) (\<lambda>g d. (Ok (ops, g), d))
      | (Panic, d) \<Rightarrow> (Panic, d))"

definition probe_disk :: "(bytes \<Rightarrow> bytes) \<Rightarrow> 'd block_ops \<Rightarrow> bytes \<Rightarrow> 'd \<Rightarrow> ((string, bytes) outcome \<times> 'd) option" where
  "probe_disk unicode ops path d =
     (case mount_disk ops d of
        (Ok (pops, g), d) \<Rightarrow> read_file_by_path unicode pops g path d
      | (Err e, d) \<Rightarrow> Some (Err e, d)
      | (Panic, d) \<Rightarrow> Some (Panic, d))"

text \<open>The mounts of the boot sequence: the ramdisk at \<open>/\<close>, then the volume on a fresh RAM disk at \<open>/disk\<close>.\<close>

definition boot_mounts :: "bytes option \<Rightarrow> 'd block_ops \<Rightarrow> 'd \<Rightarrow> 'd mounts" where
  "boot_mounts ramdisk ops d =
     (let ms = (case ramdisk of Some data \<Rightarrow> vfs_mount [47] (TarFsAdapter data) [] | None \<Rightarrow> [])
      in case fat_mount ops d of
           (Ok g, d) \<Rightarrow> vfs_mount (ascii ''/disk'') (Fat32Adapter ops g d) ms
         | _ \<Rightarrow> ms)"

section \<open>The ramdisk hides the disk\<close>

lemma ram_new_not_fat: "0 < n \<Longrightarrow> n < 2 ^ 32 \<Longrightarrow> fst (fat_mount ram_ops (ram_new n)) = Err ''Invalid boot sector signature: missing 0x55AA''"
proof -
  assume n: "0 < n" "n < 2 ^ 32"
  have "ram_read_sector 0 (ram_new n) = (Ok (sector_bytes (ram_new n) 0), ram_new n)"
    using ram_read_sector_in_range [of 0 "ram_new n"] n by (simp add: ram_new_def SECTOR_SIZE_def sectors_def)
  moreover have "sector_bytes (ram_new n) 0 = replicate 512 0"
    using n by (simp add: sector_bytes_def ram_new_def SECTOR_SIZE_def)
  ultimately show ?thesis by (simp add: fat_mount_def ram_ops_def)
qed

lemma boot_mounts_hd: "boot_mounts (Some data) ops d = ([47], TarFsAdapter data) # tl (boot_mounts (Some data) ops d)"
  by (simp add: boot_mounts_def vfs_mount_def Let_def split: prod.split outcome.split)

lemma tar_lookup_root: "tar_lookup data [47] = tar_lookup data []"
  by (simp add: tar_lookup_def trim_start_matches_def)

lemma open_root_tar:
  "open_from unicode (47 # path) 0 (([47], TarFsAdapter data) # rest) =
     map_option (\<lambda>n. (Ok n, ([47], TarFsAdapter data) # rest)) (tar_lookup data path)"
  by (subst open_from.simps)
    (simp add: starts_with_def fs_lookup_def Let_def tar_lookup_root option.map_comp comp_def)

text \<open>After boot with a ramdisk every absolute path is looked up in the ramdisk, whatever volume is mounted at
  \<open>/disk\<close>, because \<open>open\<close> takes the first mount point that is a prefix and not the longest; and nothing is
  ever mounted at \<open>/disk\<close>, because the boot sequence mounts a RAM disk of zeros there, which has no
  boot sector.\<close>
theorem ramdisk_shadows_disk:
  "vfs_open unicode (47 # path) (boot_mounts (Some data) ops d) =
     map_option (\<lambda>n. (Ok n, boot_mounts (Some data) ops d)) (tar_lookup data path) \<and>
   boot_mounts (Some data) ram_ops (ram_new 256) = [([47], TarFsAdapter data)]"
proof
  obtain rest where b: "boot_mounts (Some data) ops d = ([47], TarFsAdapter data) # rest"
    by (rule that, rule boot_mounts_hd)
  show "vfs_open unicode (47 # path) (boot_mounts (Some data) ops d) =
     map_option (\<lambda>n. (Ok n, boot_mounts (Some data) ops d)) (tar_lookup data path)"
    unfolding vfs_open_def b by (rule open_root_tar)
  show "boot_mounts (Some data) ram_ops (ram_new 256) = [([47], TarFsAdapter data)]"
    using ram_new_not_fat [of 256] by (cases "fat_mount ram_ops (ram_new 256)") (simp add: boot_mounts_def vfs_mount_def)
qed

section \<open>Reading a file from a partitioned disk\<close>

text \<open>
  A file of a partitioned disk: the first sector holds a partition table with a used entry at some \<open>lba\<close>,
  a FAT32 volume starts there, and a path leads through its directories to a file whose cluster chain
  covers its size; \<open>bs\<close> are the bytes along the chain, cut to the size.
\<close>

definition disk_file :: "(bytes \<Rightarrow> bytes) \<Rightarrow> bytes \<Rightarrow> bytes \<Rightarrow> bytes \<Rightarrow> bool" where
  "disk_file unicode disk path bs \<longleftrightarrow>
     (\<exists>ty lba g e cs. 0 < sectors disk \<and> sector_bytes disk 0 ! 510 = 0x55 \<and> sector_bytes disk 0 ! 511 = 0xAA \<and>
        find entry_used (map (table_entry (sector_bytes disk 0)) [0..<4]) = Some (ty, lba) \<and>
        unat lba < sectors disk \<and> fst (fat_mount ram_ops (sector_bytes disk (unat lba))) = Ok g \<and>
        trim_start_matches 47 path \<noteq> [] \<and>
        path_leads unicode g (drop (unat lba * 512) disk) (root_cluster g) (split_at_byte 47 (trim_start_matches 47 path)) e \<and>
        de_attr e AND ATTR_DIRECTORY = 0 \<and> file_chain g (drop (unat lba * 512) disk) e cs \<and>
        bs = file_bytes g (drop (unat lba * 512) disk) cs (de_file_size e))"

context block_device
begin

lemma probe_disk_reads:
  assumes "valid d" "disk_file unicode (content d) path bs"
  shows "\<exists>d'. probe_disk unicode ops path d = Some (Ok bs, d') \<and> valid d'"
proof -
  obtain ty lba g e cs where
    s: "0 < sectors (content d)" "sector_bytes (content d) 0 ! 510 = 0x55" "sector_bytes (content d) 0 ! 511 = 0xAA"
      "find entry_used (map (table_entry (sector_bytes (content d) 0)) [0..<4]) = Some (ty, lba)"
    and m: "unat lba < sectors (content d)" "fst (fat_mount ram_ops (sector_bytes (content d) (unat lba))) = Ok g"
    and f: "trim_start_matches 47 path \<noteq> []"
      "path_leads unicode g (drop (unat lba * 512) (content d)) (root_cluster g) (split_at_byte 47 (trim_start_matches 47 path)) e"
      "de_attr e AND ATTR_DIRECTORY = 0" "file_chain g (drop (unat lba * 512) (content d)) e cs"
      "bs = file_bytes g (drop (unat lba * 512) (content d)) cs (de_file_size e)"
    using assms(2) unfolding disk_file_def by blast
  let ?p = "partition_ops ops (ucast lba)"
  have u: "unat (ucast lba :: usize) = unat lba"
    using unsigned_less [of lba, where ?'a = nat] by (simp add: unsigned_ucast_eq take_bit_nat_eq_self)
  obtain d1 where p: "find_first_partition_lba ops d = (Ok (Some lba), d1)" "valid d1" "content d1 = content d"
    using find_first_partition [OF assms(1) s(1)] s(2-4) by auto
  note P = partition_contract [of "ucast lba"]
  obtain d2 where md: "fat_mount ?p d1 = (Ok g, d2)" "valid d2" "drop (unat lba * 512) (content d2) = drop (unat lba * 512) (content d)"
    using block_device.fat_mount_reads [OF P p(2)] m p(3)
    by (cases "fat_mount ?p d1") (auto simp: u sector_bytes_drop)
  have "mount_disk ops d = (Ok (?p, g), d2)" using p md by (simp add: mount_disk_def)
  then show ?thesis
    using block_device.read_file_by_path_leads [OF P md(2) f(1), of unicode g e cs] f(2-5) md(3)
    by (auto simp: probe_disk_def u)
qed

end

text \<open>A disk of five sectors: a partition table, and in the partition a boot sector, one table sector, a root
  directory with the file \<open>TEST.TXT\<close> and its one cluster.\<close>

definition pad_sector :: "bytes \<Rightarrow> bytes" where
  "pad_sector bs = bs @ replicate (512 - length bs) 0"

definition demo_sectors :: "bytes list" where
  "demo_sectors =
     [replicate 450 0 @ [0x0C, 0, 0, 0, 1, 0, 0, 0] @ replicate 52 0 @ [0x55, 0xAA],
      replicate 11 0 @ [0, 2, 1, 1, 0, 1] @ replicate 19 0 @ [1, 0, 0, 0, 0, 0, 0, 0, 2] @ replicate 465 0 @ [0x55, 0xAA],
      pad_sector (replicate 8 0 @ [0xFF, 0xFF, 0xFF, 0x0F, 0xFF, 0xFF, 0xFF, 0x0F]),
      pad_sector (ascii ''TEST    TXT'' @ [0x20] @ replicate 8 0 @ [0, 0, 0, 0, 0, 0, 3, 0, 5, 0, 0, 0]),
      pad_sector (ascii ''hello'')]"

definition demo_geometry :: Fat32Geometry where
  "demo_geometry = \<lparr>bytes_per_sector = 512, sectors_per_cluster = 1, reserved_sector_count = 1, num_fats = 1,
     sectors_per_fat = 1, root_cluster = 2, first_fat_sector = 1, first_data_sector = 2\<rparr>"

definition demo_file :: FatDirectoryEntry where
  "demo_file = parse_dir_entry (take 32 (demo_sectors ! 3))"

lemma demo_sectors_length: "list_all (\<lambda>s. length s = 512) demo_sectors" "length demo_sectors = 5"
  by (simp_all add: demo_sectors_def pad_sector_def ascii_def)

lemma demo_volume: "drop (unat (1 :: u32) * 512) (concat demo_sectors) = concat (drop 1 demo_sectors)"
  using drop_concat_sectors [OF demo_sectors_length(1), of 1] demo_sectors_length(2) by simp

lemma demo_volume_sector: "n < 4 \<Longrightarrow> sector_bytes (concat (drop 1 demo_sectors)) n = demo_sectors ! Suc n"
  using sector_bytes_concat [of "drop 1 demo_sectors" n] demo_sectors_length
  by (simp add: list_all_length)

lemma demo_cluster:
  assumes "c = 2 \<or> c = 3"
  shows "cluster_ok demo_geometry (concat (drop 1 demo_sectors)) c"
    "fat_entry demo_geometry (concat (drop 1 demo_sectors)) c = 0x0FFFFFFF"
    "cluster_bytes demo_geometry (concat (drop 1 demo_sectors)) c = demo_sectors ! (Suc (unat c))"
proof -
  have s: "sectors (concat (drop 1 demo_sectors)) = 4"
    using sectors_concat [of "drop 1 demo_sectors"] demo_sectors_length by (simp add: list_all_length)
  have fat: "take 4 (drop 8 (demo_sectors ! Suc 1)) = [0xFF, 0xFF, 0xFF, 0x0F]" "take 4 (drop 12 (demo_sectors ! Suc 1)) = [0xFF, 0xFF, 0xFF, 0x0F]"
    by (simp_all add: demo_sectors_def pad_sector_def)
  show "cluster_ok demo_geometry (concat (drop 1 demo_sectors)) c"
    using assms s by (auto simp: cluster_ok_def data_cluster_def cluster_to_sector_def demo_geometry_def)
  show "fat_entry demo_geometry (concat (drop 1 demo_sectors)) c = 0x0FFFFFFF"
    using assms demo_volume_sector [of 1] fat by (auto simp: fat_entry_def demo_geometry_def u32_le_def)
  show "cluster_bytes demo_geometry (concat (drop 1 demo_sectors)) c = demo_sectors ! (Suc (unat c))"
    using assms demo_volume_sector [of 2] demo_volume_sector [of 3]
    by (auto simp: cluster_bytes_def cluster_size_def SECTOR_SIZE_def demo_geometry_def cluster_to_sector_def sector_bytes_def)
qed

lemma demo_mount: "fst (fat_mount ram_ops (demo_sectors ! 1)) = Ok demo_geometry"
proof -
  have l: "length (demo_sectors ! 1) = 512" using demo_sectors_length by (simp add: list_all_length)
  have "read_sector ram_ops 0 (demo_sectors ! 1) = (Ok (demo_sectors ! 1), demo_sectors ! 1)"
    using ram_read_sector_in_range [of 0 "demo_sectors ! 1"] l by (simp add: ram_ops_def sectors_def sector_bytes_def)
  moreover have "demo_sectors ! 1 ! 510 = 0x55" "demo_sectors ! 1 ! 511 = 0xAA" "demo_sectors ! 1 ! 13 = 1" "demo_sectors ! 1 ! 16 = 1"
    "take 2 (drop 11 (demo_sectors ! 1)) = [0, 2]" "take 2 (drop 14 (demo_sectors ! 1)) = [1, 0]"
    "take 4 (drop 36 (demo_sectors ! 1)) = [1, 0, 0, 0]" "take 4 (drop 44 (demo_sectors ! 1)) = [2, 0, 0, 0]"
    by (simp_all add: demo_sectors_def nth_append numeral_3_eq_3)
  ultimately show ?thesis
    by (simp add: fat_mount_def demo_geometry_def u16_le_def u32_le_def SECTOR_SIZE_def)
qed

lemma demo_entry_bytes: "take 32 (demo_sectors ! 3) = ascii ''TEST    TXT'' @ [0x20] @ replicate 8 0 @ [0, 0, 0, 0, 0, 0, 3, 0, 5, 0, 0, 0]"
  by (simp add: demo_sectors_def pad_sector_def ascii_def)

lemma demo_file_fields:
  "starting_cluster demo_file = 3" "de_file_size demo_file = 5" "de_attr demo_file = 0x20" "de_name demo_file = ascii ''TEST    TXT''"
  unfolding demo_file_def demo_entry_bytes
  by (simp_all add: parse_dir_entry_def starting_cluster_def u16_le_def u32_le_def ascii_def nth_append)

lemma demo_directory:
  "scan_entries id (to_lowercase id (ascii ''test.txt'')) (cluster_entries demo_geometry (demo_sectors ! 3)) = Some demo_file"
proof -
  have "cluster_entries demo_geometry (demo_sectors ! 3) = demo_file # map (\<lambda>i. parse_dir_entry (take 32 (drop (i * 32) (demo_sectors ! 3)))) [1..<16]"
    by (simp add: cluster_entries_def cluster_size_def SECTOR_SIZE_def demo_geometry_def demo_file_def upt_conv_Cons)
  moreover have "get_name id demo_file = ascii ''test.txt''"
    by (simp add: get_name_def demo_file_fields) (simp add: ascii_def to_lowercase_def ascii_lower_def)
  moreover have "to_lowercase id (ascii ''test.txt'') = ascii ''test.txt''"
    by (simp add: ascii_def to_lowercase_def ascii_lower_def)
  ultimately show ?thesis
    by (simp add: is_end_def is_free_def is_lfn_def demo_file_fields)
      (simp add: ascii_def ATTR_LONG_NAME_def ATTR_READ_ONLY_def ATTR_HIDDEN_def ATTR_SYSTEM_def ATTR_VOLUME_ID_def)
qed

lemma demo_directory_other:
  "scan_entries id (to_lowercase id (ascii ''etc'')) (cluster_entries demo_geometry (demo_sectors ! 3)) = None"
proof -
  have e: "cluster_entries demo_geometry (demo_sectors ! 3) =
      demo_file # parse_dir_entry (take 32 (drop 32 (demo_sectors ! 3))) # map (\<lambda>i. parse_dir_entry (take 32 (drop (i * 32) (demo_sectors ! 3)))) [2..<16]"
    by (simp add: cluster_entries_def cluster_size_def SECTOR_SIZE_def demo_geometry_def demo_file_def upt_conv_Cons numeral_2_eq_2)
  have "get_name id demo_file = ascii ''test.txt''"
    by (simp add: get_name_def demo_file_fields) (simp add: ascii_def to_lowercase_def ascii_lower_def)
  moreover have "is_end (parse_dir_entry (take 32 (drop 32 (demo_sectors ! 3))))"
    by (simp add: is_end_def parse_dir_entry_def demo_sectors_def pad_sector_def ascii_def)
  ultimately show ?thesis
    unfolding e by (simp add: is_end_def demo_file_fields) (simp add: ascii_def to_lowercase_def ascii_lower_def)
qed

lemma demo_disk_file: "disk_file id (concat demo_sectors) (ascii ''/test.txt'') (ascii ''hello'')"
proof -
  let ?v = "concat (drop 1 demo_sectors)"
  have s0: "sector_bytes (concat demo_sectors) 0 = demo_sectors ! 0" "sector_bytes (concat demo_sectors) 1 = demo_sectors ! 1"
    using sector_bytes_concat [OF demo_sectors_length(1)] demo_sectors_length(2) by simp_all
  have sec: "sectors (concat demo_sectors) = 5" using sectors_concat [OF demo_sectors_length(1)] demo_sectors_length(2) by simp
  have path: "trim_start_matches 47 (ascii ''/test.txt'') = ascii ''test.txt''" "split_at_byte 47 (ascii ''test.txt'') = [ascii ''test.txt'']"
    by (simp_all add: trim_start_matches_def ascii_def)
  have "scan_entries id (to_lowercase id (ascii ''test.txt'')) (cluster_entries demo_geometry (demo_sectors ! 3)) = Some demo_file"
    by (rule demo_directory)
  then have leads: "path_leads id demo_geometry ?v (root_cluster demo_geometry) [ascii ''test.txt''] demo_file"
    using demo_cluster [of 2]
    by (intro path_leads.last_part) (auto simp: dir_holds_def demo_geometry_def data_cluster_def intro!: exI [of _ "[]"])
  have fc: "file_chain demo_geometry ?v demo_file [3]"
    using demo_cluster(1) [of 3] demo_file_fields by (simp add: file_chain_def cluster_size_def SECTOR_SIZE_def demo_geometry_def)
  have fb: "file_bytes demo_geometry ?v [3] 5 = ascii ''hello''"
    using demo_cluster(3) [of 3] by (simp add: file_bytes_def) (simp add: demo_sectors_def pad_sector_def ascii_def)
  have "map (table_entry (demo_sectors ! 0)) [0..<4] ! 0 = (0x0C, 1)"
    by (simp add: table_entry_def) (simp add: demo_sectors_def nth_append u32_le_def)
  then have ent: "find entry_used (map (table_entry (demo_sectors ! 0)) [0..<4]) = Some (0x0C, 1)"
    by (simp add: upt_conv_Cons entry_used_def)
  have sig: "demo_sectors ! 0 ! 510 = 0x55" "demo_sectors ! 0 ! 511 = 0xAA" by (simp_all add: demo_sectors_def nth_append)
  have dir: "de_attr demo_file AND ATTR_DIRECTORY = 0" by (simp add: demo_file_fields ATTR_DIRECTORY_def)
  have "unat (1 :: u32) < sectors (concat demo_sectors)" "0 < sectors (concat demo_sectors)" using sec by simp_all
  then show ?thesis
    unfolding disk_file_def
    by (intro exI [of _ "0x0C"] exI [of _ 1] exI [of _ demo_geometry] exI [of _ demo_file] exI [of _ "[3]"])
      (use s0 sig ent dir leads fc fb demo_mount path demo_file_fields(2) in \<open>simp only: demo_volume, simp add: ascii_def\<close>)
qed

section \<open>A directory whose clusters form a cycle\<close>

text \<open>The directory search follows the links of the allocation table without a bound: on a volume whose links
  never leave a set of readable clusters, none of which holds the name, the search never returns. The
  adapter runs it with interrupts disabled, so a damaged or hostile disk stops the kernel.\<close>
theorem cyclic_directory_hangs:
  assumes "length disk < 2 ^ 64" "c \<in> S"
    and "\<forall>x \<in> S. cluster_ok g (drop (unat off * 512) disk) x \<and> fat_entry g (drop (unat off * 512) disk) x \<in> S \<and>
      scan_entries unicode (to_lowercase unicode name) (cluster_entries g (cluster_bytes g (drop (unat off * 512) disk) x)) = None"
  shows "find_in_directory unicode (partition_ops ram_ops off) g c name disk = None"
  unfolding find_in_directory_def by (rule ram_partition.find_loop_diverges [OF assms(1,2) _ assms(3)]) simp

definition loop_sectors :: "bytes list" where
  "loop_sectors = demo_sectors[2 := pad_sector (replicate 8 0 @ [2, 0, 0, 0])]"

theorem cyclic_directory_hangs_witness:
  "find_in_directory id (partition_ops ram_ops 1) demo_geometry 2 (ascii ''etc'') (concat loop_sectors) = None"
proof -
  let ?v = "concat (drop 1 loop_sectors)"
  have l: "list_all (\<lambda>s. length s = 512) loop_sectors" "length loop_sectors = 5"
    by (simp_all add: loop_sectors_def demo_sectors_def pad_sector_def ascii_def)
  have v: "drop (unat (1 :: usize) * 512) (concat loop_sectors) = ?v"
    using drop_concat_sectors [OF l(1), of 1] l(2) by simp
  have l1: "list_all (\<lambda>s. length s = 512) (drop 1 loop_sectors)" using l by (simp add: list_all_length)
  have sec: "sectors ?v = 4" using sectors_concat [OF l1] l(2) by simp
  have s: "sector_bytes ?v 1 = loop_sectors ! 2" "sector_bytes ?v 2 = demo_sectors ! 3"
    using sector_bytes_concat [OF l1] l(2) by (simp_all add: loop_sectors_def numeral_3_eq_3 numeral_2_eq_2)
  have ok: "cluster_ok demo_geometry ?v 2"
    using sec by (simp add: cluster_ok_def data_cluster_def cluster_to_sector_def demo_geometry_def)
  have "take 4 (drop 8 (loop_sectors ! 2)) = [2, 0, 0, 0]"
    by (simp add: loop_sectors_def demo_sectors_def pad_sector_def)
  then have nx: "fat_entry demo_geometry ?v 2 = 2"
    using s(1) by (simp add: fat_entry_def demo_geometry_def u32_le_def)
  have cb: "cluster_bytes demo_geometry ?v 2 = demo_sectors ! 3"
    using s(2) by (simp add: cluster_bytes_def cluster_size_def SECTOR_SIZE_def demo_geometry_def cluster_to_sector_def sector_bytes_def)
  have no: "scan_entries id (to_lowercase id (ascii ''etc'')) (cluster_entries demo_geometry (demo_sectors ! 3)) = None"
    by (rule demo_directory_other)
  have len: "length (concat loop_sectors) < 2 ^ 64"
    by (simp add: loop_sectors_def demo_sectors_def pad_sector_def ascii_def)
  show ?thesis
    using cyclic_directory_hangs [OF len, of 2 "{2}" demo_geometry 1 id "ascii ''etc''"] ok nx cb no unfolding v by simp
qed

end
