(* ===== verification/Ata.thy ===== *)
theory Ata
  imports Device Block
begin

text \<open>
  The ATA driver in programmed-I/O mode (\<^verbatim>\<open>fs/ata.rs\<close>), over a device parameter. The drive that the
  statements assume is given by \<open>ata_drive\<close>: a device whose registers behave as the standard describes for
  the commands the driver uses (task-file registers, 256-word transfers through the data port, the
  IDENTIFY block). Nothing in the driver's definitions depends on it.
\<close>

section \<open>Ports and commands\<close>

abbreviation "ATA_DATA \<equiv> 0x1F0 :: usize"
abbreviation "ATA_ERROR \<equiv> 0x1F1 :: usize"
abbreviation "ATA_SECTOR_COUNT \<equiv> 0x1F2 :: usize"
abbreviation "LBA_LOW \<equiv> 0x1F3 :: usize"
abbreviation "LBA_MID \<equiv> 0x1F4 :: usize"
abbreviation "LBA_HIGH \<equiv> 0x1F5 :: usize"
abbreviation "DRIVE_HEAD \<equiv> 0x1F6 :: usize"
abbreviation "ATA_COMMAND \<equiv> 0x1F7 :: usize"
abbreviation "ATA_STATUS \<equiv> 0x1F7 :: usize"
abbreviation "ALT_STATUS \<equiv> 0x3F6 :: usize"
abbreviation "CMD_READ_SECTORS \<equiv> 0x20 :: u8"
abbreviation "CMD_WRITE_SECTORS \<equiv> 0x30 :: u8"
abbreviation "CMD_CACHE_FLUSH \<equiv> 0xE7 :: u8"
abbreviation "CMD_IDENTIFY \<equiv> 0xEC :: u8"
abbreviation "STATUS_ERR \<equiv> 0x01 :: u8"
abbreviation "STATUS_DRQ \<equiv> 0x08 :: u8"
abbreviation "STATUS_DF \<equiv> 0x20 :: u8"
abbreviation "STATUS_RDY \<equiv> 0x40 :: u8"
abbreviation "STATUS_BSY \<equiv> 0x80 :: u8"

definition ATA_POLL_ATTEMPTS :: nat where
  "ATA_POLL_ATTEMPTS = 1000000"

datatype AtaError = AtaTimeout | DeviceError u8 | NoDevice

definition outb :: "usize \<Rightarrow> u8 \<Rightarrow> history \<Rightarrow> history" where
  "outb port v h = dev_write port (ucast v) h"

definition outw :: "usize \<Rightarrow> u16 \<Rightarrow> history \<Rightarrow> history" where
  "outw port v h = dev_write port (ucast v) h"

definition inb :: "device \<Rightarrow> usize \<Rightarrow> history \<Rightarrow> u8 \<times> history" where
  "inb dev port h = map_prod ucast (\<lambda>h. h) (dev_read dev port h)"

definition inw :: "device \<Rightarrow> usize \<Rightarrow> history \<Rightarrow> u16 \<times> history" where
  "inw dev port h = map_prod ucast (\<lambda>h. h) (dev_read dev port h)"

definition io_delay :: "device \<Rightarrow> history \<Rightarrow> history" where
  "io_delay dev h = ((\<lambda>h. snd (inb dev ALT_STATUS h)) ^^ 4) h"

section \<open>Waiting\<close>

definition wait_while_busy :: "device \<Rightarrow> history \<Rightarrow> (AtaError, unit) outcome \<times> history" where
  "wait_while_busy dev h =
     (case poll_bounded ATA_POLL_ATTEMPTS dev ATA_STATUS (\<lambda>v. (ucast v :: u8) AND STATUS_BSY \<noteq> 0) h of
        (Some _, h) \<Rightarrow> (Ok (), h)
      | (None, h) \<Rightarrow> (Err AtaTimeout, h))"

fun wait_data_loop :: "nat \<Rightarrow> device \<Rightarrow> history \<Rightarrow> (AtaError, unit) outcome \<times> history" where
  "wait_data_loop 0 dev h = (Err AtaTimeout, h)"
| "wait_data_loop (Suc n) dev h =
     (let (status, h) = inb dev ATA_STATUS h
      in if status AND (STATUS_ERR OR STATUS_DF) \<noteq> 0
         then (let (e, h) = inb dev ATA_ERROR h in (Err (DeviceError e), h))
         else if status AND STATUS_BSY = 0 \<and> status AND STATUS_DRQ \<noteq> 0 then (Ok (), h)
         else wait_data_loop n dev h)"

definition wait_for_data :: "device \<Rightarrow> history \<Rightarrow> (AtaError, unit) outcome \<times> history" where
  "wait_for_data dev h = wait_data_loop ATA_POLL_ATTEMPTS dev h"

section \<open>Transfers\<close>

fun read_words :: "nat \<Rightarrow> device \<Rightarrow> history \<Rightarrow> u16 list \<times> history" where
  "read_words 0 dev h = ([], h)"
| "read_words (Suc n) dev h =
     (let (w, h) = inw dev ATA_DATA h; (ws, h) = read_words n dev h in (w # ws, h))"

definition word_bytes :: "u16 \<Rightarrow> bytes" where
  "word_bytes w = [ucast w, ucast (drop_bit 8 w)]"

fun write_words :: "bytes \<Rightarrow> history \<Rightarrow> history" where
  "write_words (a # b # bs) h = write_words bs (outw ATA_DATA (ucast a OR push_bit 8 (ucast b)) h)"
| "write_words _ h = h"

text \<open>The commands of one transfer: select the drive and the upper LBA bits, wait, then count, LBA and command.\<close>

definition issue_transfer :: "device \<Rightarrow> u32 \<Rightarrow> u8 \<Rightarrow> history \<Rightarrow> history" where
  "issue_transfer dev lba cmd h =
     (let h = outb DRIVE_HEAD (0xE0 OR (ucast (drop_bit 24 lba) AND 0x0F)) h;
          h = io_delay dev h;
          h = outb ATA_SECTOR_COUNT 1 h;
          h = outb LBA_LOW (ucast lba) h;
          h = outb LBA_MID (ucast (drop_bit 8 lba)) h;
          h = outb LBA_HIGH (ucast (drop_bit 16 lba)) h
      in outb ATA_COMMAND cmd h)"

fun read_sectors_loop :: "device \<Rightarrow> u32 \<Rightarrow> nat list \<Rightarrow> bytes \<Rightarrow> history \<Rightarrow> (AtaError, bytes) outcome \<times> history" where
  "read_sectors_loop dev lba [] buf h = (Ok buf, h)"
| "read_sectors_loop dev lba (i # is) buf h =
     try_then (wait_while_busy dev h) (\<lambda>_ h.
       let h = issue_transfer dev (lba + word_of_nat i) CMD_READ_SECTORS h
       in try_then (wait_for_data dev h) (\<lambda>_ h.
            let (ws, h) = read_words 256 dev h; start = i * SECTOR_SIZE
            in read_sectors_loop dev lba is
                 (take start buf @ concat (map word_bytes ws) @ drop (start + SECTOR_SIZE) buf) h))"

definition read_sectors :: "device \<Rightarrow> u32 \<Rightarrow> u32 \<Rightarrow> bytes \<Rightarrow> history \<Rightarrow> (AtaError, bytes) outcome \<times> history" where
  "read_sectors dev lba count buf h =
     (if length buf \<noteq> unat count * SECTOR_SIZE then (Panic, h)
      else read_sectors_loop dev lba [0..<unat count] buf h)"

section \<open>The device\<close>

definition ata_new :: "device \<Rightarrow> history \<Rightarrow> (AtaError, u32) outcome \<times> history" where
  "ata_new dev h =
     (let h = outb DRIVE_HEAD 0xA0 h;
          h = io_delay dev h;
          h = outb ATA_SECTOR_COUNT 0 h;
          h = outb LBA_LOW 0 h;
          h = outb LBA_MID 0 h;
          h = outb LBA_HIGH 0 h;
          h = outb ATA_COMMAND CMD_IDENTIFY h;
          (status, h) = inb dev ATA_STATUS h
      in if status = 0 then (Err NoDevice, h)
         else try_then (wait_while_busy dev h) (\<lambda>_ h.
           let (mid, h) = inb dev LBA_MID h
           in if mid \<noteq> 0 then (Err NoDevice, h)
           else let (high, h) = inb dev LBA_HIGH h
           in if high \<noteq> 0 then (Err NoDevice, h)
           else try_then (wait_for_data dev h) (\<lambda>_ h.
             let (status, h) = inb dev ATA_STATUS h
             in if status AND STATUS_RDY = 0 then (Err NoDevice, h)
                else let (identify_data, h) = read_words 256 dev h
                in (Ok (ucast (identify_data ! 60) OR push_bit 16 (ucast (identify_data ! 61))), h))))"

definition flush_cache :: "device \<Rightarrow> history \<Rightarrow> (AtaError, unit) outcome \<times> history" where
  "flush_cache dev h =
     try_then (wait_while_busy dev h) (\<lambda>_ h. wait_while_busy dev (outb ATA_COMMAND CMD_CACHE_FLUSH h))"

definition map_err :: "string \<Rightarrow> ('e, 'a) outcome \<times> 's \<Rightarrow> (string, 'a) outcome \<times> 's" where
  "map_err msg r = (case r of (Ok x, s) \<Rightarrow> (Ok x, s) | (Err e, s) \<Rightarrow> (Err msg, s) | (Panic, s) \<Rightarrow> (Panic, s))"

text \<open>The sector number is cut to 32 bits before it is compared with the size of the drive.\<close>

definition ata_read_sector :: "device \<Rightarrow> u32 \<Rightarrow> usize \<Rightarrow> history \<Rightarrow> (string, bytes) outcome \<times> history" where
  "ata_read_sector dev total_sectors sector_id h =
     (let lba = ucast sector_id
      in if total_sectors \<le> lba then (Err ''ATA Read Out of Bounds'', h)
         else try_then (map_err ''ATA Timeout'' (wait_while_busy dev h)) (\<lambda>_ h.
           try_then (map_err ''ATA Device Error during Read'' (wait_for_data dev (issue_transfer dev lba CMD_READ_SECTORS h))) (\<lambda>_ h.
             let (ws, h) = read_words 256 dev h in (Ok (concat (map word_bytes ws)), h))))"

definition ata_write_sector :: "device \<Rightarrow> u32 \<Rightarrow> usize \<Rightarrow> bytes \<Rightarrow> history \<Rightarrow> (string, unit) outcome \<times> history" where
  "ata_write_sector dev total_sectors sector_id buf h =
     (let lba = ucast sector_id
      in if total_sectors \<le> lba then (Err ''ATA Write Out of Bounds'', h)
         else try_then (map_err ''ATA Timeout'' (wait_while_busy dev h)) (\<lambda>_ h.
           try_then (map_err ''ATA Device Error during Write'' (wait_for_data dev (issue_transfer dev lba CMD_WRITE_SECTORS h))) (\<lambda>_ h.
             map_err ''ATA Cache Flush Failed'' (flush_cache dev (write_words buf h)))))"

definition ata_ops :: "device \<Rightarrow> u32 \<Rightarrow> history block_ops" where
  "ata_ops dev total_sectors =
     \<lparr>read_sector = ata_read_sector dev total_sectors, write_sector = ata_write_sector dev total_sectors,
      sector_size = (\<lambda>_. SECTOR_SIZE)\<rparr>"

definition self_test :: "'d block_ops \<Rightarrow> u32 \<Rightarrow> 'd \<Rightarrow> (string, unit) outcome \<times> 'd" where
  "self_test ops total_sectors d =
     (if total_sectors = 0 then (Err ''ATA self-test: device reports zero sectors'', d)
      else if sector_size ops d \<noteq> SECTOR_SIZE then (Err ''ATA self-test: unexpected sector size'', d)
      else let test_sector = ucast (total_sectors - 1); pattern = map (\<lambda>i. word_of_nat (i mod 256)) [0..<SECTOR_SIZE]
      in try_then (read_sector ops test_sector d) (\<lambda>original d.
           try_then (write_sector ops test_sector pattern d) (\<lambda>_ d.
             try_then (read_sector ops test_sector d) (\<lambda>readback d.
               try_then (write_sector ops test_sector original d) (\<lambda>_ d.
                 if readback \<noteq> pattern then (Err ''ATA self-test: readback did not match pattern written'', d)
                 else (Ok (), d))))))"

context block_device
begin

lemma self_test_restores:
  assumes "valid d" "sectors (content d) = unat tot" "0 < unat tot" "sector_size ops d = 512"
  shows "\<exists>d'. self_test ops tot d = (Ok (), d') \<and> valid d' \<and> content d' = content d"
proof -
  let ?n = "ucast (tot - 1) :: usize" and ?p = "map (\<lambda>i. word_of_nat (i mod 256)) [0..<512] :: bytes"
  have "tot \<noteq> 0" using assms(3) by auto
  then have u: "unat ?n = unat tot - 1"
    using unsigned_less [of "tot - 1", where ?'a = nat]
    by (simp add: unsigned_ucast_eq take_bit_nat_eq_self unat_minus_one)
  have n: "unat ?n < sectors (content d)" using assms(2,3) u by simp
  let ?o = "sector_bytes (content d) (unat ?n)"
  have lo: "length ?o = 512" using n by (rule length_sector_bytes)
  obtain d1 where r1: "read_sector ops ?n d = (Ok ?o, d1)" "valid d1" "content d1 = content d"
    using read_law [OF assms(1) n] by blast
  obtain d2 where w1: "write_sector ops ?n ?p d1 = (Ok (), d2)" "valid d2" "content d2 = put_sector (content d) (unat ?n) ?p"
    using write_law [OF r1(2), of ?n ?p] n r1(3) by auto
  have n2: "unat ?n < sectors (content d2)" using w1(3) n by simp
  obtain d3 where r2: "read_sector ops ?n d2 = (Ok ?p, d3)" "valid d3" "content d3 = content d2"
    using read_law [OF w1(2) n2] sector_put_same [OF n, of ?p] w1(3) by auto
  obtain d4 where w2: "write_sector ops ?n ?o d3 = (Ok (), d4)" "valid d4" "content d4 = put_sector (content d2) (unat ?n) ?o"
    using write_law [OF r2(2) _ lo, of ?n] n2 r2(3) by auto
  have "content d4 = content d"
    using put_sector_restore [OF n] by (simp add: w2(3) w1(3))
  then show ?thesis
    using r1 w1 r2 w2 assms(3,4) by (auto simp: self_test_def SECTOR_SIZE_def Let_def)
qed

end

section \<open>A drive\<close>

text \<open>
  The registers of a drive as the ATA standard describes them, for the four commands the driver issues.
  A read or IDENTIFY command fills the transfer buffer, which the data port empties word by word; a
  write command collects 256 words and then replaces the sector addressed by the 28-bit LBA in the
  task file. Outside a transfer the data request bit is clear.
\<close>

datatype transfer = Idle | ToHost bytes | FromHost bytes

record drive =
  platter :: bytes
  reg_low :: u8
  reg_mid :: u8
  reg_high :: u8
  reg_head :: u8
  mode :: transfer

definition drive_lba :: "drive \<Rightarrow> nat" where
  "drive_lba s = unat (reg_low s) + 2 ^ 8 * unat (reg_mid s) + 2 ^ 16 * unat (reg_high s) + 2 ^ 24 * unat (reg_head s AND 0x0F)"

definition identify_block :: "drive \<Rightarrow> bytes" where
  "identify_block s = replicate 120 0 @ to_le_bytes 4 (word_of_nat (sectors (platter s)) :: u32) @ replicate 388 0"

definition drive_command :: "u8 \<Rightarrow> drive \<Rightarrow> drive" where
  "drive_command c s =
     s\<lparr>mode := if c = CMD_READ_SECTORS then ToHost (sector_bytes (platter s) (drive_lba s))
               else if c = CMD_IDENTIFY then ToHost (identify_block s)
               else if c = CMD_WRITE_SECTORS then FromHost []
               else Idle\<rparr>"

definition drive_accept :: "u16 \<Rightarrow> drive \<Rightarrow> drive" where
  "drive_accept w s =
     (case mode s of
        FromHost bs \<Rightarrow>
          (if length bs + 2 < 512 then s\<lparr>mode := FromHost (bs @ word_bytes w)\<rparr>
           else s\<lparr>platter := put_sector (platter s) (drive_lba s) (bs @ word_bytes w), mode := Idle\<rparr>)
      | _ \<Rightarrow> s)"

fun drive_step :: "access \<Rightarrow> drive \<Rightarrow> drive" where
  "drive_step (Wr r v) s =
     (if r = LBA_LOW then s\<lparr>reg_low := ucast v\<rparr>
      else if r = LBA_MID then s\<lparr>reg_mid := ucast v\<rparr>
      else if r = LBA_HIGH then s\<lparr>reg_high := ucast v\<rparr>
      else if r = DRIVE_HEAD then s\<lparr>reg_head := ucast v\<rparr>
      else if r = ATA_COMMAND then drive_command (ucast v) s
      else if r = ATA_DATA then drive_accept (ucast v) s
      else s)"
| "drive_step (Rd r v) s =
     (if r = ATA_DATA then (case mode s of ToHost bs \<Rightarrow> s\<lparr>mode := ToHost (drop 2 bs)\<rparr> | _ \<Rightarrow> s) else s)"

definition drive_status :: "drive \<Rightarrow> u64" where
  "drive_status s = (case mode s of Idle \<Rightarrow> 0x50 | ToHost bs \<Rightarrow> if bs = [] then 0x50 else 0x58 | FromHost bs \<Rightarrow> 0x58)"

definition drive_value :: "drive \<Rightarrow> usize \<Rightarrow> u64" where
  "drive_value s r =
     (if r = ATA_STATUS \<or> r = ALT_STATUS then drive_status s
      else if r = LBA_MID then ucast (reg_mid s)
      else if r = LBA_HIGH then ucast (reg_high s)
      else if r = ATA_DATA
      then (case mode s of ToHost bs \<Rightarrow> ucast (u16_le (take 2 bs)) | _ \<Rightarrow> 0)
      else 0)"

definition drive_state :: "bytes \<Rightarrow> history \<Rightarrow> drive" where
  "drive_state disk h =
     foldr drive_step h \<lparr>platter = disk, reg_low = 0, reg_mid = 0, reg_high = 0, reg_head = 0, mode = Idle\<rparr>"

definition ata_drive :: "bytes \<Rightarrow> device" where
  "ata_drive disk h r = drive_value (drive_state disk h) r"

lemma drive_state_Cons [simp]: "drive_state disk (a # h) = drive_step a (drive_state disk h)"
  by (simp add: drive_state_def)

section \<open>The driver on the drive\<close>

lemma drive_status_ready: "(ucast (drive_status s) :: u8) AND STATUS_BSY = 0" "(ucast (drive_status s) :: u8) AND 33 = 0"
  "(ucast (drive_status s) :: u8) AND STATUS_RDY \<noteq> 0" "(ucast (drive_status s) :: u8) \<noteq> 0"
  by (simp_all add: drive_status_def split: transfer.split)

lemma drive_status_request: "(ucast (drive_status s) :: u8) AND STATUS_DRQ \<noteq> 0 \<longleftrightarrow> (mode s \<noteq> Idle \<and> mode s \<noteq> ToHost [])"
  by (auto simp: drive_status_def split: transfer.split)

lemma poll_attempts: obtains n where "ATA_POLL_ATTEMPTS = Suc n"
  by (rule that [of 999999]) (simp add: ATA_POLL_ATTEMPTS_def)

lemma wait_while_busy_drive:
  "\<exists>v. wait_while_busy (ata_drive disk) h = (Ok (), Rd ATA_STATUS v # h)"
proof -
  obtain n where n: "ATA_POLL_ATTEMPTS = Suc n" by (rule poll_attempts)
  show ?thesis
    unfolding wait_while_busy_def n by (simp add: dev_read_def ata_drive_def drive_value_def drive_status_ready(1))
qed

lemma wait_for_data_drive:
  assumes "mode (drive_state disk h) \<noteq> Idle" "mode (drive_state disk h) \<noteq> ToHost []"
  shows "\<exists>v. wait_for_data (ata_drive disk) h = (Ok (), Rd ATA_STATUS v # h)"
proof -
  obtain n where n: "ATA_POLL_ATTEMPTS = Suc n" by (rule poll_attempts)
  show ?thesis
    unfolding wait_for_data_def n using drive_status_request [of "drive_state disk h"] assms
    by (simp add: inb_def dev_read_def ata_drive_def drive_value_def drive_status_ready Let_def)
qed

lemma drive_step_status [simp]: "drive_step (Rd ATA_STATUS v) s = s" "drive_step (Rd ALT_STATUS v) s = s"
  "drive_step (Wr ATA_SECTOR_COUNT v) s = s"
  by simp_all

lemma io_delay_drive [simp]: "drive_state disk (io_delay dev h) = drive_state disk h"
proof -
  have "(f ^^ 4) x = f (f (f (f x)))" for f :: "history \<Rightarrow> history" and x by (simp add: numeral_eq_Suc)
  then show ?thesis by (simp add: io_delay_def inb_def dev_read_def)
qed

lemma ucast_byte: "(ucast (ucast (w :: u8) :: u64) :: u8) = w"
  by (auto intro!: bit_word_eqI simp: bit_simps)

lemma issue_transfer_state:
  "drive_state disk (issue_transfer dev lba cmd h) =
    drive_command cmd ((drive_state disk h)\<lparr>reg_head := 0xE0 OR (ucast (drop_bit 24 lba) AND 0x0F), reg_low := ucast lba,
      reg_mid := ucast (drop_bit 8 lba), reg_high := ucast (drop_bit 16 lba)\<rparr>)"
  by (simp add: issue_transfer_def outb_def dev_write_def ucast_byte Let_def)

lemma head_nibble: "((0xE0 :: u8) OR (x AND 0x0F)) AND 0x0F = x AND 0x0F"
  by (simp add: and.assoc bit.conj_disj_distrib2)

lemma lba_nibble: "unat (lba :: u32) < 2 ^ 28 \<Longrightarrow> unat (ucast (drop_bit 24 lba) AND 0x0F :: u8) = unat lba div 2 ^ 24"
proof -
  assume a: "unat lba < 2 ^ 28"
  have "(ucast (drop_bit 24 lba) :: u8) AND 0x0F = ucast (drop_bit 24 lba) mod 16"
    using take_bit_eq_mask [of 4 "ucast (drop_bit 24 lba) :: u8"] by (simp add: mask_numeral take_bit_eq_mod)
  then have "unat (ucast (drop_bit 24 lba) AND 0x0F :: u8) = (unat lba div 2 ^ 24) mod 256 mod 16"
    by (simp add: unat_mod unat_ucast_drop_byte)
  then show ?thesis using a by simp
qed

lemma four_digits:
  "n mod 256 + 256 * (n div 256 mod 256) + 65536 * (n div 65536 mod 256) + 16777216 * (n div 16777216) = (n :: nat)"
proof -
  have a: "n div 65536 = n div 256 div 256" "n div 16777216 = n div 256 div 256 div 256" by (simp_all add: div_mult2_eq [symmetric])
  have "n = 256 * (n div 256) + n mod 256" by simp
  moreover have "n div 256 = 256 * (n div 256 div 256) + n div 256 mod 256" by simp
  moreover have "n div 256 div 256 = 256 * (n div 256 div 256 div 256) + n div 256 div 256 mod 256" by simp
  ultimately show ?thesis unfolding a by linarith
qed

lemma drive_lba_transfer:
  assumes "unat (lba :: u32) < 2 ^ 28"
  shows "drive_lba (s\<lparr>reg_head := 0xE0 OR (ucast (drop_bit 24 lba) AND 0x0F), reg_low := ucast lba,
      reg_mid := ucast (drop_bit 8 lba), reg_high := ucast (drop_bit 16 lba)\<rparr>) = unat lba"
  using four_digits [of "unat lba"] unat_ucast_drop_byte [of 0 lba]
  by (simp add: drive_lba_def head_nibble lba_nibble [OF assms] unat_ucast_drop_byte)

lemma word_bytes_le: "length bs = 2 \<Longrightarrow> word_bytes (u16_le bs) = bs"
proof -
  assume "length bs = 2"
  then obtain a b where bs: "bs = [a, b]" by (auto simp: length_Suc_conv numeral_2_eq_2)
  have l: "unat a < 256" "unat b < 256" using unsigned_less [of a, where ?'a = nat] unsigned_less [of b, where ?'a = nat] by simp_all
  then have u: "unat (u16_le bs) = unat a + 256 * unat b"
    by (simp add: u16_le_def bs unat_of_nat take_bit_nat_eq_self del: of_nat_add of_nat_mult)
  have "unat (ucast (drop_bit 0 (u16_le bs)) :: u8) = unat a" "unat (ucast (drop_bit 8 (u16_le bs)) :: u8) = unat b"
    using l by (simp_all only: unat_ucast_drop_byte u) simp_all
  then show ?thesis by (simp add: bs word_unat_eq_iff word_bytes_def)
qed

lemma word_bytes_pair: "word_bytes (ucast a OR push_bit 8 (ucast b)) = [a, b]"
proof -
  have "\<not> bit a (8 + n)" for n using bit_imp_le_length [of a "8 + n"] by auto
  then show ?thesis by (auto intro!: bit_word_eqI simp: bit_simps word_bytes_def)
qed

lemma ucast_word: "(ucast (ucast (w :: u16) :: u64) :: u16) = w"
  by (auto intro!: bit_word_eqI simp: bit_simps)

lemma read_words_drive:
  assumes "mode (drive_state disk h) = ToHost bs" "length bs = 2 * n"
  shows "\<exists>ws h'. read_words n (ata_drive disk) h = (ws, h') \<and> concat (map word_bytes ws) = bs \<and> length ws = n \<and>
    drive_state disk h' = (drive_state disk h)\<lparr>mode := ToHost []\<rparr>"
  using assms
proof (induction n arbitrary: bs h)
  case 0
  then show ?case by simp
next
  case (Suc n)
  let ?w = "u16_le (take 2 bs)" and ?h = "Rd ATA_DATA (ucast (u16_le (take 2 bs))) # h"
  have v: "inw (ata_drive disk) ATA_DATA h = (?w, ?h)"
    using Suc.prems(1) by (simp add: inw_def dev_read_def ata_drive_def drive_value_def ucast_word)
  have "mode (drive_state disk ?h) = ToHost (drop 2 bs)" "length (drop 2 bs) = 2 * n" using Suc.prems by simp_all
  from Suc.IH [OF this] obtain ws h' where i: "read_words n (ata_drive disk) ?h = (ws, h')" "concat (map word_bytes ws) = drop 2 bs"
    "length ws = n" "drive_state disk h' = (drive_state disk ?h)\<lparr>mode := ToHost []\<rparr>" by blast
  have "concat (map word_bytes (?w # ws)) = bs" using i(2) Suc.prems(2) word_bytes_le [of "take 2 bs"] by simp
  moreover have "drive_state disk h' = (drive_state disk h)\<lparr>mode := ToHost []\<rparr>" using i(4) Suc.prems(1) by simp
  ultimately show ?case using v i(1,3) by (intro exI [of _ "?w # ws"] exI [of _ h']) simp
qed

lemma write_words_drive:
  assumes "mode (drive_state disk h) = FromHost pre" "length pre + length buf = 512" "even (length buf)" "buf \<noteq> []"
  shows "drive_state disk (write_words buf h) =
    (drive_state disk h)\<lparr>platter := put_sector (platter (drive_state disk h)) (drive_lba (drive_state disk h)) (pre @ buf), mode := Idle\<rparr>"
  using assms
proof (induction buf h arbitrary: pre rule: write_words.induct)
  case (1 a b bs h)
  let ?h = "outw ATA_DATA (ucast a OR push_bit 8 (ucast b)) h"
  have st: "drive_state disk ?h = drive_accept (ucast a OR push_bit 8 (ucast b)) (drive_state disk h)"
    by (simp add: outw_def dev_write_def ucast_word)
  show ?case
  proof (cases "bs = []")
    case True
    then show ?thesis using "1.prems" st by (simp add: drive_accept_def word_bytes_pair)
  next
    case False
    then have lt: "length pre + 2 < 512" using "1.prems"(2) by (cases bs) auto
    have s: "drive_state disk ?h = (drive_state disk h)\<lparr>mode := FromHost (pre @ [a, b])\<rparr>"
      using "1.prems"(1) lt st by (simp add: drive_accept_def word_bytes_pair)
    have "drive_lba ((drive_state disk h)\<lparr>mode := FromHost (pre @ [a, b])\<rparr>) = drive_lba (drive_state disk h)"
      by (simp add: drive_lba_def)
    then show ?thesis using "1.IH" [of "pre @ [a, b]"] "1.prems"(2,3) False s by simp
  qed
qed (auto simp: even_Suc)

lemma ata_read_sector_drive:
  assumes "sectors (platter (drive_state disk h)) = unat tot" "unat tot \<le> 2 ^ 28" "unat n < unat tot"
  shows "\<exists>h'. ata_read_sector (ata_drive disk) tot n h = (Ok (sector_bytes (platter (drive_state disk h)) (unat n)), h') \<and>
    platter (drive_state disk h') = platter (drive_state disk h)"
proof -
  let ?lba = "ucast n :: u32"
  have u: "unat ?lba = unat n" using assms(2,3) by (simp add: unsigned_ucast_eq take_bit_nat_eq_self)
  obtain v where b: "wait_while_busy (ata_drive disk) h = (Ok (), Rd ATA_STATUS v # h)" using wait_while_busy_drive by blast
  define h1 where "h1 = issue_transfer (ata_drive disk) ?lba CMD_READ_SECTORS (Rd ATA_STATUS v # h)"
  let ?s = "sector_bytes (platter (drive_state disk h)) (unat n)"
  have lba: "unat ?lba < 2 ^ 28" using assms(2,3) u by simp
  have st: "mode (drive_state disk h1) = ToHost ?s" "platter (drive_state disk h1) = platter (drive_state disk h)"
    unfolding h1_def issue_transfer_state drive_command_def
    by (simp_all add: drive_lba_transfer [OF lba] u)
  have len: "length ?s = 2 * 256" using assms(1,3) by (simp add: length_sector_bytes)
  have "?s \<noteq> []" using len by auto
  then obtain w where d: "wait_for_data (ata_drive disk) h1 = (Ok (), Rd ATA_STATUS w # h1)"
    using wait_for_data_drive [of disk h1] st(1) by auto
  have "mode (drive_state disk (Rd ATA_STATUS w # h1)) = ToHost ?s" using st(1) by simp
  from read_words_drive [OF this len] obtain ws h2 where r: "read_words 256 (ata_drive disk) (Rd ATA_STATUS w # h1) = (ws, h2)"
    "concat (map word_bytes ws) = ?s" "drive_state disk h2 = (drive_state disk (Rd ATA_STATUS w # h1))\<lparr>mode := ToHost []\<rparr>" by blast
  have "\<not> tot \<le> ?lba" using assms(3) u by (simp add: word_le_nat_alt)
  then have "ata_read_sector (ata_drive disk) tot n h = (Ok ?s, h2)"
    using b d r(1,2) by (simp add: ata_read_sector_def map_err_def h1_def [symmetric] Let_def)
  then show ?thesis using r(3) st(2) by auto
qed

lemma ata_write_sector_drive:
  assumes "sectors (platter (drive_state disk h)) = unat tot" "unat tot \<le> 2 ^ 28" "unat n < unat tot" "length buf = 512"
  shows "\<exists>h'. ata_write_sector (ata_drive disk) tot n buf h = (Ok (), h') \<and>
    platter (drive_state disk h') = put_sector (platter (drive_state disk h)) (unat n) buf"
proof -
  let ?lba = "ucast n :: u32"
  have u: "unat ?lba = unat n" using assms(2,3) by (simp add: unsigned_ucast_eq take_bit_nat_eq_self)
  obtain v where b: "wait_while_busy (ata_drive disk) h = (Ok (), Rd ATA_STATUS v # h)" using wait_while_busy_drive by blast
  define h1 where "h1 = issue_transfer (ata_drive disk) ?lba CMD_WRITE_SECTORS (Rd ATA_STATUS v # h)"
  have lba: "unat ?lba < 2 ^ 28" using assms(2,3) u by simp
  have lm: "drive_lba (t\<lparr>mode := m\<rparr>) = drive_lba t" for t m by (simp add: drive_lba_def)
  have st: "mode (drive_state disk h1) = FromHost []" "platter (drive_state disk h1) = platter (drive_state disk h)"
    "drive_lba (drive_state disk h1) = unat n"
    unfolding h1_def issue_transfer_state drive_command_def by (simp_all add: lm drive_lba_transfer [OF lba] u)
  obtain w where d: "wait_for_data (ata_drive disk) h1 = (Ok (), Rd ATA_STATUS w # h1)"
    using wait_for_data_drive [of disk h1] st(1) by auto
  define h2 where "h2 = write_words buf (Rd ATA_STATUS w # h1)"
  have "buf \<noteq> []" using assms(4) by auto
  then have s2: "platter (drive_state disk h2) = put_sector (platter (drive_state disk h)) (unat n) buf"
    unfolding h2_def using write_words_drive [of disk "Rd ATA_STATUS w # h1" "[]" buf] st assms(4) by auto
  obtain x where f1: "wait_while_busy (ata_drive disk) h2 = (Ok (), Rd ATA_STATUS x # h2)" using wait_while_busy_drive by blast
  obtain y where f2: "wait_while_busy (ata_drive disk) (outb ATA_COMMAND CMD_CACHE_FLUSH (Rd ATA_STATUS x # h2)) =
      (Ok (), Rd ATA_STATUS y # outb ATA_COMMAND CMD_CACHE_FLUSH (Rd ATA_STATUS x # h2))" using wait_while_busy_drive by blast
  let ?h = "Rd ATA_STATUS y # outb ATA_COMMAND CMD_CACHE_FLUSH (Rd ATA_STATUS x # h2)"
  have "platter (drive_state disk ?h) = platter (drive_state disk h2)"
    by (simp add: outb_def dev_write_def drive_command_def)
  moreover have "\<not> tot \<le> ?lba" using assms(3) u by (simp add: word_le_nat_alt)
  then have "ata_write_sector (ata_drive disk) tot n buf h = (Ok (), ?h)"
    using b d f1 f2 by (simp add: ata_write_sector_def map_err_def flush_cache_def h1_def [symmetric] h2_def [symmetric] Let_def)
  ultimately show ?thesis using s2 by auto
qed

interpretation ata: block_device "ata_ops (ata_drive disk) tot" "\<lambda>h. platter (drive_state disk h)"
  "\<lambda>h. sectors (platter (drive_state disk h)) = unat tot \<and> unat tot \<le> 2 ^ 28" for disk tot
proof
  show "sectors (platter (drive_state disk h)) < 2 ^ 64"
    if "sectors (platter (drive_state disk h)) = unat tot \<and> unat tot \<le> 2 ^ 28" for h
    using that by simp
  show "\<exists>h'. read_sector (ata_ops (ata_drive disk) tot) n h = (Ok (sector_bytes (platter (drive_state disk h)) (unat n)), h') \<and>
      (sectors (platter (drive_state disk h')) = unat tot \<and> unat tot \<le> 2 ^ 28) \<and> platter (drive_state disk h') = platter (drive_state disk h)"
    if "sectors (platter (drive_state disk h)) = unat tot \<and> unat tot \<le> 2 ^ 28" "unat n < sectors (platter (drive_state disk h))" for h n
    using ata_read_sector_drive [of disk h tot n] that by (auto simp: ata_ops_def)
  show "\<exists>h'. write_sector (ata_ops (ata_drive disk) tot) n buf h = (Ok (), h') \<and>
      (sectors (platter (drive_state disk h')) = unat tot \<and> unat tot \<le> 2 ^ 28) \<and>
      platter (drive_state disk h') = put_sector (platter (drive_state disk h)) (unat n) buf"
    if "sectors (platter (drive_state disk h)) = unat tot \<and> unat tot \<le> 2 ^ 28" "unat n < sectors (platter (drive_state disk h))" "length buf = 512" for h n buf
    using ata_write_sector_drive [of disk h tot n buf] that by (auto simp: ata_ops_def)
qed

lemma word_bytes_nth:
  "concat (map word_bytes ws) = bs \<Longrightarrow> i < length ws \<Longrightarrow> word_bytes (ws ! i) = [bs ! (2 * i), bs ! Suc (2 * i)]"
proof (induction ws arbitrary: bs i)
  case (Cons w ws)
  have w: "word_bytes w = [ucast w, ucast (drop_bit 8 w)]" by (simp add: word_bytes_def)
  show ?case
  proof (cases i)
    case 0
    then show ?thesis using Cons.prems(1) w by auto
  next
    case (Suc j)
    have "word_bytes (ws ! j) = [concat (map word_bytes ws) ! (2 * j), concat (map word_bytes ws) ! Suc (2 * j)]"
      using Cons.IH [OF refl] Cons.prems(2) Suc by simp
    then show ?thesis using Suc Cons.prems(1) w by auto
  qed
qed simp

lemma word_of_bytes:
  assumes "word_bytes w = [ucast (drop_bit k t), ucast (drop_bit (8 + k) (t :: u32))]"
  shows "w = ucast (drop_bit k t)"
proof (rule bit_word_eqI)
  fix n assume "n < LENGTH(16)"
  then have n: "n < 16" by simp
  have e: "(ucast w :: u8) = ucast (drop_bit k t)" "(ucast (drop_bit 8 w) :: u8) = ucast (drop_bit (8 + k) t)"
    using assms by (simp_all add: word_bytes_def)
  show "bit w n \<longleftrightarrow> bit (ucast (drop_bit k t) :: u16) n"
  proof (cases "n < 8")
    case True
    then show ?thesis using arg_cong [OF e(1), where f = "\<lambda>x. bit x n"] n by (simp add: bit_simps)
  next
    case False
    then obtain m where m: "n = 8 + m" using le_Suc_ex by (metis not_le)
    then show ?thesis using arg_cong [OF e(2), where f = "\<lambda>x. bit x m"] n by (simp add: bit_simps ac_simps)
  qed
qed

lemma identify_words:
  assumes "concat (map word_bytes ws) = replicate 120 0 @ to_le_bytes 4 tot @ replicate 388 0" "length ws = 256"
  shows "ucast (ws ! 60) OR push_bit 16 (ucast (ws ! 61)) = (tot :: u32)"
proof -
  let ?id = "replicate 120 0 @ to_le_bytes 4 tot @ replicate 388 0 :: bytes"
  have "?id ! 120 = to_le_bytes 4 tot ! 0" "?id ! 121 = to_le_bytes 4 tot ! 1" "?id ! 122 = to_le_bytes 4 tot ! 2" "?id ! 123 = to_le_bytes 4 tot ! 3"
    by (simp_all add: nth_append)
  then have b: "word_bytes (ws ! 60) = [ucast tot, ucast (drop_bit 8 tot)]" "word_bytes (ws ! 61) = [ucast (drop_bit 16 tot), ucast (drop_bit 24 tot)]"
    using word_bytes_nth [OF assms(1), of 60] word_bytes_nth [OF assms(1), of 61] assms(2) by (simp_all add: to_le_bytes_def)
  have "ws ! 60 = ucast (drop_bit 0 tot)" "ws ! 61 = ucast (drop_bit 16 tot)"
    using b by (intro word_of_bytes; simp)+
  moreover have "bit tot n \<Longrightarrow> n - 16 < 16" for n using bit_imp_le_length [of tot n] by simp
  ultimately show ?thesis by (auto intro!: bit_word_eqI simp: bit_simps)
qed

lemma ata_new_drive:
  assumes "sectors disk = unat tot"
  shows "\<exists>h'. ata_new (ata_drive disk) [] = (Ok tot, h') \<and> platter (drive_state disk h') = disk"
proof -
  define h1 where "h1 = outb ATA_COMMAND CMD_IDENTIFY (outb LBA_HIGH 0 (outb LBA_MID 0 (outb LBA_LOW 0 (outb ATA_SECTOR_COUNT 0
      (io_delay (ata_drive disk) (outb DRIVE_HEAD 0xA0 []))))))"
  let ?id = "replicate 120 0 @ to_le_bytes 4 tot @ replicate 388 0 :: bytes"
  have s1: "mode (drive_state disk h1) = ToHost ?id" "platter (drive_state disk h1) = disk" "reg_mid (drive_state disk h1) = 0"
    "reg_high (drive_state disk h1) = 0"
    using assms by (simp_all add: h1_def outb_def dev_write_def drive_command_def identify_block_def drive_state_def [of disk "[]"])
  define h2 where "h2 = Rd ATA_STATUS (drive_status (drive_state disk h1)) # h1"
  have i1: "inb (ata_drive disk) ATA_STATUS h1 = (ucast (drive_status (drive_state disk h1)), h2)"
    by (simp add: inb_def dev_read_def ata_drive_def drive_value_def h2_def)
  have s2: "drive_state disk h2 = drive_state disk h1" by (simp add: h2_def)
  obtain v where b: "wait_while_busy (ata_drive disk) h2 = (Ok (), Rd ATA_STATUS v # h2)" using wait_while_busy_drive by blast
  define h3 where "h3 = Rd LBA_HIGH 0 # Rd LBA_MID 0 # Rd ATA_STATUS v # h2"
  have i2: "inb (ata_drive disk) LBA_MID (Rd ATA_STATUS v # h2) = (0, Rd LBA_MID 0 # Rd ATA_STATUS v # h2)"
    "inb (ata_drive disk) LBA_HIGH (Rd LBA_MID 0 # Rd ATA_STATUS v # h2) = (0, h3)"
    using s1 s2 by (simp_all add: inb_def dev_read_def ata_drive_def drive_value_def h3_def)
  have s3: "drive_state disk h3 = drive_state disk h1" using s2 by (simp add: h3_def)
  obtain w where d: "wait_for_data (ata_drive disk) h3 = (Ok (), Rd ATA_STATUS w # h3)"
    using wait_for_data_drive [of disk h3] s1(1) s3 by auto
  define h4 where "h4 = Rd ATA_STATUS (drive_status (drive_state disk h1)) # Rd ATA_STATUS w # h3"
  have i3: "inb (ata_drive disk) ATA_STATUS (Rd ATA_STATUS w # h3) = (ucast (drive_status (drive_state disk h1)), h4)"
    using s3 by (simp add: inb_def dev_read_def ata_drive_def drive_value_def h4_def)
  have s4: "drive_state disk h4 = drive_state disk h1" using s3 by (simp add: h4_def)
  have "mode (drive_state disk h4) = ToHost ?id" "length ?id = 2 * 256" using s1(1) s4 by simp_all
  from read_words_drive [OF this] obtain ws h5 where r: "read_words 256 (ata_drive disk) h4 = (ws, h5)"
    "concat (map word_bytes ws) = ?id" "length ws = 256" "drive_state disk h5 = (drive_state disk h4)\<lparr>mode := ToHost []\<rparr>" by blast
  have "ucast (ws ! 60) OR push_bit 16 (ucast (ws ! 61)) = tot"
    by (rule identify_words [OF r(2,3)])
  then have "ata_new (ata_drive disk) [] = (Ok tot, h5)"
    using i1 b i2 d i3 r(1) drive_status_ready(3,4) [of "drive_state disk h1"]
    by (simp add: ata_new_def h1_def [symmetric] Let_def)
  then show ?thesis using r(4) s4 s1(2) by auto
qed

end
