(* ===== verification/Storage.thy ===== *)
theory Storage
  imports Vfs Ata
begin

text \<open>
  The storage path of the boot sequence (\<^verbatim>\<open>main.rs\<close>): detect the ATA drive, test it, and read a file from
  the FAT32 volume in its first partition. The log lines are left out; the path is \<open>/test.txt\<close> in the source.
\<close>

definition boot_disk_read ::
  "(bytes \<Rightarrow> bytes) \<Rightarrow> device \<Rightarrow> bytes \<Rightarrow> history \<Rightarrow> ((string, bytes) outcome option \<times> (string, unit) outcome option \<times> history) option" where
  "boot_disk_read unicode dev path h =
     (case ata_new dev h of
        (Err e, h) \<Rightarrow> Some (None, None, h)
      | (Panic, h) \<Rightarrow> Some (None, None, h)
      | (Ok tot, h) \<Rightarrow>
          (case self_test (ata_ops dev tot) tot h of
             (test, h) \<Rightarrow>
               map_option (\<lambda>(r, h). (Some r, Some test, h)) (probe_disk unicode (ata_ops dev tot) path h)))"



end
