(* ===== verification/Shell.thy ===== *)
theory Shell
  imports Syscall Storage
begin

text \<open>
  The kernel shell (\<^verbatim>\<open>shell.rs\<close>): the line editor on the input queue and every command. Text the shell writes goes to the
  console of the kernel state, the polled reads of the serial port and the disk commands go to the device of the environment. A
  result of \<open>None\<close> is a command that never returns, \<open>Panic\<close> a kernel panic.
\<close>

section \<open>Words, numbers and columns\<close>

definition is_whitespace :: "u8 \<Rightarrow> bool" where
  "is_whitespace b \<longleftrightarrow> (9 \<le> b \<and> b \<le> 13) \<or> b = 32"

definition trim :: "bytes \<Rightarrow> bytes" where
  "trim s = rev (dropWhile is_whitespace (rev (dropWhile is_whitespace s)))"

fun split_where :: "(u8 \<Rightarrow> bool) \<Rightarrow> bytes \<Rightarrow> bytes list" where
  "split_where p [] = [[]]"
| "split_where p (b # bs) =
     (if p b then [] # split_where p bs else case split_where p bs of w # ws \<Rightarrow> (b # w) # ws | [] \<Rightarrow> [[b]])"

definition split_whitespace :: "bytes \<Rightarrow> bytes list" where
  "split_whitespace s = filter (\<lambda>w. w \<noteq> []) (split_where is_whitespace s)"

definition to_digit :: "nat \<Rightarrow> u8 \<Rightarrow> nat option" where
  "to_digit radix b =
     (let d = (if 48 \<le> b \<and> b \<le> 57 then unat b - 48
               else if 97 \<le> b \<and> b \<le> 122 then unat b - 87
               else if 65 \<le> b \<and> b \<le> 90 then unat b - 55 else 36)
      in if d < radix then Some d else None)"

fun parse_digits :: "nat \<Rightarrow> nat \<Rightarrow> nat \<Rightarrow> bytes \<Rightarrow> nat option" where
  "parse_digits radix limit acc [] = Some acc"
| "parse_digits radix limit acc (b # bs) =
     (case to_digit radix b of
        None \<Rightarrow> None
      | Some d \<Rightarrow> if acc * radix + d < limit then parse_digits radix limit (acc * radix + d) bs else None)"

text \<open>\<open>from_str_radix\<close> and \<open>parse\<close> for an unsigned type with values below \<open>limit\<close>.\<close>

definition from_str_radix :: "nat \<Rightarrow> nat \<Rightarrow> bytes \<Rightarrow> nat option" where
  "from_str_radix limit radix s =
     (if s = [] \<or> s = [43] \<or> s = [45] then None
      else parse_digits radix limit 0 (if hd s = 43 then tl s else s))"

fun show_radix :: "string \<Rightarrow> nat \<Rightarrow> string" where
  "show_radix ds n =
     (if length ds \<le> 1 \<or> n < length ds then [ds ! n] else show_radix ds (n div length ds) @ [ds ! (n mod length ds)])"

declare show_radix.simps [simp del]

definition show_hex :: "nat \<Rightarrow> string" where
  "show_hex n = show_radix ''0123456789abcdef'' n"

definition show_HEX :: "nat \<Rightarrow> string" where
  "show_HEX n = show_radix ''0123456789ABCDEF'' n"

definition pad_left :: "char \<Rightarrow> nat \<Rightarrow> string \<Rightarrow> string" where
  "pad_left c w s = replicate (w - length s) c @ s"

definition pad_right :: "nat \<Rightarrow> string \<Rightarrow> string" where
  "pad_right w s = s @ replicate (w - length s) (CHR '' '')"

section \<open>The shell's state\<close>

text \<open>
  \<open>dev\<close> is the serial port and the disk, \<open>unicode\<close> the case tables of file names, \<open>heap_serves\<close> the request sizes the
  kernel heap can serve (a vector it cannot serve is a panic), \<open>info_ptr\<close> the address of the \<open>UtsName\<close> on the shell's stack.
\<close>

record shell_env =
  dev :: device
  unicode :: "bytes \<Rightarrow> bytes"
  heap_serves :: "nat \<Rightarrow> bool"
  ramdisk :: "bytes option"
  info_ptr :: usize

record 'd shell =
  sh_kernel :: kernel
  sh_ports :: history
  sh_mounts :: "'d mounts"
  current_line :: bytes
  cmd_history :: "bytes list"

type_synonym 'd command = "((unit, unit) outcome \<times> 'd shell) option"

definition say :: "bytes \<Rightarrow> 'd shell \<Rightarrow> 'd shell" where
  "say s sh = sh\<lparr>sh_kernel := uart_print s (sh_kernel sh)\<rparr>"

definition sayln :: "bytes \<Rightarrow> 'd shell \<Rightarrow> 'd shell" where
  "sayln s = say (s @ [10])"

definition put_byte :: "u8 \<Rightarrow> 'd shell \<Rightarrow> 'd shell" where
  "put_byte b sh = sh\<lparr>sh_kernel := (sh_kernel sh)\<lparr>console := console (sh_kernel sh) @ [b]\<rparr>\<rparr>"

definition returns :: "'d shell \<Rightarrow> 'd command" where
  "returns sh = Some (Ok (), sh)"

abbreviation tgt :: "'d shell \<Rightarrow> target_arch" where
  "tgt sh \<equiv> target (mach (sh_kernel sh))"

section \<open>Commands on kernel state\<close>

definition cmd_help :: "'d shell \<Rightarrow> 'd command" where
  "cmd_help sh = returns (sayln (ascii (''commands: help, about, uname, translate <hex vaddr>, ps, echo <text>, history, memstat, panic, ls, cat <file>, stat <file>, raw <file>, '' @
     ''rxtest, diskread <lba> [count], diskwrite <lba> <text>, run <file>'')) sh)"

definition cmd_about :: "'d shell \<Rightarrow> 'd command" where
  "cmd_about sh = returns (sayln (ascii (''mitosOS Phase 1 -- Engine: O(1) Allocator Core | Target: '' @
     (case tgt sh of X86_64 \<Rightarrow> ''x86_64 (Intel/AMD Bare-Metal)'' | AArch64 \<Rightarrow> ''aarch64 (ARM64 Bare-Metal)''))) sh)"

definition cmd_translate :: "bytes list \<Rightarrow> 'd shell \<Rightarrow> 'd command" where
  "cmd_translate args sh =
     (if length args < 2 then returns (sayln (ascii ''Usage: translate <hex vaddr>'') sh)
      else let hex = (if starts_with (args ! 1) (ascii ''0x'') then drop 2 (args ! 1) else args ! 1)
      in (case from_str_radix (2 ^ 64) 16 hex of
           None \<Rightarrow> returns (sayln (ascii ''Invalid address: '' @ [39] @ args ! 1 @ [39]) sh)
         | Some n \<Rightarrow>
             (let root = fst (current_task_access_info (sh_kernel sh))
             in if root = 0 then returns (sayln (ascii ''No active task page table yet.'') sh)
                else (case arch_translate_addr (mach (sh_kernel sh)) root (word_of_nat n) of
                       Some phys \<Rightarrow> returns (sayln (ascii (''0x'' @ show_hex n @ '' -> 0x'' @ show_hex (unat phys))) sh)
                     | None \<Rightarrow> returns (sayln (ascii (''0x'' @ show_hex n @ '' is not mapped in the current task'') @ [39] @ ascii ''s page table'') sh)))))"

definition state_str :: "TaskState \<Rightarrow> string" where
  "state_str st = (case st of Ready \<Rightarrow> ''Ready'' | Running \<Rightarrow> ''Running'' | Blocked \<Rightarrow> ''Blocked'' | Terminated \<Rightarrow> ''Terminated'')"

definition cmd_ps :: "'d shell \<Rightarrow> 'd command" where
  "cmd_ps sh =
     (let ts = get_task_list (sh_kernel sh);
          sh = sayln (ascii ''--- mitosOS Task Table ---'') sh;
          sh = sayln (ascii ''ID | Parent | State | Memory Root'') sh;
          sh = sayln (ascii ''----+--------+-----------+-------------------'') sh
      in returns (fold (\<lambda>t. sayln (ascii (pad_right 3 (show_nat (info_id t)) @ '' | '' @ pad_right 6 (show_nat (info_parent t)) @ '' | '' @
           pad_right 9 (state_str (info_state t)) @ '' | 0x'' @ pad_left (CHR ''0'') 16 (show_hex (unat (info_root t)))))) ts sh))"

definition cmd_echo :: "bytes list \<Rightarrow> 'd shell \<Rightarrow> 'd command" where
  "cmd_echo args sh =
     (let payload = tl args
      in returns (sayln [] (fold (\<lambda>(i, word) sh. say word (if 0 < i then say [32] sh else sh)) (enumerate 0 payload) sh)))"

definition cmd_show_history :: "'d shell \<Rightarrow> 'd command" where
  "cmd_show_history sh =
     returns (fold (\<lambda>(i, logged). sayln (ascii ('' '' @ show_nat (i + 1) @ '': '') @ logged)) (enumerate 0 (cmd_history sh))
       (sayln (ascii ''--- Command History Log ---'') sh))"

definition cmd_memstat :: "'d shell \<Rightarrow> 'd command" where
  "cmd_memstat sh =
     (let sh = sayln (ascii ''--- Memory System Architecture ---'') sh;
          sh = sayln (ascii '' Heap Location Range : 0x150000 -> 0x1F0000'') sh;
          sh = sayln (ascii '' Heap Arena Budget : 640 KiB Active Managed Space'') sh;
          sh = sayln (ascii '' Alloc Engine Speed : Hardened Hardware Bit-Scanning O(1)'') sh
      in case alloc_frame (mach (sh_kernel sh)) of
           (Some addr, s) \<Rightarrow>
             returns (sayln (ascii ('' Physical Frame Alloc: 0x'' @ pad_left (CHR ''0'') 8 (show_hex (unat addr)) @ '' (demo allocation)''))
               (sh\<lparr>sh_kernel := (sh_kernel sh)\<lparr>mach := s\<rparr>\<rparr>))
         | (None, s) \<Rightarrow>
             returns (sayln (ascii '' Physical Frame Alloc: frame pool exhausted'') (sh\<lparr>sh_kernel := (sh_kernel sh)\<lparr>mach := s\<rparr>\<rparr>)))"

text \<open>\<open>from_utf8\<close>, or \<open>"?"\<close>, with the zero bytes at both ends removed.\<close>

definition uname_field :: "bytes \<Rightarrow> bytes" where
  "uname_field bs = (let s = (if utf8_valid bs then bs else [63]) in rev (trim_start_matches 0 (rev (trim_start_matches 0 s))))"

text \<open>The structure is built on the shell's stack, filled by the system call and read back; a stack that is not mapped
  is a kernel fault.\<close>

definition cmd_uname :: "shell_env \<Rightarrow> 'd shell \<Rightarrow> 'd command" where
  "cmd_uname env sh =
     (case virt_write (info_ptr env) (uts_bytes uts_new) (mach (sh_kernel sh)) of
        None \<Rightarrow> Some (Panic, sh)
      | Some s \<Rightarrow>
          (case syscall_handler 0 63 (info_ptr env) 0 0 ((sh_kernel sh)\<lparr>mach := s\<rparr>) of
             (Returned res, k) \<Rightarrow>
               (let sh = sh\<lparr>sh_kernel := k\<rparr>
                in if res = 0
                   then case virt_read (mach k) (info_ptr env) 390 of
                          None \<Rightarrow> Some (Panic, sh)
                        | Some bs \<Rightarrow>
                            let u = uts_of_bytes bs
                            in returns (sayln (uname_field (sysname u) @ ascii '' v'' @ uname_field (version u) @ ascii '' ('' @ uname_field (uts_machine u) @ ascii '')'') sh)
                   else returns (sayln (ascii ''Error executing uname syscall.'') sh))
           | (_, k) \<Rightarrow> Some (Panic, sh\<lparr>sh_kernel := k\<rparr>)))"

section \<open>Commands on devices\<close>

definition cmd_panic :: "shell_env \<Rightarrow> 'd shell \<Rightarrow> 'd command" where
  "cmd_panic env sh =
     (let sh = say (ascii ''Trigger test panic? (y/N): '') sh
      in case uart_read_byte (tgt sh) (dev env) (sh_ports sh) of
           None \<Rightarrow> None
         | Some (response, h) \<Rightarrow>
             let sh = sayln [] (put_byte response (sh\<lparr>sh_ports := h\<rparr>))
             in if response = 121 \<or> response = 89 then Some (Panic, sh) else returns (sayln (ascii ''Aborted.'') sh))"

definition cmd_rxtest :: "shell_env \<Rightarrow> 'd shell \<Rightarrow> 'd command" where
  "cmd_rxtest env sh =
     (let sh = sayln (ascii ''Listening for one byte (bounded poll, bypasses IRQ queue)...'') sh
      in case uart_try_read_byte (tgt sh) (dev env) (sh_ports sh) of
           (Ok b, h) \<Rightarrow> returns (sayln (ascii (''Got byte: 0x'' @ pad_left (CHR ''0'') 2 (show_HEX (unat b)))) (sh\<lparr>sh_ports := h\<rparr>))
         | (Err Timeout, h) \<Rightarrow> returns (sayln (ascii ''Timed out waiting for input.'') (sh\<lparr>sh_ports := h\<rparr>))
         | (Err LineError, h) \<Rightarrow> returns (sayln (ascii ''Line error (framing/parity/overrun) detected and discarded.'') (sh\<lparr>sh_ports := h\<rparr>))
         | (Panic, h) \<Rightarrow> Some (Panic, sh\<lparr>sh_ports := h\<rparr>))"

definition debug_ata :: "AtaError \<Rightarrow> string" where
  "debug_ata e = (case e of AtaTimeout \<Rightarrow> ''Timeout'' | DeviceError b \<Rightarrow> ''DeviceError('' @ show_nat (unat b) @ '')'' | NoDevice \<Rightarrow> ''NoDevice'')"

definition dump_line :: "bytes \<Rightarrow> bytes" where
  "dump_line chunk = ascii (concat (map (\<lambda>b. pad_left (CHR ''0'') 2 (show_hex (unat b)) @ '' '') chunk))"

definition show_sectors :: "u32 \<Rightarrow> u32 \<Rightarrow> bytes \<Rightarrow> 'd shell \<Rightarrow> 'd shell" where
  "show_sectors lba count buf sh =
     (let sh = sayln (ascii (''--- LBA '' @ show_nat (unat lba) @ '' .. '' @ show_nat (unat (lba + count - 1)) @ '' (first 32 bytes) ---'')) sh;
          sh = sayln (dump_line (take 16 buf)) sh;
          sh = sayln (dump_line (take 16 (drop 16 buf))) sh;
          sig = u16_le (take 2 (drop 510 buf))
      in sayln (ascii (''sector 0 boot signature: 0x'' @ pad_left (CHR ''0'') 4 (show_hex (unat sig)) @ '' ('' @
           (if sig = 0xAA55 then ''valid'' else ''not a boot sector'') @ '')'')) sh)"

definition cmd_diskread :: "shell_env \<Rightarrow> bytes list \<Rightarrow> 'd shell \<Rightarrow> 'd command" where
  "cmd_diskread env args sh =
     (if tgt sh \<noteq> X86_64 then returns (sayln (ascii ''diskread is only available on x86_64 (ATA PIO driver).'') sh)
      else if length args < 2 then returns (sayln (ascii ''Usage: diskread <lba> [count]'') sh)
      else (case from_str_radix (2 ^ 32) 10 (args ! 1) of
             None \<Rightarrow> returns (sayln (ascii ''Invalid LBA: '' @ [39] @ args ! 1 @ [39]) sh)
           | Some lba \<Rightarrow>
               (case (if 3 \<le> length args then from_str_radix (2 ^ 32) 10 (args ! 2) else Some 1) of
                  None \<Rightarrow> returns (sayln (ascii ''Invalid sector count: '' @ [39] @ args ! 2 @ [39]) sh)
                | Some count \<Rightarrow>
                    if count = 0 \<or> 64 < count then returns (sayln (ascii ''count must be between 1 and 64 sectors (kept small: 640 KiB heap)'') sh)
                    else if \<not> heap_serves env (count * 512) then Some (Panic, sh)
                    else (case read_sectors (dev env) (word_of_nat lba) (word_of_nat count) (replicate (count * 512) 0) (sh_ports sh) of
                           (Ok buf, h) \<Rightarrow> returns (show_sectors (word_of_nat lba) (word_of_nat count) buf (sh\<lparr>sh_ports := h\<rparr>))
                         | (Err e, h) \<Rightarrow> returns (sayln (ascii (''ATA read error: '' @ debug_ata e)) (sh\<lparr>sh_ports := h\<rparr>))
                         | (Panic, h) \<Rightarrow> Some (Panic, sh\<lparr>sh_ports := h\<rparr>)))))"

definition cmd_diskwrite :: "shell_env \<Rightarrow> bytes list \<Rightarrow> 'd shell \<Rightarrow> 'd command" where
  "cmd_diskwrite env args sh =
     (if tgt sh \<noteq> X86_64 then returns (sayln (ascii ''diskwrite is only available on x86_64 (ATA PIO driver).'') sh)
      else if length args < 3
      then returns (sayln (ascii ''Usage: diskwrite <lba> <text>  -- OVERWRITES that sector with <text>, zero-padded to 512B. Destructive, no undo.'') sh)
      else case from_str_radix (2 ^ 64) 10 (args ! 1) of
             None \<Rightarrow> returns (sayln (ascii ''Invalid LBA: '' @ [39] @ args ! 1 @ [39]) sh)
           | Some lba \<Rightarrow>
               (let text = args ! 2
               in if 512 < length text then returns (sayln (ascii (''Text too long ('' @ show_nat (length text) @ '' bytes, max 512)'')) sh)
                  else (case ata_new (dev env) (sh_ports sh) of
                         (Err e, h) \<Rightarrow> returns (sayln (ascii (''ATA init failed: '' @ debug_ata e)) (sh\<lparr>sh_ports := h\<rparr>))
                       | (Panic, h) \<Rightarrow> Some (Panic, sh\<lparr>sh_ports := h\<rparr>)
                       | (Ok nsect, h) \<Rightarrow>
                           (case ata_write_sector (dev env) nsect (word_of_nat lba) (text @ replicate (512 - length text) 0) h of
                              (Ok _, h) \<Rightarrow> returns (sayln (ascii (''Wrote '' @ show_nat (length text) @ '' bytes to LBA '' @ show_nat lba @
                                '' (zero-padded to 512B, cache flushed).'')) (sh\<lparr>sh_ports := h\<rparr>))
                            | (Err e, h) \<Rightarrow> returns (sayln (ascii (''Write failed: '' @ e)) (sh\<lparr>sh_ports := h\<rparr>))
                            | (Panic, h) \<Rightarrow> Some (Panic, sh\<lparr>sh_ports := h\<rparr>)))))"

section \<open>Commands on files\<close>

definition list_entry :: "FileEntry \<Rightarrow> 'd shell \<Rightarrow> 'd shell" where
  "list_entry e sh =
     (if is_file e then sayln (ascii ('' ['' @ pad_left (CHR ''0'') 6 (show_nat (unat (fe_size e))) @ '' bytes] '') @ fe_name e) sh
      else if is_dir e then sayln (ascii '' [ DIR ] '' @ fe_name e @ [47]) sh else sh)"

partial_function (option) list_files :: "bytes \<Rightarrow> usize \<Rightarrow> 'd shell \<Rightarrow> 'd shell option" where
  "list_files arch offset sh =
     (case tar_next arch offset of (None, _) \<Rightarrow> Some sh | (Some e, offset') \<Rightarrow> list_files arch offset' (list_entry e sh))"

definition cmd_ls :: "shell_env \<Rightarrow> 'd shell \<Rightarrow> 'd command" where
  "cmd_ls env sh =
     (case ramdisk env of
        Some arch \<Rightarrow> map_option (\<lambda>sh. (Ok (), sh)) (list_files arch 0 (sayln (ascii ''--- Ramdisk Contents ---'') sh))
      | None \<Rightarrow> returns (sayln (ascii ''Error: No ramdisk mounted.'') sh))"

text \<open>Opening a file and reading all of it, shared by \<open>cat\<close> and \<open>run\<close>: \<open>missing\<close> is what happens when there is no such
  file and \<open>use\<close> what is done with the bytes read.\<close>

definition with_file :: "shell_env \<Rightarrow> bytes \<Rightarrow> ('d shell \<Rightarrow> 'd command) \<Rightarrow> (bytes \<Rightarrow> 'd shell \<Rightarrow> 'd command) \<Rightarrow> 'd shell \<Rightarrow> 'd command" where
  "with_file env target_file missing use_bytes sh =
     (case vfs_open (unicode env) target_file (sh_mounts sh) of
        None \<Rightarrow> None
      | Some (Ok (Some node), ms) \<Rightarrow>
          (let meta = node_metadata (unicode env) node; sh = sh\<lparr>sh_mounts := ms\<rparr>
           in if \<not> heap_serves env (unat (md_size meta)) then Some (Panic, sh)
              else case node_read node 0 (replicate (unat (md_size meta)) 0) ms of
                     None \<Rightarrow> None
                   | Some (Ok (bytes_read, buffer), ms) \<Rightarrow> use_bytes (take bytes_read buffer) (sh\<lparr>sh_mounts := ms\<rparr>)
                   | Some (Err e, ms) \<Rightarrow> returns (sayln (ascii (''Error reading file: '' @ e)) (sh\<lparr>sh_mounts := ms\<rparr>))
                   | Some (Panic, ms) \<Rightarrow> Some (Panic, sh\<lparr>sh_mounts := ms\<rparr>))
      | Some (Ok None, ms) \<Rightarrow> missing (sh\<lparr>sh_mounts := ms\<rparr>)
      | Some (_, ms) \<Rightarrow> Some (Panic, sh\<lparr>sh_mounts := ms\<rparr>))"

definition cmd_cat :: "shell_env \<Rightarrow> bytes list \<Rightarrow> 'd shell \<Rightarrow> 'd command" where
  "cmd_cat env args sh =
     (if length args < 2 then returns (sayln (ascii ''Usage: cat <file>'') sh)
      else with_file env (args ! 1)
        (\<lambda>sh. returns (sayln (ascii ''Error: File '' @ [39] @ args ! 1 @ [39] @ ascii '' not found in VFS.'') sh))
        (\<lambda>bs sh. returns (if utf8_valid bs then say bs sh
                          else sayln (ascii (''[Binary file, size: '' @ show_nat (length bs) @ '' bytes]'')) sh)) sh)"

definition cmd_stat :: "shell_env \<Rightarrow> bytes list \<Rightarrow> 'd shell \<Rightarrow> 'd command" where
  "cmd_stat env args sh =
     (if length args < 2 then returns (sayln (ascii ''Usage: stat <file>'') sh)
      else case vfs_open (unicode env) (args ! 1) (sh_mounts sh) of
             None \<Rightarrow> None
           | Some (Ok (Some node), ms) \<Rightarrow>
               (let meta = node_metadata (unicode env) node;
                   kind = (case md_node_type meta of NodeFile \<Rightarrow> ''file'' | NodeDirectory \<Rightarrow> ''directory'');
                   sh = sh\<lparr>sh_mounts := ms\<rparr>;
                   sh = sayln (ascii ''name: '' @ md_name meta) sh;
                   sh = sayln (ascii (''type: '' @ kind)) sh
               in returns (sayln (ascii (''size: '' @ show_nat (unat (md_size meta)) @ '' bytes'')) sh))
           | Some (Ok None, ms) \<Rightarrow> returns (sayln (ascii ''Error: '' @ [39] @ args ! 1 @ [39] @ ascii '' not found in VFS.'') (sh\<lparr>sh_mounts := ms\<rparr>))
           | Some (_, ms) \<Rightarrow> Some (Panic, sh\<lparr>sh_mounts := ms\<rparr>))"

definition cmd_run :: "shell_env \<Rightarrow> bytes list \<Rightarrow> 'd shell \<Rightarrow> 'd command" where
  "cmd_run env args sh =
     (if length args < 2 then returns (sayln (ascii ''Usage: run <file>'') sh)
      else with_file env (args ! 1)
        (\<lambda>sh. returns (sayln (ascii ''Error: '' @ [39] @ args ! 1 @ [39] @ ascii '' not found in VFS.'') sh))
        (\<lambda>bs sh.
          let sh = sayln (ascii ''Loading '' @ [39] @ args ! 1 @ [39] @ ascii ('' ('' @ show_nat (length bs) @ '' bytes)...'')) sh
          in case spawn_and_run_elf bs (sh_kernel sh) of
               (Ok _, k) \<Rightarrow> returns (sayln (ascii ''Spawned as a new isolated (ring-3) process -- check '' @ [39] @ ascii ''ps'' @ [39] @ [46]) (sh\<lparr>sh_kernel := k\<rparr>))
             | (Err e, k) \<Rightarrow> returns (sayln (ascii ''Failed to spawn '' @ [39] @ args ! 1 @ [39] @ ascii ('': '' @ e @
                 ''. Common causes right now: no free task slot (MAX_TASKS is 4, and two are already used by the background workers), '' @
                 ''or the ELF failed to load/map -- see task.rs::spawn_from_elf.'')) (sh\<lparr>sh_kernel := k\<rparr>))
             | (Panic, k) \<Rightarrow> Some (Panic, sh\<lparr>sh_kernel := k\<rparr>)) sh)"

definition cmd_raw :: "shell_env \<Rightarrow> bytes list \<Rightarrow> 'd shell \<Rightarrow> 'd command" where
  "cmd_raw env args sh =
     (if length args < 2 then returns (sayln (ascii ''Usage: raw <file>'') sh)
      else case ramdisk env of
             None \<Rightarrow> returns (sayln (ascii ''Error: No ramdisk mounted.'') sh)
           | Some arch \<Rightarrow>
               (case tar_find arch (args ! 1) of
                  None \<Rightarrow> None
                | Some None \<Rightarrow> returns (sayln (ascii ''Error: '' @ [39] @ args ! 1 @ [39] @ ascii '' not found on ramdisk.'') sh)
                | Some (Some e) \<Rightarrow>
                    returns (if is_file e
                      then (case as_text e of
                              Some text \<Rightarrow> say text sh
                            | None \<Rightarrow> sayln (ascii (''[Binary file, '' @ show_nat (unat (fe_size e)) @ '' bytes]'')) sh)
                      else sayln ([39] @ args ! 1 @ [39] @ ascii '' is not a regular file.'') sh)))"

section \<open>Dispatch and line editor\<close>

definition run_command :: "shell_env \<Rightarrow> bytes \<Rightarrow> 'd shell \<Rightarrow> 'd command" where
  "run_command env line sh =
     (case split_whitespace line of
        [] \<Rightarrow> returns sh
      | cmd # rest \<Rightarrow>
          let args = cmd # rest
          in if cmd = ascii ''help'' then cmd_help sh
             else if cmd = ascii ''about'' then cmd_about sh
             else if cmd = ascii ''uname'' then cmd_uname env sh
             else if cmd = ascii ''translate'' then cmd_translate args sh
             else if cmd = ascii ''ps'' then cmd_ps sh
             else if cmd = ascii ''echo'' then cmd_echo args sh
             else if cmd = ascii ''history'' then cmd_show_history sh
             else if cmd = ascii ''memstat'' then cmd_memstat sh
             else if cmd = ascii ''panic'' then cmd_panic env sh
             else if cmd = ascii ''rxtest'' then cmd_rxtest env sh
             else if cmd = ascii ''diskread'' then cmd_diskread env args sh
             else if cmd = ascii ''diskwrite'' then cmd_diskwrite env args sh
             else if cmd = ascii ''ls'' then cmd_ls env sh
             else if cmd = ascii ''cat'' then cmd_cat env args sh
             else if cmd = ascii ''stat'' then cmd_stat env args sh
             else if cmd = ascii ''run'' then cmd_run env args sh
             else if cmd = ascii ''raw'' then cmd_raw env args sh
             else returns (sayln (ascii ''unknown command: '' @ cmd @ ascii '' (try '' @ [39] @ ascii ''help'' @ [39] @ [41]) sh))"

abbreviation BACKSPACE :: u8 where "BACKSPACE \<equiv> 0x08"
abbreviation DELETE :: u8 where "DELETE \<equiv> 0x7F"

definition prompt :: bytes where
  "prompt = ascii ''mitosOS> ''"

definition shell_key :: "shell_env \<Rightarrow> u8 \<Rightarrow> 'd shell \<Rightarrow> 'd command" where
  "shell_key env byte sh =
     (if byte = 13 \<or> byte = 10 then
        let sh = sayln [] sh;
            trimmed = trim (current_line sh)
        in case (if trimmed \<noteq> [] then run_command env trimmed (sh\<lparr>cmd_history := cmd_history sh @ [trimmed]\<rparr>) else returns sh) of
             Some (Ok _, sh) \<Rightarrow> returns (say prompt (sh\<lparr>current_line := []\<rparr>))
           | r \<Rightarrow> r
      else if byte = BACKSPACE \<or> byte = DELETE then
        (if current_line sh \<noteq> []
         then returns (put_byte BACKSPACE (put_byte 32 (put_byte BACKSPACE (sh\<lparr>current_line := butlast (current_line sh)\<rparr>))))
         else returns sh)
      else if 0x20 \<le> byte \<and> byte < 0x7F then
        (if length (current_line sh) < 1024
         then returns (put_byte byte (sh\<lparr>current_line := current_line sh @ [byte]\<rparr>))
         else returns sh)
      else returns sh)"

text \<open>One pass of the endless loop; with an empty queue the processor sleeps until an interrupt and nothing changes.\<close>

definition shell_pass :: "shell_env \<Rightarrow> 'd shell \<Rightarrow> 'd command" where
  "shell_pass env sh =
     (case dequeue_byte (input (sh_kernel sh)) of
        (Some byte, q) \<Rightarrow> shell_key env byte (sh\<lparr>sh_kernel := (sh_kernel sh)\<lparr>input := q\<rparr>\<rparr>)
      | (None, q) \<Rightarrow> returns (sh\<lparr>sh_kernel := (sh_kernel sh)\<lparr>input := q\<rparr>\<rparr>))"

fun shell_passes :: "nat \<Rightarrow> shell_env \<Rightarrow> 'd shell \<Rightarrow> 'd command" where
  "shell_passes 0 env sh = returns sh"
| "shell_passes (Suc n) env sh =
     (case shell_pass env sh of Some (Ok _, sh) \<Rightarrow> shell_passes n env sh | r \<Rightarrow> r)"

definition shell_start :: "kernel \<Rightarrow> history \<Rightarrow> 'd mounts \<Rightarrow> 'd shell" where
  "shell_start k h ms =
     say prompt (sayln (ascii ([char_of (10 :: nat)] @ ''mitosOS shell -- type '') @ [39] @ ascii ''help'' @ [39] @ ascii '' for commands.'')
       \<lparr>sh_kernel = k, sh_ports = h, sh_mounts = ms, current_line = [], cmd_history = []\<rparr>)"

section \<open>Typing\<close>

lemma shell_returns [simp]: "returns sh = Some (Ok (), sh)"
  by (simp add: returns_def)

lemma say_simps [simp]:
  "current_line (say s sh) = current_line sh" "cmd_history (say s sh) = cmd_history sh" "sh_mounts (say s sh) = sh_mounts sh"
  "sh_ports (say s sh) = sh_ports sh" "sh_kernel (say s sh) = uart_print s (sh_kernel sh)"
  by (simp_all add: say_def)

lemma uart_print_simps [simp]:
  "console (uart_print s k) = console k @ uart_bytes s" "input (uart_print s k) = input k" "mach (uart_print s k) = mach k"
  "tasks (uart_print s k) = tasks k" "current_task (uart_print s k) = current_task k"
  by (simp_all add: uart_print_def)

lemma shell_passes_add:
  "shell_passes (m + n) env sh = (case shell_passes m env sh of Some (Ok _, sh) \<Rightarrow> shell_passes n env sh | r \<Rightarrow> r)"
  by (induction m arbitrary: sh) (auto split: option.split prod.split outcome.split)

lemma shell_pass_key:
  assumes "queue_valid (input (sh_kernel sh))" "queue_content (input (sh_kernel sh)) = b # bs"
  shows "\<exists>q. queue_valid q \<and> queue_content q = bs \<and> shell_pass env sh = shell_key env b (sh\<lparr>sh_kernel := (sh_kernel sh)\<lparr>input := q\<rparr>\<rparr>)"
proof -
  have "fst (dequeue_byte (input (sh_kernel sh))) = Some b" "queue_content (snd (dequeue_byte (input (sh_kernel sh)))) = bs"
    using ring.pop_cons [OF assms] by simp_all
  moreover have "queue_valid (snd (dequeue_byte (input (sh_kernel sh))))" using assms(1) by (rule ring.valid_pop)
  ultimately show ?thesis by (auto simp: shell_pass_def split: prod.split)
qed

lemma shell_key_printable:
  assumes "0x20 \<le> b" "b < 0x7F" "length (current_line sh) < 1024"
  shows "shell_key env b sh = returns (put_byte b (sh\<lparr>current_line := current_line sh @ [b]\<rparr>))"
proof -
  have "b \<noteq> 13" "b \<noteq> 10" "b \<noteq> 8" "b \<noteq> 0x7F" using assms(1,2) by auto
  then show ?thesis using assms by (simp add: shell_key_def)
qed

text \<open>Printable text is echoed and appended to the line.\<close>

lemma type_text:
  assumes "queue_valid (input (sh_kernel sh))" "queue_content (input (sh_kernel sh)) = bs @ rest"
    and "\<forall>b \<in> set bs. 0x20 \<le> b \<and> b < 0x7F" "length (current_line sh) + length bs \<le> 1024"
  shows "\<exists>q. queue_valid q \<and> queue_content q = rest \<and> shell_passes (length bs) env sh =
    returns (sh\<lparr>sh_kernel := (sh_kernel sh)\<lparr>input := q, console := console (sh_kernel sh) @ bs\<rparr>, current_line := current_line sh @ bs\<rparr>)"
  using assms
proof (induction bs arbitrary: sh)
  case Nil
  then show ?case by (intro exI [of _ "input (sh_kernel sh)"]) simp
next
  case (Cons b bs)
  obtain q where q: "queue_valid q" "queue_content q = bs @ rest"
    "shell_pass env sh = shell_key env b (sh\<lparr>sh_kernel := (sh_kernel sh)\<lparr>input := q\<rparr>\<rparr>)"
    using shell_pass_key [of sh b "bs @ rest" env] Cons.prems(1,2) by auto
  let ?sh = "sh\<lparr>sh_kernel := (sh_kernel sh)\<lparr>input := q, console := console (sh_kernel sh) @ [b]\<rparr>, current_line := current_line sh @ [b]\<rparr>"
  have "shell_pass env sh = returns ?sh"
    using Cons.prems(3,4) by (simp add: q(3) shell_key_printable put_byte_def)
  moreover obtain q' where "queue_valid q'" "queue_content q' = rest" "shell_passes (length bs) env ?sh =
      returns (?sh\<lparr>sh_kernel := (sh_kernel ?sh)\<lparr>input := q', console := console (sh_kernel ?sh) @ bs\<rparr>, current_line := current_line ?sh @ bs\<rparr>)"
    using Cons.IH [of ?sh] q(1,2) Cons.prems(3,4) by auto
  ultimately show ?case by (intro exI [of _ q']) simp
qed

section \<open>Words of a command\<close>

lemma split_where_none: "\<forall>b \<in> set s. \<not> p b \<Longrightarrow> split_where p s = [s]"
  by (induction s) auto

lemma split_where_word: "\<forall>b \<in> set w. \<not> p b \<Longrightarrow> p c \<Longrightarrow> split_where p (w @ c # s) = w # split_where p s"
  by (induction w) auto

lemma split_two_words:
  assumes "\<forall>b \<in> set v. \<not> is_whitespace b" "\<forall>b \<in> set w. \<not> is_whitespace b" "v \<noteq> []" "w \<noteq> []"
  shows "split_whitespace (v @ 32 # w) = [v, w]"
  using assms split_where_none [of w is_whitespace] split_where_word [of v is_whitespace 32 w]
  by (simp add: split_whitespace_def is_whitespace_def)

lemma trim_words:
  assumes "s \<noteq> []" "\<not> is_whitespace (hd s)" "\<not> is_whitespace (last s)"
  shows "trim s = s"
proof -
  have "dropWhile is_whitespace s = s" using assms(1,2) by (cases s) simp_all
  moreover have "dropWhile is_whitespace (rev s) = rev s" using assms(1,3) by (cases "rev s") (simp_all add: last_rev flip: hd_rev)
  ultimately show ?thesis by (simp add: trim_def)
qed

lemma is_whitespace_printable: "0x20 < b \<Longrightarrow> \<not> is_whitespace b"
  unfolding is_whitespace_def word_le_nat_alt word_less_nat_alt by auto

text \<open>A command line typed at an empty prompt: the text is echoed, remembered and executed.\<close>

lemma type_command:
  assumes "queue_valid (input (sh_kernel sh))" "queue_content (input (sh_kernel sh)) = line @ 13 # rest"
    and "\<forall>b \<in> set line. 0x20 \<le> b \<and> b < 0x7F" "line \<noteq> []" "hd line \<noteq> 0x20" "last line \<noteq> 0x20" "current_line sh = []"
    and run: "\<And>q. queue_valid q \<Longrightarrow> queue_content q = rest \<Longrightarrow>
      run_command env line (sh\<lparr>sh_kernel := (sh_kernel sh)\<lparr>input := q, console := console (sh_kernel sh) @ line @ [13, 10]\<rparr>,
        current_line := line, cmd_history := cmd_history sh @ [line]\<rparr>) = Some (Ok (), f q)"
  shows "\<exists>q. queue_valid q \<and> queue_content q = rest \<and> shell_passes (Suc (length line)) env sh = returns (say prompt ((f q)\<lparr>current_line := []\<rparr>))"
proof -
  have "length (line @ 13 # rest) \<le> 127"
    using ring.bound [OF assms(1)] unfolding assms(2) by (simp add: BUFFER_SIZE_def)
  then have len: "length line \<le> 1024" by simp
  obtain q where q: "queue_valid q" "queue_content q = 13 # rest" "shell_passes (length line) env sh =
      returns (sh\<lparr>sh_kernel := (sh_kernel sh)\<lparr>input := q, console := console (sh_kernel sh) @ line\<rparr>, current_line := line\<rparr>)"
    using type_text [OF assms(1,2,3)] len assms(7) by auto
  let ?sh = "sh\<lparr>sh_kernel := (sh_kernel sh)\<lparr>input := q, console := console (sh_kernel sh) @ line\<rparr>, current_line := line\<rparr>"
  obtain q' where q': "queue_valid q'" "queue_content q' = rest"
    "shell_pass env ?sh = shell_key env 13 (?sh\<lparr>sh_kernel := (sh_kernel ?sh)\<lparr>input := q'\<rparr>\<rparr>)"
    using shell_pass_key [of ?sh 13 rest env] q(1,2) by auto
  have "\<not> is_whitespace (hd line)" "\<not> is_whitespace (last line)"
    using assms(3-6) by (auto intro!: is_whitespace_printable simp: less_le)
  then have t: "trim line = line" using assms(4) by (rule trim_words [rotated])
  have e: "(sh\<lparr>sh_kernel := (sh_kernel sh)\<lparr>input := q', console := console (sh_kernel sh) @ line @ [13, 10]\<rparr>, current_line := line, cmd_history := cmd_history sh @ [line]\<rparr>) =
     (sayln [] (?sh\<lparr>sh_kernel := (sh_kernel ?sh)\<lparr>input := q'\<rparr>\<rparr>))\<lparr>cmd_history := cmd_history sh @ [line]\<rparr>"
    by (simp add: sayln_def say_def uart_print_def)
  have "shell_pass env ?sh = returns (say prompt ((f q')\<lparr>current_line := []\<rparr>))"
    using run [OF q'(1,2)] assms(4) unfolding e by (simp add: q'(3) shell_key_def t sayln_def)
  then have "shell_passes (length line + 1) env sh = returns (say prompt ((f q')\<lparr>current_line := []\<rparr>))"
    unfolding shell_passes_add by (simp add: q(3))
  then show ?thesis using q'(1,2) by (intro exI [of _ q']) simp
qed

section \<open>The edited line and the screen\<close>

text \<open>A terminal at the other end of the serial line: the cells of the row the cursor is in, and its column.\<close>

definition tty_put :: "u8 \<Rightarrow> bytes \<times> nat \<Rightarrow> bytes \<times> nat" where
  "tty_put b = (\<lambda>(cells, col).
     if b = 8 then (cells, col - 1)
     else if b = 13 then (cells, 0)
     else if b = 10 then (replicate col 32, col)
     else (take col cells @ [b] @ drop (col + 1) cells, col + 1))"

definition tty :: "bytes \<Rightarrow> bytes \<times> nat" where
  "tty out = fold tty_put out ([], 0)"

text \<open>What a key does to a line, and that the row on the screen is the prompt and the line with the cursor behind it.\<close>

definition edit_key :: "u8 \<Rightarrow> bytes \<Rightarrow> bytes" where
  "edit_key b line =
     (if b = 8 \<or> b = 127 then butlast line else if 32 \<le> b \<and> b < 127 \<and> length line < 1024 then line @ [b] else line)"

definition line_shown :: "'d shell \<Rightarrow> bool" where
  "line_shown sh \<longleftrightarrow>
     (\<exists>j. tty (console (sh_kernel sh)) = (prompt @ current_line sh @ replicate j 32, length prompt + length (current_line sh)))"

lemma tty_append: "tty (s @ t) = fold tty_put t (tty s)"
  by (simp add: tty_def)

lemma tty_prompt: "tty (s @ [13, 10] @ prompt) = (prompt, length prompt)"
proof -
  have "fold tty_put ([13, 10] @ prompt) (tty s) = (prompt, length prompt)"
    by (cases "tty s") (simp add: tty_put_def prompt_def ascii_def)
  then show ?thesis by (simp only: tty_append)
qed

lemma shell_start_shown: "line_shown (shell_start k h ms)"
proof -
  obtain s where "console (sh_kernel (shell_start k h ms :: 'a shell)) = s @ [13, 10] @ prompt"
  proof
    show "console (sh_kernel (shell_start k h ms :: 'a shell)) =
      (console k @ uart_bytes (ascii ([char_of (10 :: nat)] @ ''mitosOS shell -- type '') @ [39] @ ascii ''help'' @ [39] @ ascii '' for commands.'')) @ [13, 10] @ prompt"
      by (simp add: shell_start_def sayln_def ascii_def prompt_def)
  qed
  then have "tty (console (sh_kernel (shell_start k h ms :: 'a shell))) = (prompt, length prompt)" by (simp only: tty_prompt)
  moreover have "current_line (shell_start k h ms :: 'a shell) = []" by (simp add: shell_start_def sayln_def)
  ultimately show ?thesis unfolding line_shown_def by (intro exI [of _ 0]) simp
qed

lemma shell_key_edit:
  assumes "line_shown sh" "b \<noteq> 13" "b \<noteq> 10"
  shows "\<exists>out. shell_key env b sh =
      returns (sh\<lparr>sh_kernel := (sh_kernel sh)\<lparr>console := console (sh_kernel sh) @ out\<rparr>, current_line := edit_key b (current_line sh)\<rparr>) \<and>
    line_shown (sh\<lparr>sh_kernel := (sh_kernel sh)\<lparr>console := console (sh_kernel sh) @ out\<rparr>, current_line := edit_key b (current_line sh)\<rparr>)"
proof -
  let ?l = "current_line sh"
  obtain j where j: "tty (console (sh_kernel sh)) = (prompt @ ?l @ replicate j 32, length prompt + length ?l)"
    using assms(1) by (auto simp: line_shown_def)
  have same: ?thesis if "shell_key env b sh = returns sh" "edit_key b ?l = ?l"
    using assms(1) that by (intro exI [of _ "[]"]) simp
  consider "b = 8 \<or> b = 127" "?l \<noteq> []" | "32 \<le> b" "b < 127" "length ?l < 1024"
    | "(b = 8 \<or> b = 127) \<and> ?l = [] \<or> \<not> (b = 8 \<or> b = 127) \<and> \<not> (32 \<le> b \<and> b < 127 \<and> length ?l < 1024)"
    by blast
  then show ?thesis
  proof cases
    case 1
    then obtain l c where l: "?l = l @ [c]" by (cases ?l rule: rev_cases) auto
    have "tty (console (sh_kernel sh) @ [8, 32, 8]) = (prompt @ l @ replicate (Suc j) 32, length prompt + length l)"
      unfolding tty_append j by (simp add: tty_put_def l)
    then have "\<exists>i. tty (console (sh_kernel sh) @ [8, 32, 8]) = (prompt @ l @ replicate i 32, length prompt + length l)" by blast
    then show ?thesis
      using 1 assms(2,3) by (intro exI [of _ "[8, 32, 8]"]) (auto simp: shell_key_def put_byte_def edit_key_def line_shown_def l)
  next
    case 2
    have n: "b \<noteq> 8" "b \<noteq> 127" using 2 by auto
    have "tty (console (sh_kernel sh) @ [b]) = (prompt @ (?l @ [b]) @ replicate (j - 1) 32, length prompt + length (?l @ [b]))"
      unfolding tty_append j using assms(2,3) n by (simp add: tty_put_def drop_Cons')
    then show ?thesis
      using 2 n assms(2,3) by (intro exI [of _ "[b]"]) (auto simp: shell_key_printable put_byte_def edit_key_def line_shown_def simp flip: append_assoc)
  next
    case 3
    then show ?thesis
      by (intro same) (use assms(2,3) in \<open>auto simp: shell_key_def edit_key_def\<close>)
  qed
qed

text \<open>C25: The line on the screen is the line that will be executed. Whatever keys other than Enter arrive in the input queue,
  the shell takes them all without a panic, the line it holds is the result of the edits one after the other, and the
  terminal shows the prompt followed by exactly that line with the cursor behind it, erased characters included.\<close>

theorem shell_line_is_shown:
  assumes "line_shown sh" "queue_valid (input (sh_kernel sh))" "queue_content (input (sh_kernel sh)) = keys"
    and "13 \<notin> set keys" "10 \<notin> set keys"
  shows "\<exists>q out. shell_passes (length keys) env sh =
      returns (sh\<lparr>sh_kernel := (sh_kernel sh)\<lparr>input := q, console := console (sh_kernel sh) @ out\<rparr>, current_line := fold edit_key keys (current_line sh)\<rparr>) \<and>
    queue_content q = [] \<and>
    (\<exists>j. tty (console (sh_kernel sh) @ out) =
      (prompt @ fold edit_key keys (current_line sh) @ replicate j 32, length prompt + length (fold edit_key keys (current_line sh))))"
  using assms
proof (induction keys arbitrary: sh)
  case Nil
  then show ?case by (intro exI [of _ "input (sh_kernel sh)"] exI [of _ "[]"]) (simp add: line_shown_def)
next
  case (Cons b bs)
  obtain q where q: "queue_valid q" "queue_content q = bs"
    "shell_pass env sh = shell_key env b (sh\<lparr>sh_kernel := (sh_kernel sh)\<lparr>input := q\<rparr>\<rparr>)"
    using shell_pass_key [OF Cons.prems(2,3)] by blast
  let ?q = "sh\<lparr>sh_kernel := (sh_kernel sh)\<lparr>input := q\<rparr>\<rparr>"
  have "line_shown ?q" using Cons.prems(1) by (simp add: line_shown_def)
  then obtain out where out: "shell_key env b ?q =
      returns (?q\<lparr>sh_kernel := (sh_kernel ?q)\<lparr>console := console (sh_kernel ?q) @ out\<rparr>, current_line := edit_key b (current_line ?q)\<rparr>)"
    "line_shown (?q\<lparr>sh_kernel := (sh_kernel ?q)\<lparr>console := console (sh_kernel ?q) @ out\<rparr>, current_line := edit_key b (current_line ?q)\<rparr>)"
    using shell_key_edit [of ?q b env] Cons.prems(4,5) by auto
  let ?sh = "?q\<lparr>sh_kernel := (sh_kernel ?q)\<lparr>console := console (sh_kernel ?q) @ out\<rparr>, current_line := edit_key b (current_line ?q)\<rparr>"
  obtain q' out' where "shell_passes (length bs) env ?sh =
      returns (?sh\<lparr>sh_kernel := (sh_kernel ?sh)\<lparr>input := q', console := console (sh_kernel ?sh) @ out'\<rparr>, current_line := fold edit_key bs (current_line ?sh)\<rparr>)"
    "queue_content q' = []" "\<exists>j. tty (console (sh_kernel ?sh) @ out') =
      (prompt @ fold edit_key bs (current_line ?sh) @ replicate j 32, length prompt + length (fold edit_key bs (current_line ?sh)))"
    using Cons.IH [OF out(2)] q(1,2) Cons.prems(4,5) by auto
  then show ?case by (intro exI [of _ q'] exI [of _ "out @ out'"]) (simp add: q(3) out(1))
qed

section \<open>Files of the ramdisk\<close>

text \<open>A regular file of the ramdisk that is mounted at the root, by its absolute path.\<close>

definition ramdisk_file :: "shell_env \<Rightarrow> 'd shell \<Rightarrow> bytes \<Rightarrow> bytes \<Rightarrow> bool" where
  "ramdisk_file env sh path content \<longleftrightarrow>
     (\<exists>members rest m. sh_mounts sh = ([47], TarFsAdapter (archive members)) # rest \<and> (\<forall>m \<in> set members. member_ok m) \<and>
       length (archive members) < 2 ^ 63 \<and> find (\<lambda>m. m_name m = path) members = Some m \<and> m_type m \<noteq> 53 \<and> m_data m = content) \<and>
     path \<noteq> [] \<and> hd path \<noteq> 47 \<and> heap_serves env (length content)"

lemma with_file_ramdisk:
  assumes "ramdisk_file env sh path content"
  shows "with_file env (47 # path) missing use_bytes sh = use_bytes content sh"
proof -
  obtain members rest m where m: "sh_mounts sh = ([47], TarFsAdapter (archive members)) # rest" "\<forall>m \<in> set members. member_ok m"
    "length (archive members) < 2 ^ 63" "find (\<lambda>m. m_name m = path) members = Some m" "m_type m \<noteq> 53" "m_data m = content"
    and p: "path \<noteq> []" "hd path \<noteq> 47" "heap_serves env (length content)"
    using assms by (auto simp: ramdisk_file_def)
  have "trim_start_matches 47 path = path" using p(1,2) by (cases path) (simp_all add: trim_start_matches_def)
  moreover have "tar_find (archive members) path = Some (Some (member_entry m))"
    using find_member_archive [OF m(2), of "[]" 0 path] m(3,4) by (simp add: tar_find_def)
  ultimately have l: "vfs_open (unicode env) (47 # path) (sh_mounts sh) = Some (Ok (Some (TarFileNode (member_entry m))), sh_mounts sh)"
    using p(1) by (simp add: vfs_open_def m(1) open_root_tar tar_lookup_def)
  have "member_ok m" using m(2,4) by (metis find_Some_iff nth_mem)
  then have "length content < 8 ^ 11" using m(6) by (simp add: member_ok_def)
  then have sz: "unat (md_size (node_metadata (unicode env) (TarFileNode (member_entry m)))) = length content"
    using m(6) by (simp add: tar_metadata_def member_entry_def unat_of_nat take_bit_nat_eq_self)
  have "\<exists>b. tar_read (member_entry m) 0 (replicate (length content) 0) = Ok (length content, b) \<and> take (length content) b = content"
    using m(5,6) by (simp add: tar_read_def member_entry_def is_dir_def Let_def)
  then obtain b where r: "node_read (TarFileNode (member_entry m)) 0 (replicate (length content) 0) (sh_mounts sh) = Some (Ok (length content, b), sh_mounts sh)"
    "take (length content) b = content" by auto
  have "sh\<lparr>sh_mounts := sh_mounts sh\<rparr> = sh" by (cases sh) simp
  then show ?thesis using p(3) by (simp add: with_file_def l Let_def sz r del: node_metadata.simps node_read.simps)
qed

lemma ramdisk_file_cong:
  "sh_mounts sh' = sh_mounts sh \<Longrightarrow> ramdisk_file env sh' path content = ramdisk_file env sh path content"
  by (simp add: ramdisk_file_def)

text \<open>The command line \<open>cmd /path\<close>.\<close>

lemma run_command_path:
  assumes "\<forall>b \<in> set path. 0x20 < b \<and> b < 0x7F"
  shows "run_command env (ascii ''cat'' @ 32 # 47 # path) sh = cmd_cat env [ascii ''cat'', 47 # path] sh"
    "run_command env (ascii ''run'' @ 32 # 47 # path) sh = cmd_run env [ascii ''run'', 47 # path] sh"
proof -
  have p: "\<forall>b \<in> set (47 # path). \<not> is_whitespace b"
    using assms is_whitespace_printable by (auto simp: is_whitespace_def)
  have "split_whitespace (ascii ''cat'' @ 32 # 47 # path) = [ascii ''cat'', 47 # path]"
    "split_whitespace (ascii ''run'' @ 32 # 47 # path) = [ascii ''run'', 47 # path]"
    by (rule split_two_words [OF _ p]; simp add: ascii_def is_whitespace_def)+
  then show "run_command env (ascii ''cat'' @ 32 # 47 # path) sh = cmd_cat env [ascii ''cat'', 47 # path] sh"
    "run_command env (ascii ''run'' @ 32 # 47 # path) sh = cmd_run env [ascii ''run'', 47 # path] sh"
    unfolding run_command_def by (simp_all add: ascii_def)
qed

lemma command_line_ok:
  assumes "\<forall>b \<in> set path. 0x20 < b \<and> b < 0x7F" "cmd = ascii ''cat'' \<or> cmd = ascii ''run''"
  shows "\<forall>b \<in> set (cmd @ 32 # 47 # path). 0x20 \<le> b \<and> b < 0x7F" "hd (cmd @ 32 # 47 # path) \<noteq> 0x20" "last (cmd @ 32 # 47 # path) \<noteq> 0x20"
    "cmd @ 32 # 47 # path \<noteq> []"
proof -
  show "\<forall>b \<in> set (cmd @ 32 # 47 # path). 0x20 \<le> b \<and> b < 0x7F" using assms by (auto simp: ascii_def less_imp_le)
  show "hd (cmd @ 32 # 47 # path) \<noteq> 0x20" using assms(2) by (auto simp: ascii_def)
  show "last (cmd @ 32 # 47 # path) \<noteq> 0x20"
    using assms(1) by (cases path rule: rev_cases) auto
qed simp

lemma shell_cat_prints_file:
  assumes "queue_valid (input (sh_kernel sh))" "queue_content (input (sh_kernel sh)) = ascii ''cat'' @ 32 # 47 # path @ [13]"
    and "current_line sh = []" "\<forall>b \<in> set path. 0x20 < b \<and> b < 0x7F" "ramdisk_file env sh path content" "utf8_valid content"
  shows "\<exists>sh'. shell_passes (length path + 6) env sh = returns sh' \<and> current_line sh' = [] \<and>
    console (sh_kernel sh') = console (sh_kernel sh) @ ascii ''cat'' @ 32 # 47 # path @ [13, 10] @ uart_bytes content @ uart_bytes prompt \<and>
    mach (sh_kernel sh') = mach (sh_kernel sh) \<and> tasks (sh_kernel sh') = tasks (sh_kernel sh)"
proof -
  let ?line = "ascii ''cat'' @ 32 # 47 # path"
  define st where "st q = sh\<lparr>sh_kernel := (sh_kernel sh)\<lparr>input := q, console := console (sh_kernel sh) @ ?line @ [13, 10]\<rparr>,
    current_line := ?line, cmd_history := cmd_history sh @ [?line]\<rparr>" for q
  have "run_command env ?line (st q) = Some (Ok (), say content (st q))" for q
    using with_file_ramdisk [of env "st q" path content] assms(5,6) ramdisk_file_cong [of "st q" sh]
    by (simp add: run_command_path(1) [OF assms(4)] cmd_cat_def st_def)
  then obtain q where "shell_passes (Suc (length ?line)) env sh = returns (say prompt ((say content (st q))\<lparr>current_line := []\<rparr>))"
    using type_command [OF assms(1) _ command_line_ok(1) [OF assms(4)] command_line_ok(4,2,3) [OF assms(4)] assms(3), of "ascii ''cat''" "[]" env "\<lambda>q. say content (st q)"]
      assms(2) unfolding st_def by auto
  moreover have "Suc (length ?line) = length path + 6" by (simp add: ascii_def)
  ultimately have p: "shell_passes (length path + 6) env sh = returns (say prompt ((say content (st q))\<lparr>current_line := []\<rparr>))" by (simp only:)
  show ?thesis by (intro exI conjI, rule p) (simp_all add: st_def)
qed

text \<open>What spawning reads and writes is neither the input queue nor the console.\<close>

lemma spawn_from_elf_frame:
  assumes "spawn_from_elf elf k = (r, k')"
  shows "spawn_from_elf elf (k\<lparr>input := q, console := c\<rparr>) = (r, k'\<lparr>input := q, console := c\<rparr>)"
proof -
  have t: "task_init i e m root o' ust n (k\<lparr>input := q, console := c\<rparr>) = (task_init i e m root o' ust n k)\<lparr>input := q, console := c\<rparr>" for i e m root o' ust n k
    by (simp add: task_init_def update_task_def Let_def)
  have u: "update_task i f (k\<lparr>input := q, console := c\<rparr>) = (update_task i f k)\<lparr>input := q, console := c\<rparr>" for i f k
    by (simp add: update_task_def)
  have i: "install_task e m root o' ust (k\<lparr>input := q, console := c\<rparr>) =
      (fst (install_task e m root o' ust k), (snd (install_task e m root o' ust k))\<lparr>input := q, console := c\<rparr>)" for e m root o' ust k
    unfolding install_task_def by (simp add: t u Let_def split: option.split)
  have s: "spawn_isolated_at e root o' ust (k\<lparr>input := q, console := c\<rparr>) =
      (fst (spawn_isolated_at e root o' ust k), (snd (spawn_isolated_at e root o' ust k))\<lparr>input := q, console := c\<rparr>)" for e root o' ust k
    unfolding spawn_isolated_at_def by (simp add: i)
  have m: "k\<lparr>input := q, console := c, mach := s\<rparr> = (k\<lparr>mach := s\<rparr>)\<lparr>input := q, console := c\<rparr>" for k s by simp
  show ?thesis
    using assms unfolding spawn_from_elf_def
    by (auto simp: Let_def m s current_memory_root_def simp del: kernel.update_convs split: prod.splits option.splits outcome.splits)
qed


section \<open>The demo allocation of memstat\<close>

lemma memstat_takes_frame:
  assumes "pool_ok (mach (sh_kernel sh))"
  obtains sh' where "run_command env (ascii ''memstat'') sh = returns sh'" "pool_ok (mach (sh_kernel sh'))" "tasks (sh_kernel sh') = tasks (sh_kernel sh)"
    "card (free_frames (pmm (mach (sh_kernel sh')))) = card (free_frames (pmm (mach (sh_kernel sh)))) - 1"
proof -
  have r: "run_command env (ascii ''memstat'') sh = cmd_memstat sh"
    by (simp add: run_command_def split_whitespace_def is_whitespace_def ascii_def)
  obtain f s where al: "alloc_frame (mach (sh_kernel sh)) = (f, s)" by (cases "alloc_frame (mach (sh_kernel sh))")
  define t where "t = (case f of Some addr \<Rightarrow> ascii ('' Physical Frame Alloc: 0x'' @ pad_left (CHR ''0'') 8 (show_hex (unat addr)) @ '' (demo allocation)'')
    | None \<Rightarrow> ascii '' Physical Frame Alloc: frame pool exhausted'')"
  define x where "x = sayln (ascii '' Alloc Engine Speed : Hardened Hardware Bit-Scanning O(1)'') (sayln (ascii '' Heap Arena Budget : 640 KiB Active Managed Space'')
    (sayln (ascii '' Heap Location Range : 0x150000 -> 0x1F0000'') (sayln (ascii ''--- Memory System Architecture ---'') sh)))"
  have x: "mach (sh_kernel x) = mach (sh_kernel sh)" "tasks (sh_kernel x) = tasks (sh_kernel sh)" by (simp_all add: x_def sayln_def)
  have c: "cmd_memstat sh = returns (sayln t (x\<lparr>sh_kernel := (sh_kernel x)\<lparr>mach := s\<rparr>\<rparr>))"
    unfolding cmd_memstat_def Let_def x_def [symmetric] x(1) al t_def by (simp split: option.split)
  have "pool_ok s \<and> card (free_frames (pmm s)) = card (free_frames (pmm (mach (sh_kernel sh)))) - 1"
  proof (cases f)
    case None
    then show ?thesis using alloc_frame_None [of "mach (sh_kernel sh)" s] al assms by auto
  next
    case (Some a)
    then show ?thesis using alloc_frame_Some(3,4) [OF _ assms] al assms by (auto simp: pool_ok_def)
  qed
  then show thesis by (intro that [OF c [folded r]]) (simp_all add: sayln_def x(2))
qed

text \<open>Looking at the memory statistics uses the memory up. \<open>memstat\<close> allocates a physical frame for its demo line and never
  frees it: after as many \<open>memstat\<close> commands as there were free frames the pool is empty, no task owns more than
  before, and nothing can be allocated any more.\<close>

theorem memstat_exhausts_memory:
  assumes "pool_ok (mach (sh_kernel sh))" "card (free_frames (pmm (mach (sh_kernel sh)))) \<le> n"
  shows "\<exists>sh'. ((\<lambda>r. case r of Some (Ok _, sh) \<Rightarrow> run_command env (ascii ''memstat'') sh | r \<Rightarrow> r) ^^ n) (returns sh) = returns sh' \<and>
    tasks (sh_kernel sh') = tasks (sh_kernel sh) \<and> free_frames (pmm (mach (sh_kernel sh'))) = {} \<and> fst (alloc_frame (mach (sh_kernel sh'))) = None"
  using assms
proof (induction n arbitrary: sh)
  case 0
  then have e: "free_frames (pmm (mach (sh_kernel sh))) = {}" by simp
  then have "fst (alloc_frame (mach (sh_kernel sh))) = None"
    using alloc_frame_Some(3) [OF _ 0(1)] by (metis empty_iff not_None_eq prod.collapse)
  with e show ?case by simp
next
  case (Suc n)
  obtain sh1 where s: "run_command env (ascii ''memstat'') sh = returns sh1" "pool_ok (mach (sh_kernel sh1))" "tasks (sh_kernel sh1) = tasks (sh_kernel sh)"
    "card (free_frames (pmm (mach (sh_kernel sh1)))) = card (free_frames (pmm (mach (sh_kernel sh)))) - 1"
    by (rule memstat_takes_frame [OF Suc.prems(1)])
  then have "card (free_frames (pmm (mach (sh_kernel sh1)))) \<le> n" using Suc.prems(2) by simp
  from Suc.IH [OF s(2) this] show ?case by (simp only: funpow_Suc_right comp_apply shell_returns option.case prod.case outcome.case s(1,3))
qed

section \<open>Concrete runs\<close>

definition typed_keys :: "bytes \<Rightarrow> input_queue" where
  "typed_keys bs = fold enqueue_byte bs empty_queue"

lemma typed_keys_content: "length bs \<le> 127 \<Longrightarrow> queue_valid (typed_keys bs) \<and> queue_content (typed_keys bs) = bs"
  using ring.fold_push [of empty_queue bs] by (simp add: typed_keys_def BUFFER_SIZE_def)

definition program_ramdisk :: "member list" where
  "program_ramdisk = [\<lparr>m_name = ascii ''app'', m_type = 48, m_data = demo_elf\<rparr>]"

definition demo_env :: shell_env where
  "demo_env = \<lparr>dev = (\<lambda>h r. 0), unicode = (\<lambda>s. s), heap_serves = (\<lambda>n. n \<le> 0xA0000), ramdisk = Some (archive program_ramdisk), info_ptr = 0x500000\<rparr>"

definition demo_shell :: "bytes \<Rightarrow> bytes shell" where
  "demo_shell keys = shell_start (roomy_kernel\<lparr>input := typed_keys keys\<rparr>) [] [([47], TarFsAdapter (archive program_ramdisk))]"

lemma demo_shell_simps [simp]:
  "input (sh_kernel (demo_shell keys)) = typed_keys keys" "current_line (demo_shell keys) = []" "mach (sh_kernel (demo_shell keys)) = roomy_machine"
  "tasks (sh_kernel (demo_shell keys)) = tasks roomy_kernel" "sh_mounts (demo_shell keys) = [([47], TarFsAdapter (archive program_ramdisk))]"
  "length (tasks roomy_kernel) = 4" "stack_addr (sh_kernel (demo_shell keys)) = stack_addr roomy_kernel"
  by (simp_all add: demo_shell_def shell_start_def sayln_def roomy_kernel_def boot_kernel_def MAX_TASKS_def uart_print_def)

lemma program_ramdisk_file: "ramdisk_file demo_env (demo_shell keys) (ascii ''app'') demo_elf"
proof -
  have n: "length demo_elf = 120" by (simp add: demo_elf_def)
  let ?m = "\<lparr>m_name = ascii ''app'', m_type = 48, m_data = demo_elf\<rparr>"
  have ok: "\<forall>m \<in> set program_ramdisk. member_ok m" by (simp add: program_ramdisk_def member_ok_def n) (simp add: ascii_def)
  have len: "length (archive program_ramdisk) < 2 ^ 63"
    by (simp add: archive_def program_ramdisk_def archive_member_def ustar_block_def padding_def n) (simp add: ascii_def)
  have fi: "find (\<lambda>m. m_name m = ascii ''app'') program_ramdisk = Some ?m" by (simp add: program_ramdisk_def)
  show ?thesis
    unfolding ramdisk_file_def
    using ok len fi by (intro conjI exI [of _ program_ramdisk] exI [of _ "[]"] exI [of _ ?m]) (simp_all add: demo_env_def n ascii_def)
qed

theorem shell_line_is_shown_witness:
  "\<exists>q out. shell_passes 5 demo_env (demo_shell [112, 120, 8, 7, 115]) =
      returns ((demo_shell [112, 120, 8, 7, 115])\<lparr>sh_kernel := (sh_kernel (demo_shell [112, 120, 8, 7, 115]))\<lparr>input := q,
        console := console (sh_kernel (demo_shell [112, 120, 8, 7, 115])) @ out\<rparr>, current_line := ascii ''ps''\<rparr>) \<and> queue_content q = []"
proof -
  let ?keys = "[112, 120, 8, 7, 115] :: bytes"
  have l: "line_shown (demo_shell ?keys)" by (simp only: demo_shell_def shell_start_shown)
  have q: "queue_valid (input (sh_kernel (demo_shell ?keys)))" "queue_content (input (sh_kernel (demo_shell ?keys))) = ?keys"
    using typed_keys_content [of ?keys] by simp_all
  have e: "fold edit_key ?keys (current_line (demo_shell ?keys)) = ascii ''ps''" by (simp add: edit_key_def ascii_def)
  have n: "length ?keys = 5" "13 \<notin> set ?keys" "10 \<notin> set ?keys" by simp_all
  from shell_line_is_shown [OF l q n(2,3), of demo_env] show ?thesis unfolding e n(1) by blast
qed


theorem memstat_exhausts_memory_witness:
  "\<exists>sh'. ((\<lambda>r. case r of Some (Ok _, sh) \<Rightarrow> run_command demo_env (ascii ''memstat'') sh | r \<Rightarrow> r) ^^ 64) (returns (demo_shell [])) = returns sh' \<and>
     free_frames (pmm (mach (sh_kernel sh'))) = {}"
proof -
  have "pool_ok (mach (sh_kernel (demo_shell [])))" "card (free_frames (pmm (mach (sh_kernel (demo_shell []))))) \<le> 64"
    using roomy_template by (simp_all add: roomy_free template_ok_def)
  from memstat_exhausts_memory [OF this] show ?thesis by blast
qed

end
