(* ===== verification/Interrupts.thy ===== *)
theory Interrupts
  imports Syscall Gdt Device
begin

text \<open>
  Traps and interrupts (\<^verbatim>\<open>interrupts.rs\<close>, \<^verbatim>\<open>timer.rs\<close>): the descriptor table of x86_64, the interrupt and timer
  chips, the receive interrupts of both serial ports, fault handling on both architectures, and the
  assembly stubs, as the transformation of the saved registers they make. The addresses of the stubs
  and the fault registers are arguments; the report lines of the fault handlers are left out.
\<close>

section \<open>The interrupt descriptor table\<close>

record IdtEntry =
  pointer_low :: u16
  gdt_selector :: u16
  gate_options :: u16
  pointer_middle :: u16
  pointer_high :: u32

definition idt_missing :: IdtEntry where
  "idt_missing = \<lparr>pointer_low = 0, gdt_selector = 0, gate_options = 0, pointer_middle = 0, pointer_high = 0\<rparr>"

definition set_handler :: "usize \<Rightarrow> IdtEntry \<Rightarrow> IdtEntry" where
  "set_handler handler_addr e =
     e\<lparr>pointer_low := ucast handler_addr, gdt_selector := 0x08, gate_options := 0x8E00,
       pointer_middle := ucast (drop_bit 16 handler_addr), pointer_high := ucast (drop_bit 32 handler_addr)\<rparr>"

definition set_ist :: "u8 \<Rightarrow> IdtEntry \<Rightarrow> IdtEntry" where
  "set_ist index e = e\<lparr>gate_options := (gate_options e AND 0xFF00) OR (ucast index AND 0x7)\<rparr>"

datatype stub = ExceptionStub | UartStub | TimerStub | SyscallStub | DivideErrorStub | InvalidOpcodeStub
  | DoubleFaultStub | GeneralProtectionStub | PageFaultStub

definition set_gate :: "nat \<Rightarrow> usize \<Rightarrow> IdtEntry list \<Rightarrow> IdtEntry list" where
  "set_gate v addr idt = idt[v := set_handler addr (idt ! v)]"

definition remap_pic :: "history \<Rightarrow> history" where
  "remap_pic = dev_writes [(0x20, 0x11), (0xA0, 0x11), (0x21, 0x20), (0xA1, 0x28), (0x21, 0x04), (0xA1, 0x02),
     (0x21, 0x01), (0xA1, 0x01), (0x21, 0xEE), (0xA1, 0xFF)]"

definition init_pit :: "history \<Rightarrow> history" where
  "init_pit h =
     (let divisor = 11931 :: u16
      in dev_writes [(0x43, 0x36), (0x40, ucast (divisor AND 0xFF)), (0x40, ucast (drop_bit 8 divisor))] h)"

text \<open>The result is the table, the register \<open>lidt\<close> loads (limit and base) and the port writes.\<close>

definition idt_init :: "(stub \<Rightarrow> usize) \<Rightarrow> usize \<Rightarrow> IdtEntry list \<Rightarrow> history \<Rightarrow> IdtEntry list \<times> (u16 \<times> usize) \<times> history" where
  "idt_init addr idt_addr idt h =
     (let h = remap_pic h; h = init_pit h;
          idt = set_gate 3 (addr ExceptionStub) idt;
          idt = set_gate 0x20 (addr TimerStub) idt;
          idt = set_gate 0x24 (addr UartStub) idt;
          idt = set_gate 0x80 (addr SyscallStub) idt;
          idt = set_gate 0 (addr DivideErrorStub) idt;
          idt = set_gate 6 (addr InvalidOpcodeStub) idt;
          idt = set_gate 8 (addr DoubleFaultStub) idt;
          idt = idt[8 := set_ist DOUBLE_FAULT_IST_NUMBER (idt ! 8)];
          idt = set_gate 13 (addr GeneralProtectionStub) idt;
          idt = set_gate 14 (addr PageFaultStub) idt
      in (idt, (256 * 16 - 1, idt_addr), h))"

definition load_idt :: "usize \<Rightarrow> u16 \<times> usize" where
  "load_idt idt_addr = (256 * 16 - 1, idt_addr)"

section \<open>Timers\<close>

definition TIMER_HZ :: nat where "TIMER_HZ = 100"
definition PIT_FREQ :: nat where "PIT_FREQ = 1193182"

definition x86_timer_init :: "history \<Rightarrow> history" where
  "x86_timer_init h =
     (let divisor = PIT_FREQ div TIMER_HZ
      in dev_writes [(0x43, 0x36), (0x40, word_of_nat (divisor mod 256)), (0x40, word_of_nat (divisor div 256 mod 256))] h)"

text \<open>The system registers of the ARM timer, named by addresses no mapping can have.\<close>

definition CNTFRQ_EL0 :: usize where "CNTFRQ_EL0 = 0x7000000000000000"
definition CNTP_TVAL_EL0 :: usize where "CNTP_TVAL_EL0 = 0x7000000000000001"
definition CNTP_CTL_EL0 :: usize where "CNTP_CTL_EL0 = 0x7000000000000002"

definition a64_timer_init :: "device \<Rightarrow> history \<Rightarrow> history" where
  "a64_timer_init dev h =
     (case dev_read dev CNTFRQ_EL0 h of (frq, h) \<Rightarrow>
        let tick_rate = word_of_nat (unat frq div TIMER_HZ)
        in dev_writes [(CNTP_TVAL_EL0, tick_rate), (CNTP_CTL_EL0, 1)] h)"

definition reset_timer :: "device \<Rightarrow> history \<Rightarrow> history" where
  "reset_timer dev h =
     (case dev_read dev CNTFRQ_EL0 h of (frq, h) \<Rightarrow> dev_write CNTP_TVAL_EL0 (word_of_nat (unat frq div TIMER_HZ)) h)"

definition init_gic_timer_irq :: "history \<Rightarrow> history" where
  "init_gic_timer_irq h = dev_write (0x40000000 + 0x40) (push_bit 1 1) h"

section \<open>Serial receive interrupts\<close>

text \<open>
  Both handlers read a status register and then the data register until the status says that nothing
  is left; the loop has no bound of its own. \<open>avail\<close> is the test of the status.
\<close>

partial_function (option) drain_rx :: "device \<Rightarrow> usize \<Rightarrow> (u64 \<Rightarrow> bool) \<Rightarrow> usize \<Rightarrow> input_queue \<Rightarrow> history \<Rightarrow> (input_queue \<times> history) option" where
  "drain_rx dev status avail dr q h =
     (case dev_read dev status h of (v, h) \<Rightarrow>
        if avail v then (case dev_read dev dr h of (b, h) \<Rightarrow> drain_rx dev status avail dr (enqueue_byte (ucast b) q) h)
        else Some (q, h))"

definition raw_uart_interrupt_handler :: "device \<Rightarrow> input_queue \<Rightarrow> history \<Rightarrow> (input_queue \<times> history) option" where
  "raw_uart_interrupt_handler dev q h =
     map_option (\<lambda>(q, h). (q, dev_write 0x20 0x20 h)) (drain_rx dev (0x3F8 + 5) (\<lambda>v. (ucast v :: u8) AND 1 \<noteq> 0) 0x3F8 q h)"

definition handle_irq :: "device \<Rightarrow> input_queue \<Rightarrow> history \<Rightarrow> (input_queue \<times> history) option" where
  "handle_irq dev q h =
     (let uart_dr = 0x3F000000 + 0x201000; uart_fr = uart_dr + 0x18; uart_icr = uart_dr + 0x44
      in map_option (\<lambda>(q, h). (q, reset_timer dev (dev_write uart_icr 0x7FF h)))
           (drain_rx dev uart_fr (\<lambda>v. (ucast v :: u32) AND push_bit 4 1 = 0) uart_dr q h))"

section \<open>Faults\<close>

datatype fault_result = Resumed | TaskExits | Halted

definition CANONICAL_LOW_HALF_CEILING :: u64 where "CANONICAL_LOW_HALF_CEILING = 0x0000800000000000"

definition try_page_fault :: "usize \<Rightarrow> bool \<Rightarrow> bool \<Rightarrow> kernel \<Rightarrow> (unit, bool) outcome \<times> kernel" where
  "try_page_fault addr present user k =
     (case handle_page_fault addr present user (mach k) of (r, s) \<Rightarrow> (r, k\<lparr>mach := s\<rparr>))"

definition fault_tail :: "u64 \<Rightarrow> u64 \<Rightarrow> u64 \<Rightarrow> usize \<Rightarrow> kernel \<Rightarrow> fault_result \<times> kernel" where
  "fault_tail vector error_code pc trap_sp k =
     (let rip_in_user_range = (USER_SPACE_BASE \<le> pc \<and> pc < CANONICAL_LOW_HALF_CEILING);
          is_user_fault = (if vector = 14 then error_code AND push_bit 2 1 \<noteq> 0 \<or> rip_in_user_range else rip_in_user_range)
      in if is_user_fault \<and> vector \<noteq> 8 then (TaskExits, exit_task trap_sp k) else (Halted, k))"

text \<open>\<open>cr2_reg\<close> is the fault address register and \<open>trap_sp\<close> the frame of the yield in \<open>task::exit\<close>.\<close>

definition fault_common_handler :: "u64 \<Rightarrow> u64 \<Rightarrow> u64 \<Rightarrow> usize \<Rightarrow> usize \<Rightarrow> kernel \<Rightarrow> fault_result \<times> kernel" where
  "fault_common_handler vector error_code pc cr2_reg trap_sp k =
     (if vector = 14 then
        (case try_page_fault cr2_reg (error_code AND 1 \<noteq> 0) (error_code AND push_bit 2 1 \<noteq> 0) k of
           (Ok True, k) \<Rightarrow> (Resumed, k)
         | (Ok False, k) \<Rightarrow> fault_tail vector error_code pc trap_sp k
         | (_, k) \<Rightarrow> (Halted, k))
      else fault_tail vector error_code pc trap_sp k)"

definition exception_class :: "u64 \<Rightarrow> u64" where
  "exception_class esr = drop_bit 26 esr AND 0x3F"

definition handle_el1_sync_exception :: "u64 \<Rightarrow> u64 \<Rightarrow> kernel \<Rightarrow> fault_result \<times> kernel" where
  "handle_el1_sync_exception esr far k =
     (let ec = exception_class esr
      in if ec = 0x20 \<or> ec = 0x21 \<or> ec = 0x24 \<or> ec = 0x25 then
           let is_user = (ec = 0x20 \<or> ec = 0x24);
               fsc = esr AND 0x3F;
               is_present = (fsc AND 0b111100 = 0b001100)
           in (case try_page_fault far is_present is_user k of
                 (Ok True, k) \<Rightarrow> (Resumed, k)
               | (_, k) \<Rightarrow> (Halted, k))
         else (Halted, k))"

definition handle_el0_sync_trap :: "u64 \<Rightarrow> u64 \<Rightarrow> u64 \<Rightarrow> u64 \<Rightarrow> u64 \<Rightarrow> usize \<Rightarrow> kernel \<Rightarrow> syscall_result \<times> kernel" where
  "handle_el0_sync_trap esr sysno a0 a1 a2 trap_sp k =
     (if exception_class esr = 0x15 then syscall_handler trap_sp sysno a0 a1 a2 k
      else (Exits, exit_task trap_sp k))"

section \<open>Stubs\<close>

text \<open>
  A stub saves the registers of the interrupted code on the kernel stack, calls its handler and
  restores them. A system call changes the saved result register only: \<open>rax\<close>, or \<open>x0\<close>. \<open>None\<close> means
  that the interrupted code does not go on.
\<close>

definition syscall_handler_stub :: "usize \<Rightarrow> x86_context \<Rightarrow> kernel \<Rightarrow> x86_context option \<times> kernel" where
  "syscall_handler_stub trap_sp c k =
     (case syscall_handler trap_sp (rax c) (rbx c) (rcx c) (r8 c) k of
        (Returned r, k) \<Rightarrow> (Some (c\<lparr>rax := r\<rparr>), k)
      | (_, k) \<Rightarrow> (None, k))"

definition el0_sync_body :: "u64 \<Rightarrow> usize \<Rightarrow> a64_context \<Rightarrow> kernel \<Rightarrow> a64_context option \<times> kernel" where
  "el0_sync_body esr trap_sp c k =
     (case handle_el0_sync_trap esr (regs c ! 8) (regs c ! 0) (regs c ! 1) (regs c ! 2) trap_sp k of
        (Returned r, k) \<Rightarrow> (Some (c\<lparr>regs := (regs c)[0 := r]\<rparr>), k)
      | (_, k) \<Rightarrow> (None, k))"

text \<open>\<open>x86_syscall_trap\<close>, which no gate of the table refers to.\<close>

definition x86_syscall_trap :: "usize \<Rightarrow> x86_context \<Rightarrow> kernel \<Rightarrow> x86_context option \<times> kernel" where
  "x86_syscall_trap trap_sp c k =
     (case syscall_handler trap_sp (rax c) (rdi c) (rsi c) (rdx c) k of
        (Returned r, k) \<Rightarrow> (Some (c\<lparr>rax := r\<rparr>), k)
      | (_, k) \<Rightarrow> (None, k))"

text \<open>
  The stubs that may switch tasks: the frame of the interrupted code is stored at \<open>sp\<close>, \<open>schedule\<close>
  returns the stack pointer to continue with, and the registers are loaded from the frame there.
\<close>

definition schedule_trap :: "usize \<Rightarrow> TaskContext \<Rightarrow> kernel \<Rightarrow> TaskContext option \<times> kernel" where
  "schedule_trap sp c k =
     (case run_schedule sp (k\<lparr>frames := (frames k)(sp \<mapsto> c)\<rparr>) of (sp', k) \<Rightarrow> (frames k sp', k))"

definition timer_handler_stub :: "usize \<Rightarrow> x86_context \<Rightarrow> kernel \<Rightarrow> history \<Rightarrow> TaskContext option \<times> kernel \<times> history" where
  "timer_handler_stub sp c k h =
     (case schedule_trap sp (X86_Context c) k of (c', k) \<Rightarrow> (c', k, dev_write 0x20 0x20 h))"

definition irq_body :: "device \<Rightarrow> usize \<Rightarrow> a64_context \<Rightarrow> kernel \<Rightarrow> history \<Rightarrow> (TaskContext option \<times> kernel \<times> history) option" where
  "irq_body dev sp c k h =
     map_option (\<lambda>(q, h). case schedule_trap sp (A64_Context c) (k\<lparr>input := q\<rparr>) of (c', k) \<Rightarrow> (c', k, h)) (handle_irq dev (input k) h)"

definition el1_sync_body :: "u64 \<Rightarrow> u64 \<Rightarrow> usize \<Rightarrow> a64_context \<Rightarrow> kernel \<Rightarrow> TaskContext option \<times> kernel" where
  "el1_sync_body esr far sp c k =
     (if exception_class esr = 0x15 then schedule_trap sp (A64_Context c) k
      else case handle_el1_sync_exception esr far k of
             (Resumed, k) \<Rightarrow> (Some (A64_Context c), k)
           | (_, k) \<Rightarrow> (None, k))"

definition interrupts_init :: "target_arch \<Rightarrow> (stub \<Rightarrow> usize) \<Rightarrow> usize \<Rightarrow> device \<Rightarrow> IdtEntry list \<Rightarrow> history \<Rightarrow> IdtEntry list \<times> history" where
  "interrupts_init tgt addr idt_addr dev idt h =
     (case tgt of
        X86_64 \<Rightarrow> (case idt_init addr idt_addr idt h of (idt, _, h) \<Rightarrow> (idt, h))
      | AArch64 \<Rightarrow> (idt, a64_timer_init dev (init_gic_timer_irq h)))"

section \<open>Delivery of interrupts\<close>

text \<open>What the processor reads from a gate.\<close>

definition gate_handler :: "IdtEntry \<Rightarrow> usize" where
  "gate_handler e = ucast (pointer_low e) OR push_bit 16 (ucast (pointer_middle e)) OR push_bit 32 (ucast (pointer_high e))"

definition gate_present :: "IdtEntry \<Rightarrow> bool" where "gate_present e = bit (gate_options e) 15"
definition gate_dpl :: "IdtEntry \<Rightarrow> nat" where "gate_dpl e = unat (take_bit 2 (drop_bit 13 (gate_options e)))"
definition gate_ist :: "IdtEntry \<Rightarrow> nat" where "gate_ist e = unat (take_bit 3 (gate_options e))"

text \<open>
  The vector and the error code with which an \<open>int v\<close> instruction executed at privilege \<open>cpl\<close> is
  delivered: a gate of lower privilege raises a general protection fault instead, whose error code
  names the gate.
\<close>

definition software_interrupt :: "IdtEntry list \<Rightarrow> nat \<Rightarrow> nat \<Rightarrow> nat \<times> u64" where
  "software_interrupt idt cpl v = (if gate_dpl (idt ! v) < cpl then (13, word_of_nat (8 * v + 2)) else (v, 0))"

definition stub_of :: "nat \<Rightarrow> stub option" where
  "stub_of v = map_of [(0, DivideErrorStub), (3, ExceptionStub), (6, InvalidOpcodeStub), (8, DoubleFaultStub),
     (13, GeneralProtectionStub), (14, PageFaultStub), (0x20, TimerStub), (0x24, UartStub), (0x80, SyscallStub)] v"

lemma gate_handler_set_handler [simp]: "gate_handler (set_handler a e) = a"
proof (rule bit_word_eqI)
  fix n assume "n < LENGTH(64)"
  then consider "n < 16" | "16 \<le> n" "n < 32" | "32 \<le> n" "n < 64" by force
  then show "bit (gate_handler (set_handler a e)) n \<longleftrightarrow> bit a n"
    by cases (simp_all add: gate_handler_def set_handler_def bit_simps less_diff_conv2)
qed

lemma gate_handler_set_ist [simp]: "gate_handler (set_ist i e) = gate_handler e"
  by (simp add: gate_handler_def set_ist_def)

lemma gate_bits_set_handler [simp]:
  "gate_present (set_handler a e)" "gate_dpl (set_handler a e) = 0" "gate_ist (set_handler a e) = 0" "gdt_selector (set_handler a e) = 8"
  by (simp_all add: gate_present_def gate_dpl_def gate_ist_def set_handler_def take_bit_eq_mask mask_eq_exp_minus_1)

lemma gate_bits_set_ist [simp]:
  "gate_present (set_ist 1 (set_handler a e))" "gate_dpl (set_ist 1 (set_handler a e)) = 0" "gate_ist (set_ist 1 (set_handler a e)) = 1"
  "gdt_selector (set_ist 1 (set_handler a e)) = 8"
  by (simp_all add: gate_present_def gate_dpl_def gate_ist_def set_handler_def set_ist_def take_bit_eq_mask mask_eq_exp_minus_1)

lemma idt_init_gates:
  assumes "length idt = 256" "idt_init addr idt_addr idt h = (idt', r, h')"
  shows "length idt' = 256"
    "stub_of v = Some st \<Longrightarrow> gate_present (idt' ! v) \<and> gate_handler (idt' ! v) = addr st \<and> gate_dpl (idt' ! v) = 0 \<and>
       gdt_selector (idt' ! v) = 8 \<and> gate_ist (idt' ! v) = (if v = 8 then 1 else 0)"
    "stub_of v = None \<Longrightarrow> idt' ! v = idt ! v"
proof -
  from assms(2) have i: "idt' = set_gate 14 (addr PageFaultStub) (set_gate 13 (addr GeneralProtectionStub)
      ((\<lambda>t. t[8 := set_ist 1 (t ! 8)]) (set_gate 8 (addr DoubleFaultStub) (set_gate 6 (addr InvalidOpcodeStub)
        (set_gate 0 (addr DivideErrorStub) (set_gate 0x80 (addr SyscallStub) (set_gate 0x24 (addr UartStub)
          (set_gate 0x20 (addr TimerStub) (set_gate 3 (addr ExceptionStub) idt)))))))))"
    by (simp add: idt_init_def Let_def DOUBLE_FAULT_IST_NUMBER_def)
  show "length idt' = 256" using assms(1) by (simp add: i set_gate_def)
  show "stub_of v = Some st \<Longrightarrow> gate_present (idt' ! v) \<and> gate_handler (idt' ! v) = addr st \<and> gate_dpl (idt' ! v) = 0 \<and>
       gdt_selector (idt' ! v) = 8 \<and> gate_ist (idt' ! v) = (if v = 8 then 1 else 0)"
    using assms(1) by (simp add: stub_of_def i set_gate_def split: if_splits)
  show "stub_of v = None \<Longrightarrow> idt' ! v = idt ! v"
    using assms(1) by (simp add: stub_of_def i set_gate_def split: if_splits)
qed

text \<open>C39: A ring-3 program cannot make a system call. The gate of vector \<open>0x80\<close> leads to the system-call
  stub, but \<open>set_handler\<close> gives every gate privilege 0: \<open>int 0x80\<close> from the kernel is delivered, while from
  user mode it becomes a general protection fault, and the fault handler terminates the calling task.\<close>
theorem user_system_call_terminates_task:
  assumes "idt_init addr idt_addr (replicate 256 idt_missing) h = (idt, r, h')"
    and "USER_SPACE_BASE \<le> pc" "pc < CANONICAL_LOW_HALF_CEILING"
  shows "software_interrupt idt 0 0x80 = (0x80, 0) \<and> gate_handler (idt ! 0x80) = addr SyscallStub \<and>
    (case software_interrupt idt 3 0x80 of (v, error_code) \<Rightarrow>
       gate_handler (idt ! v) = addr GeneralProtectionStub \<and>
       fault_common_handler (word_of_nat v) error_code pc cr2_reg trap_sp k = (TaskExits, exit_task trap_sp k))"
proof -
  note g = idt_init_gates(2) [OF _ assms(1), simplified]
  have "stub_of 0x80 = Some SyscallStub" "stub_of 13 = Some GeneralProtectionStub" by (simp_all add: stub_of_def)
  from g [OF this(1)] g [OF this(2)] show ?thesis
    using assms(2,3) by (simp add: software_interrupt_def fault_common_handler_def fault_tail_def)
qed

theorem user_system_call_terminates_task_witness:
  "\<exists>idt r h. idt_init (\<lambda>_. 0xFFFFFFFF80001000) 0xFFFFFFFF80100000 (replicate 256 idt_missing) [] = (idt, r, h) \<and>
     software_interrupt idt 3 0x80 = (13, 0x402) \<and>
     fault_common_handler 13 0x402 0x8000000000 0 0x7000 demo_two = (TaskExits, exit_task 0x7000 demo_two)"
proof -
  obtain idt r h where i: "idt_init (\<lambda>_. 0xFFFFFFFF80001000) 0xFFFFFFFF80100000 (replicate 256 idt_missing) [] = (idt, r, h)"
    using prod_cases3 by blast
  have pc: "USER_SPACE_BASE \<le> (0x8000000000 :: u64)" "(0x8000000000 :: u64) < CANONICAL_LOW_HALF_CEILING"
    by (simp_all add: USER_SPACE_BASE_def CANONICAL_LOW_HALF_CEILING_def)
  have "stub_of 0x80 = Some SyscallStub" by (simp add: stub_of_def)
  from idt_init_gates(2) [OF _ i this] have "software_interrupt idt 3 0x80 = (13, 0x402)" by (simp add: software_interrupt_def)
  with user_system_call_terminates_task [OF i pc, of 0 "0x7000" demo_two] i show ?thesis by auto
qed

section \<open>Containment of faults\<close>



section \<open>Receiving bytes\<close>

text \<open>A receive FIFO that holds the bytes \<open>bs\<close>: each read of the data register takes the next one, and the
  status register reads \<open>fl\<close> while one is left and \<open>em\<close> afterwards. Every other register reads \<open>other\<close>.\<close>

definition reads_of :: "usize \<Rightarrow> history \<Rightarrow> nat" where
  "reads_of r h = length (filter (\<lambda>a. case a of Rd q _ \<Rightarrow> q = r | Wr _ _ \<Rightarrow> False) h)"

definition rx_fifo :: "usize \<Rightarrow> u64 \<Rightarrow> u64 \<Rightarrow> usize \<Rightarrow> u64 \<Rightarrow> bytes \<Rightarrow> device" where
  "rx_fifo status fl em dr other bs h r =
     (if r = status then (if reads_of dr h < length bs then fl else em)
      else if r = dr then ucast (bs ! reads_of dr h) else other)"

lemma reads_of_simps [simp]:
  "reads_of r [] = 0" "reads_of r (Rd q v # h) = (if q = r then Suc (reads_of r h) else reads_of r h)"
  "reads_of r (Wr q v # h) = reads_of r h"
  by (simp_all add: reads_of_def)

lemma drain_rx_fifo:
  assumes "status \<noteq> dr" "avail fl" "\<not> avail em"
  shows "\<exists>h'. drain_rx (rx_fifo status fl em dr other bs) status avail dr q h = Some (fold enqueue_byte (drop (reads_of dr h) bs) q, h') \<and>
    (\<forall>r. written r h' = written r h)"
proof (induction "length bs - reads_of dr h" arbitrary: q h)
  case 0
  then show ?case
    using assms by (subst drain_rx.simps) (simp add: dev_read_def rx_fifo_def)
next
  case (Suc n)
  let ?b = "bs ! reads_of dr h"
  define h1 where "h1 = Rd dr (ucast ?b) # Rd status fl # h"
  have lt: "reads_of dr h < length bs" using Suc.hyps(2) by simp
  have r1: "reads_of dr h1 = Suc (reads_of dr h)" using assms(1) by (simp add: h1_def)
  have u: "ucast (ucast ?b :: u64) = ?b" by (auto intro!: bit_word_eqI simp: bit_simps)
  have d: "drop (reads_of dr h) bs = ?b # drop (Suc (reads_of dr h)) bs" using lt by (simp add: Cons_nth_drop_Suc)
  have "drain_rx (rx_fifo status fl em dr other bs) status avail dr q h
      = drain_rx (rx_fifo status fl em dr other bs) status avail dr (enqueue_byte ?b q) h1"
    using assms lt by (subst drain_rx.simps) (simp add: dev_read_def rx_fifo_def h1_def u)
  moreover obtain h' where "drain_rx (rx_fifo status fl em dr other bs) status avail dr (enqueue_byte ?b q) h1
      = Some (fold enqueue_byte (drop (reads_of dr h1) bs) (enqueue_byte ?b q), h')" "\<forall>r. written r h' = written r h1"
  proof -
    have "n = length bs - reads_of dr h1" using Suc.hyps(2) r1 by simp
    from Suc.hyps(1) [OF this, of "enqueue_byte ?b q"] show ?thesis using that by blast
  qed
  ultimately show ?case using assms(1) by (simp add: d h1_def)
qed

text \<open>C23: The serial interrupt loses nothing the queue has room for. With the bytes \<open>bs\<close> in the receive FIFO,
  the handler of either architecture returns, the input queue holds its old content followed by \<open>bs\<close>, up
  to its 127 places, and the interrupt is acknowledged: the end-of-interrupt command on x86_64, the
  interrupt-clear register and a re-armed timer of a hundredth of the counter frequency on AArch64.\<close>
theorem uart_interrupt_delivers:
  assumes "queue_valid q"
  shows "(\<exists>q' h. raw_uart_interrupt_handler (rx_fifo 0x3FD 0x61 0x60 0x3F8 freq bs) q [] = Some (q', h) \<and>
      queue_content q' = take 127 (queue_content q @ bs) \<and> written 0x20 h = [0x20]) \<and>
    (\<exists>q' h. handle_irq (rx_fifo 0x3F201018 0 0x10 0x3F201000 freq bs) q [] = Some (q', h) \<and>
      queue_content q' = take 127 (queue_content q @ bs) \<and> written 0x3F201044 h = [0x7FF] \<and>
      written CNTP_TVAL_EL0 h = [word_of_nat (unat freq div 100)])"
proof -
  have c: "queue_content (fold enqueue_byte bs q) = take 127 (queue_content q @ bs)"
    using ring.fold_push [OF assms, of bs] by (simp add: BUFFER_SIZE_def)
  obtain h1 where "drain_rx (rx_fifo 0x3FD 0x61 0x60 0x3F8 freq bs) 0x3FD (\<lambda>v. (ucast v :: u8) AND 1 \<noteq> 0) 0x3F8 q []
      = Some (fold enqueue_byte bs q, h1)" "\<forall>r. written r h1 = []"
    using drain_rx_fifo [of "0x3FD" "0x3F8" "\<lambda>v. (ucast v :: u8) AND 1 \<noteq> 0" "0x61" "0x60" freq bs q "[]"] by auto
  with c have x86: "\<exists>q' h. raw_uart_interrupt_handler (rx_fifo 0x3FD 0x61 0x60 0x3F8 freq bs) q [] = Some (q', h) \<and>
      queue_content q' = take 127 (queue_content q @ bs) \<and> written 0x20 h = [0x20]"
    by (simp add: raw_uart_interrupt_handler_def dev_write_def)
  obtain h2 where "drain_rx (rx_fifo 0x3F201018 0 0x10 0x3F201000 freq bs) 0x3F201018 (\<lambda>v. (ucast v :: u32) AND push_bit 4 1 = 0) 0x3F201000 q []
      = Some (fold enqueue_byte bs q, h2)" "\<forall>r. written r h2 = []"
    using drain_rx_fifo [of "0x3F201018" "0x3F201000" "\<lambda>v. (ucast v :: u32) AND push_bit 4 1 = 0" 0 "0x10" freq bs q "[]"] by auto
  with c have a64: "\<exists>q' h. handle_irq (rx_fifo 0x3F201018 0 0x10 0x3F201000 freq bs) q [] = Some (q', h) \<and>
      queue_content q' = take 127 (queue_content q @ bs) \<and> written 0x3F201044 h = [0x7FF] \<and> written CNTP_TVAL_EL0 h = [word_of_nat (unat freq div 100)]"
    by (simp add: handle_irq_def reset_timer_def dev_read_def dev_write_def rx_fifo_def CNTFRQ_EL0_def CNTP_TVAL_EL0_def TIMER_HZ_def)
  show ?thesis by (rule conjI [OF x86 a64])
qed

theorem uart_interrupt_delivers_witness:
  "\<exists>q h. raw_uart_interrupt_handler (rx_fifo 0x3FD 0x61 0x60 0x3F8 0 (ascii ''ls'')) empty_queue [] = Some (q, h) \<and>
     queue_content q = ascii ''ls'' \<and> written 0x20 h = [0x20]"
  using uart_interrupt_delivers [OF queue_valid_empty, of 0 "ascii ''ls''"] by (auto simp: ascii_def)

section \<open>Context switches\<close>

text \<open>A sequence of scheduling traps; each interrupts the running task with its registers \<open>c\<close> and stores them at \<open>sp\<close>.
  The first component of the state is what the last trap loaded into the registers.\<close>

fun traps :: "(usize \<times> TaskContext) list \<Rightarrow> TaskContext option \<times> kernel \<Rightarrow> TaskContext option \<times> kernel" where
  "traps [] x = x"
| "traps ((sp, c) # ts) x = traps ts (schedule_trap sp c (snd x))"

definition runs :: "kernel \<Rightarrow> bool" where
  "runs k \<longleftrightarrow> sched_ok k \<and> task_initialized k \<and> task_state (tasks k ! current_task k) = Running"

lemma schedule_trap_running:
  assumes "runs k" "sp \<noteq> 0" "schedule_trap sp c k = (r, k')"
  shows "runs k'" "frames k' = (frames k)(sp \<mapsto> c)" "r = frames k' (saved_sp (tasks k' ! current_task k'))"
    "i < MAX_TASKS \<Longrightarrow> saved_sp (tasks k' ! i) = (if i = current_task k then sp else saved_sp (tasks k ! i))"
proof -
  let ?k = "k\<lparr>frames := (frames k)(sp \<mapsto> c)\<rparr>"
  have ok: "sched_ok ?k" "task_initialized ?k" "task_state (tasks ?k ! current_task ?k) = Running"
    using assms(1) sched_ok_cong [of ?k k] by (simp_all add: runs_def)
  obtain sp' k2 where run: "run_schedule sp ?k = (sp', k2)" by fastforce
  then have k': "k' = k2" "r = frames k2 sp'" using assms(3) by (auto simp: schedule_trap_def)
  note sr = schedule_running [OF ok(1,2) assms(2) ok(3) run]
  have ok2: "sched_ok k2" using sched_ok_schedule [OF ok(1,2) assms(2)] run by simp
  have "task_initialized k2"
  proof (rule ccontr)
    assume "\<not> task_initialized k2"
    from sched_okD(6) [OF ok2 this sched_okD(2) [OF ok2]] sr show False by simp
  qed
  with ok2 show "runs k'" "frames k' = (frames k)(sp \<mapsto> c)" "r = frames k' (saved_sp (tasks k' ! current_task k'))"
    "i < MAX_TASKS \<Longrightarrow> saved_sp (tasks k' ! i) = (if i = current_task k then sp else saved_sp (tasks k ! i))"
    using sr k' by (simp_all add: runs_def)
qed

lemma traps_keep_frame:
  assumes "runs k" "frames k sp = Some c" "i < MAX_TASKS" "current_task k \<noteq> i" "saved_sp (tasks k ! i) = sp"
    and "\<forall>(q, d) \<in> set ts. q \<noteq> 0 \<and> q \<noteq> sp" "ts \<noteq> []"
    and "\<forall>n < length ts. current_task (snd (traps (take n ts) (r, k))) \<noteq> i"
    and "current_task (snd (traps ts (r, k))) = i"
  shows "fst (traps ts (r, k)) = Some c"
  using assms
proof (induction ts arbitrary: r k)
  case (Cons t ts)
  obtain q d where t: "t = (q, d)" by fastforce
  obtain r1 k1 where s: "schedule_trap q d k = (r1, k1)" by fastforce
  have q: "q \<noteq> 0" "q \<noteq> sp" using Cons.prems(6) t by auto
  note st = schedule_trap_running [OF Cons.prems(1) q(1) s]
  have fr: "frames k1 sp = Some c" using st(2) Cons.prems(2) q(2) by simp
  have sv: "saved_sp (tasks k1 ! i) = sp" using st(4) [OF Cons.prems(3)] Cons.prems(4,5) by simp
  show ?case
  proof (cases "ts = []")
    case True
    with Cons.prems(9) st(3) fr sv show ?thesis by (simp add: t s)
  next
    case False
    have later: "\<forall>n < length ts. current_task (snd (traps (take n ts) (r1, k1))) \<noteq> i"
    proof (intro allI impI)
      fix n assume "n < length ts"
      then show "current_task (snd (traps (take n ts) (r1, k1))) \<noteq> i"
        using Cons.prems(8) [rule_format, of "Suc n"] by (simp add: t s)
    qed
    then have "current_task k1 \<noteq> i" using False by (auto dest: spec [of _ 0])
    from Cons.IH [OF st(1) fr Cons.prems(3) this sv _ False later] Cons.prems(6,9) show ?thesis by (simp add: t s)
  qed
qed simp


lemma schedule_trap_switch:
  assumes "runs k" "sp \<noteq> 0" "schedule_trap sp c k = (r, k')" "n < MAX_TASKS"
    and "find (\<lambda>i. i = current_task k \<or> task_state (tasks k ! i) = Ready) (slot_order (current_task k)) = Some n"
  shows "current_task k' = n"
    "j < MAX_TASKS \<Longrightarrow> task_state (tasks k' ! j) = (if j = n then Running else if j = current_task k then Ready else task_state (tasks k ! j))"
proof -
  let ?k = "k\<lparr>frames := (frames k)(sp \<mapsto> c)\<rparr>"
  have c: "current_task k < length (tasks k)" "length (tasks k) = MAX_TASKS" "task_state (tasks k ! current_task k) = Running"
    "task_initialized k"
    using assms(1) sched_okD(1,2) by (auto simp: runs_def)
  have sv: "tasks (save_current sp ?k) ! j = (if j = current_task k then (tasks k ! j)\<lparr>saved_sp := sp, task_state := Ready\<rparr> else tasks k ! j)" for j
    using save_current_task [of ?k sp j] c assms(2) by simp
  have "(\<lambda>i. task_state (tasks (save_current sp ?k) ! i) = Ready) = (\<lambda>i. i = current_task k \<or> task_state (tasks k ! i) = Ready)"
    by (auto simp: sv)
  then have nr: "next_ready (save_current sp ?k) = Some n" using assms(5) by (simp add: next_ready_def)
  obtain sp' k2 where sw: "switch_to (current_task k) n (save_current sp ?k) = (sp', k2)" by fastforce
  have "run_schedule sp ?k = (sp', k2)" using nr sw c(4) by (simp add: run_schedule_def)
  then have k': "k' = k2" using assms(3) by (simp add: schedule_trap_def)
  note res = switch_to_result [OF _ _ sw, simplified, unfolded c(2), OF assms(4)]
  show "current_task k' = n" using res(2) c(1,2) k' by simp
  show "j < MAX_TASKS \<Longrightarrow> task_state (tasks k' ! j) = (if j = n then Running else if j = current_task k then Ready else task_state (tasks k ! j))"
    using same_but_root_simps(1) [OF res(6) [of j]] c(1,2) k' sv [of j] by (auto split: if_splits)
qed

definition demo_regs :: "usize \<Rightarrow> x86_context" where
  "demo_regs pc = \<lparr>r15 = 15, r14 = 14, r13 = 13, r12 = 12, r11 = 11, r10 = 10, r9 = 9, r8 = 8, rbp = 7, rdi = 6, rsi = 5, rdx = 4,
     rcx = 3, rbx = 2, rax = 1, rip = pc, cs = 8, rflags = 0x202, rsp = 0x7100, ss = 16\<rparr>"


end
