(* ===== verification/Boot.thy ===== *)
theory Boot
  imports BootInfo Graphics Shell Interrupts
begin

text \<open>
  The boot sequence of \<^verbatim>\<open>main.rs\<close> where it connects the components: the choice of the ramdisk, the mapping of the
  framebuffer and the boot screen, the background workers and the shell, and the kernel heap between the removal of the
  boot loader's identity map and the page-fault handler. Log lines on the serial port are left out.
\<close>

section \<open>Steps of the boot sequence\<close>

abbreviation HEAP_START :: usize where "HEAP_START \<equiv> 0x150000"
abbreviation HEAP_SIZE :: usize where "HEAP_SIZE \<equiv> 0xA0000"

text \<open>\<open>raw_tar\<close> is the archive the build embeds into the kernel.\<close>

definition boot_ramdisk :: "bytes \<Rightarrow> (usize \<times> usize) option \<Rightarrow> machine \<Rightarrow> bytes option" where
  "boot_ramdisk raw_tar module s =
     (case target s of
        AArch64 \<Rightarrow> tar_new raw_tar
      | X86_64 \<Rightarrow> (case module of Some (addr, sz) \<Rightarrow> tar_new (read_bytes s addr (unat sz)) | None \<Rightarrow> tar_new raw_tar))"

text \<open>The framebuffer of the boot loader, or a fixed one; an unmapped one is identity-mapped page by page until a page
  fails.\<close>

fun map_fb_pages :: "usize \<Rightarrow> usize \<Rightarrow> nat list \<Rightarrow> machine \<Rightarrow> machine" where
  "map_fb_pages root addr [] s = s"
| "map_fb_pages root addr (i # pages) s =
     (let page_addr = addr + word_of_nat i * 0x1000
      in case memory_map_page root page_addr page_addr s of
           (Ok _, s) \<Rightarrow> map_fb_pages root addr pages s
         | (_, s) \<Rightarrow> s)"

definition setup_framebuffer :: "(usize \<times> usize \<times> usize \<times> usize \<times> bool) option \<Rightarrow> machine \<Rightarrow> Framebuffer \<times> machine" where
  "setup_framebuffer reported_fb s =
     (case (case reported_fb of Some fb \<Rightarrow> fb | None \<Rightarrow> (0xFD000000, 1024, 768, 4096, True)) of
        (addr, width, height, pitch, needs_mapping) \<Rightarrow>
          let s = (if needs_mapping
                   then map_fb_pages (cr3 s AND NOT 0xFFF) addr [0..<unat ((pitch * height + 0xFFF) div 0x1000)] s else s)
          in (\<lparr>fb_address = addr, fb_width = width, fb_height = height, fb_pitch = pitch\<rparr>, s))"

fun print_lines :: "bytes list \<Rightarrow> Terminal option \<times> machine \<Rightarrow> (unit, unit) outcome \<times> Terminal option \<times> machine" where
  "print_lines [] ws = (Ok (), ws)"
| "print_lines (l # ls) ws = try_then (print_bytes l ws) (\<lambda>_ ws. print_lines ls ws)"

definition boot_lines :: "Framebuffer \<Rightarrow> bytes list" where
  "boot_lines fb =
     [ascii ''mitosOS Booting...'' @ [10],
      ascii (''Framebuffer resolution: '' @ show_nat (unat (fb_width fb)) @ ''x'' @ show_nat (unat (fb_height fb))) @ [10]] @
     map (\<lambda>i. ascii (''Loading module '' @ show_nat i @ ''...'') @ [10]) [0..<150]"

definition boot_screen :: "Framebuffer \<Rightarrow> bool \<Rightarrow> machine \<Rightarrow> (unit, unit) outcome \<times> Terminal option \<times> machine" where
  "boot_screen fb loaded s =
     (let s = fb_clear fb BLACK s;
          s = draw_boot_splash fb s
      in case try_then (draw_string fb 10 70 (ascii ''mitosOS System Init...'') YELLOW s) (\<lambda>_ s.
              try_then (draw_string fb 10 90 (ascii (if loaded then ''Ramdisk: loaded'' else ''Ramdisk: missing'')) (if loaded then GREEN else RED) s) (\<lambda>_ s.
                draw_string fb 10 110 (ascii ''Booting modules...'') MAGENTA s)) of
           (Ok _, s) \<Rightarrow> print_lines (boot_lines fb) (Some (terminal_new fb), s)
         | (r, s) \<Rightarrow> (r, None, s))"

text \<open>The end of \<open>kmain_common\<close>: two background threads, then the shell for ever.\<close>

definition boot_shell :: "usize \<Rightarrow> usize \<Rightarrow> history \<Rightarrow> 'd mounts \<Rightarrow> kernel \<Rightarrow> 'd shell" where
  "boot_shell background_worker background_worker_2 h ms k =
     (let k = snd (spawn background_worker SharedThread 0 k);
          k = snd (spawn background_worker_2 SharedThread 0 k)
      in shell_start k h ms)"

section \<open>The boot screen\<close>

lemma only_fb_fill_region:
  assumes "fb_ok fb" "x1 \<le> fb_width fb" "y1 \<le> fb_height fb"
  shows "only_fb fb s (fill_region fb x0 x1 y0 y1 color s)"
proof -
  have store: "only_fb fb s (write_u32 (pixel_addr fb (word_of_nat col) (word_of_nat row)) (to_u32 color) s)"
    if "col < unat (fb_width fb)" "row < unat (fb_height fb)" for col row s
  proof -
    have "unat (word_of_nat col :: usize) = col" "unat (word_of_nat row :: usize) = row"
      using that unsigned_less [of "fb_width fb", where ?'a = nat] unsigned_less [of "fb_height fb", where ?'a = nat]
      by (simp_all add: unat_of_nat take_bit_nat_eq_self)
    then have "write_u32 (pixel_addr fb (word_of_nat col) (word_of_nat row)) (to_u32 color) s = draw_pixel fb (word_of_nat col) (word_of_nat row) color s"
      using that by (simp add: draw_pixel_def word_le_nat_alt)
    then show ?thesis using only_fb_draw_pixel [OF assms(1)] by simp
  qed
  have cols: "only_fb fb s (fold (\<lambda>col. write_u32 (pixel_addr fb (word_of_nat col) (word_of_nat row)) (to_u32 color)) bytes0 s)"
    if "\<forall>c \<in> set bytes0. c < unat (fb_width fb)" "row < unat (fb_height fb)" for bytes0 row s
    using that(1)
  proof (induction bytes0 arbitrary: s)
    case (Cons c bytes0)
    then show ?case by (auto intro: only_fb_trans [OF store [OF _ that(2)]])
  qed simp
  have c: "\<forall>c \<in> set [unat x0..<unat x1]. c < unat (fb_width fb)" using assms(2) by (auto simp: word_le_nat_alt)
  have "only_fb fb s (fold (\<lambda>row. fold (\<lambda>col. write_u32 (pixel_addr fb (word_of_nat col) (word_of_nat row)) (to_u32 color)) [unat x0..<unat x1]) rows s)"
    if "\<forall>r \<in> set rows. r < unat (fb_height fb)" for rows
    using that
  proof (induction rows arbitrary: s)
    case (Cons r rows)
    then show ?case by (auto intro: only_fb_trans [OF cols [OF c]])
  qed simp
  from this [of "[unat y0..<unat y1]"] show ?thesis using assms(3) by (auto simp: fill_region_def word_le_nat_alt)
qed

lemma draw_char_confined:
  assumes "fb_ok fb" "b < 128"
  obtains s' where "draw_char fb x y b color s = (Ok (), s')" "only_fb fb s s'"
proof -
  have "fst (draw_char fb x y b color s) = Ok ()" using assms(2) by (simp add: draw_char_def not_le)
  then have "draw_char fb x y b color s = (Ok (), snd (draw_char fb x y b color s))" by (simp add: prod_eq_iff)
  then show thesis using only_fb_draw_char [OF assms(1)] by (intro that) blast+
qed

lemma draw_text_confined:
  assumes "fb_ok fb" "\<forall>b \<in> set bytes0. b < 128"
  shows "\<exists>s'. draw_text fb x0 x y bytes0 color s = (Ok (), s') \<and> only_fb fb s s'"
  using assms(2)
proof (induction bytes0 arbitrary: x y s)
  case (Cons b bs)
  obtain s1 where one: "draw_char fb x y b color s = (Ok (), s1)" "only_fb fb s s1"
    using Cons.prems by (auto intro: draw_char_confined [OF assms(1)])
  have bs: "\<forall>b \<in> set bs. b < 128" using Cons.prems by simp
  obtain s2 where "draw_text fb x0 (x + 8) y bs color s1 = (Ok (), s2)" "only_fb fb s1 s2" using Cons.IH [OF bs] by blast
  with one have "\<exists>s'. try_then (draw_char fb x y b color s) (\<lambda>_ s. draw_text fb x0 (x + 8) y bs color s) = (Ok (), s') \<and> only_fb fb s s'"
    using only_fb_trans [OF one(2)] by simp
  then show ?case using Cons.IH [OF bs] by simp
qed simp

lemma new_line_confined:
  assumes "fb_ok (term_fb t)"
  obtains t' s' where "new_line (t, s) = (t', s')" "only_fb (term_fb t) s s'" "term_fb t' = term_fb t"
proof -
  obtain t' s' where n: "new_line (t, s) = (t', s')" by (cases "new_line (t, s)")
  then have "only_fb (term_fb t) s s' \<and> term_fb t' = term_fb t"
    using only_fb_scroll [OF assms, of s] by (auto simp: new_line_def Let_def split: if_splits)
  with n show thesis by (intro that) blast+
qed

lemma write_byte_confined:
  assumes "fb_ok (term_fb t)" "b < 128"
  obtains t' s' where "term_write_byte b (t, s) = (Ok (), t', s')" "only_fb (term_fb t) s s'" "term_fb t' = term_fb t"
proof -
  obtain t1 s1 where nl: "new_line (t, s) = (t1, s1)" "only_fb (term_fb t) s s1" "term_fb t1 = term_fb t"
    by (rule new_line_confined [OF assms(1)])
  define ts where "ts = (if fb_width (term_fb t) \<le> cursor_x t then new_line (t, s) else (t, s))"
  obtain t0 s0 where w: "ts = (t0, s0)" by (cases ts)
  then have w': "only_fb (term_fb t) s s0" "term_fb t0 = term_fb t" using nl by (simp_all add: ts_def split: if_splits)
  obtain s2 where d: "draw_char (term_fb t) (cursor_x t0) (cursor_y t0) b (text_color t0) s0 = (Ok (), s2)" "only_fb (term_fb t) s0 s2"
    by (rule draw_char_confined [OF assms])
  consider "b = 10" | "b = 13" | "b \<noteq> 10" "b \<noteq> 13" by blast
  then show thesis
  proof cases
    case 1
    then show ?thesis using nl by (intro that [of t1 s1]) (simp_all add: term_write_byte_def)
  next
    case 2
    then show ?thesis by (intro that [of "t\<lparr>cursor_x := 0\<rparr>" s]) (simp_all add: term_write_byte_def)
  next
    case 3
    then have "term_write_byte b (t, s) = (Ok (), t0\<lparr>cursor_x := cursor_x t0 + 8\<rparr>, s2)"
      using d(1) w w'(2) by (simp add: term_write_byte_def flip: ts_def)
    then show ?thesis using w'(2) only_fb_trans [OF w'(1) d(2)] by (intro that [of "t0\<lparr>cursor_x := cursor_x t0 + 8\<rparr>" s2]) simp_all
  qed
qed

lemma term_write_confined:
  assumes "fb_ok (term_fb t)" "\<forall>b \<in> set bs. b < 128"
  shows "\<exists>t' s'. term_write_str bs (t, s) = (Ok (), t', s') \<and> only_fb (term_fb t) s s' \<and> term_fb t' = term_fb t"
  using assms
proof (induction bs arbitrary: t s)
  case (Cons b bs)
  obtain t1 s1 where one: "term_write_byte b (t, s) = (Ok (), t1, s1)" "only_fb (term_fb t) s s1" "term_fb t1 = term_fb t"
    by (rule write_byte_confined [OF Cons.prems(1), of b s]) (use Cons.prems(2) in simp)
  have "fb_ok (term_fb t1)" "\<forall>b \<in> set bs. b < 128" using Cons.prems one(3) by simp_all
  from Cons.IH [OF this, of s1] obtain t2 s2 where "term_write_str bs (t1, s1) = (Ok (), t2, s2)" "only_fb (term_fb t) s1 s2" "term_fb t2 = term_fb t"
    unfolding one(3) by blast
  then show ?case using one(1) only_fb_trans [OF one(2)] by simp
qed simp

lemma print_lines_confined:
  assumes "fb_ok (term_fb t)" "\<forall>l \<in> set ls. \<forall>b \<in> set l. b < 128"
  shows "\<exists>t' s'. print_lines ls (Some t, s) = (Ok (), Some t', s') \<and> only_fb (term_fb t) s s' \<and> term_fb t' = term_fb t"
  using assms
proof (induction ls arbitrary: t s)
  case (Cons l ls)
  have l: "\<forall>b \<in> set l. b < 128" and ls: "\<forall>l \<in> set ls. \<forall>b \<in> set l. b < 128" using Cons.prems(2) by simp_all
  obtain t1 s1 where one: "term_write_str l (t, s) = (Ok (), t1, s1)" "only_fb (term_fb t) s s1" "term_fb t1 = term_fb t"
    using term_write_confined [OF Cons.prems(1) l, of s] by blast
  have "fb_ok (term_fb t1)" using Cons.prems one(3) by simp
  from Cons.IH [OF this ls, of s1] obtain t2 s2 where "print_lines ls (Some t1, s1) = (Ok (), Some t2, s2)" "only_fb (term_fb t) s1 s2" "term_fb t2 = term_fb t"
    unfolding one(3) by blast
  then show ?case using one(1) only_fb_trans [OF one(2)] by (simp add: print_bytes_def)
qed simp

lemma show_nat_ascii: "\<forall>b \<in> set (ascii (show_nat n)). b < 128"
proof (induction n rule: show_nat.induct)
  case (1 n)
  have d: "(of_char (char_of (48 + k :: nat)) :: u8) < 128" if "k < 10" for k
  proof -
    have "k \<in> set [0..<10]" using that by simp
    moreover have "list_all (\<lambda>k. (of_char (char_of (48 + k :: nat)) :: u8) < 128) [0..<10]" by code_simp
    ultimately show ?thesis by (simp only: list_all_iff)
  qed
  show ?case using 1 d [of n] d [of "n mod 10"] by (subst show_nat.simps) (auto simp: ascii_def)
qed

lemma show_nat_byte: "c \<in> set (show_nat n) \<Longrightarrow> (of_char c :: u8) < 128"
  using show_nat_ascii [of n] by (simp add: ascii_def)

lemma boot_lines_ascii: "\<forall>l \<in> set (boot_lines fb). \<forall>b \<in> set l. b < 128"
proof
  fix l assume "l \<in> set (boot_lines fb)"
  then consider "l = ascii ''mitosOS Booting...'' @ [10]"
    | m n where "l = ascii (''Framebuffer resolution: '' @ show_nat m @ ''x'' @ show_nat n) @ [10]"
    | i where "l = ascii (''Loading module '' @ show_nat i @ ''...'') @ [10]"
    unfolding boot_lines_def by (auto simp del: upt_rec_numeral)
  then show "\<forall>b \<in> set l. b < 128"
    by cases (simp_all add: ascii_def ball_Un show_nat_byte)
qed

lemma draw_string_confined:
  assumes "fb_ok fb" "\<forall>b \<in> set bs. b < 128"
  obtains s' where "draw_string fb x y bs color s = (Ok (), s')" "only_fb fb s s'"
  using draw_text_confined [OF assms, of x x y color s] unfolding draw_string_def by blast

lemma boot_screen_confined:
  assumes "fb_ok fb"
  shows "\<exists>t s'. boot_screen fb loaded s = (Ok (), Some t, s') \<and> only_fb fb s s' \<and> term_fb t = fb"
proof -
  define s1 where "s1 = draw_boot_splash fb (fb_clear fb BLACK s)"
  have o1: "only_fb fb s s1"
    unfolding s1_def draw_boot_splash_def draw_rect_def fb_clear_def
    by (intro only_fb_trans [OF only_fb_fill_region only_fb_trans [OF only_fb_fill_region only_fb_fill_region]]) (simp_all add: assms)
  let ?ramdisk = "ascii (if loaded then ''Ramdisk: loaded'' else ''Ramdisk: missing'')"
  have a: "\<forall>b \<in> set (ascii ''mitosOS System Init...''). b < 128" "\<forall>b \<in> set ?ramdisk. b < 128" "\<forall>b \<in> set (ascii ''Booting modules...''). b < 128"
    by (simp_all add: ascii_def)
  obtain s2 where s2: "draw_string fb 10 70 (ascii ''mitosOS System Init...'') YELLOW s1 = (Ok (), s2)" "only_fb fb s1 s2"
    by (rule draw_string_confined [OF assms a(1)])
  obtain s3 where s3: "draw_string fb 10 90 ?ramdisk (if loaded then GREEN else RED) s2 = (Ok (), s3)" "only_fb fb s2 s3"
    by (rule draw_string_confined [OF assms a(2)])
  obtain s4 where s4: "draw_string fb 10 110 (ascii ''Booting modules...'') MAGENTA s3 = (Ok (), s4)" "only_fb fb s3 s4"
    by (rule draw_string_confined [OF assms a(3)])
  have t: "term_fb (terminal_new fb) = fb" by (simp add: terminal_new_def)
  obtain t' s5 where s5: "print_lines (boot_lines fb) (Some (terminal_new fb), s4) = (Ok (), Some t', s5)" "only_fb fb s4 s5" "term_fb t' = fb"
    using print_lines_confined [OF _ boot_lines_ascii, of "terminal_new fb"] assms unfolding t by blast
  have "boot_screen fb loaded s = (Ok (), Some t', s5)"
    unfolding boot_screen_def Let_def s1_def [symmetric] by (simp only: s2(1) s3(1) s4(1) s5(1) try_then_def prod.case outcome.case)
  then show ?thesis
    using only_fb_trans [OF only_fb_trans [OF only_fb_trans [OF only_fb_trans [OF o1 s2(2)] s3(2)] s4(2)] s5(2)] s5(3) by blast
qed

section \<open>The kernel heap\<close>

lemma low_half_top: "w < HEAP_START + HEAP_SIZE \<Longrightarrow> top_index w = 0"
proof -
  assume "w < HEAP_START + HEAP_SIZE"
  then have "unat w < 2 ^ 39" by (simp add: word_less_nat_alt)
  then have "drop_bit 39 w = 0" by (simp add: drop_bit_eq_div word_arith_nat_div)
  then show ?thesis by (simp add: top_index_def)
qed

text \<open>Without its entry 0 the active root has no table for the low half.\<close>

lemma unmapped_low_half:
  assumes "target s = X86_64" "pool_ok s" "cr3 s AND 0x000FFFFFFFFFF000 = cr3 s" "frame_of (cr3 s) \<notin> free_frames (pmm s)"
  defines "s1 \<equiv> unmap_low_half_identity_map s"
  shows "owned_tree (ops s1) {0} 3 s1 (cr3 s)" "top_index w = 0 \<Longrightarrow> arch_translate_addr s1 (cr3 s) w = None"
    "pmm s1 = pmm s" "target s1 = X86_64" "active_root s1 w = cr3 s"
proof -
  have n: "cr3 s AND NOT 0xFFF = cr3 s"
  proof -
    have "(cr3 s AND 0x000FFFFFFFFFF000) AND NOT 0xFFF = cr3 s AND 0x000FFFFFFFFFF000" by (simp add: and.assoc)
    then show ?thesis unfolding assms(3) .
  qed
  have "(cr3 s AND 0x000FFFFFFFFFF000) AND 0xFFF = 0" by (simp add: and.assoc)
  then have al: "page_aligned (cr3 s)" unfolding assms(3) page_aligned_def .
  have e: "s1 = set_entry (cr3 s) 0 0 s"
    using pointer_access(2) [of s s "cr3 s" 0 0] unfolding s1_def unmap_low_half_identity_map_def n by simp
  have z: "entry s1 (cr3 s) 0 = 0" unfolding e using entry_set_entry [OF al al, of 0 0 0 s] by simp
  show ow: "owned_tree (ops s1) {0} 3 s1 (cr3 s)"
    by (rule owned_tree_empty [OF al]) (use assms(2,4) z in \<open>simp_all add: e pool_ok_def arch.absent_zero\<close>)
  show "arch_translate_addr s1 (cr3 s) w = None" if "top_index w = 0"
    using that z by (simp add: arch_walk walk_translate_def top_index_def arch.absent_zero)
  show "pmm s1 = pmm s" "target s1 = X86_64" using assms(1) by (simp_all add: e)
  show "active_root s1 w = cr3 s" using assms(1,3) by (simp add: active_root_def e)
qed



end
