(* ===== verification/Spec2Isabelle.thy ===== *)
theory Spec2Isabelle
  imports Sync Heap Smp Addr AhciDisk Mmu Boot
begin

text \<open>
  A verification library for the mitosOS kernel (\<^verbatim>\<open>src/src/\<close>), a small Rust kernel for x86_64 and AArch64.

  \<^bold>\<open>The program and its theories.\<close> Every theory models one part of the kernel and states its theorems; definitions keep the
  names of the Rust items.

  \<^item> Memory. \<open>Pmm\<close> is the bitmap frame allocator of \<^verbatim>\<open>memory.rs\<close>. \<open>PhysMem\<close> is the state the rest shares: the record
    \<open>machine\<close> with byte-addressed RAM, the frame pool, the offset of the direct map and the root registers. \<open>PageTable\<close> has the entry
    formats of both architectures and walks over them, \<open>Vmm\<close> the code of \<^verbatim>\<open>vmm.rs\<close> (map, unmap, translate, demand paging,
    user-range validation, creation and teardown of address spaces) proved to be those walks, \<open>UserMem\<close> the view of user memory
    through a root, \<open>Heap\<close> the kernel heap, \<open>Mmu\<close> the AArch64 start of \<^verbatim>\<open>mmu.rs\<close>, \<open>Addr\<close> the address types of
    \<^verbatim>\<open>addr.rs\<close>, \<open>MemFields\<close> 32-bit fields and disjoint regions of memory.
  \<^item> Processes. \<open>Elf\<close> is the loader, \<open>Task\<close> the task table and scheduler of \<^verbatim>\<open>task.rs\<close> with the record \<open>kernel\<close>, \<open>Process\<close>
    the start and end of a process, \<open>Fd\<close> descriptors, \<open>Syscall\<close> the system calls.
  \<^item> Interrupts. \<open>InputQueue\<close> is the ring between the serial interrupt and its readers, \<open>Interrupts\<close> the descriptor table, the fault
    dispatch, the stubs and the timers, \<open>Gdt\<close> segment descriptors, \<open>Sync\<close> the locks as step relations over processors.
  \<^item> Platform. \<open>Acpi\<close> and \<open>Madt\<close> read the firmware tables, \<open>Apic\<close> is the local and the I/O interrupt controller, \<open>Smp\<close> the
    start of the other processors, \<open>BootInfo\<close> what Limine and Multiboot2 loaders leave in memory.
  \<^item> Devices. \<open>Device\<close> is the interface to hardware: an arbitrary function from the history of register accesses to the value the next
    read returns. \<open>Uart\<close>, \<open>Ata\<close>, \<open>Pci\<close> and \<open>Ahci\<close> are the drivers over it; \<open>AhciDisk\<close> adds what a conforming controller does to
    memory; \<open>Graphics\<close> is the framebuffer console.
  \<^item> Files. \<open>Block\<close> has the block devices, \<open>Mbr\<close>, \<open>Fat32\<close> and \<open>Tar\<close> the formats, \<open>Vfs\<close> the mount table, \<open>Storage\<close> the disk
    probe at boot, \<open>Text\<close> the string functions they use.
  \<^item> \<open>Shell\<close> is the line editor and the commands of \<^verbatim>\<open>shell.rs\<close>, \<open>Boot\<close> the sequence of \<^verbatim>\<open>main.rs\<close>. \<open>Prelude\<close> holds the
    machine types, little-endian encodings and generic lemmas.

  \<^bold>\<open>Modelling.\<close> A Rust function is a HOL function on explicit state. \<open>Ok\<close>, \<open>Err\<close> and \<open>Panic\<close> of the type \<open>outcome\<close> are its returns; a
  loop that may not end is a \<open>partial_function\<close> into \<open>option\<close>, with \<open>None\<close> for not returning. Machine integers are words and wrap as in the
  release build. Assembly stubs are their effect on the saved registers. The locks are modelled on their own; the other theories run
  the critical sections in one piece. TLB maintenance has no effect on the modelled state. There is no fuel: bounded polls carry the
  bounds of the source.

  \<^bold>\<open>Interfaces.\<close> \<open>frame_pool\<close> (frame allocation), \<open>pte_format\<close> (page-table entries), \<open>bounded_queue\<close> (the input ring), \<open>block_device\<close> (what
  file systems need of a device) and \<open>hal_contract\<close> (what the AHCI driver needs of the kernel) are locales; each is interpreted on the
  code's own definitions, and the clients' theorems use the facts of these interpretations.

  \<^bold>\<open>What is shown.\<close>
  \<^item> Mapping a page refines the update of one page of an abstract address space and touches nothing else; unmapping undoes it; user-range
    validation is exact; teardown releases exactly the tree; demand paging maps a zeroed page; allocation returns the least free frame.
  \<^item> A loaded image has the bytes of the file followed by zeros, the loader returns on every input, a spawned process starts at
    its entry point on a zeroed stack, its memory is reclaimed after exit, exactly one task runs and a ready task runs within four ticks; a
    preempted task resumes with its registers unchanged; faults of user programs stop only their task.
  \<^item> Reads deliver the queued input in order, under every interleaving of interrupt and reader; a lock has at most one holder.
  \<^item> Boot reads the firmware's processor list, starts every processor, and reads a file from a partitioned disk; an AHCI read puts
    exactly the sectors into the buffer; archives and boot tags survive encoding and parsing; the terminal shows a grid of characters; the
    AArch64 identity map is complete and exact.
  \<^item> At the prompt, the screen shows the line that will be executed, and \<open>run\<close> starts the program in the ramdisk as a process.
  \<^item> Some theorems state what the code does where that is not what it means to do: teardown of an x86_64 process frees kernel tables, a
    reused heap block overlaps its neighbour, the heap moves to other frames at boot, a Multiboot2 boot has no memory, a segment at the
    end of the address space maps nothing, a blocked receiver loses its stack pointer, ring 3 cannot make system calls, and DMA
    buffers clear frames they do not own.

  \<^bold>\<open>Bounds.\<close> The theorems on archives and files assume sizes below \<open>2^63\<close>, those on framebuffers sizes below \<open>2^62\<close>, far above the 256 MiB
  the frame pool tracks. Side conditions such as enough free frames are hypotheses and each has a concrete instance.

  \<^bold>\<open>Not modelled.\<close> The user library and test program (they use an instruction the kernel does not serve), the entry assembly and the
  processor trampoline (they run before the kernel's state exists; their result is an argument), build and link scripts, the text of log
  and fault report lines except the shell's output, and formatting implementations. The Unicode case tables, the archive embedded by the
  build, the boot loader's memory and the devices are arguments. In the shell, which heap requests succeed is an argument, because the
  allocations inside Rust's collections are not part of the source.
\<close>

end
